(* ===== verification/Prelude.thy ===== *)
theory Prelude
  imports Main "HOL-Library.Word"
begin

text \<open>
  Shared vocabulary of the development.

  A C function that can panic (an \<open>assert\<close>, an explicit \<open>panic\<close>) or loop for ever is
  modelled by a value of type \<open>'a run\<close>: \<open>ret a\<close> is a normal return, \<open>panic m\<close> is the
  call of \<open>__panic\<close> with message \<open>m\<close> (kern/debug/panic.c never returns from it), and \<open>None\<close>
  is a run that never ends. \<open>run_bind\<close> is the C sequencing: a panic or a divergence of the
  first part is the outcome of the whole. Loops are defined by \<open>partial_function (option)\<close>;
  \<open>run_bind_mono\<close> lets them recurse under \<open>run_bind\<close>.

  Fixed-width integers are words: \<open>u8\<close> for \<open>char\<close> (unsigned on RISC-V), \<open>u32\<close> for
  \<open>int\<close> and \<open>unsigned int\<close>, \<open>u64\<close> for \<open>size_t\<close>, \<open>uintptr_t\<close> and pointers.
\<close>

subsection \<open>Types\<close>

type_synonym u8 = "8 word"
type_synonym u32 = "32 word"
type_synonym u64 = "64 word"

text \<open>Outcome of a C call: never returns, panics, or returns a value.\<close>

type_synonym 'a run = "(string + 'a) option"

named_theorems wf_intros \<comment> \<open>introduction rules for the components' invariants\<close>
named_theorems run_eval \<comment> \<open>unfold a call of the kernel on a concrete state\<close>
named_theorems link_simps \<comment> \<open>what each list.h operation does to the two link fields\<close>

subsection \<open>Sequencing of runs\<close>

definition ret :: "'a \<Rightarrow> 'a run" where
  "ret a = Some (Inr a)"

definition panic :: "string \<Rightarrow> 'a run" where
  "panic msg = Some (Inl msg)"

definition run_bind :: "'a run \<Rightarrow> ('a \<Rightarrow> 'b run) \<Rightarrow> 'b run" where
  "run_bind m f = Option.bind m (\<lambda>r. case r of Inl e \<Rightarrow> Some (Inl e) | Inr a \<Rightarrow> f a)"

text \<open>The macro \<open>assert\<close> of kern/debug/assert.h in front of the rest of the function.\<close>

definition c_assert :: "bool \<Rightarrow> string \<Rightarrow> 'b run \<Rightarrow> 'b run" where
  "c_assert x msg rest = (if x then rest else panic (''assertion failed: '' @ msg))"

text \<open>A loop that cannot panic but may not end, used inside a run.\<close>

definition loop_run :: "'a option \<Rightarrow> 'a run" where
  "loop_run m = map_option Inr m"

lemma run_bind_ret [simp]: "run_bind (ret a) f = f a"
  by (simp add: run_bind_def ret_def)

lemma run_bind_panic [simp]: "run_bind (panic e) f = panic e"
  by (simp add: run_bind_def panic_def)

lemma run_bind_None [simp]: "run_bind None f = None"
  by (simp add: run_bind_def)

lemma loop_run_simps [simp]: "loop_run (Some a) = ret a" "loop_run None = None"
  by (simp_all add: loop_run_def ret_def)

lemma ret_inject [simp]: "ret a = ret b \<longleftrightarrow> a = b"
  by (simp add: ret_def)

lemma panic_inject [simp]: "panic a = panic b \<longleftrightarrow> a = b"
  by (simp add: panic_def)

lemma panic_neq_ret [simp]: "panic e \<noteq> ret a" "ret a \<noteq> panic e"
  by (simp_all add: ret_def panic_def)

lemma run_neq_None [simp]: "ret a \<noteq> None" "None \<noteq> ret a" "panic e \<noteq> None" "None \<noteq> panic e"
  by (simp_all add: ret_def panic_def)

lemma run_bind_eq_ret:
  "run_bind m f = ret b \<longleftrightarrow> (\<exists>a. m = ret a \<and> f a = ret b)"
  by (auto simp: run_bind_def ret_def split: option.splits sum.splits Option.bind_splits)

lemma c_assert_simps [simp]: "c_assert True msg r = r" "c_assert False msg r = panic (''assertion failed: '' @ msg)"
  by (simp_all add: c_assert_def)

lemma c_assert_eq_ret: "c_assert x msg r = ret b \<longleftrightarrow> x \<and> r = ret b"
  by (simp add: c_assert_def)

lemma loop_run_eq_ret: "loop_run m = ret a \<longleftrightarrow> m = Some a"
  by (simp add: loop_run_def ret_def)

lemma run_bind_assoc: "run_bind (run_bind m f) g = run_bind m (\<lambda>x. run_bind (f x) g)"
  by (auto simp: run_bind_def split: option.splits sum.splits Option.bind_splits)

lemma run_bind_mono [partial_function_mono]:
  assumes "mono_option B" and "\<And>y. mono_option (\<lambda>f. C y f)"
  shows "mono_option (\<lambda>f. run_bind (B f) (\<lambda>y. C y f))"
  unfolding run_bind_def
proof (rule bind_mono)
  show "mono_option B" by fact
  fix r
  show "mono_option (\<lambda>f. case r of Inl e \<Rightarrow> Some (Inl e) | Inr a \<Rightarrow> C a f)"
    using assms(2) by (cases r) (auto intro: option.const_mono)
qed

subsection \<open>Words of different widths\<close>

lemma unat_ucast_u32_u64 [simp]: "unat (ucast (w :: u32) :: u64) = unat w"
  by (simp add: unsigned_ucast_eq take_bit_nat_eq_self unsigned_less [THEN less_le_trans])

lemma unat_ucast_u64_u32: "unat (n :: u64) < 2 ^ 32 \<Longrightarrow> unat (ucast n :: u32) = unat n"
  by (simp add: unsigned_ucast_eq take_bit_nat_eq_self)

lemma unat_add_u32: "unat (a :: u32) + unat b < 2 ^ 32 \<Longrightarrow> unat (a + b) = unat a + unat b"
  by (simp add: unat_word_ariths)

lemma unat_add_u64: "unat (a :: u64) + unat b < 2 ^ 64 \<Longrightarrow> unat (a + b) = unat a + unat b"
  by (simp add: unat_word_ariths)

lemma unat_less_u32: "unat (w :: u32) < 2 ^ 32"
  using unsigned_less [of w] by simp

lemma unat_less_u64: "unat (w :: u64) < 2 ^ 64"
  using unsigned_less [of w] by simp

lemma unat_gt_0_u64: "0 < (n :: u64) \<longleftrightarrow> 0 < unat n"
  by (simp add: word_less_nat_alt)

lemma unat_of_nat_u64: "n < 2 ^ 64 \<Longrightarrow> unat (of_nat n :: u64) = n"
  by (simp add: unsigned_of_nat take_bit_nat_eq_self)

subsection \<open>Evaluating runs on concrete states\<close>

text \<open>
  A closed run is evaluated by \<open>simp add: run_eval cong: eval_congs\<close>: the congruence rules keep the
  continuation of a call untouched until the state it gets is known, and the arrays of the state are
  tables (\<open>tab\<close>), so that a store updates one entry instead of growing a function.
\<close>

definition tab :: "'a list \<Rightarrow> 'a \<Rightarrow> nat \<Rightarrow> 'a" where
  "tab xs d i = (if i < length xs then xs ! i else d)"

lemma tab_upd [simp]: "i < length xs \<Longrightarrow> (tab xs d)(i := v) = tab (xs[i := v]) d"
  by (auto simp: tab_def fun_eq_iff)

lemma tab_nth [simp]: "i < length xs \<Longrightarrow> tab xs d i = xs ! i" "length xs \<le> i \<Longrightarrow> tab xs d i = d"
  by (simp_all add: tab_def)

lemma run_bind_eval: "m = m' \<Longrightarrow> run_bind m f = run_bind m' f"
  by simp

lemma c_assert_eval: "x = y \<Longrightarrow> c_assert x msg r = c_assert y msg r"
  by simp

lemmas eval_congs = run_bind_eval c_assert_eval

end
