(* ===== verification/Bits.thy ===== *)
theory Bits
  imports Prelude
begin

unbundle bit_operations_syntax

text \<open>
  libs/atomic.h: the atomic bit operations on an array of \<open>unsigned long\<close>. The memory they
  address is the function \<open>nat \<Rightarrow> u64\<close> of the words from \<open>addr\<close> on; each AMO instruction is
  one read-modify-write of the word \<open>BIT_WORD(nr)\<close>. The word versions are the effect on that one
  word, which is what the page flags (a single word) use.
\<close>

definition BITS_PER_LONG :: nat where
  "BITS_PER_LONG = 64"

definition BIT_MASK :: "nat \<Rightarrow> u64" where
  "BIT_MASK nr = push_bit (nr mod BITS_PER_LONG) 1"

definition BIT_WORD :: "nat \<Rightarrow> nat" where
  "BIT_WORD nr = nr div BITS_PER_LONG"

definition or_bit :: "nat \<Rightarrow> u64 \<Rightarrow> u64" where
  "or_bit nr w = w OR BIT_MASK nr"

definition andnot_bit :: "nat \<Rightarrow> u64 \<Rightarrow> u64" where
  "andnot_bit nr w = w AND NOT (BIT_MASK nr)"

definition atomic_set_bit :: "nat \<Rightarrow> (nat \<Rightarrow> u64) \<Rightarrow> nat \<Rightarrow> u64" where
  "atomic_set_bit nr addr = addr(BIT_WORD nr := or_bit nr (addr (BIT_WORD nr)))"

definition atomic_clear_bit :: "nat \<Rightarrow> (nat \<Rightarrow> u64) \<Rightarrow> nat \<Rightarrow> u64" where
  "atomic_clear_bit nr addr = addr(BIT_WORD nr := andnot_bit nr (addr (BIT_WORD nr)))"

definition atomic_change_bit :: "nat \<Rightarrow> (nat \<Rightarrow> u64) \<Rightarrow> nat \<Rightarrow> u64" where
  "atomic_change_bit nr addr = addr(BIT_WORD nr := addr (BIT_WORD nr) XOR BIT_MASK nr)"

text \<open>\<open>test_bit\<close> reads the first word only; the C shift is the hardware one, by \<open>nr\<close> mod 64.\<close>

definition test_bit_word :: "nat \<Rightarrow> u64 \<Rightarrow> bool" where
  "test_bit_word nr w \<longleftrightarrow> drop_bit (nr mod BITS_PER_LONG) w AND 1 \<noteq> 0"

definition atomic_test_bit :: "nat \<Rightarrow> (nat \<Rightarrow> u64) \<Rightarrow> bool" where
  "atomic_test_bit nr addr = test_bit_word nr (addr 0)"

text \<open>The operations that also return the old bit.\<close>

definition test_and_op_bit ::
  "(u64 \<Rightarrow> u64 \<Rightarrow> u64) \<Rightarrow> (u64 \<Rightarrow> u64) \<Rightarrow> nat \<Rightarrow> (nat \<Rightarrow> u64) \<Rightarrow> bool \<times> (nat \<Rightarrow> u64)" where
  "test_and_op_bit op md nr addr =
     (let res = addr (BIT_WORD nr); mask = BIT_MASK nr
      in (res AND mask \<noteq> 0, addr(BIT_WORD nr := op res (md mask))))"

definition test_and_set_bit :: "nat \<Rightarrow> (nat \<Rightarrow> u64) \<Rightarrow> bool \<times> (nat \<Rightarrow> u64)" where
  "test_and_set_bit nr addr = test_and_op_bit (OR) (\<lambda>m. m) nr addr"

definition test_and_clear_bit :: "nat \<Rightarrow> (nat \<Rightarrow> u64) \<Rightarrow> bool \<times> (nat \<Rightarrow> u64)" where
  "test_and_clear_bit nr addr = test_and_op_bit (AND) NOT nr addr"

lemma and_one_neq_0: "(w AND 1 \<noteq> 0) = bit (w :: 'a::len word) 0"
proof -
  have "w AND 1 = of_bool (odd w)" by (simp add: and_one_eq mod_2_eq_odd)
  then show ?thesis by (simp add: bit_0)
qed

lemma test_bit_word_iff: "test_bit_word nr w \<longleftrightarrow> bit w (nr mod 64)"
  by (simp add: test_bit_word_def and_one_neq_0 bit_drop_bit_eq BITS_PER_LONG_def)

lemma bit_BIT_MASK: "bit (BIT_MASK nr) i \<longleftrightarrow> i = nr mod 64"
  by (auto simp: BIT_MASK_def BITS_PER_LONG_def bit_simps)

lemma and_BIT_MASK: "(w AND BIT_MASK nr \<noteq> 0) = bit w (nr mod 64)"
proof
  assume nz: "w AND BIT_MASK nr \<noteq> 0"
  show "bit w (nr mod 64)"
  proof (rule ccontr)
    assume "\<not> bit w (nr mod 64)"
    then have "w AND BIT_MASK nr = 0"
      by (intro bit_eqI) (auto simp: bit_and_iff bit_BIT_MASK)
    with nz show False ..
  qed
next
  assume "bit w (nr mod 64)"
  then have "bit (w AND BIT_MASK nr) (nr mod 64)" by (simp add: bit_and_iff bit_BIT_MASK)
  then show "w AND BIT_MASK nr \<noteq> 0" by auto
qed

lemma test_or_bit [simp]:
  "test_bit_word m (or_bit n w) \<longleftrightarrow> m mod 64 = n mod 64 \<or> test_bit_word m w"
  by (auto simp: test_bit_word_iff or_bit_def bit_or_iff bit_BIT_MASK)

lemma test_andnot_bit [simp]:
  "test_bit_word m (andnot_bit n w) \<longleftrightarrow> m mod 64 \<noteq> n mod 64 \<and> test_bit_word m w"
  by (auto simp: test_bit_word_iff andnot_bit_def bit_and_iff bit_not_iff bit_BIT_MASK)

lemma test_bit_zero [simp]: "\<not> test_bit_word n 0"
  by (simp add: test_bit_word_iff)

end
