(* ===== verification/Machine.thy ===== *)
theory Machine
  imports Bits
begin

unbundle bit_operations_syntax

text \<open>
  The processor state the kernel touches: the supervisor CSRs of libs/riscv.h that it reads or
  writes, and the byte memory that holds C strings and character arrays. Every later component
  extends this record with its own global variables, so a C function is a function on the part of
  the kernel state it can reach.

  kern/driver/intr.c and kern/sync/sync.h: masking of interrupts around critical sections.
\<close>

text \<open>A call of \<open>cprintf\<close> is recorded with its format and its arguments, a string literal or the
  address of a string, or a number. The characters it puts out are those of \<open>vprintfmt\<close>.\<close>

datatype carg = CNum u64 | CStr string

record machine =
  sstatus :: u64
  sie :: u64
  satp :: u64
  stvec :: u64
  sscratch :: u64
  bytes :: "u64 \<Rightarrow> u8"
  console :: "(string \<times> carg list) list"

definition SSTATUS_SIE :: u64 where "SSTATUS_SIE = 0x2"
definition SSTATUS_SPIE :: u64 where "SSTATUS_SPIE = 0x20"
definition SSTATUS_SPP :: u64 where "SSTATUS_SPP = 0x100"
definition SSTATUS_SUM :: u64 where "SSTATUS_SUM = 0x40000"

definition say :: "string \<Rightarrow> carg list \<Rightarrow> 'z machine_scheme \<Rightarrow> 'z machine_scheme" where
  "say fmt args s = s\<lparr>console := console s @ [(fmt, args)]\<rparr>"

subsection \<open>intr.c and sync.h\<close>

definition intr_enable :: "'z machine_scheme \<Rightarrow> 'z machine_scheme" where
  "intr_enable s = s\<lparr>sstatus := sstatus s OR SSTATUS_SIE\<rparr>"

definition intr_disable :: "'z machine_scheme \<Rightarrow> 'z machine_scheme" where
  "intr_disable s = s\<lparr>sstatus := sstatus s AND NOT SSTATUS_SIE\<rparr>"

definition intr_save :: "'z machine_scheme \<Rightarrow> bool \<times> 'z machine_scheme" where
  "intr_save s =
     (if sstatus s AND SSTATUS_SIE \<noteq> 0 then (True, intr_disable s) else (False, s))"

definition intr_restore :: "bool \<Rightarrow> 'z machine_scheme \<Rightarrow> 'z machine_scheme" where
  "intr_restore flag s = (if flag then intr_enable s else s)"

text \<open>Interrupts can be taken in supervisor mode.\<close>

definition intr_on :: "'z machine_scheme \<Rightarrow> bool" where
  "intr_on s \<longleftrightarrow> sstatus s AND SSTATUS_SIE \<noteq> 0"

lemma SSTATUS_SIE_mask: "SSTATUS_SIE = BIT_MASK 1"
  by (simp add: SSTATUS_SIE_def BIT_MASK_def BITS_PER_LONG_def)

lemma intr_on_iff: "intr_on s \<longleftrightarrow> bit (sstatus s) 1"
  by (simp add: intr_on_def SSTATUS_SIE_mask and_BIT_MASK)

lemma disable_enable_sie:
  assumes "bit (w :: u64) 1"
  shows "(w AND NOT SSTATUS_SIE) OR SSTATUS_SIE = w"
  using assms by (intro bit_eqI) (auto simp: SSTATUS_SIE_mask bit_or_iff bit_and_iff bit_not_iff bit_BIT_MASK)

lemma intr_save_off: "\<not> intr_on (snd (intr_save s))"
  by (auto simp: intr_on_iff intr_save_def intr_disable_def SSTATUS_SIE_mask and_BIT_MASK
      bit_and_iff bit_not_iff bit_BIT_MASK)

text \<open>
  What a critical section does to the interrupt state: if the body keeps \<open>sstatus\<close>, then leaving
  the section with the flag saved on entry gives \<open>sstatus\<close> back, whether interrupts were on or off.
\<close>

lemma intr_restore_saved:
  assumes "intr_save s = (flag, s1)" and "sstatus s2 = sstatus s1"
  shows "intr_restore flag s2 = s2\<lparr>sstatus := sstatus s\<rparr>"
proof (cases "intr_on s")
  case True
  then have "flag" "sstatus s1 = sstatus s AND NOT SSTATUS_SIE" and b: "bit (sstatus s) 1"
    using assms(1) by (auto simp: intr_save_def intr_on_def intr_disable_def SSTATUS_SIE_mask and_BIT_MASK)
  then show ?thesis using assms(2) disable_enable_sie [OF b]
    by (simp add: intr_restore_def intr_enable_def)
next
  case False
  then show ?thesis using assms by (auto simp: intr_save_def intr_on_def intr_restore_def)
qed

lemma intr_save_fields:
  assumes "intr_save s = (flag, s1)"
  shows "s1 = s\<lparr>sstatus := sstatus s1\<rparr>"
  using assms by (auto simp: intr_save_def intr_disable_def split: if_splits)

subsection \<open>Critical sections as a contract\<close>

text \<open>
  A call that masks interrupts around its body (\<open>local_intr_save\<close>, \<open>local_intr_restore\<close>). The body
  neither reads nor writes \<open>sstatus\<close>: from a state with another value it does the same and keeps it.
\<close>

locale critical_section =
  fixes body :: "'z machine_scheme \<Rightarrow> ('a \<times> 'z machine_scheme) run"
    and call :: "'z machine_scheme \<Rightarrow> ('a \<times> 'z machine_scheme) run"
  assumes call_def: "call s = (let (flag, t) = intr_save s
      in run_bind (body t) (\<lambda>(a, u). ret (a, intr_restore flag u)))"
    and blind: "body (s\<lparr>sstatus := v\<rparr>) = run_bind (body s) (\<lambda>(a, t). ret (a, t\<lparr>sstatus := v\<rparr>))"
begin

lemma keeps_sstatus:
  assumes "body s = ret (a, t)"
  shows "sstatus t = sstatus s"
proof -
  have "t = t\<lparr>sstatus := sstatus s\<rparr>" using blind [of "sstatus s" s] assms by simp
  then show ?thesis by (metis machine.select_convs(1) machine.surjective machine.update_convs(1))
qed

text \<open>The body runs with interrupts masked, and the call does what the body alone does.\<close>

lemma runs_masked: "call s = ret (a, t) \<Longrightarrow> \<exists>u v. \<not> intr_on u \<and> body u = ret (a, v) \<and> t = v\<lparr>sstatus := sstatus s\<rparr>"
proof -
  obtain flag u where sv: "intr_save s = (flag, u)" by fastforce
  assume "call s = ret (a, t)"
  then obtain v where v: "body u = ret (a, v)" "t = intr_restore flag v"
    by (auto simp: call_def sv run_bind_eq_ret)
  have "t = v\<lparr>sstatus := sstatus s\<rparr>" unfolding v(2) by (rule intr_restore_saved [OF sv keeps_sstatus [OF v(1)]])
  moreover have "\<not> intr_on u" using intr_save_off [of s] by (simp add: sv)
  ultimately show ?thesis using v(1) by blast
qed

lemma body_masked:
  "body (snd (intr_save s)) = run_bind (body s) (\<lambda>(a, t). ret (a, t\<lparr>sstatus := sstatus (snd (intr_save s))\<rparr>))"
proof -
  obtain flag u where sv: "intr_save s = (flag, u)" by fastforce
  show ?thesis unfolding sv snd_conv by (subst intr_save_fields [OF sv], rule blind)
qed

lemma transparent: "call s = body s"
proof -
  obtain flag u where sv: "intr_save s = (flag, u)" by fastforce
  have "body u = run_bind (body s) (\<lambda>(a, t). ret (a, t\<lparr>sstatus := sstatus u\<rparr>))" using body_masked [of s] by (simp add: sv)
  moreover have "intr_restore flag (t\<lparr>sstatus := sstatus u\<rparr>) = t\<lparr>sstatus := sstatus s\<rparr>" for t :: "'z machine_scheme"
    by (subst intr_restore_saved [OF sv]) simp_all
  ultimately have "call s = run_bind (body s) (\<lambda>(a, t). ret (a, t\<lparr>sstatus := sstatus s\<rparr>))"
    by (simp add: call_def sv run_bind_assoc case_prod_unfold)
  also have "\<dots> = body s" using blind [of "sstatus s" s] by simp
  finally show ?thesis .
qed

lemma masked: "call s = run_bind (body (snd (intr_save s))) (\<lambda>(a, u). ret (a, u\<lparr>sstatus := sstatus s\<rparr>))"
  using blind [of "sstatus s" s] by (simp add: transparent body_masked run_bind_assoc case_prod_unfold)

end

end
