(* ===== verification/Mmu.thy ===== *)
theory Mmu
  imports Prelude
begin

unbundle bit_operations_syntax

text \<open>
  libs/defs.h (rounding), kern/mm/mmu.h, kern/mm/memlayout.h and libs/riscv.h: the address
  arithmetic of the Sv39 page tables and the layout constants, on 64-bit words. The lemmas are the
  round trips the paging code relies on.
\<close>

definition PGSIZE :: u64 where "PGSIZE = 4096"
definition NPTEENTRY :: u64 where "NPTEENTRY = 512"
definition PTSIZE :: u64 where "PTSIZE = PGSIZE * NPTEENTRY"
definition KERNBASE :: u64 where "KERNBASE = 0xFFFFFFFFC0200000"
definition KMEMSIZE :: u64 where "KMEMSIZE = 0x7E00000"
definition KERNTOP :: u64 where "KERNTOP = KERNBASE + KMEMSIZE"
definition PHYSICAL_MEMORY_OFFSET :: u64 where "PHYSICAL_MEMORY_OFFSET = 0xFFFFFFFF40000000"
definition KSTACKPAGE :: u64 where "KSTACKPAGE = 2"
definition KSTACKSIZE :: u64 where "KSTACKSIZE = KSTACKPAGE * PGSIZE"
definition DRAM_BASE :: u64 where "DRAM_BASE = 0x80000000"
definition nbase :: u64 where "nbase = DRAM_BASE div PGSIZE"

definition PTE_V :: u64 where "PTE_V = 0x001"
definition PTE_R :: u64 where "PTE_R = 0x002"
definition PTE_W :: u64 where "PTE_W = 0x004"
definition PTE_X :: u64 where "PTE_X = 0x008"
definition PTE_U :: u64 where "PTE_U = 0x010"
definition PTE_USER :: u64 where "PTE_USER = PTE_R OR PTE_W OR PTE_X OR PTE_U OR PTE_V"

definition ROUNDDOWN :: "u64 \<Rightarrow> u64 \<Rightarrow> u64" where
  "ROUNDDOWN a n = a - a mod n"

definition ROUNDUP :: "u64 \<Rightarrow> u64 \<Rightarrow> u64" where
  "ROUNDUP a n = ROUNDDOWN (a + n - 1) n"

definition PDX1 :: "u64 \<Rightarrow> u64" where "PDX1 la = drop_bit 30 la AND 0x1FF"
definition PDX0 :: "u64 \<Rightarrow> u64" where "PDX0 la = drop_bit 21 la AND 0x1FF"
definition PTX :: "u64 \<Rightarrow> u64" where "PTX la = drop_bit 12 la AND 0x1FF"
definition PPN :: "u64 \<Rightarrow> u64" where "PPN la = drop_bit 12 la"
definition PGOFF :: "u64 \<Rightarrow> u64" where "PGOFF la = la AND 0xFFF"

definition PGADDR :: "u64 \<Rightarrow> u64 \<Rightarrow> u64 \<Rightarrow> u64 \<Rightarrow> u64" where
  "PGADDR d1 d0 t off = push_bit 30 d1 OR push_bit 21 d0 OR push_bit 12 t OR off"

definition PTE_ADDR :: "u64 \<Rightarrow> u64" where
  "PTE_ADDR pte = push_bit (12 - 10) (pte AND NOT 0x3FF)"

definition PDE_ADDR :: "u64 \<Rightarrow> u64" where
  "PDE_ADDR pde = PTE_ADDR pde"

text \<open>\<open>type\<close> is an \<open>int\<close>, sign-extended when it meets the 64-bit operand.\<close>

definition pte_create :: "u64 \<Rightarrow> u32 \<Rightarrow> u64" where
  "pte_create ppn type = push_bit 10 ppn OR PTE_V OR scast type"

definition ptd_create :: "u64 \<Rightarrow> u64" where
  "ptd_create ppn = pte_create ppn (ucast PTE_V)"

text \<open>The translation of the processor in Sv39 mode: \<open>entry pa\<close> is the 64-bit word at the physical address
  \<open>pa\<close>. The bits above bit 38 repeat it; an entry with one of the bits R, W, X is a leaf, on the upper
  levels of a whole gigabyte or of 2 megabytes, and must then be aligned. \<open>None\<close> is a page fault; the
  permissions are not checked.\<close>

definition leaf_pa :: "nat \<Rightarrow> u64 \<Rightarrow> u64 \<Rightarrow> u64 option" where
  "leaf_pa k pte va =
     (if PTE_ADDR pte AND mask k = 0 then Some (PTE_ADDR pte + (va AND mask k)) else None)"

definition is_leaf :: "u64 \<Rightarrow> bool" where
  "is_leaf pte \<longleftrightarrow> pte AND (PTE_R OR PTE_W OR PTE_X) \<noteq> 0"

definition sv39 :: "(u64 \<Rightarrow> u64) \<Rightarrow> u64 \<Rightarrow> u64 \<Rightarrow> u64 option" where
  "sv39 entry root va =
     (if (scast (ucast va :: 39 word) :: u64) \<noteq> va then None
      else let e2 = entry (root + 8 * PDX1 va) in
        if e2 AND PTE_V = 0 then None
        else if is_leaf e2 then leaf_pa 30 e2 va
        else let e1 = entry (PTE_ADDR e2 + 8 * PDX0 va) in
          if e1 AND PTE_V = 0 then None
          else if is_leaf e1 then leaf_pa 21 e1 va
          else let e0 = entry (PTE_ADDR e1 + 8 * PTX va) in
            if e0 AND PTE_V = 0 \<or> \<not> is_leaf e0 then None else leaf_pa 12 e0 va)"

subsection \<open>Masks as bit facts\<close>

lemma bit_low_mask: "bit (mask k :: u64) i \<longleftrightarrow> i < k \<and> i < 64"
  by (auto simp: bit_mask_iff)

lemma mask_9: "(0x1FF :: u64) = mask 9" and mask_12: "(0xFFF :: u64) = mask 12"
  and mask_10: "(0x3FF :: u64) = mask 10"
  by (simp_all add: mask_eq_exp_minus_1)

lemmas mask_consts = mask_9 mask_12 mask_10

lemma bit_u64_bound: "bit (w :: u64) i \<Longrightarrow> i < 64"
  using bit_imp_le_length [of w i] by simp

lemma less_exp_bit_False:
  assumes "(w :: u64) < push_bit k 1" and "k < 64" and "k \<le> i"
  shows "\<not> bit w i"
proof -
  have "w AND mask k = w" using assms(1,2) by (intro less_mask_eq) simp
  then have "take_bit k w = w" by (simp add: take_bit_eq_mask)
  then show ?thesis using assms(3) by (metis bit_take_bit_iff not_less)
qed

lemma PGADDR_decompose:
  assumes "la < push_bit 39 1"
  shows "PGADDR (PDX1 la) (PDX0 la) (PTX la) (PGOFF la) = la"
proof (rule bit_eqI)
  fix i :: nat
  have "i < 12 \<or> (12 \<le> i \<and> i < 21) \<or> (21 \<le> i \<and> i < 30) \<or> (30 \<le> i \<and> i < 39) \<or> 39 \<le> i" by arith
  then show "bit (PGADDR (PDX1 la) (PDX0 la) (PTX la) (PGOFF la)) i = bit la i"
    using less_exp_bit_False [OF assms, of i] bit_u64_bound [of la i]
    by (elim disjE)
      (auto simp: PGADDR_def PDX1_def PDX0_def PTX_def PGOFF_def mask_consts bit_simps bit_low_mask)
qed

subsection \<open>Page numbers in addresses and entries\<close>

lemma small_word_bit:
  assumes "unat (w :: 'a::len word) < 2 ^ k" and "k \<le> i"
  shows "\<not> bit w i"
proof -
  have "unat w < 2 ^ i" using assms by (meson less_le_trans one_le_numeral power_increasing)
  then have "\<not> bit (unat w) i" by (simp add: bit_iff_odd)
  then show ?thesis by (simp add: bit_unsigned_iff)
qed

lemma PPN_push_bit:
  assumes "unat ppn < 2 ^ 52"
  shows "PPN (push_bit 12 ppn) = ppn"
  by (rule bit_eqI) (use small_word_bit [OF assms] in \<open>fastforce simp: PPN_def bit_simps not_less [symmetric]\<close>)

lemma bit_perm_bound:
  assumes "unat (perm :: u32) < 2 ^ 10" and "10 \<le> i"
  shows "\<not> bit (scast perm :: u64) i"
  using small_word_bit [OF assms(1)] assms(2) by (simp add: bit_signed_iff)

lemma PTE_V_mask: "PTE_V = mask 1"
  by (simp add: PTE_V_def mask_eq_exp_minus_1)

lemma pte_create_valid: "pte_create ppn perm AND PTE_V \<noteq> 0"
proof -
  have "bit (pte_create ppn perm AND PTE_V) 0"
    by (simp add: pte_create_def PTE_V_mask bit_simps bit_low_mask)
  then show ?thesis by auto
qed

text \<open>The page number stored in an entry comes back, whatever the permission bits.\<close>

lemma PTE_ADDR_pte_create:
  assumes "unat ppn < 2 ^ 52" and "unat (perm :: u32) < 2 ^ 10"
  shows "PTE_ADDR (pte_create ppn perm) = push_bit 12 ppn"
proof (rule bit_eqI)
  fix i
  have "bit (pte_create ppn perm) k \<longleftrightarrow> bit ppn (k - 10)" if "10 \<le> k" "k < 64" for k
    using that bit_perm_bound [OF assms(2) that(1)]
    by (simp add: pte_create_def PTE_V_mask bit_simps bit_low_mask)
  then show "bit (PTE_ADDR (pte_create ppn perm)) i = bit (push_bit 12 ppn) i"
    by (cases "i < 12") (auto simp: PTE_ADDR_def bit_simps mask_10 bit_low_mask dest: bit_u64_bound)
qed

text \<open>The flag bits of an entry are those it was created with, and \<open>PTE_V\<close>.\<close>

lemma pte_create_flags:
  assumes "unat (perm :: u32) < 2 ^ 10"
  shows "pte_create ppn perm AND 0x3FF = PTE_V OR ucast perm"
proof (rule bit_eqI)
  fix i
  show "bit (pte_create ppn perm AND 0x3FF) i = bit (PTE_V OR ucast perm) i"
    using small_word_bit [OF assms]
    by (cases "i < 10") (auto simp: pte_create_def mask_10 PTE_V_mask bit_simps bit_low_mask bit_signed_iff bit_unsigned_iff)
qed

lemma index_bounds: "PDX1 la < 512" "PDX0 la < 512" "PTX la < 512"
proof -
  have "w AND 0x1FF < 512" for w :: u64
    unfolding mask_9 using and_mask_less' [of 9 w] by simp
  then show "PDX1 la < 512" "PDX0 la < 512" "PTX la < 512" by (simp_all add: PDX1_def PDX0_def PTX_def)
qed

end
