(* ===== verification/CList.thy ===== *)
theory CList
  imports Prelude
begin

text \<open>
  libs/list.h: the circular doubly linked list every kernel subsystem threads through its
  structures. A \<open>list_entry\<close> is a node of an arbitrary type \<open>'n\<close>; the two pointers of all nodes
  form the record \<open>links\<close>. Every assignment of \<open>__list_add\<close> and \<open>__list_del\<close> is written out in
  the order of the C code, because the order decides what aliased arguments do.

  \<open>cdll h r xs\<close> says that the nodes \<open>xs\<close> hang on the root \<open>r\<close> in this order, in both
  directions; the lemmas say what insertion and deletion do to \<open>xs\<close>.
\<close>

subsection \<open>The operations of list.h\<close>

record 'n links =
  le_prev :: "'n \<Rightarrow> 'n"
  le_next :: "'n \<Rightarrow> 'n"

text \<open>The \<open>list_entry_t\<close> of a global head and those embedded in structures (\<open>le2page\<close>,
  \<open>le2proc\<close>, \<open>le2vma\<close> recover the structure from its entry).\<close>

datatype ('h, 'k) lnode = LHead 'h | Link (le2struct: 'k)

definition set_prev :: "'n \<Rightarrow> 'n \<Rightarrow> 'n links \<Rightarrow> 'n links" where
  "set_prev e p h = h\<lparr>le_prev := (le_prev h)(e := p)\<rparr>"

definition set_next :: "'n \<Rightarrow> 'n \<Rightarrow> 'n links \<Rightarrow> 'n links" where
  "set_next e n h = h\<lparr>le_next := (le_next h)(e := n)\<rparr>"

definition list_next :: "'n links \<Rightarrow> 'n \<Rightarrow> 'n" where
  "list_next h e = le_next h e"

definition list_prev :: "'n links \<Rightarrow> 'n \<Rightarrow> 'n" where
  "list_prev h e = le_prev h e"

definition list_init :: "'n \<Rightarrow> 'n links \<Rightarrow> 'n links" where
  "list_init elm h = set_prev elm elm (set_next elm elm h)"

definition list_add_raw :: "'n \<Rightarrow> 'n \<Rightarrow> 'n \<Rightarrow> 'n links \<Rightarrow> 'n links" where
  "list_add_raw elm p n h =
     set_prev elm p (set_next elm n (set_next p elm (set_prev n elm h)))"

definition list_del_raw :: "'n \<Rightarrow> 'n \<Rightarrow> 'n links \<Rightarrow> 'n links" where
  "list_del_raw p n h = set_prev n p (set_next p n h)"

definition list_add_after :: "'n \<Rightarrow> 'n \<Rightarrow> 'n links \<Rightarrow> 'n links" where
  "list_add_after listelm elm h = list_add_raw elm listelm (list_next h listelm) h"

definition list_add :: "'n \<Rightarrow> 'n \<Rightarrow> 'n links \<Rightarrow> 'n links" where
  "list_add listelm elm h = list_add_after listelm elm h"

definition list_add_before :: "'n \<Rightarrow> 'n \<Rightarrow> 'n links \<Rightarrow> 'n links" where
  "list_add_before listelm elm h = list_add_raw elm (list_prev h listelm) listelm h"

definition list_del :: "'n \<Rightarrow> 'n links \<Rightarrow> 'n links" where
  "list_del listelm h = list_del_raw (list_prev h listelm) (list_next h listelm) h"

definition list_del_init :: "'n \<Rightarrow> 'n links \<Rightarrow> 'n links" where
  "list_del_init listelm h = list_init listelm (list_del listelm h)"

definition list_empty :: "'n links \<Rightarrow> 'n \<Rightarrow> bool" where
  "list_empty h lst \<longleftrightarrow> list_next h lst = lst"

lemma list_next_set [link_simps]:
  "list_next (set_next e n h) a = (if a = e then n else list_next h a)"
  "list_next (set_prev e p h) a = list_next h a"
  "list_prev (set_prev e p h) a = (if a = e then p else list_prev h a)"
  "list_prev (set_next e n h) a = list_prev h a"
  by (simp_all add: list_next_def list_prev_def set_next_def set_prev_def)

lemma list_next_init [link_simps]:
  "list_next (list_init e h) a = (if a = e then e else list_next h a)"
  "list_prev (list_init e h) a = (if a = e then e else list_prev h a)"
  by (simp_all add: list_init_def link_simps)

lemma list_next_add_raw [link_simps]:
  "list_next (list_add_raw e p n h) a = (if a = e then n else if a = p then e else list_next h a)"
  "list_prev (list_add_raw e p n h) a = (if a = e then p else if a = n then e else list_prev h a)"
  by (simp_all add: list_add_raw_def link_simps)

lemma list_next_del_raw [link_simps]:
  "list_next (list_del_raw p n h) a = (if a = p then n else list_next h a)"
  "list_prev (list_del_raw p n h) a = (if a = n then p else list_prev h a)"
  by (simp_all add: list_del_raw_def link_simps)

lemma links_eqI:
  "(\<And>a. list_next g a = list_next h a) \<Longrightarrow> (\<And>a. list_prev g a = list_prev h a) \<Longrightarrow>
   (g :: 'n links) = h"
  by (cases g; cases h) (auto simp: list_next_def list_prev_def fun_eq_iff)

subsection \<open>Paths and circular lists\<close>

text \<open>\<open>npath h a xs b\<close>: following \<open>next\<close> from \<open>a\<close> visits \<open>xs\<close> and reaches \<open>b\<close>;
  \<open>dpath\<close> also asks the \<open>prev\<close> pointers to lead back.\<close>

fun npath :: "'n links \<Rightarrow> 'n \<Rightarrow> 'n list \<Rightarrow> 'n \<Rightarrow> bool" where
  "npath h a [] b \<longleftrightarrow> list_next h a = b"
| "npath h a (x # xs) b \<longleftrightarrow> list_next h a = x \<and> npath h x xs b"

fun dpath :: "'n links \<Rightarrow> 'n \<Rightarrow> 'n list \<Rightarrow> 'n \<Rightarrow> bool" where
  "dpath h a [] b \<longleftrightarrow> list_next h a = b \<and> list_prev h b = a"
| "dpath h a (x # xs) b \<longleftrightarrow> list_next h a = x \<and> list_prev h x = a \<and> dpath h x xs b"

definition cdll :: "'n links \<Rightarrow> 'n \<Rightarrow> 'n list \<Rightarrow> bool" where
  "cdll h r xs \<longleftrightarrow> distinct (r # xs) \<and> dpath h r xs r"

lemma dpath_append [simp]:
  "dpath h a (xs @ y # ys) b \<longleftrightarrow> dpath h a xs y \<and> dpath h y ys b"
  by (induction xs arbitrary: a) auto

lemma npath_append [simp]:
  "npath h a (xs @ y # ys) b \<longleftrightarrow> npath h a xs y \<and> npath h y ys b"
  by (induction xs arbitrary: a) auto

lemma dpath_npath: "dpath h a xs b \<Longrightarrow> npath h a xs b"
  by (induction xs arbitrary: a) auto

lemma dpath_cong:
  assumes "\<And>x. x \<in> set (a # xs) \<Longrightarrow> list_next g x = list_next h x"
    and "\<And>x. x \<in> set (xs @ [b]) \<Longrightarrow> list_prev g x = list_prev h x"
  shows "dpath g a xs b \<longleftrightarrow> dpath h a xs b"
  using assms by (induction xs arbitrary: a) auto

lemma npath_cong:
  assumes "\<And>x. x \<in> set (a # xs) \<Longrightarrow> list_next g x = list_next h x"
  shows "npath g a xs b \<longleftrightarrow> npath h a xs b"
  using assms by (induction xs arbitrary: a) auto

text \<open>The list a circular structure represents is determined by it.\<close>

lemma npath_unique:
  "npath h a xs r \<Longrightarrow> npath h a ys r \<Longrightarrow> r \<notin> set xs \<Longrightarrow> r \<notin> set ys \<Longrightarrow> xs = ys"
proof (induction xs arbitrary: a ys)
  case Nil
  then show ?case by (cases ys) auto
next
  case (Cons x xs)
  then show ?case by (cases ys) auto
qed

lemma cdll_unique: "cdll h r xs \<Longrightarrow> cdll h r ys \<Longrightarrow> xs = ys"
  by (auto simp: cdll_def dest!: dpath_npath intro: npath_unique)

lemma cdll_npath: "cdll h r xs \<Longrightarrow> npath h r xs r"
  by (simp add: cdll_def dpath_npath)

lemma cdll_init: "cdll (list_init r h) r []"
  by (simp add: cdll_def link_simps)

lemma cdll_empty_iff: "cdll h r xs \<Longrightarrow> list_empty h r \<longleftrightarrow> xs = []"
  by (cases xs) (auto simp: cdll_def list_empty_def)

text \<open>Insertion between two consecutive entries and deletion of an entry.\<close>

lemma cdll_insert:
  assumes "cdll h r (xs @ ys)" and "e \<notin> set (r # xs @ ys)"
    and p: "p = last (r # xs)" and n: "n = hd (ys @ [r])"
  shows "cdll (list_add_raw e p n h) r (xs @ e # ys)"
proof -
  let ?h = "list_add_raw e p n h"
  have d: "distinct (r # xs @ ys)" and path: "dpath h r (xs @ ys) r"
    using assms(1) by (auto simp: cdll_def)
  have "dpath ?h r (xs @ e # ys) r"
  proof (cases xs rule: rev_cases)
    case Nil
    show ?thesis
    proof (cases ys)
      case Nil
      with \<open>xs = []\<close> show ?thesis using assms path d by (auto simp: link_simps)
    next
      case (Cons y ys')
      have "dpath ?h y ys' r \<longleftrightarrow> dpath h y ys' r"
        using assms d Cons \<open>xs = []\<close> by (intro dpath_cong) (auto simp: link_simps)
      then show ?thesis using assms path d Cons \<open>xs = []\<close> by (auto simp: link_simps)
    qed
  next
    case (snoc xs' x)
    have left: "dpath ?h r xs' x \<longleftrightarrow> dpath h r xs' x"
      using assms d snoc by (intro dpath_cong) (cases ys; auto simp: link_simps)+
    show ?thesis
    proof (cases ys)
      case Nil
      then show ?thesis using assms path d snoc left by (auto simp: link_simps)
    next
      case (Cons y ys')
      have "dpath ?h y ys' r \<longleftrightarrow> dpath h y ys' r"
        using assms d Cons snoc by (intro dpath_cong) (auto simp: link_simps)
      then show ?thesis using assms path d Cons snoc left by (auto simp: link_simps)
    qed
  qed
  then show ?thesis using assms(2) d by (auto simp: cdll_def)
qed

lemma cdll_next_last:
  "cdll h r (xs @ ys) \<Longrightarrow> list_next h (last (r # xs)) = hd (ys @ [r])"
  by (cases xs rule: rev_cases; cases ys) (auto simp: cdll_def)

lemma cdll_prev_hd:
  "cdll h r (xs @ ys) \<Longrightarrow> list_prev h (hd (ys @ [r])) = last (r # xs)"
  by (cases xs rule: rev_cases; cases ys) (auto simp: cdll_def)

lemma cdll_next: "cdll h r (xs @ e # ys) \<Longrightarrow> list_next h e = hd (ys @ [r])"
  using cdll_next_last [of h r "xs @ [e]" ys] by simp

lemma cdll_prev: "cdll h r (xs @ e # ys) \<Longrightarrow> list_prev h e = last (r # xs)"
  using cdll_prev_hd [of h r xs "e # ys"] by simp

lemma cdll_add_after:
  assumes "cdll h r (xs @ ys)" and "e \<notin> set (r # xs @ ys)" and "p = last (r # xs)"
  shows "cdll (list_add p e h) r (xs @ e # ys)"
  unfolding assms(3) list_add_def list_add_after_def cdll_next_last [OF assms(1)]
  using assms by (intro cdll_insert) simp_all

lemma cdll_add_before:
  assumes "cdll h r (xs @ ys)" and "e \<notin> set (r # xs @ ys)" and "n = hd (ys @ [r])"
  shows "cdll (list_add_before n e h) r (xs @ e # ys)"
  unfolding assms(3) list_add_before_def cdll_prev_hd [OF assms(1)]
  using assms by (intro cdll_insert) simp_all

lemma cdll_del:
  assumes "cdll h r (xs @ e # ys)"
  shows "cdll (list_del e h) r (xs @ ys)"
proof -
  let ?h = "list_del e h"
  have d: "distinct (r # xs @ e # ys)" and path: "dpath h r xs e" "dpath h e ys r"
    using assms by (auto simp: cdll_def)
  have eq: "?h = list_del_raw (last (r # xs)) (hd (ys @ [r])) h"
    using assms by (simp add: list_del_def cdll_next cdll_prev)
  have "dpath ?h r (xs @ ys) r"
  proof (cases xs rule: rev_cases)
    case Nil
    show ?thesis
    proof (cases ys)
      case Nil
      with \<open>xs = []\<close> show ?thesis by (auto simp: eq link_simps)
    next
      case (Cons y ys')
      have "dpath ?h y ys' r \<longleftrightarrow> dpath h y ys' r"
        using d Cons \<open>xs = []\<close> by (intro dpath_cong) (auto simp: eq link_simps)
      then show ?thesis using path d Cons \<open>xs = []\<close> by (auto simp: eq link_simps)
    qed
  next
    case (snoc xs' x)
    have left: "dpath ?h r xs' x \<longleftrightarrow> dpath h r xs' x"
      using d snoc by (intro dpath_cong) (cases ys; auto simp: eq link_simps)+
    show ?thesis
    proof (cases ys)
      case Nil
      then show ?thesis using path d snoc left by (auto simp: eq link_simps)
    next
      case (Cons y ys')
      have "dpath ?h y ys' r \<longleftrightarrow> dpath h y ys' r"
        using d Cons snoc by (intro dpath_cong) (auto simp: eq link_simps)
      then show ?thesis using path d Cons snoc left by (auto simp: eq link_simps)
    qed
  qed
  then show ?thesis using d by (auto simp: cdll_def)
qed

text \<open>A structure whose links agree on the nodes of a list represents the same list.\<close>

lemma cdll_cong:
  assumes "\<And>x. x \<in> set (r # xs) \<Longrightarrow> list_next g x = list_next h x"
    and "\<And>x. x \<in> set (r # xs) \<Longrightarrow> list_prev g x = list_prev h x"
  shows "cdll g r xs \<longleftrightarrow> cdll h r xs"
  using assms dpath_cong [of r xs g h r] by (auto simp: cdll_def)

subsection \<open>Concrete link structures\<close>

text \<open>One root and entries numbered by \<open>nat\<close>, given by tables.\<close>

definition tabn :: "'a \<Rightarrow> 'a list \<Rightarrow> 'a \<Rightarrow> ('h, nat) lnode \<Rightarrow> 'a" where
  "tabn r xs d n = (case n of LHead _ \<Rightarrow> r | Link i \<Rightarrow> tab xs d i)"

lemma tabn_upd [simp]:
  "(tabn r xs d :: (unit, nat) lnode \<Rightarrow> 'a)(LHead u := v) = tabn v xs d"
  "i < length xs \<Longrightarrow> (tabn r xs d)(Link i := v) = tabn r (xs[i := v]) d"
  by (auto simp: tabn_def tab_def fun_eq_iff split: lnode.splits)

lemma tabn_app [simp]:
  "tabn r xs d (LHead u) = r" "i < length xs \<Longrightarrow> tabn r xs d (Link i) = xs ! i"
  by (simp_all add: tabn_def)

lemmas list_ops_eval [run_eval] = list_init_def list_add_def list_add_after_def list_add_before_def
  list_add_raw_def list_del_def list_del_raw_def list_del_init_def list_empty_def list_next_def
  list_prev_def set_next_def set_prev_def

end
