(* ===== verification/FirstFit.thy ===== *)
theory FirstFit
  imports Prelude
begin

text \<open>
  The abstract specification of the physical page allocator (kern/mm/default_pmm.c): the free
  memory is an address-ordered list of blocks \<open>(first page, number of pages)\<close>; allocation takes
  the front of the first block that is large enough, freeing puts the block back in address order
  and joins it with the neighbours it touches. DefaultPmm.thy shows that the linked structure of
  the kernel implements these functions.
\<close>

subsection \<open>Blocks\<close>

type_synonym block = "nat \<times> nat"

definition pages_of :: "block list \<Rightarrow> nat set" where
  "pages_of bs = (\<Union>x\<in>set bs. {fst x..<fst x + snd x})"

definition wf_blocks :: "block list \<Rightarrow> bool" where
  "wf_blocks bs \<longleftrightarrow> sorted_wrt (\<lambda>x y. fst x + snd x \<le> fst y) bs \<and> (\<forall>x\<in>set bs. 0 < snd x)"

text \<open>No two free blocks touch: the free list is fully coalesced.\<close>

definition coalesced :: "block list \<Rightarrow> bool" where
  "coalesced bs \<longleftrightarrow> sorted_wrt (\<lambda>x y. fst x + snd x < fst y) bs \<and> (\<forall>x\<in>set bs. 0 < snd x)"

lemma pages_of_simps [simp]:
  "pages_of [] = {}"
  "pages_of (x # bs) = {fst x..<fst x + snd x} \<union> pages_of bs"
  "pages_of (xs @ ys) = pages_of xs \<union> pages_of ys"
  by (auto simp: pages_of_def)

lemma wf_blocks_append:
  "wf_blocks (xs @ ys) \<longleftrightarrow>
     wf_blocks xs \<and> wf_blocks ys \<and> (\<forall>x\<in>set xs. \<forall>y\<in>set ys. fst x + snd x \<le> fst y)"
  by (auto simp: wf_blocks_def sorted_wrt_append)

lemma wf_blocks_Cons:
  "wf_blocks (x # ys) \<longleftrightarrow> 0 < snd x \<and> wf_blocks ys \<and> (\<forall>y\<in>set ys. fst x + snd x \<le> fst y)"
  by (auto simp: wf_blocks_def)

lemma wf_blocks_Nil [simp]: "wf_blocks []"
  by (simp add: wf_blocks_def)

lemma coalesced_append:
  "coalesced (xs @ ys) \<longleftrightarrow>
     coalesced xs \<and> coalesced ys \<and> (\<forall>x\<in>set xs. \<forall>y\<in>set ys. fst x + snd x < fst y)"
  by (auto simp: coalesced_def sorted_wrt_append)

lemma coalesced_Cons:
  "coalesced (x # ys) \<longleftrightarrow> 0 < snd x \<and> coalesced ys \<and> (\<forall>y\<in>set ys. fst x + snd x < fst y)"
  by (auto simp: coalesced_def)

lemma coalesced_Nil [simp]: "coalesced []"
  by (simp add: coalesced_def)

lemma coalesced_wf: "coalesced bs \<Longrightarrow> wf_blocks bs"
  by (induction bs) (auto simp: coalesced_Cons wf_blocks_Cons less_imp_le)

lemmas blocks_simps = wf_blocks_append wf_blocks_Cons coalesced_append coalesced_Cons

lemma pages_of_below: "(\<And>x. x \<in> set xs \<Longrightarrow> fst x + snd x \<le> b) \<Longrightarrow> p \<in> pages_of xs \<Longrightarrow> p < b"
  by (fastforce simp: pages_of_def)

lemma pages_of_above: "(\<And>x. x \<in> set xs \<Longrightarrow> b \<le> fst x) \<Longrightarrow> p \<in> pages_of xs \<Longrightarrow> b \<le> p"
  by (fastforce simp: pages_of_def)

lemma finite_pages_of [simp]: "finite (pages_of bs)"
  by (simp add: pages_of_def)

lemma card_pages_of: "wf_blocks bs \<Longrightarrow> card (pages_of bs) = sum_list (map snd bs)"
proof (induction bs)
  case (Cons x bs)
  have "fst x + snd x \<le> p" if "p \<in> pages_of bs" for p
    using Cons.prems that by (intro pages_of_above [OF _ that]) (simp add: wf_blocks_Cons)
  then have dis: "{fst x..<fst x + snd x} \<inter> pages_of bs = {}"
    by (meson atLeastLessThan_iff disjoint_iff not_le)
  have "card (pages_of (x # bs)) = card {fst x..<fst x + snd x} + card (pages_of bs)"
    using dis by (simp only: pages_of_simps) (intro card_Un_disjoint; simp)
  with Cons show ?case by (simp add: wf_blocks_Cons)
qed simp

subsection \<open>Allocation\<close>

fun ff_alloc :: "nat \<Rightarrow> block list \<Rightarrow> (nat \<times> block list) option" where
  "ff_alloc n [] = None"
| "ff_alloc n ((i, k) # bs) =
     (if n \<le> k then Some (i, if n < k then (i + n, k - n) # bs else bs)
      else map_option (\<lambda>(j, bs'). (j, (i, k) # bs')) (ff_alloc n bs))"

lemma ff_alloc_None_iff: "ff_alloc n bs = None \<longleftrightarrow> (\<forall>x\<in>set bs. snd x < n)"
  by (induction n bs rule: ff_alloc.induct) auto

lemma ff_alloc_append:
  "\<forall>x\<in>set xs. snd x < n \<Longrightarrow> n \<le> k \<Longrightarrow>
   ff_alloc n (xs @ (i, k) # ys) = Some (i, xs @ (if n < k then (i + n, k - n) # ys else ys))"
  by (induction xs) auto

lemma ff_alloc_SomeE:
  assumes "ff_alloc n bs = Some (i, bs')"
  obtains xs k ys where "bs = xs @ (i, k) # ys" "\<forall>x\<in>set xs. snd x < n" "n \<le> k"
    "bs' = xs @ (if n < k then (i + n, k - n) # ys else ys)"
proof -
  have "\<exists>x\<in>set bs. n \<le> snd x"
    using assms ff_alloc_None_iff [of n bs] by (auto simp: not_less)
  then obtain xs j k ys where split: "bs = xs @ (j, k) # ys" "n \<le> k" "\<forall>x\<in>set xs. snd x < n"
    by (auto dest!: split_list_first_prop simp: not_le)
  moreover from this have "j = i" "bs' = xs @ (if n < k then (i + n, k - n) # ys else ys)"
    using assms ff_alloc_append [of xs n k j ys] by auto
  ultimately show ?thesis using that by blast
qed

lemma ff_alloc_wf:
  assumes "ff_alloc n bs = Some (i, bs')" and "wf_blocks bs"
  shows "wf_blocks bs'"
proof -
  obtain xs k ys where s: "bs = xs @ (i, k) # ys" "n \<le> k"
    "bs' = xs @ (if n < k then (i + n, k - n) # ys else ys)"
    using assms(1) by (elim ff_alloc_SomeE)
  have "\<forall>x\<in>set xs. fst x + snd x \<le> i" using assms(2) by (simp add: s blocks_simps)
  then have "\<forall>x\<in>set xs. fst x + snd x \<le> i + n" by (meson trans_le_add1)
  with s assms(2) show ?thesis by (simp add: blocks_simps)
qed

lemma ff_alloc_coalesced:
  assumes "ff_alloc n bs = Some (i, bs')" and "coalesced bs"
  shows "coalesced bs'"
proof -
  obtain xs k ys where s: "bs = xs @ (i, k) # ys" "n \<le> k"
    "bs' = xs @ (if n < k then (i + n, k - n) # ys else ys)"
    using assms(1) by (elim ff_alloc_SomeE)
  have "\<forall>x\<in>set xs. fst x + snd x < i" using assms(2) by (simp add: s blocks_simps)
  then have "\<forall>x\<in>set xs. fst x + snd x < i + n" by (meson trans_less_add1)
  with s assms(2) show ?thesis by (simp add: blocks_simps)
qed

text \<open>The allocated pages were free, and exactly they are no longer free.\<close>

lemma ff_alloc_pages:
  assumes "ff_alloc n bs = Some (i, bs')" and "wf_blocks bs"
  shows "{i..<i + n} \<subseteq> pages_of bs" and "pages_of bs' = pages_of bs - {i..<i + n}"
proof -
  obtain xs k ys where s: "bs = xs @ (i, k) # ys" "n \<le> k"
    "bs' = xs @ (if n < k then (i + n, k - n) # ys else ys)"
    using assms(1) by (elim ff_alloc_SomeE)
  show "{i..<i + n} \<subseteq> pages_of bs" using s by auto
  have "p < i" if "p \<in> pages_of xs" for p
    using assms(2) that by (intro pages_of_below [OF _ that]) (simp add: s blocks_simps)
  then have left: "pages_of xs - {i..<i + n} = pages_of xs"
    by (meson Diff_triv atLeastLessThan_iff disjoint_iff not_le)
  have "i + n \<le> p" if "p \<in> pages_of ys" for p
    using assms(2) s(2) pages_of_above [OF _ that, of "i + k"] by (auto simp: s(1) blocks_simps)
  then have right: "pages_of ys - {i..<i + n} = pages_of ys"
    by (meson Diff_triv atLeastLessThan_iff disjoint_iff not_le)
  have "{i..<i + k} - {i..<i + n} = {i + n..<i + k}" by auto
  with left right s show "pages_of bs' = pages_of bs - {i..<i + n}"
    by (auto simp: Un_Diff)
qed

lemma ff_alloc_sum:
  assumes "ff_alloc n bs = Some (i, bs')"
  shows "sum_list (map snd bs) = n + sum_list (map snd bs')"
  using assms by (elim ff_alloc_SomeE) auto

subsection \<open>Release\<close>

definition join_right :: "block \<Rightarrow> block list \<Rightarrow> block list" where
  "join_right x ys =
     (case ys of [] \<Rightarrow> [x]
      | y # ys' \<Rightarrow> if fst x + snd x = fst y then (fst x, snd x + snd y) # ys' else x # ys)"

definition join_left :: "block list \<Rightarrow> block \<Rightarrow> block list \<times> block" where
  "join_left xs x =
     (if xs \<noteq> [] \<and> fst (last xs) + snd (last xs) = fst x
      then (butlast xs, (fst (last xs), snd (last xs) + snd x)) else (xs, x))"

definition ff_free :: "nat \<Rightarrow> nat \<Rightarrow> block list \<Rightarrow> block list" where
  "ff_free b n bs =
     (let xs = takeWhile (\<lambda>x. fst x < b) bs; ys = dropWhile (\<lambda>x. fst x < b) bs;
          (xs', x) = join_left xs (b, n)
      in xs' @ join_right x ys)"

text \<open>A block that can be given back: not empty and disjoint from the free pages.\<close>

definition fits_free :: "nat \<Rightarrow> nat \<Rightarrow> block list \<Rightarrow> bool" where
  "fits_free b n bs \<longleftrightarrow> 0 < n \<and> {b..<b + n} \<inter> pages_of bs = {}"

lemma fits_free_order:
  assumes "fits_free b n bs" and "wf_blocks bs" and "x \<in> set bs"
  shows "fst x + snd x \<le> b \<or> b + n \<le> fst x"
proof (rule ccontr)
  assume "\<not> ?thesis"
  then have "max b (fst x) \<in> {b..<b + n}" and "max b (fst x) \<in> {fst x..<fst x + snd x}"
    using assms by (auto simp: fits_free_def wf_blocks_def)
  moreover from this(2) have "max b (fst x) \<in> pages_of bs"
    using assms(3) unfolding pages_of_def by blast
  ultimately show False using assms(1) unfolding fits_free_def by blast
qed

lemma fits_free_split:
  assumes "fits_free b n bs" and "wf_blocks bs"
  obtains xs ys where "bs = xs @ ys" "xs = takeWhile (\<lambda>x. fst x < b) bs"
    "ys = dropWhile (\<lambda>x. fst x < b) bs"
    "\<forall>x\<in>set xs. fst x + snd x \<le> b" "\<forall>y\<in>set ys. b + n \<le> fst y"
proof
  let ?xs = "takeWhile (\<lambda>x. fst x < b) bs" and ?ys = "dropWhile (\<lambda>x. fst x < b) bs"
  show "bs = ?xs @ ?ys" by simp
  show "\<forall>x\<in>set ?xs. fst x + snd x \<le> b"
    using fits_free_order [OF assms] by (fastforce dest: set_takeWhileD)
  show "\<forall>y\<in>set ?ys. b + n \<le> fst y"
  proof (cases ?ys)
    case (Cons y ys')
    then have "\<not> fst y < b" by (metis hd_dropWhile list.distinct(1) list.sel(1))
    moreover have "y \<in> set bs" using Cons by (metis list.set_intros(1) set_dropWhileD)
    ultimately have y: "b + n \<le> fst y" using fits_free_order [OF assms] assms
      by (fastforce simp: wf_blocks_def)
    have "wf_blocks (y # ys')" using assms(2) Cons by (metis takeWhile_dropWhile_id wf_blocks_append)
    with y Cons show ?thesis by (fastforce simp: wf_blocks_Cons)
  qed (simp only: list.set ball_empty)
qed (rule refl)+

text \<open>What both joins do, case by case, on the two halves of the list.\<close>

lemma join_right_pages:
  "pages_of (join_right x ys) = {fst x..<fst x + snd x} \<union> pages_of ys"
  by (cases ys) (auto simp: join_right_def)

lemma join_right_wf:
  "0 < snd x \<Longrightarrow> wf_blocks ys \<Longrightarrow> \<forall>y\<in>set ys. fst x + snd x \<le> fst y \<Longrightarrow> wf_blocks (join_right x ys)"
  by (cases ys) (auto simp: join_right_def wf_blocks_Cons)

lemma join_right_coalesced:
  "0 < snd x \<Longrightarrow> coalesced ys \<Longrightarrow> \<forall>y\<in>set ys. fst x + snd x \<le> fst y \<Longrightarrow> coalesced (join_right x ys)"
  by (cases ys) (fastforce simp: join_right_def coalesced_Cons)+

lemma join_right_fst: "y \<in> set (join_right x ys) \<Longrightarrow> fst y = fst x \<or> y \<in> set ys"
  by (cases ys) (auto simp: join_right_def split: if_splits)

lemma join_right_sum: "sum_list (map snd (join_right x ys)) = snd x + sum_list (map snd ys)"
  by (cases ys) (auto simp: join_right_def)

lemma join_left_cases:
  obtains (apart) "join_left xs x = (xs, x)" "xs = [] \<or> fst (last xs) + snd (last xs) \<noteq> fst x"
  | (joined) ws w where "xs = ws @ [w]" "fst w + snd w = fst x"
      "join_left xs x = (ws, (fst w, snd w + snd x))"
proof (cases "xs \<noteq> [] \<and> fst (last xs) + snd (last xs) = fst x")
  case True
  then show ?thesis using joined [of "butlast xs" "last xs"] by (auto simp: join_left_def)
next
  case False
  then show ?thesis using apart by (auto simp: join_left_def)
qed

text \<open>Freeing returns the pages, keeps the order, and keeps the list fully coalesced.\<close>

lemma ff_free_split_cases:
  assumes "fits_free b n bs" and "wf_blocks bs"
  obtains (apart) xs ys where "bs = xs @ ys" "ff_free b n bs = xs @ join_right (b, n) ys"
      "xs = [] \<or> fst (last xs) + snd (last xs) \<noteq> b"
      "\<forall>x\<in>set xs. fst x + snd x \<le> b" "\<forall>y\<in>set ys. b + n \<le> fst y"
  | (joined) ws w ys where "bs = ws @ w # ys" "fst w + snd w = b"
      "ff_free b n bs = ws @ join_right (fst w, snd w + n) ys"
      "\<forall>y\<in>set ys. b + n \<le> fst y"
proof -
  obtain xs ys where s: "bs = xs @ ys" "xs = takeWhile (\<lambda>x. fst x < b) bs"
    "ys = dropWhile (\<lambda>x. fst x < b) bs"
    "\<forall>x\<in>set xs. fst x + snd x \<le> b" "\<forall>y\<in>set ys. b + n \<le> fst y"
    using fits_free_split [OF assms] .
  have eq: "ff_free b n bs = (case join_left xs (b, n) of (xs', x) \<Rightarrow> xs' @ join_right x ys)"
    by (simp add: ff_free_def Let_def s(2,3) [symmetric])
  show ?thesis
  proof (cases rule: join_left_cases [of xs "(b, n)"])
    case apart
    with s(4,5) show ?thesis by (intro that(1) [OF s(1) _ _ s(4,5)]) (simp_all add: eq)
  next
    case (joined ws w)
    then have "ff_free b n bs = ws @ join_right (fst w, snd w + n) ys" by (simp add: eq)
    with joined s(1,5) show ?thesis by (intro that(2) [of ws w ys]) simp_all
  qed
qed

lemma ff_free_pages:
  assumes "fits_free b n bs" and "wf_blocks bs"
  shows "pages_of (ff_free b n bs) = pages_of bs \<union> {b..<b + n}"
  using assms by (cases rule: ff_free_split_cases) (auto simp: join_right_pages)

lemma ff_free_sum:
  assumes "fits_free b n bs" and "wf_blocks bs"
  shows "sum_list (map snd (ff_free b n bs)) = n + sum_list (map snd bs)"
  using assms by (cases rule: ff_free_split_cases) (auto simp: join_right_sum)

lemma ff_free_wf:
  assumes "fits_free b n bs" and "wf_blocks bs"
  shows "wf_blocks (ff_free b n bs)"
  using assms
proof (cases rule: ff_free_split_cases)
  case (apart xs ys)
  have "wf_blocks (join_right (b, n) ys)"
    using apart assms by (intro join_right_wf) (auto simp: blocks_simps fits_free_def)
  moreover have "fst x + snd x \<le> fst y" if "x \<in> set xs" "y \<in> set (join_right (b, n) ys)" for x y
    using join_right_fst [OF that(2)] that(1) apart by fastforce
  ultimately show ?thesis using apart assms(2) by (simp add: blocks_simps)
next
  case (joined ws w ys)
  have "wf_blocks (join_right (fst w, snd w + n) ys)"
    using joined assms by (intro join_right_wf) (auto simp: blocks_simps fits_free_def)
  moreover have "fst x + snd x \<le> fst y"
    if "x \<in> set ws" "y \<in> set (join_right (fst w, snd w + n) ys)" for x y
    using join_right_fst [OF that(2)] that(1) joined assms(2) by (fastforce simp: blocks_simps)
  ultimately show ?thesis using joined assms(2) by (simp add: blocks_simps)
qed

text \<open>A fully coalesced list stays so, and freeing what was just allocated restores it.\<close>

lemma ff_free_coalesced:
  assumes "fits_free b n bs" and "coalesced bs"
  shows "coalesced (ff_free b n bs)"
  using assms(1) coalesced_wf [OF assms(2)]
proof (cases rule: ff_free_split_cases)
  case (apart xs ys)
  have "coalesced (join_right (b, n) ys)"
    using apart assms by (intro join_right_coalesced) (auto simp: blocks_simps fits_free_def)
  moreover have lt: "fst x + snd x < b" if "x \<in> set xs" for x
  proof (cases xs rule: rev_cases)
    case (snoc zs z)
    then show ?thesis
      using that apart assms(2) by (cases "x = z") (fastforce simp: blocks_simps)+
  qed (use that in simp)
  moreover have "fst x + snd x < fst y" if "x \<in> set xs" "y \<in> set (join_right (b, n) ys)" for x y
    using join_right_fst [OF that(2)] lt [OF that(1)] that(1) apart by fastforce
  ultimately show ?thesis using apart assms(2) by (simp add: blocks_simps)
next
  case (joined ws w ys)
  have "coalesced (join_right (fst w, snd w + n) ys)"
    using joined assms by (intro join_right_coalesced) (auto simp: blocks_simps fits_free_def)
  moreover have "fst x + snd x < fst y"
    if "x \<in> set ws" "y \<in> set (join_right (fst w, snd w + n) ys)" for x y
    using join_right_fst [OF that(2)] that(1) joined assms(2) by (fastforce simp: blocks_simps)
  ultimately show ?thesis using joined assms(2) by (simp add: blocks_simps)
qed

text \<open>Two coalesced lists with the same pages are the same list.\<close>

lemma coalesced_hd_least:
  assumes "coalesced (x # bs)"
  shows "fst x \<in> pages_of (x # bs)" "fst x + snd x \<notin> pages_of (x # bs)"
    "\<And>p. p \<in> pages_of (x # bs) \<Longrightarrow> fst x \<le> p"
proof -
  have b: "fst x + snd x < p" if "p \<in> pages_of bs" for p
  proof -
    have "Suc (fst x + snd x) \<le> p"
      using assms by (intro pages_of_above [OF _ that]) (simp add: coalesced_Cons Suc_le_eq)
    then show ?thesis by simp
  qed
  show "fst x \<in> pages_of (x # bs)" using assms by (simp add: coalesced_Cons)
  show "fst x + snd x \<notin> pages_of (x # bs)" using b [of "fst x + snd x"] by auto
  show "fst x \<le> p" if "p \<in> pages_of (x # bs)" for p
    using that b [of p] by auto
qed

lemma coalesced_unique:
  "coalesced bs \<Longrightarrow> coalesced cs \<Longrightarrow> pages_of bs = pages_of cs \<Longrightarrow> bs = cs"
proof (induction bs arbitrary: cs)
  case Nil
  then show ?case using coalesced_hd_least(1) by (cases cs) (auto simp del: pages_of_simps(2))
next
  case (Cons x bs)
  have "pages_of cs \<noteq> {}" using coalesced_hd_least(1) [OF Cons.prems(1)] Cons.prems(3) by auto
  then obtain y cs' where cs: "cs = y # cs'" by (cases cs) auto
  note hx = coalesced_hd_least [OF Cons.prems(1)]
    and hy = coalesced_hd_least [OF Cons.prems(2) [unfolded cs]]
  have fst: "fst x = fst y"
    using hx(1,3) hy(1,3) Cons.prems(3) unfolding cs by (metis le_antisym)
  have "snd x = snd y"
  proof (rule ccontr)
    assume "snd x \<noteq> snd y"
    then consider "snd x < snd y" | "snd y < snd x" by linarith
    then show False
    proof cases
      case 1
      then have "fst x + snd x \<in> pages_of (y # cs')" using fst by simp
      then show False using hx(2) Cons.prems(3) unfolding cs by metis
    next
      case 2
      then have "fst y + snd y \<in> pages_of (x # bs)" using fst by simp
      then show False using hy(2) Cons.prems(3) unfolding cs by metis
    qed
  qed
  with fst have eq: "x = y" by (simp add: prod_eq_iff)
  have above: "{fst x..<fst x + snd x} \<inter> pages_of ds = {}" if "coalesced (x # ds)" for ds
  proof -
    have "fst x + snd x \<le> p" if "p \<in> pages_of ds" for p
      using \<open>coalesced (x # ds)\<close>
      by (intro pages_of_above [OF _ that]) (simp add: coalesced_Cons less_imp_le)
    then show ?thesis by (meson atLeastLessThan_iff disjoint_iff not_le)
  qed
  have "pages_of bs = pages_of cs'"
    using above [OF Cons.prems(1)] above [of cs'] Cons.prems unfolding cs eq by auto
  then show ?case using Cons.IH [of cs'] Cons.prems unfolding cs eq by (simp add: coalesced_Cons)
qed

lemma ff_alloc_free_roundtrip:
  assumes "coalesced bs" and "0 < n" and "ff_alloc n bs = Some (i, bs')"
  shows "ff_free i n bs' = bs"
proof (rule coalesced_unique)
  note p = ff_alloc_pages [OF assms(3) coalesced_wf [OF assms(1)]]
  have c: "coalesced bs'" by (rule ff_alloc_coalesced [OF assms(3,1)])
  have f: "fits_free i n bs'" using assms(2) p(2) by (auto simp: fits_free_def)
  show "coalesced (ff_free i n bs')" by (rule ff_free_coalesced [OF f c])
  show "pages_of (ff_free i n bs') = pages_of bs"
    using p by (auto simp: ff_free_pages [OF f coalesced_wf [OF c]])
qed (rule assms(1))

end
