(* ===== verification/DefaultPmm.thy ===== *)
theory DefaultPmm
  imports Machine Mmu CList FirstFit
begin

text \<open>
  kern/mm/default_pmm.c on the structures of kern/mm/memlayout.h: the first-fit physical page
  allocator. A \<open>struct Page *\<close> is its index in the array \<open>pages\<close>; the free list is the pointer
  structure of CList.thy whose nodes are the list head of \<open>free_area\<close> and the \<open>page_link\<close> fields.
  The insertion loop is written exactly as in the C code, including its continuing after an
  insertion at the end of the list.

  First part: the definitions. Second part: on a well-linked free list every operation implements
  the abstract allocator of FirstFit.thy. Third part: what the insertion loop does when the block
  goes to the end of a non-empty list (the new entry's \<open>prev\<close> points to itself).
\<close>

subsection \<open>State\<close>

record page =
  p_ref :: u32
  p_flags :: u64
  p_property :: u32

type_synonym pnode = "(unit, nat) lnode"

abbreviation FreeHead :: pnode where "FreeHead \<equiv> LHead ()"

abbreviation le2page :: "pnode \<Rightarrow> nat" where "le2page \<equiv> le2struct"

record pmm_state = machine +
  pages :: "nat \<Rightarrow> page"
  npage :: u64
  va_pa_offset :: u64
  free_list :: "pnode links"
  nr_free :: u32

definition PG_reserved :: nat where "PG_reserved = 0"
definition PG_property :: nat where "PG_property = 1"

definition SetPageReserved :: "page \<Rightarrow> page" where
  "SetPageReserved p = p\<lparr>p_flags := or_bit PG_reserved (p_flags p)\<rparr>"

definition ClearPageReserved :: "page \<Rightarrow> page" where
  "ClearPageReserved p = p\<lparr>p_flags := andnot_bit PG_reserved (p_flags p)\<rparr>"

definition PageReserved :: "page \<Rightarrow> bool" where
  "PageReserved p = test_bit_word PG_reserved (p_flags p)"

definition SetPageProperty :: "page \<Rightarrow> page" where
  "SetPageProperty p = p\<lparr>p_flags := or_bit PG_property (p_flags p)\<rparr>"

definition ClearPageProperty :: "page \<Rightarrow> page" where
  "ClearPageProperty p = p\<lparr>p_flags := andnot_bit PG_property (p_flags p)\<rparr>"

definition PageProperty :: "page \<Rightarrow> bool" where
  "PageProperty p = test_bit_word PG_property (p_flags p)"

subsection \<open>The operations of default_pmm.c\<close>

definition default_init :: "'z pmm_state_scheme \<Rightarrow> 'z pmm_state_scheme" where
  "default_init s = s\<lparr>free_list := list_init FreeHead (free_list s), nr_free := 0\<rparr>"

text \<open>The loop over the pages of the new block; the first argument is \<open>base + n - p\<close>.\<close>

fun init_memmap_pages :: "nat \<Rightarrow> nat \<Rightarrow> (nat \<Rightarrow> page) \<Rightarrow> (nat \<Rightarrow> page) run" where
  "init_memmap_pages 0 p pg = ret pg"
| "init_memmap_pages (Suc k) p pg =
     (if \<not> PageReserved (pg p) then panic ''assertion failed: PageReserved(p)''
      else init_memmap_pages k (Suc p)
             (pg(p := (pg p)\<lparr>p_flags := 0, p_property := 0, p_ref := 0\<rparr>)))"

text \<open>The search for the place of \<open>base\<close> in address order. After the insertion at the end
  there is no \<open>break\<close>: the loop goes on with the entry just inserted.\<close>

partial_function (option) insert_loop :: "nat \<Rightarrow> pnode \<Rightarrow> pnode links \<Rightarrow> pnode links option" where
  "insert_loop base le h =
     (let le' = list_next h le in
      if le' = FreeHead then Some h
      else if base < le2page le' then Some (list_add_before le' (Link base) h)
      else if list_next h le' = FreeHead then insert_loop base le' (list_add le' (Link base) h)
      else insert_loop base le' h)"

declare insert_loop.simps [code]

definition link_block :: "nat \<Rightarrow> pnode links \<Rightarrow> pnode links option" where
  "link_block base h =
     (if list_empty h FreeHead then Some (list_add FreeHead (Link base) h)
      else insert_loop base FreeHead h)"

text \<open>The head of a block gets its size and its flag.\<close>

definition set_block_head :: "nat \<Rightarrow> u64 \<Rightarrow> (nat \<Rightarrow> page) \<Rightarrow> nat \<Rightarrow> page" where
  "set_block_head base n pg = pg(base := SetPageProperty ((pg base)\<lparr>p_property := ucast n\<rparr>))"

definition default_init_memmap :: "nat \<Rightarrow> u64 \<Rightarrow> 'z pmm_state_scheme \<Rightarrow> 'z pmm_state_scheme run" where
  "default_init_memmap base n s =
     (if \<not> 0 < n then panic ''assertion failed: n > 0''
      else run_bind (init_memmap_pages (unat n) base (pages s)) (\<lambda>pg.
           run_bind (loop_run (link_block base (free_list s))) (\<lambda>h.
           ret (s\<lparr>pages := set_block_head base n pg, nr_free := nr_free s + ucast n,
                  free_list := h\<rparr>))))"

partial_function (option) first_fit_loop ::
  "u64 \<Rightarrow> (nat \<Rightarrow> page) \<Rightarrow> pnode links \<Rightarrow> pnode \<Rightarrow> nat option option" where
  "first_fit_loop n pg h le =
     (let le' = list_next h le in
      if le' = FreeHead then Some None
      else if n \<le> ucast (p_property (pg (le2page le'))) then Some (Some (le2page le'))
      else first_fit_loop n pg h le')"

declare first_fit_loop.simps [code]

text \<open>Take \<open>n\<close> pages off the block at \<open>page\<close>: unlink it and link what remains in its place.\<close>

definition take_block :: "nat \<Rightarrow> u64 \<Rightarrow> 'z pmm_state_scheme \<Rightarrow> 'z pmm_state_scheme" where
  "take_block page n s =
     (let prev = list_prev (free_list s) (Link page);
          h1 = list_del (Link page) (free_list s);
          size = p_property (pages s page);
          rest = page + unat n;
          (pg2, h2) =
            (if n < ucast size
             then ((pages s)(rest := SetPageProperty ((pages s rest)\<lparr>p_property := ucast (ucast size - n)\<rparr>)),
                   list_add prev (Link rest) h1)
             else (pages s, h1))
      in s\<lparr>pages := pg2(page := ClearPageProperty (pg2 page)), free_list := h2,
           nr_free := nr_free s - ucast n\<rparr>)"

definition default_alloc_pages ::
  "u64 \<Rightarrow> 'z pmm_state_scheme \<Rightarrow> (nat option \<times> 'z pmm_state_scheme) run" where
  "default_alloc_pages n s =
     (if \<not> 0 < n then panic ''assertion failed: n > 0''
      else if ucast (nr_free s) < n then ret (None, s)
      else run_bind (loop_run (first_fit_loop n (pages s) (free_list s) FreeHead)) (\<lambda>r.
           case r of None \<Rightarrow> ret (None, s)
           | Some page \<Rightarrow> ret (Some page, take_block page n s)))"

fun free_pages_loop :: "nat \<Rightarrow> nat \<Rightarrow> (nat \<Rightarrow> page) \<Rightarrow> (nat \<Rightarrow> page) run" where
  "free_pages_loop 0 p pg = ret pg"
| "free_pages_loop (Suc k) p pg =
     (if PageReserved (pg p) \<or> PageProperty (pg p)
      then panic ''assertion failed: !PageReserved(p) && !PageProperty(p)''
      else free_pages_loop k (Suc p) (pg(p := (pg p)\<lparr>p_flags := 0, p_ref := 0\<rparr>)))"

text \<open>The two merge steps at the end of \<open>default_free_pages\<close>; the first may move \<open>base\<close>.\<close>

definition merge_prev ::
  "nat \<Rightarrow> (nat \<Rightarrow> page) \<times> pnode links \<Rightarrow> nat \<times> (nat \<Rightarrow> page) \<times> pnode links" where
  "merge_prev base st =
     (let (pg, h) = st; le = list_prev h (Link base) in
      if le \<noteq> FreeHead \<and> le2page le + unat (p_property (pg (le2page le))) = base
      then (let p = le2page le;
                pg1 = pg(p := (pg p)\<lparr>p_property := p_property (pg p) + p_property (pg base)\<rparr>);
                pg2 = pg1(base := ClearPageProperty (pg1 base))
            in (p, pg2, list_del (Link base) h))
      else (base, pg, h))"

definition merge_next ::
  "nat \<Rightarrow> (nat \<Rightarrow> page) \<times> pnode links \<Rightarrow> (nat \<Rightarrow> page) \<times> pnode links" where
  "merge_next base st =
     (let (pg, h) = st; le = list_next h (Link base) in
      if le \<noteq> FreeHead \<and> base + unat (p_property (pg base)) = le2page le
      then (let p = le2page le;
                pg1 = pg(base := (pg base)\<lparr>p_property := p_property (pg base) + p_property (pg p)\<rparr>);
                pg2 = pg1(p := ClearPageProperty (pg1 p))
            in (pg2, list_del (Link p) h))
      else (pg, h))"

definition default_free_pages :: "nat \<Rightarrow> u64 \<Rightarrow> 'z pmm_state_scheme \<Rightarrow> 'z pmm_state_scheme run" where
  "default_free_pages base n s =
     (if \<not> 0 < n then panic ''assertion failed: n > 0''
      else run_bind (free_pages_loop (unat n) base (pages s)) (\<lambda>pg.
           run_bind (loop_run (link_block base (free_list s))) (\<lambda>h.
           (let (base', st) = merge_prev base (set_block_head base n pg, h);
                (pg', h') = merge_next base' st
            in ret (s\<lparr>pages := pg', free_list := h', nr_free := nr_free s + ucast n\<rparr>)))))"

definition default_nr_free_pages :: "'z pmm_state_scheme \<Rightarrow> u64" where
  "default_nr_free_pages s = ucast (nr_free s)"

subsection \<open>The free list as a list of blocks\<close>

abbreviation block_nodes :: "block list \<Rightarrow> pnode list" where
  "block_nodes bs \<equiv> map (\<lambda>x. Link (fst x)) bs"

text \<open>Inside free blocks exactly the first pages carry \<open>PG_property\<close>, none is reserved or
  referenced.\<close>

definition head_flags :: "page \<Rightarrow> bool \<Rightarrow> bool" where
  "head_flags p b \<longleftrightarrow> \<not> PageReserved p \<and> p_ref p = 0 \<and> (PageProperty p \<longleftrightarrow> b)"

definition flags_ok :: "(nat \<Rightarrow> page) \<Rightarrow> block list \<Rightarrow> bool" where
  "flags_ok pg bs \<longleftrightarrow> (\<forall>j\<in>pages_of bs. head_flags (pg j) (j \<in> fst ` set bs))"

definition rep_blocks :: "(nat \<Rightarrow> page) \<Rightarrow> pnode links \<Rightarrow> block list \<Rightarrow> bool" where
  "rep_blocks pg h bs \<longleftrightarrow>
     cdll h FreeHead (block_nodes bs) \<and> wf_blocks bs \<and>
     (\<forall>x\<in>set bs. unat (p_property (pg (fst x))) = snd x) \<and> flags_ok pg bs"

definition free_rel :: "'z pmm_state_scheme \<Rightarrow> block list \<Rightarrow> bool" where
  "free_rel s bs \<longleftrightarrow>
     rep_blocks (pages s) (free_list s) bs \<and> unat (nr_free s) = sum_list (map snd bs)"

text \<open>Pages a caller may hand to \<open>free_pages\<close>: neither reserved nor the head of a free block.\<close>

definition page_clear :: "page \<Rightarrow> bool" where
  "page_clear p \<longleftrightarrow> \<not> PageReserved p \<and> \<not> PageProperty p"

text \<open>A page as the allocator hands it out: moreover not referenced.\<close>

definition page_idle :: "page \<Rightarrow> bool" where
  "page_idle p \<longleftrightarrow> page_clear p \<and> p_ref p = 0"

lemma page_flag_simps [simp]:
  "PageReserved (SetPageProperty p) = PageReserved p"
  "PageReserved (ClearPageProperty p) = PageReserved p"
  "PageProperty (SetPageProperty p)"
  "\<not> PageProperty (ClearPageProperty p)"
  "PageReserved (p\<lparr>p_property := v\<rparr>) = PageReserved p"
  "PageProperty (p\<lparr>p_property := v\<rparr>) = PageProperty p"
  "PageReserved (p\<lparr>p_ref := r\<rparr>) = PageReserved p"
  "PageProperty (p\<lparr>p_ref := r\<rparr>) = PageProperty p"
  "\<not> PageReserved (p\<lparr>p_flags := 0\<rparr>)" "\<not> PageProperty (p\<lparr>p_flags := 0\<rparr>)"
  "p_ref (SetPageProperty p) = p_ref p" "p_ref (ClearPageProperty p) = p_ref p"
  "p_property (SetPageProperty p) = p_property p"
  "p_property (ClearPageProperty p) = p_property p"
  by (simp_all add: PageReserved_def PageProperty_def SetPageProperty_def ClearPageProperty_def
      PG_reserved_def PG_property_def)

lemma page_flag_updates [simp]:
  "head_flags (p\<lparr>p_property := v\<rparr>) b = head_flags p b"
  "page_idle (p\<lparr>p_property := v\<rparr>) = page_idle p"
  "page_clear (p\<lparr>p_property := v\<rparr>) = page_clear p"
  "head_flags (SetPageProperty p) b \<longleftrightarrow> b \<and> \<not> PageReserved p \<and> p_ref p = 0"
  "page_idle (ClearPageProperty p) \<longleftrightarrow> \<not> PageReserved p \<and> p_ref p = 0"
  by (auto simp: head_flags_def page_idle_def page_clear_def)

lemma block_nodes_split:
  "Link b \<in> set (block_nodes bs) \<longleftrightarrow> b \<in> fst ` set bs" "FreeHead \<notin> set (block_nodes bs)"
  by auto

lemma wf_blocks_less:
  assumes "wf_blocks (xs @ (b, n) # ys)"
  shows "\<forall>x\<in>set xs. fst x < b" and "\<forall>y\<in>set ys. b + n \<le> fst y \<and> b < fst y" and "0 < n"
    and "\<forall>x\<in>set (xs @ ys). fst x \<noteq> b"
proof -
  have all: "\<forall>x\<in>set xs. fst x + snd x \<le> b \<and> 0 < snd x" "\<forall>y\<in>set ys. b + n \<le> fst y" "0 < n"
    using assms by (auto simp: wf_blocks_def sorted_wrt_append)
  then show l: "\<forall>x\<in>set xs. fst x < b" by (meson add_lessD1 less_add_same_cancel1 less_le_trans)
  from all show r: "\<forall>y\<in>set ys. b + n \<le> fst y \<and> b < fst y" by (meson less_add_same_cancel1 less_le_trans)
  show "0 < n" by (rule all(3))
  show "\<forall>x\<in>set (xs @ ys). fst x \<noteq> b" using l r by auto
qed

lemma wf_blocks_middle_pages:
  assumes "wf_blocks (xs @ (b, n) # ys)" and "j \<in> pages_of (xs @ ys)"
  shows "j \<notin> {b..<b + n}"
proof
  assume j: "j \<in> {b..<b + n}"
  have "j < b" if "j \<in> pages_of xs"
    using assms(1) by (intro pages_of_below [OF _ that]) (simp add: blocks_simps)
  moreover have "b + n \<le> j" if "j \<in> pages_of ys"
    using assms(1) by (intro pages_of_above [OF _ that]) (simp add: blocks_simps)
  ultimately show False using assms(2) j by auto
qed

lemma block_node_fresh:
  assumes "wf_blocks (xs @ (b, n) # ys)"
  shows "Link b \<notin> set (FreeHead # block_nodes xs @ block_nodes ys)"
  using wf_blocks_less [OF assms] by fastforce

text \<open>Taking a block out of the list, putting one in, and enlarging one.\<close>

lemma rep_remove:
  assumes "rep_blocks pg h (xs @ (i, k) # ys)"
  shows "rep_blocks (pg(i := ClearPageProperty (pg i))) (list_del (Link i) h) (xs @ ys)"
    and "\<forall>j\<in>{i..<i + k}. page_idle ((pg(i := ClearPageProperty (pg i))) j)"
proof -
  let ?bs = "xs @ (i, k) # ys" and ?pg = "pg(i := ClearPageProperty (pg i))"
  have wf: "wf_blocks ?bs" and fl: "flags_ok pg ?bs"
    and sz: "\<forall>x\<in>set ?bs. unat (p_property (pg (fst x))) = snd x"
    and dll: "cdll h FreeHead (block_nodes xs @ Link i # block_nodes ys)"
    using assms by (simp_all add: rep_blocks_def)
  note lt = wf_blocks_less [OF wf]
  have ne: "j \<noteq> i" if "j \<in> pages_of (xs @ ys)" for j
    using wf_blocks_middle_pages [OF wf that] lt(3) by auto
  have "flags_ok ?pg (xs @ ys)"
    unfolding flags_ok_def
  proof
    fix j assume j: "j \<in> pages_of (xs @ ys)"
    have "j \<in> pages_of ?bs" using j by auto
    then have "head_flags (pg j) (j \<in> fst ` set ?bs)"
      using fl unfolding flags_ok_def by blast
    with ne [OF j] show "head_flags (?pg j) (j \<in> fst ` set (xs @ ys))"
      by auto
  qed
  moreover have "\<forall>x\<in>set (xs @ ys). unat (p_property (?pg (fst x))) = snd x"
    using sz by auto
  moreover have "wf_blocks (xs @ ys)" using wf by (simp add: blocks_simps)
  ultimately show "rep_blocks ?pg (list_del (Link i) h) (xs @ ys)"
    using cdll_del [OF dll] by (simp add: rep_blocks_def)
  show "\<forall>j\<in>{i..<i + k}. page_idle (?pg j)"
  proof
    fix j assume j: "j \<in> {i..<i + k}"
    then have "j \<in> pages_of ?bs" by auto
    then have f: "head_flags (pg j) (j \<in> fst ` set ?bs)"
      using fl unfolding flags_ok_def by blast
    have "j \<notin> fst ` set (xs @ ys)" using lt j by fastforce
    with f show "page_idle (?pg j)" by (auto simp: page_idle_def page_clear_def head_flags_def)
  qed
qed

lemma rep_insert:
  assumes "rep_blocks pg h0 (xs @ ys)" and "wf_blocks (xs @ (b, n) # ys)"
    and "\<forall>j\<in>{b..<b + n}. page_idle (pg j)"
    and "head_flags p True" and "unat (p_property p) = n"
    and "cdll h FreeHead (block_nodes (xs @ (b, n) # ys))"
  shows "rep_blocks (pg(b := p)) h (xs @ (b, n) # ys)"
proof -
  let ?bs = "xs @ (b, n) # ys"
  have fl: "flags_ok pg (xs @ ys)" and sz: "\<forall>x\<in>set (xs @ ys). unat (p_property (pg (fst x))) = snd x"
    using assms(1) by (simp_all add: rep_blocks_def)
  note lt = wf_blocks_less [OF assms(2)]
  have "flags_ok (pg(b := p)) ?bs"
    unfolding flags_ok_def
  proof
    fix j assume j: "j \<in> pages_of ?bs"
    show "head_flags ((pg(b := p)) j) (j \<in> fst ` set ?bs)"
    proof (cases "j \<in> {b..<b + n}")
      case True
      have "j \<notin> fst ` set (xs @ ys)" using lt True by fastforce
      with True assms(3,4) show ?thesis by (auto simp: page_idle_def page_clear_def head_flags_def)
    next
      case False
      then have "j \<in> pages_of (xs @ ys)" "j \<noteq> b" using j lt(3) by auto
      then have "head_flags (pg j) (j \<in> fst ` set (xs @ ys))"
        using fl unfolding flags_ok_def by blast
      with \<open>j \<noteq> b\<close> show ?thesis by auto
    qed
  qed
  moreover have "\<forall>x\<in>set ?bs. unat (p_property ((pg(b := p)) (fst x))) = snd x"
    using sz lt(4) assms(5) by auto
  ultimately show ?thesis using assms(2,6) by (simp add: rep_blocks_def)
qed

lemma rep_grow:
  assumes "rep_blocks pg h (xs @ (b, k) # ys)" and "wf_blocks (xs @ (b, k + m) # ys)"
    and "\<forall>j\<in>{b + k..<b + k + m}. page_idle (pg j)" and "unat v = k + m"
  shows "rep_blocks (pg(b := (pg b)\<lparr>p_property := v\<rparr>)) h (xs @ (b, k + m) # ys)"
proof -
  let ?bs = "xs @ (b, k) # ys" and ?bs' = "xs @ (b, k + m) # ys"
    and ?pg = "pg(b := (pg b)\<lparr>p_property := v\<rparr>)"
  have fl: "flags_ok pg ?bs" and sz: "\<forall>x\<in>set ?bs. unat (p_property (pg (fst x))) = snd x"
    and dll: "cdll h FreeHead (block_nodes ?bs)"
    using assms(1) by (simp_all add: rep_blocks_def)
  note lt = wf_blocks_less [OF assms(2)]
  have "flags_ok ?pg ?bs'"
    unfolding flags_ok_def
  proof
    fix j assume j: "j \<in> pages_of ?bs'"
    have "head_flags (pg j) (j \<in> fst ` set ?bs)"
    proof (cases "j \<in> {b + k..<b + k + m}")
      case True
      moreover have "0 < k" using assms(1) by (simp add: rep_blocks_def blocks_simps)
      ultimately have "j \<notin> fst ` set ?bs" using lt by fastforce
      with True assms(3) show ?thesis by (simp add: page_idle_def page_clear_def head_flags_def)
    next
      case False
      then have "j \<in> pages_of ?bs" using j by auto
      then show ?thesis using fl unfolding flags_ok_def by blast
    qed
    then show "head_flags (?pg j) (j \<in> fst ` set ?bs')"
      by auto
  qed
  moreover have "\<forall>x\<in>set ?bs'. unat (p_property (?pg (fst x))) = snd x"
    using sz lt(4) assms(4) by auto
  ultimately show ?thesis using assms(2) dll by (simp add: rep_blocks_def)
qed

subsection \<open>Allocation implements the abstract first fit\<close>

lemma first_fit_loop_spec:
  assumes "npath h le (block_nodes bs) FreeHead"
    and "\<forall>x\<in>set bs. unat (p_property (pg (fst x))) = snd x"
  shows "first_fit_loop n pg h le = Some (map_option fst (ff_alloc (unat n) bs))"
  using assms
proof (induction bs arbitrary: le)
  case Nil
  then show ?case by (subst first_fit_loop.simps) simp
next
  case (Cons x bs)
  obtain i k where x: "x = (i, k)" by (cases x)
  have "n \<le> ucast (p_property (pg i)) \<longleftrightarrow> unat n \<le> k"
    using Cons.prems(2) by (simp add: x word_le_nat_alt)
  then show ?case using Cons.prems Cons.IH [of "Link i"]
    by (subst first_fit_loop.simps)
      (auto simp: x option.map_comp comp_def case_prod_beta intro!: option.map_cong)
qed

lemma take_block_rep:
  assumes "rep_blocks (pages s) (free_list s) (xs @ (i, k) # ys)" and "0 < unat n" and "unat n \<le> k"
  defines "t \<equiv> take_block i n s"
  shows "rep_blocks (pages t) (free_list t)
           (xs @ (if unat n < k then (i + unat n, k - unat n) # ys else ys))" (is ?rep)
    and "\<forall>j\<in>{i..<i + unat n}. page_idle (pages t j)" (is ?clear)
proof -
  let ?m = "unat n" and ?h = "free_list s" and ?pg = "pages s"
  let ?pg1 = "?pg(i := ClearPageProperty (?pg i))" and ?h1 = "list_del (Link i) ?h"
  note rm = rep_remove [OF assms(1)]
  have wf: "wf_blocks (xs @ (i, k) # ys)" and size: "unat (p_property (?pg i)) = k"
    and dll: "cdll ?h FreeHead (block_nodes xs @ Link i # block_nodes ys)"
    using assms(1) by (auto simp: rep_blocks_def)
  have small: "n < ucast (p_property (?pg i)) \<longleftrightarrow> ?m < k" using size by (simp add: word_less_nat_alt)
  show ?rep
  proof (cases "?m < k")
    case True
    let ?p = "SetPageProperty ((?pg (i + ?m))\<lparr>p_property := ucast (ucast (p_property (?pg i)) - n)\<rparr>)"
    have "unat (ucast (p_property (?pg i)) - n) = k - ?m" using True size by (simp add: unat_sub_if')
    then have rest: "unat (p_property ?p) = k - ?m"
      using unat_less_u32 [of "p_property (?pg i)"] size by (simp add: unat_ucast_u64_u32)
    have "\<forall>x\<in>set xs. fst x + snd x \<le> i + ?m"
      using wf by (auto simp: blocks_simps intro: trans_le_add1)
    then have wf': "wf_blocks (xs @ (i + ?m, k - ?m) # ys)"
      using wf True by (simp add: blocks_simps)
    have dll': "cdll (list_add (list_prev ?h (Link i)) (Link (i + ?m)) ?h1) FreeHead
        (block_nodes (xs @ (i + ?m, k - ?m) # ys))"
      using cdll_add_after [OF cdll_del [OF dll] block_node_fresh [OF wf'] cdll_prev [OF dll]] by simp
    have "page_idle (?pg1 (i + ?m))" using True by (intro rm(2) [rule_format]) simp
    then have "head_flags ?p True" using assms(2) by (simp add: page_idle_def page_clear_def head_flags_def)
    from rep_insert [OF rm(1) wf' _ this rest dll']
    have "rep_blocks (?pg1(i + ?m := ?p)) (list_add (list_prev ?h (Link i)) (Link (i + ?m)) ?h1)
        (xs @ (i + ?m, k - ?m) # ys)" using rm(2) True by simp
    moreover have "pages t = ?pg1(i + ?m := ?p)"
      using True small assms(2) by (auto simp: t_def take_block_def Let_def fun_eq_iff)
    moreover have "free_list t = list_add (list_prev ?h (Link i)) (Link (i + ?m)) ?h1"
      using True small by (simp add: t_def take_block_def Let_def)
    ultimately show ?thesis using True by simp
  next
    case False
    then show ?thesis using rm(1) small by (simp add: t_def take_block_def Let_def)
  qed
  show ?clear
  proof
    fix j assume j: "j \<in> {i..<i + ?m}"
    then have "pages t j = ?pg1 j" by (auto simp: t_def take_block_def Let_def)
    then show "page_idle (pages t j)" using rm(2) j assms(3) by simp
  qed
qed

lemma take_block_nr_free:
  assumes "free_rel s (xs @ (i, k) # ys)" and "unat n \<le> k"
  shows "unat (nr_free (take_block i n s)) =
    sum_list (map snd (xs @ (if unat n < k then (i + unat n, k - unat n) # ys else ys)))"
proof -
  have sum: "unat (nr_free s) = sum_list (map snd (xs @ (i, k) # ys))"
    using assms(1) by (simp add: free_rel_def)
  then have "unat n < 2 ^ 32" using assms(2) unat_less_u32 [of "nr_free s"] by simp
  then have "unat (ucast n :: u32) = unat n" by (rule unat_ucast_u64_u32)
  then have "unat (nr_free s - ucast n) = unat (nr_free s) - unat n"
    using sum assms(2) by (simp add: unat_sub_if')
  moreover have "nr_free (take_block i n s) = nr_free s - ucast n"
    by (simp add: take_block_def Let_def case_prod_beta)
  ultimately show ?thesis using sum assms(2) by simp
qed

lemma default_alloc_pages_spec:
  assumes "free_rel s bs" and "0 < n"
  shows "default_alloc_pages n s =
    ret (case ff_alloc (unat n) bs of None \<Rightarrow> (None, s) | Some (i, _) \<Rightarrow> (Some i, take_block i n s))"
proof -
  have rep: "rep_blocks (pages s) (free_list s) bs" and sum: "unat (nr_free s) = sum_list (map snd bs)"
    using assms(1) by (simp_all add: free_rel_def)
  have np: "npath (free_list s) FreeHead (block_nodes bs) FreeHead"
    using rep by (simp add: rep_blocks_def cdll_npath)
  show ?thesis
  proof (cases "ucast (nr_free s) < n")
    case True
    then have "sum_list (map snd bs) < unat n" using sum by (simp add: word_less_nat_alt)
    then have "\<forall>x\<in>set bs. snd x < unat n"
      using member_le_sum_list [of _ "map snd bs"] by fastforce
    with True assms(2) show ?thesis
      by (simp add: default_alloc_pages_def ff_alloc_None_iff [THEN iffD2])
  next
    case False
    have "\<forall>x\<in>set bs. unat (p_property (pages s (fst x))) = snd x"
      using rep by (simp add: rep_blocks_def)
    from first_fit_loop_spec [OF np this] False assms(2) show ?thesis
      by (auto simp: default_alloc_pages_def split: option.splits)
  qed
qed

lemma default_alloc_pages_Some:
  assumes "free_rel s bs" and "0 < n" and "ff_alloc (unat n) bs = Some (i, bs')"
  shows "free_rel (take_block i n s) bs'"
    and "\<forall>j\<in>{i..<i + unat n}. page_idle (pages (take_block i n s) j)"
proof -
  obtain xs k ys where s: "bs = xs @ (i, k) # ys" "unat n \<le> k"
    "bs' = xs @ (if unat n < k then (i + unat n, k - unat n) # ys else ys)"
    using assms(3) by (elim ff_alloc_SomeE)
  have pos: "0 < unat n" using assms(2) by (simp add: unat_gt_0_u64)
  have rep: "rep_blocks (pages s) (free_list s) (xs @ (i, k) # ys)"
    using assms(1) s(1) by (simp add: free_rel_def)
  show "free_rel (take_block i n s) bs'"
    using take_block_rep(1) [OF rep pos s(2)] take_block_nr_free [of s xs i k ys n] assms(1) s
    by (simp add: free_rel_def)
  show "\<forall>j\<in>{i..<i + unat n}. page_idle (pages (take_block i n s) j)"
    by (rule take_block_rep(2) [OF rep pos s(2)])
qed

subsection \<open>Insertion into the free list\<close>

lemma insert_loop_before:
  assumes "npath h le (block_nodes (xs @ y # ys)) FreeHead"
    and "\<forall>x\<in>set xs. fst x < b" and "b < fst y"
  shows "insert_loop b le h = Some (list_add_before (Link (fst y)) (Link b) h)"
  using assms
proof (induction xs arbitrary: le)
  case Nil
  then show ?case by (subst insert_loop.simps) simp
next
  case (Cons x xs)
  have "list_next h (Link (fst x)) \<noteq> FreeHead"
    using Cons.prems(1) by (cases xs) auto
  then show ?case using Cons.prems Cons.IH [of "Link (fst x)"]
    by (subst insert_loop.simps) simp
qed

text \<open>At the end of a non-empty list the loop does not stop after the insertion: it visits the new
  entry and inserts it once more, after itself.\<close>

lemma insert_loop_tail:
  assumes "npath h le (block_nodes (xs @ [z])) FreeHead" and "\<forall>x\<in>set (xs @ [z]). fst x < b"
  shows "insert_loop b le h =
    Some (list_add (Link b) (Link b) (list_add (Link (fst z)) (Link b) h))"
  using assms
proof (induction xs arbitrary: le)
  case Nil
  then show ?case
    by (subst insert_loop.simps, simp, subst insert_loop.simps,
        simp add: list_add_def list_add_after_def link_simps, subst insert_loop.simps,
        simp add: list_add_def list_add_after_def link_simps Let_def)
next
  case (Cons x xs)
  have "list_next h (Link (fst x)) \<noteq> FreeHead"
    using Cons.prems(1) by (cases xs) auto
  then show ?case using Cons.prems Cons.IH [of "Link (fst x)"]
    by (subst insert_loop.simps) simp
qed

text \<open>The free list is empty or some free block lies above \<open>b\<close>: the insertion is correct.\<close>

definition insert_ok :: "nat \<Rightarrow> block list \<Rightarrow> bool" where
  "insert_ok b bs \<longleftrightarrow> bs = [] \<or> (\<exists>x\<in>set bs. b < fst x)"

lemma link_block_spec:
  assumes "cdll h FreeHead (block_nodes (xs @ ys))" and "wf_blocks (xs @ (b, n) # ys)"
    and "insert_ok b (xs @ ys)"
  obtains h' where "link_block b h = Some h'" "cdll h' FreeHead (block_nodes (xs @ (b, n) # ys))"
proof (cases "xs @ ys = []")
  case True
  then have "list_empty h FreeHead" using cdll_empty_iff [OF assms(1)] by simp
  moreover have "cdll (list_add FreeHead (Link b) h) FreeHead (block_nodes (xs @ (b, n) # ys))"
    using cdll_add_after [of h FreeHead "[]" "[]" "Link b" FreeHead] assms(1) True by simp
  ultimately show ?thesis using that by (simp add: link_block_def)
next
  case False
  have ne: "\<not> list_empty h FreeHead" using cdll_empty_iff [OF assms(1)] False by simp
  note lt = wf_blocks_less [OF assms(2)]
  obtain y ys' where ys: "ys = y # ys'"
    using assms(3) False lt(1) unfolding insert_ok_def by (cases ys) (auto dest: less_asym)
  have "insert_loop b FreeHead h = Some (list_add_before (Link (fst y)) (Link b) h)"
    using cdll_npath [OF assms(1)] lt ys by (intro insert_loop_before) auto
  moreover have "cdll (list_add_before (Link (fst y)) (Link b) h) FreeHead
      (block_nodes xs @ Link b # block_nodes ys)"
    using assms(1) block_node_fresh [OF assms(2)] ys
    by (intro cdll_add_before) simp_all
  ultimately show ?thesis using that ne by (simp add: link_block_def)
qed

subsection \<open>Release implements the abstract release\<close>

lemma free_pages_loop_spec:
  assumes "\<forall>j\<in>{p..<p + k}. page_clear (pg j)"
  shows "free_pages_loop k p pg =
    ret (\<lambda>j. if j \<in> {p..<p + k} then (pg j)\<lparr>p_flags := 0, p_ref := 0\<rparr> else pg j)"
  using assms
proof (induction k arbitrary: p pg)
  case (Suc k)
  let ?pg = "pg(p := (pg p)\<lparr>p_flags := 0, p_ref := 0\<rparr>)"
  have "page_clear (pg p)" using Suc.prems by simp
  moreover have "\<forall>j\<in>{Suc p..<Suc p + k}. page_clear (?pg j)" using Suc.prems by simp
  note ih = Suc.IH [OF this]
  have "(\<lambda>j. if j \<in> {Suc p..<Suc p + k} then (?pg j)\<lparr>p_flags := 0, p_ref := 0\<rparr> else ?pg j) =
      (\<lambda>j. if j \<in> {p..<p + Suc k} then (pg j)\<lparr>p_flags := 0, p_ref := 0\<rparr> else pg j)"
    by (auto simp: fun_eq_iff)
  with ih have "free_pages_loop k (Suc p) ?pg = ret (\<lambda>j. if j \<in> {p..<p + Suc k}
      then (pg j)\<lparr>p_flags := 0, p_ref := 0\<rparr> else pg j)" by (simp only:)
  ultimately show ?case by (simp add: page_clear_def)
qed simp

lemma merge_prev_spec:
  assumes "rep_blocks pg h (xs @ (b, n) # ys)"
    and "sum_list (map snd (xs @ (b, n) # ys)) < 2 ^ 32"
    and "join_left xs (b, n) = (xs', x)"
  obtains pg' h' where "merge_prev b (pg, h) = (fst x, pg', h')" "rep_blocks pg' h' (xs' @ x # ys)"
proof -
  have wf: "wf_blocks (xs @ (b, n) # ys)" and dll: "cdll h FreeHead (block_nodes xs @ Link b # block_nodes ys)"
    and sz: "\<forall>x\<in>set (xs @ (b, n) # ys). unat (p_property (pg (fst x))) = snd x"
    using assms(1) by (simp_all add: rep_blocks_def)
  have prev: "list_prev h (Link b) = last (FreeHead # block_nodes xs)"
    by (rule cdll_prev [OF dll])
  show ?thesis
  proof (cases rule: join_left_cases [of xs "(b, n)"])
    case apart
    have "merge_prev b (pg, h) = (b, pg, h)"
      using apart(2) prev sz by (cases xs rule: rev_cases) (auto simp: merge_prev_def Let_def)
    with apart assms(1,3) show ?thesis using that by auto
  next
    case (joined ws w)
    let ?pg1 = "pg(b := ClearPageProperty (pg b))" and ?v = "p_property (pg (fst w)) + p_property (pg b)"
    have wb: "fst w \<noteq> b" using wf_blocks_less(4) [OF wf] joined(1) by simp
    have v: "unat ?v = snd w + n"
      using sz assms(2) joined(1) by (subst unat_add_u32) auto
    have rm: "rep_blocks ?pg1 (list_del (Link b) h) (ws @ (fst w, snd w) # ys)"
      "\<forall>j\<in>{fst w + snd w..<fst w + snd w + n}. page_idle (?pg1 j)"
      using rep_remove [OF assms(1)] joined(1,2) by simp_all
    have wf': "wf_blocks (ws @ (fst w, snd w + n) # ys)"
      using wf joined(1,2) by (auto simp: blocks_simps)
    have "merge_prev b (pg, h) = (fst w, ?pg1(fst w := (?pg1 (fst w))\<lparr>p_property := ?v\<rparr>), list_del (Link b) h)"
      using joined(1,2) prev sz wb by (auto simp: merge_prev_def Let_def fun_eq_iff)
    moreover have "x = (fst w, snd w + n)" "xs' = ws" using joined(3) assms(3) by simp_all
    ultimately show ?thesis using rep_grow [OF rm(1) wf' rm(2) v] that by (simp del: fun_upd_apply)
  qed
qed

lemma merge_next_spec:
  assumes "rep_blocks pg h (xs @ x # ys)"
    and "sum_list (map snd (xs @ x # ys)) < 2 ^ 32"
  obtains pg' h' where "merge_next (fst x) (pg, h) = (pg', h')" "rep_blocks pg' h' (xs @ join_right x ys)"
proof -
  have wf: "wf_blocks (xs @ x # ys)" and dll: "cdll h FreeHead (block_nodes xs @ Link (fst x) # block_nodes ys)"
    and sz: "\<forall>y\<in>set (xs @ x # ys). unat (p_property (pg (fst y))) = snd y"
    using assms(1) by (simp_all add: rep_blocks_def)
  have nx: "list_next h (Link (fst x)) = hd (block_nodes ys @ [FreeHead])"
    by (rule cdll_next [OF dll])
  show ?thesis
  proof (cases "ys \<noteq> [] \<and> fst x + snd x = fst (hd ys)")
    case False
    then have "merge_next (fst x) (pg, h) = (pg, h)" "join_right x ys = x # ys"
      using nx sz by (cases ys; auto simp: merge_next_def join_right_def Let_def)+
    with assms(1) show ?thesis using that by simp
  next
    case True
    then obtain y ys' where ys: "ys = y # ys'" "fst x + snd x = fst y" by (cases ys) auto
    let ?pg1 = "pg(fst y := ClearPageProperty (pg (fst y)))"
      and ?v = "p_property (pg (fst x)) + p_property (pg (fst y))"
    have ne: "fst x \<noteq> fst y" using wf ys by (simp add: blocks_simps)
    have v: "unat ?v = snd x + snd y"
      using sz assms(2) ys(1) by (subst unat_add_u32) auto
    have "rep_blocks pg h ((xs @ [x]) @ (fst y, snd y) # ys')" using assms(1) ys(1) by simp
    from rep_remove [OF this]
    have rm: "rep_blocks ?pg1 (list_del (Link (fst y)) h) (xs @ (fst x, snd x) # ys')"
      "\<forall>j\<in>{fst x + snd x..<fst x + snd x + snd y}. page_idle (?pg1 j)"
      using ys(2) by simp_all
    have wf': "wf_blocks (xs @ (fst x, snd x + snd y) # ys')"
      using wf ys by (auto simp: blocks_simps)
    have "merge_next (fst x) (pg, h) =
        (?pg1(fst x := (?pg1 (fst x))\<lparr>p_property := ?v\<rparr>), list_del (Link (fst y)) h)"
      using ys nx sz ne by (auto simp: merge_next_def Let_def fun_eq_iff)
    moreover have "join_right x ys = (fst x, snd x + snd y) # ys'"
      using ys by (simp add: join_right_def)
    ultimately show ?thesis using rep_grow [OF rm(1) wf' rm(2) v] that by (simp del: fun_upd_apply)
  qed
qed

text \<open>The state after the loop, the linking and the setting of the head, before the merges.\<close>

lemma rep_link_block:
  assumes "rep_blocks pg h (xs @ ys)" and "wf_blocks (xs @ (b, unat n) # ys)"
    and "\<forall>j\<in>{b..<b + unat n}. page_clear (pg j)" and "unat n < 2 ^ 32" and "insert_ok b (xs @ ys)"
  obtains pg1 h' where "free_pages_loop (unat n) b pg = ret pg1" "link_block b h = Some h'"
    "rep_blocks (set_block_head b n pg1) h' (xs @ (b, unat n) # ys)"
proof -
  let ?pg1 = "\<lambda>j. if j \<in> {b..<b + unat n} then (pg j)\<lparr>p_flags := 0, p_ref := 0\<rparr> else pg j"
  have dll: "cdll h FreeHead (block_nodes (xs @ ys))" using assms(1) by (simp add: rep_blocks_def)
  obtain h' where h': "link_block b h = Some h'" "cdll h' FreeHead (block_nodes (xs @ (b, unat n) # ys))"
    using link_block_spec [OF dll assms(2,5)] .
  note lt = wf_blocks_less [OF assms(2)]
  have out: "j \<notin> {b..<b + unat n}" if "j \<in> pages_of (xs @ ys)" for j
    by (rule wf_blocks_middle_pages [OF assms(2) that])
  have "fst x \<notin> {b..<b + unat n}" if "x \<in> set (xs @ ys)" for x
    using that lt(1,2) by fastforce
  then have "rep_blocks ?pg1 h (xs @ ys)"
    using assms(1) out by (auto simp: rep_blocks_def flags_ok_def)
  moreover have "\<forall>j\<in>{b..<b + unat n}. page_idle (?pg1 j)" by (simp add: page_idle_def page_clear_def)
  moreover have "head_flags (SetPageProperty ((?pg1 b)\<lparr>p_property := ucast n\<rparr>)) True"
    using lt(3) by simp
  moreover have "unat (p_property (SetPageProperty ((?pg1 b)\<lparr>p_property := ucast n\<rparr>))) = unat n"
    using assms(4) by (simp add: unat_ucast_u64_u32)
  ultimately have "rep_blocks (set_block_head b n ?pg1) h' (xs @ (b, unat n) # ys)"
    unfolding set_block_head_def using assms(2) h'(2) by (intro rep_insert) assumption+
  with free_pages_loop_spec [OF assms(3)] h'(1) that show ?thesis by blast
qed

lemma default_free_pages_spec:
  assumes "free_rel s bs" and "0 < n" and "fits_free b (unat n) bs"
    and "\<forall>j\<in>{b..<b + unat n}. page_clear (pages s j)"
    and "insert_ok b bs" and "sum_list (map snd bs) + unat n < 2 ^ 32"
  obtains s' where "default_free_pages b n s = ret s'" "free_rel s' (ff_free b (unat n) bs)"
proof -
  let ?m = "unat n"
  have rep: "rep_blocks (pages s) (free_list s) bs" and nfree: "unat (nr_free s) = sum_list (map snd bs)"
    using assms(1) by (simp_all add: free_rel_def)
  then have wf: "wf_blocks bs" by (simp add: rep_blocks_def)
  obtain xs ys where s: "bs = xs @ ys" "xs = takeWhile (\<lambda>x. fst x < b) bs" "ys = dropWhile (\<lambda>x. fst x < b) bs"
    "\<forall>x\<in>set xs. fst x + snd x \<le> b" "\<forall>y\<in>set ys. b + ?m \<le> fst y"
    using fits_free_split [OF assms(3) wf] .
  have wf1: "wf_blocks (xs @ (b, ?m) # ys)"
    using wf s(1,4,5) assms(3) by (auto simp: blocks_simps fits_free_def)
  have small: "?m < 2 ^ 32" using assms(6) by simp
  obtain pg1 h1 where st: "free_pages_loop ?m b (pages s) = ret pg1" "link_block b (free_list s) = Some h1"
    and rep1: "rep_blocks (set_block_head b n pg1) h1 (xs @ (b, ?m) # ys)"
    using rep_link_block [of "pages s" "free_list s" xs ys b n] rep wf1 assms(4,5) small s(1) by blast
  obtain xs' x where jl: "join_left xs (b, ?m) = (xs', x)" by (cases "join_left xs (b, ?m)")
  have sum1: "sum_list (map snd (xs @ (b, ?m) # ys)) < 2 ^ 32" using assms(6) s(1) by simp
  obtain pg2 h2 where mp: "merge_prev b (set_block_head b n pg1, h1) = (fst x, pg2, h2)"
    and rep2: "rep_blocks pg2 h2 (xs' @ x # ys)"
    using merge_prev_spec [OF rep1 sum1 jl] .
  have sum2: "sum_list (map snd (xs' @ x # ys)) = sum_list (map snd bs) + ?m"
    using jl s(1) by (cases rule: join_left_cases [of xs "(b, ?m)"]) auto
  obtain pg3 h3 where mn: "merge_next (fst x) (pg2, h2) = (pg3, h3)"
    and rep3: "rep_blocks pg3 h3 (xs' @ join_right x ys)"
    using merge_next_spec [OF rep2] sum2 assms(6) by auto
  let ?s = "s\<lparr>pages := pg3, free_list := h3, nr_free := nr_free s + ucast n\<rparr>"
  have ff: "ff_free b ?m bs = xs' @ join_right x ys"
    by (simp add: ff_free_def Let_def s(2,3) [symmetric] jl)
  have "unat (nr_free s + ucast n) = sum_list (map snd (ff_free b ?m bs))"
    using nfree assms(6) small ff_free_sum [OF assms(3) wf]
    by (subst unat_add_u32) (simp_all add: unat_ucast_u64_u32)
  then have "free_rel ?s (ff_free b ?m bs)" using rep3 by (simp add: free_rel_def ff)
  moreover have "default_free_pages b n s = ret ?s"
    using assms(2) by (simp add: default_free_pages_def st mp mn)
  ultimately show ?thesis using that by blast
qed

subsection \<open>Initialisation\<close>

lemma default_init_rel: "free_rel (default_init s) []"
  by (simp add: default_init_def free_rel_def rep_blocks_def flags_ok_def cdll_init)

lemma init_memmap_pages_spec:
  assumes "\<forall>j\<in>{p..<p + k}. PageReserved (pg j)"
  shows "init_memmap_pages k p pg =
    ret (\<lambda>j. if j \<in> {p..<p + k} then (pg j)\<lparr>p_flags := 0, p_property := 0, p_ref := 0\<rparr> else pg j)"
  using assms
proof (induction k arbitrary: p pg)
  case (Suc k)
  let ?pg = "pg(p := (pg p)\<lparr>p_flags := 0, p_property := 0, p_ref := 0\<rparr>)"
  have "PageReserved (pg p)" using Suc.prems by simp
  moreover have "\<forall>j\<in>{Suc p..<Suc p + k}. PageReserved (?pg j)" using Suc.prems by simp
  note ih = Suc.IH [OF this]
  have "(\<lambda>j. if j \<in> {Suc p..<Suc p + k} then (?pg j)\<lparr>p_flags := 0, p_property := 0, p_ref := 0\<rparr> else ?pg j) =
      (\<lambda>j. if j \<in> {p..<p + Suc k} then (pg j)\<lparr>p_flags := 0, p_property := 0, p_ref := 0\<rparr> else pg j)"
    by (auto simp: fun_eq_iff)
  with ih have "init_memmap_pages k (Suc p) ?pg = ret (\<lambda>j. if j \<in> {p..<p + Suc k}
      then (pg j)\<lparr>p_flags := 0, p_property := 0, p_ref := 0\<rparr> else pg j)" by (simp only:)
  ultimately show ?case by simp
qed simp

lemma default_init_memmap_spec:
  assumes "free_rel s (xs @ ys)" and "0 < n" and "wf_blocks (xs @ (b, unat n) # ys)"
    and "\<forall>j\<in>{b..<b + unat n}. PageReserved (pages s j)"
    and "insert_ok b (xs @ ys)" and "sum_list (map snd (xs @ ys)) + unat n < 2 ^ 32"
  obtains s' where "default_init_memmap b n s = ret s'" "free_rel s' (xs @ (b, unat n) # ys)"
proof -
  let ?m = "unat n"
  let ?pg1 = "\<lambda>j. if j \<in> {b..<b + ?m} then (pages s j)\<lparr>p_flags := 0, p_property := 0, p_ref := 0\<rparr>
      else pages s j"
  have rep: "rep_blocks (pages s) (free_list s) (xs @ ys)"
    and nfree: "unat (nr_free s) = sum_list (map snd (xs @ ys))"
    using assms(1) by (simp_all add: free_rel_def)
  obtain h' where h': "link_block b (free_list s) = Some h'"
    "cdll h' FreeHead (block_nodes (xs @ (b, ?m) # ys))"
    using link_block_spec [OF _ assms(3,5), of "free_list s"] rep by (auto simp: rep_blocks_def)
  note lt = wf_blocks_less [OF assms(3)]
  have out: "j \<notin> {b..<b + ?m}" if "j \<in> pages_of (xs @ ys)" for j
    by (rule wf_blocks_middle_pages [OF assms(3) that])
  have "fst x \<notin> {b..<b + ?m}" if "x \<in> set (xs @ ys)" for x
    using that lt(1,2) by fastforce
  then have "rep_blocks ?pg1 (free_list s) (xs @ ys)"
    using rep out by (auto simp: rep_blocks_def flags_ok_def)
  moreover have "\<forall>j\<in>{b..<b + ?m}. page_idle (?pg1 j)" by (simp add: page_idle_def page_clear_def)
  moreover have small: "?m < 2 ^ 32" using assms(6) by simp
  ultimately have "rep_blocks (set_block_head b n ?pg1) h' (xs @ (b, ?m) # ys)"
    unfolding set_block_head_def using assms(3) h'(2) lt(3)
    by (intro rep_insert) (simp_all add: unat_ucast_u64_u32)
  moreover have "unat (nr_free s + ucast n) = sum_list (map snd (xs @ (b, ?m) # ys))"
    using nfree assms(6) small by (subst unat_add_u32) (simp_all add: unat_ucast_u64_u32)
  moreover have "default_init_memmap b n s =
      ret (s\<lparr>pages := set_block_head b n ?pg1, nr_free := nr_free s + ucast n, free_list := h'\<rparr>)"
    using assms(2) h'(1) by (simp add: default_init_memmap_def init_memmap_pages_spec [OF assms(4)])
  ultimately show ?thesis using that by (simp add: free_rel_def)
qed

subsection \<open>Frame: what the operations leave alone\<close>

lemma take_block_frame:
  "\<exists>pg h m. take_block i n s = s\<lparr>pages := pg, free_list := h, nr_free := m\<rparr>"
  unfolding take_block_def Let_def by (auto split: prod.split)

lemma default_free_pages_frame:
  assumes "default_free_pages b n s = ret s'"
  shows "\<exists>pg h m. s' = s\<lparr>pages := pg, free_list := h, nr_free := m\<rparr>"
  using assms
  by (auto simp: default_free_pages_def run_bind_eq_ret Let_def case_prod_beta split: if_splits)

lemma default_alloc_pages_frame:
  assumes "default_alloc_pages n s = ret (r, s')"
  shows "\<exists>pg h m. s' = s\<lparr>pages := pg, free_list := h, nr_free := m\<rparr>"
proof -
  have "\<exists>pg h m. s = s\<lparr>pages := pg, free_list := h, nr_free := m\<rparr>"
    by (intro exI [of _ "pages s"] exI [of _ "free_list s"] exI [of _ "nr_free s"]) simp
  then show ?thesis using assms take_block_frame [of _ n s]
    by (auto simp: default_alloc_pages_def run_bind_eq_ret split: if_splits option.splits)
qed

text \<open>The blocks of a state are determined by it.\<close>

lemma free_rel_unique:
  assumes "free_rel s bs" and "free_rel s cs"
  shows "bs = cs"
proof -
  have "block_nodes bs = block_nodes cs"
    using assms cdll_unique by (auto simp: free_rel_def rep_blocks_def)
  then have f: "map fst bs = map fst cs"
    using map_injective [of "Link :: nat \<Rightarrow> pnode" "map fst bs" "map fst cs"] by (simp add: comp_def inj_def)
  have "map snd ds = map (\<lambda>i. unat (p_property (pages s i))) (map fst ds)" if "free_rel s ds" for ds
    using that by (auto simp: free_rel_def rep_blocks_def)
  then have "map snd bs = map snd cs" using assms f by metis
  with f show ?thesis by (metis zip_map_fst_snd)
qed

text \<open>The free page frames of a state.\<close>

definition free_frames :: "'z pmm_state_scheme \<Rightarrow> nat set" where
  "free_frames s = {j. \<exists>bs. free_rel s bs \<and> j \<in> pages_of bs}"

lemma free_frames_eq: "free_rel s bs \<Longrightarrow> free_frames s = pages_of bs"
  unfolding free_frames_def using free_rel_unique by blast

subsection \<open>Insertion at the end of a non-empty list\<close>

text \<open>
  The block that goes to the end of a non-empty free list is reachable by \<open>next\<close>, but its own
  \<open>prev\<close> link is itself: it is not merged with its lower neighbour, and taking it off the list
  later leaves it linked.
\<close>

lemma link_block_tail:
  assumes "cdll h FreeHead (block_nodes (xs @ [z]))" and "\<forall>x\<in>set (xs @ [z]). fst x < b"
  obtains h' where "link_block b h = Some h'"
    "npath h' FreeHead (block_nodes (xs @ [z, (b, n)])) FreeHead"
    "list_prev h' (Link b) = Link b"
proof -
  let ?h = "list_add (Link b) (Link b) (list_add (Link (fst z)) (Link b) h)"
  have "\<not> list_empty h FreeHead" using cdll_empty_iff [OF assms(1)] by simp
  moreover have "insert_loop b FreeHead h = Some ?h"
    using cdll_npath [OF assms(1)] assms(2) by (intro insert_loop_tail) auto
  ultimately have "link_block b h = Some ?h" by (simp add: link_block_def)
  moreover have "npath ?h FreeHead (block_nodes (xs @ [z, (b, n)])) FreeHead"
  proof -
    have path: "npath h FreeHead (block_nodes xs) (Link (fst z))" "list_next h (Link (fst z)) = FreeHead"
      using cdll_npath [OF assms(1)] by simp_all
    have "Link (fst z) \<notin> set (FreeHead # block_nodes xs)"
      using assms(1) by (auto simp: cdll_def)
    moreover have "Link b \<notin> set (FreeHead # block_nodes xs)" "fst z \<noteq> b" using assms(2) by auto
    ultimately have away: "x \<noteq> Link (fst z) \<and> x \<noteq> Link b" if "x \<in> set (FreeHead # block_nodes xs)" for x
      using that by blast
    have "npath ?h FreeHead (block_nodes xs) (Link (fst z)) \<longleftrightarrow>
        npath h FreeHead (block_nodes xs) (Link (fst z))"
      by (rule npath_cong) (simp add: list_add_def list_add_after_def link_simps away)
    with path \<open>fst z \<noteq> b\<close> show ?thesis
      by (simp add: list_add_def list_add_after_def link_simps)
  qed
  moreover have "list_prev ?h (Link b) = Link b"
    by (simp add: list_add_def list_add_after_def link_simps)
  ultimately show ?thesis using that by blast
qed

text \<open>Deleting an entry whose \<open>prev\<close> is itself does not unlink it.\<close>

lemma list_del_self_prev:
  assumes "list_prev h e = e" and "a \<noteq> e"
  shows "list_next (list_del e h) a = list_next h a"
  using assms by (simp add: list_del_def link_simps)

end
