(* ===== verification/Pmm.thy ===== *)
theory Pmm
  imports DefaultPmm
begin

unbundle bit_operations_syntax

text \<open>
  The physical memory manager interface of kern/mm/pmm.c and pmm.h: \<open>alloc_pages\<close>,
  \<open>free_pages\<close> and \<open>nr_free_pages\<close> call the default manager with interrupts masked; the
  conversions between \<open>struct Page *\<close>, physical and kernel virtual addresses.

  The locale \<open>page_source\<close> is what the clients of the page allocator (the page tables, the SLOB
  heap, the kernel stacks) rely on; it is interpreted on the model of the kernel's allocator.
\<close>

subsection \<open>Address conversions of pmm.h\<close>

definition PADDR :: "u64 \<Rightarrow> 'z pmm_state_scheme \<Rightarrow> u64 run" where
  "PADDR kva s =
     (if kva < KERNBASE then panic ''PADDR called with invalid kva'' else ret (kva - va_pa_offset s))"

definition KADDR :: "u64 \<Rightarrow> 'z pmm_state_scheme \<Rightarrow> u64 run" where
  "KADDR pa s =
     (if npage s \<le> PPN pa then panic ''KADDR called with invalid pa'' else ret (pa + va_pa_offset s))"

text \<open>A \<open>struct Page *\<close> is its index in \<open>pages\<close>.\<close>

definition page2ppn :: "nat \<Rightarrow> u64" where
  "page2ppn page = of_nat page + nbase"

definition page2pa :: "nat \<Rightarrow> u64" where
  "page2pa page = push_bit 12 (page2ppn page)"

definition pa2page :: "u64 \<Rightarrow> 'z pmm_state_scheme \<Rightarrow> nat run" where
  "pa2page pa s =
     (if npage s \<le> PPN pa then panic ''pa2page called with invalid pa''
      else ret (unat (PPN pa - nbase)))"

definition page2kva :: "nat \<Rightarrow> 'z pmm_state_scheme \<Rightarrow> u64 run" where
  "page2kva page s = KADDR (page2pa page) s"

definition kva2page :: "u64 \<Rightarrow> 'z pmm_state_scheme \<Rightarrow> nat run" where
  "kva2page kva s = run_bind (PADDR kva s) (\<lambda>pa. pa2page pa s)"

definition pte2page :: "u64 \<Rightarrow> 'z pmm_state_scheme \<Rightarrow> nat run" where
  "pte2page pte s =
     (if pte AND PTE_V = 0 then panic ''pte2page called with invalid pte'' else pa2page (PTE_ADDR pte) s)"

definition pde2page :: "u64 \<Rightarrow> 'z pmm_state_scheme \<Rightarrow> nat run" where
  "pde2page pde s = pa2page (PDE_ADDR pde) s"

definition page_ref :: "nat \<Rightarrow> 'z pmm_state_scheme \<Rightarrow> u32" where
  "page_ref page s = p_ref (pages s page)"

definition set_page_ref :: "nat \<Rightarrow> u32 \<Rightarrow> 'z pmm_state_scheme \<Rightarrow> 'z pmm_state_scheme" where
  "set_page_ref page val s = s\<lparr>pages := (pages s)(page := (pages s page)\<lparr>p_ref := val\<rparr>)\<rparr>"

definition page_ref_inc :: "nat \<Rightarrow> 'z pmm_state_scheme \<Rightarrow> 'z pmm_state_scheme" where
  "page_ref_inc page s = set_page_ref page (page_ref page s + 1) s"

definition page_ref_dec :: "nat \<Rightarrow> 'z pmm_state_scheme \<Rightarrow> 'z pmm_state_scheme" where
  "page_ref_dec page s = set_page_ref page (page_ref page s - 1) s"

subsection \<open>The manager behind the interface, with interrupts masked\<close>

text \<open>\<open>struct pmm_manager\<close> is a table of functions; its last entry, \<open>check\<close>, is added in PmmCheck.thy, since the
  self-test calls the interface. The functions of pmm.c call through the pointer \<open>pmm_manager\<close>, the
  argument \<open>m\<close>.\<close>

record 's pmm_calls =
  mgr_name :: string
  mgr_init :: "'s \<Rightarrow> 's"
  mgr_init_memmap :: "nat \<Rightarrow> u64 \<Rightarrow> 's \<Rightarrow> 's run"
  mgr_alloc_pages :: "u64 \<Rightarrow> 's \<Rightarrow> (nat option \<times> 's) run"
  mgr_free_pages :: "nat \<Rightarrow> u64 \<Rightarrow> 's \<Rightarrow> 's run"
  mgr_nr_free_pages :: "'s \<Rightarrow> u64"

definition pmm_alloc_pages ::
  "('z pmm_state_scheme, 'x) pmm_calls_scheme \<Rightarrow> u64 \<Rightarrow> 'z pmm_state_scheme \<Rightarrow> (nat option \<times> 'z pmm_state_scheme) run" where
  "pmm_alloc_pages m n s =
     (let (flag, s1) = intr_save s in
      run_bind (mgr_alloc_pages m n s1) (\<lambda>(page, s2). ret (page, intr_restore flag s2)))"

definition pmm_free_pages ::
  "('z pmm_state_scheme, 'x) pmm_calls_scheme \<Rightarrow> nat \<Rightarrow> u64 \<Rightarrow> 'z pmm_state_scheme \<Rightarrow> 'z pmm_state_scheme run" where
  "pmm_free_pages m base n s =
     (let (flag, s1) = intr_save s in
      run_bind (mgr_free_pages m base n s1) (\<lambda>s2. ret (intr_restore flag s2)))"

definition pmm_nr_free_pages ::
  "('z pmm_state_scheme, 'x) pmm_calls_scheme \<Rightarrow> 'z pmm_state_scheme \<Rightarrow> u64 \<times> 'z pmm_state_scheme" where
  "pmm_nr_free_pages m s =
     (let (flag, s1) = intr_save s in (mgr_nr_free_pages m s1, intr_restore flag s1))"

text \<open>The kernel sets the pointer to its one manager, of default_pmm.c.\<close>

definition default_calls :: "'z pmm_state_scheme pmm_calls" where
  "default_calls = \<lparr>mgr_name = ''default_pmm_manager'', mgr_init = default_init,
     mgr_init_memmap = default_init_memmap, mgr_alloc_pages = default_alloc_pages,
     mgr_free_pages = default_free_pages, mgr_nr_free_pages = default_nr_free_pages\<rparr>"

definition alloc_pages :: "u64 \<Rightarrow> 'z pmm_state_scheme \<Rightarrow> (nat option \<times> 'z pmm_state_scheme) run" where
  "alloc_pages n s = pmm_alloc_pages default_calls n s"

definition free_pages :: "nat \<Rightarrow> u64 \<Rightarrow> 'z pmm_state_scheme \<Rightarrow> 'z pmm_state_scheme run" where
  "free_pages base n s = pmm_free_pages default_calls base n s"

definition nr_free_pages :: "'z pmm_state_scheme \<Rightarrow> u64 \<times> 'z pmm_state_scheme" where
  "nr_free_pages s = pmm_nr_free_pages default_calls s"

lemma pages_calls:
  "alloc_pages n s = (let (flag, s1) = intr_save s in
     run_bind (default_alloc_pages n s1) (\<lambda>(page, s2). ret (page, intr_restore flag s2)))"
  "free_pages base n s = (let (flag, s1) = intr_save s in
     run_bind (default_free_pages base n s1) (\<lambda>s2. ret (intr_restore flag s2)))"
  "nr_free_pages s = (let (flag, s1) = intr_save s in (default_nr_free_pages s1, intr_restore flag s1))"
  by (simp_all add: alloc_pages_def pmm_alloc_pages_def free_pages_def pmm_free_pages_def nr_free_pages_def
      pmm_nr_free_pages_def default_calls_def)

definition alloc_page :: "'z pmm_state_scheme \<Rightarrow> (nat option \<times> 'z pmm_state_scheme) run" where
  "alloc_page s = alloc_pages 1 s"

definition free_page :: "nat \<Rightarrow> 'z pmm_state_scheme \<Rightarrow> 'z pmm_state_scheme run" where
  "free_page page s = free_pages page 1 s"

subsection \<open>The interface the clients rely on\<close>

locale page_source =
  fixes alloc :: "u64 \<Rightarrow> 's \<Rightarrow> (nat option \<times> 's) run"
    and release :: "nat \<Rightarrow> u64 \<Rightarrow> 's \<Rightarrow> 's run"
    and inv :: "'s \<Rightarrow> bool"
    and frames :: "'s \<Rightarrow> nat set"
    and can_release :: "nat \<Rightarrow> u64 \<Rightarrow> 's \<Rightarrow> bool"
  assumes alloc_returns: "inv s \<Longrightarrow> 0 < n \<Longrightarrow> \<exists>r s'. alloc n s = ret (r, s')"
    and alloc_inv: "inv s \<Longrightarrow> 0 < n \<Longrightarrow> alloc n s = ret (r, s') \<Longrightarrow> inv s'"
    and alloc_None: "inv s \<Longrightarrow> 0 < n \<Longrightarrow> alloc n s = ret (None, s') \<Longrightarrow> s' = s"
    and alloc_Some: "inv s \<Longrightarrow> 0 < n \<Longrightarrow> alloc n s = ret (Some p, s') \<Longrightarrow>
      {p..<p + unat n} \<subseteq> frames s \<and> frames s' = frames s - {p..<p + unat n}"
    and release_returns: "inv s \<Longrightarrow> 0 < n \<Longrightarrow> can_release p n s \<Longrightarrow>
      \<exists>s'. release p n s = ret s' \<and> inv s' \<and> frames s' = frames s \<union> {p..<p + unat n}"
begin

text \<open>The two ways an allocation ends.\<close>

lemma alloc_cases:
  assumes "inv s" and "0 < n"
  obtains (refused) "alloc n s = ret (None, s)"
  | (granted) p t where "alloc n s = ret (Some p, t)" "inv t" "{p..<p + unat n} \<subseteq> frames s"
      "frames t = frames s - {p..<p + unat n}"
proof -
  obtain r t where a: "alloc n s = ret (r, t)" using alloc_returns [OF assms] by blast
  show ?thesis
  proof (cases r)
    case None
    then show ?thesis using alloc_None [OF assms] a refused by auto
  next
    case (Some p)
    then show ?thesis using alloc_Some [OF assms] alloc_inv [OF assms] a granted by auto
  qed
qed

text \<open>Two allocations in a row never overlap, and give back nothing that was taken.\<close>

lemma alloc_alloc_disjoint:
  assumes "inv s" and "0 < n" and "0 < m"
    and "alloc n s = ret (Some p, s1)" and "alloc m s1 = ret (Some q, s2)"
  shows "{p..<p + unat n} \<inter> {q..<q + unat m} = {}"
    and "frames s2 \<inter> ({p..<p + unat n} \<union> {q..<q + unat m}) = {}"
proof -
  have inv1: "inv s1" by (rule alloc_inv [OF assms(1,2,4)])
  note a = alloc_Some [OF assms(1,2,4)] and b = alloc_Some [OF inv1 assms(3,5)]
  from a b show "{p..<p + unat n} \<inter> {q..<q + unat m} = {}" by blast
  from a b show "frames s2 \<inter> ({p..<p + unat n} \<union> {q..<q + unat m}) = {}" by blast
qed

text \<open>Releasing what was just allocated makes exactly the old frames free again.\<close>

lemma release_alloc_frames:
  assumes "inv s" and "0 < n" and "alloc n s = ret (Some p, s1)" and "can_release p n s1"
  obtains s2 where "release p n s1 = ret s2" "inv s2" "frames s2 = frames s"
proof -
  have inv1: "inv s1" by (rule alloc_inv [OF assms(1,2,3)])
  obtain s2 where s2: "release p n s1 = ret s2" "inv s2" "frames s2 = frames s1 \<union> {p..<p + unat n}"
    using release_returns [OF inv1 assms(2,4)] by blast
  moreover have "frames s1 \<union> {p..<p + unat n} = frames s"
    using alloc_Some [OF assms(1-3)] by blast
  ultimately show ?thesis using that by simp
qed

end

text \<open>A source that also says what an allocation leaves alone, the contents of the frames in use and the
  rest of the state, and that refuses a single frame only when it has none.\<close>

locale frame_source = page_source +
  fixes content :: "'s \<Rightarrow> nat \<Rightarrow> 'c"
    and framed :: "'s \<Rightarrow> 's \<Rightarrow> bool"
  assumes alloc_content: "inv s \<Longrightarrow> 0 < n \<Longrightarrow> alloc n s = ret (Some p, t) \<Longrightarrow> j \<notin> frames s \<Longrightarrow>
      content t j = content s j"
    and alloc_framed: "inv s \<Longrightarrow> 0 < n \<Longrightarrow> alloc n s = ret (r, t) \<Longrightarrow> framed s t"
    and one_refused: "inv s \<Longrightarrow> alloc 1 s = ret (None, t) \<Longrightarrow> frames s = {}"
begin

lemma alloc_one_cases:
  assumes "inv s"
  obtains (refused) "alloc 1 s = ret (None, s)" "frames s = {}"
  | (granted) p t where "alloc 1 s = ret (Some p, t)" "inv t" "p \<in> frames s" "frames t = frames s - {p}"
      "framed s t" "\<forall>j. j \<notin> frames s \<longrightarrow> content t j = content s j"
proof -
  have one: "(0 :: u64) < 1" and set1: "{p..<p + unat (1 :: u64)} = {p}" for p by auto
  from assms one show ?thesis
  proof (cases rule: alloc_cases)
    case refused
    then show ?thesis using one_refused [OF assms] that(1) by blast
  next
    case (granted p t)
    have "p \<in> frames s" "frames t = frames s - {p}" using granted(3,4) by (simp_all only: set1) simp
    moreover have "framed s t" by (rule alloc_framed [OF assms one granted(1)])
    moreover have "\<forall>j. j \<notin> frames s \<longrightarrow> content t j = content s j"
      using alloc_content [OF assms one granted(1)] by blast
    ultimately show ?thesis using that(2) [OF granted(1,2)] by blast
  qed
qed

end

subsection \<open>The kernel's allocator provides the interface\<close>

lemma free_rel_sstatus [simp]: "free_rel (s\<lparr>sstatus := v\<rparr>) bs = free_rel s bs"
  by (simp add: free_rel_def)

lemma take_block_sstatus [simp]: "take_block i n (s\<lparr>sstatus := v\<rparr>) = (take_block i n s)\<lparr>sstatus := v\<rparr>"
  by (simp add: take_block_def Let_def split: prod.split)

interpretation masked_alloc: critical_section "default_alloc_pages n" "alloc_pages n" for n
  by unfold_locales (auto simp: pages_calls default_alloc_pages_def run_bind_assoc split: option.splits
      intro!: arg_cong [of _ _ "run_bind _"])

lemma default_free_pages_sstatus:
  "default_free_pages b n (s\<lparr>sstatus := v\<rparr>) =
   run_bind (default_free_pages b n s) (\<lambda>t. ret (t\<lparr>sstatus := v\<rparr>))"
proof -
  have swap: "s\<lparr>sstatus := v, pages := pg, free_list := h, nr_free := m\<rparr> =
      s\<lparr>pages := pg, free_list := h, nr_free := m, sstatus := v\<rparr>" for pg h m
    by simp
  show ?thesis by (simp add: default_free_pages_def run_bind_assoc case_prod_unfold Let_def swap)
qed

interpretation masked_free: critical_section
  "\<lambda>s. run_bind (default_free_pages b n s) (\<lambda>t. ret ((), t))" "\<lambda>s. run_bind (free_pages b n s) (\<lambda>t. ret ((), t))"
  for b n
  by unfold_locales (simp_all add: pages_calls default_free_pages_sstatus run_bind_assoc case_prod_unfold Let_def)

interpretation masked_count: critical_section "\<lambda>s. ret (default_nr_free_pages s, s)" "\<lambda>s. ret (nr_free_pages s)"
  by unfold_locales (auto simp: pages_calls default_nr_free_pages_def case_prod_unfold Let_def)

text \<open>The masked calls do what the manager does.\<close>

lemma run_bind_unit: "run_bind m (\<lambda>t. ret ((), t)) = run_bind m' (\<lambda>t. ret ((), t)) \<Longrightarrow> m = m'"
  by (auto simp: run_bind_def ret_def split: option.splits sum.splits Option.bind_splits)

lemma free_pages_eq: "free_pages b n s = default_free_pages b n s"
  by (rule run_bind_unit) (rule masked_free.transparent)

lemma alloc_pages_spec:
  assumes "free_rel s bs" and "0 < n"
  shows "alloc_pages n s =
    ret (case ff_alloc (unat n) bs of None \<Rightarrow> (None, s) | Some (i, _) \<Rightarrow> (Some i, take_block i n s))"
  using default_alloc_pages_spec [OF assms] by (simp add: masked_alloc.transparent)

lemma free_pages_spec:
  assumes "free_rel s bs" and "0 < n" and "fits_free b (unat n) bs"
    and "\<forall>j\<in>{b..<b + unat n}. page_clear (pages s j)"
    and "insert_ok b bs" and "sum_list (map snd bs) + unat n < 2 ^ 32"
  obtains s' where "free_pages b n s = ret s'" "free_rel s' (ff_free b (unat n) bs)"
    "sstatus s' = sstatus s"
proof -
  obtain s' where "default_free_pages b n s = ret s'" "free_rel s' (ff_free b (unat n) bs)"
    using default_free_pages_spec assms by blast
  then show ?thesis
    using that masked_free.keeps_sstatus [of b n s "()" s'] by (simp add: free_pages_eq)
qed

text \<open>What an allocation leaves alone: every page that was not free.\<close>

lemma take_block_other:
  assumes "free_rel s bs" and "0 < n" and "ff_alloc (unat n) bs = Some (i, bs')" and "j \<notin> pages_of bs"
  shows "pages (take_block i n s) j = pages s j"
proof -
  obtain xs k ys where sp: "bs = xs @ (i, k) # ys" "unat n \<le> k"
    using assms(3) by (rule ff_alloc_SomeE)
  have k: "unat (p_property (pages s i)) = k"
    using assms(1) sp(1) by (simp add: free_rel_def rep_blocks_def)
  have "0 < k" using sp(2) assms(2) by (simp add: unat_gt_0_u64)
  then have "j \<noteq> i" using assms(4) sp(1) by auto
  moreover have "j \<noteq> i + unat n" if "n < ucast (p_property (pages s i))"
  proof -
    have "unat n < k" using that k by (simp add: word_less_nat_alt)
    then have "i + unat n \<in> pages_of bs" by (simp add: sp(1))
    with assms(4) show ?thesis by auto
  qed
  ultimately show ?thesis by (auto simp: take_block_def Let_def)
qed

lemma alloc_pages_other:
  assumes "\<exists>bs. free_rel s bs" and "0 < n" and "alloc_pages n s = ret (Some p, s')" and "j \<notin> free_frames s"
  shows "pages s' j = pages s j"
proof -
  obtain bs where bs: "free_rel s bs" using assms(1) by blast
  obtain bs' where a: "ff_alloc (unat n) bs = Some (p, bs')" "s' = take_block p n s"
    using assms(3) alloc_pages_spec [OF bs assms(2)] by (auto split: option.splits)
  show ?thesis
    using take_block_other [OF bs assms(2) a(1)] assms(4) by (simp add: a(2) free_frames_eq [OF bs])
qed

text \<open>A single page is refused only when nothing is free.\<close>

lemma alloc_page_None:
  assumes "\<exists>bs. free_rel s bs" and "alloc_pages 1 s = ret (None, s')"
  shows "free_frames s = {}"
proof -
  obtain bs where bs: "free_rel s bs" using assms(1) by blast
  have "ff_alloc 1 bs = None"
    using assms(2) alloc_pages_spec [OF bs, of 1] by (auto split: option.splits)
  moreover have "\<forall>x\<in>set bs. 0 < snd x" using bs by (auto simp: free_rel_def rep_blocks_def wf_blocks_def)
  ultimately have "bs = []" by (cases bs) (auto simp: ff_alloc_None_iff)
  then show ?thesis using free_frames_eq [OF bs] by simp
qed

lemma alloc_pages_frame:
  assumes "\<exists>bs. free_rel s bs" and "0 < n" and "alloc_pages n s = ret (r, s')"
  shows "\<exists>pg h m. s' = s\<lparr>pages := pg, free_list := h, nr_free := m\<rparr>"
proof -
  obtain bs where bs: "free_rel s bs" using assms(1) by blast
  show ?thesis
  proof (cases "ff_alloc (unat n) bs")
    case None
    then have "s' = s" using assms(3) alloc_pages_spec [OF bs assms(2)] by simp
    then have "s' = s\<lparr>pages := pages s, free_list := free_list s, nr_free := nr_free s\<rparr>" by simp
    then show ?thesis by blast
  next
    case (Some a)
    then have "s' = take_block (fst a) n s"
      using assms(3) alloc_pages_spec [OF bs assms(2)] by (simp add: case_prod_unfold)
    then show ?thesis using take_block_frame by blast
  qed
qed

lemma free_pages_frame:
  "free_pages b n s = ret s' \<Longrightarrow> \<exists>pg h m. s' = s\<lparr>pages := pg, free_list := h, nr_free := m\<rparr>"
  unfolding free_pages_eq by (rule default_free_pages_frame)

lemma free_rel_cong:
  "pages s = pages t \<Longrightarrow> free_list s = free_list t \<Longrightarrow> nr_free s = nr_free t \<Longrightarrow> free_rel s bs = free_rel t bs"
  by (simp add: free_rel_def)

lemma free_frames_cong:
  "pages s = pages t \<Longrightarrow> free_list s = free_list t \<Longrightarrow> nr_free s = nr_free t \<Longrightarrow> free_frames s = free_frames t"
  unfolding free_frames_def using free_rel_cong by blast

text \<open>The blocks a client may give back to the kernel's allocator.\<close>

definition may_free :: "nat \<Rightarrow> u64 \<Rightarrow> 'z pmm_state_scheme \<Rightarrow> bool" where
  "may_free b n s \<longleftrightarrow> (\<exists>bs. free_rel s bs \<and> fits_free b (unat n) bs \<and> insert_ok b bs \<and>
     (\<forall>j\<in>{b..<b + unat n}. page_clear (pages s j)) \<and> sum_list (map snd bs) + unat n < 2 ^ 32)"

text \<open>The part of the state the page allocator may change.\<close>

definition alloc_frame :: "'z pmm_state_scheme \<Rightarrow> 'z pmm_state_scheme \<Rightarrow> bool" where
  "alloc_frame s t \<longleftrightarrow> (\<exists>pg h m. t = s\<lparr>pages := pg, free_list := h, nr_free := m\<rparr>)"

interpretation kernel: frame_source alloc_pages free_pages
  "\<lambda>s. \<exists>bs. free_rel s bs" free_frames may_free pages alloc_frame
proof (unfold_locales, goal_cases)
  case (1 s n)
  then obtain bs where "free_rel s bs" by blast
  from alloc_pages_spec [OF this 1(2)] show ?case by (auto split: option.split)
next
  case (2 s n r s')
  then obtain bs where bs: "free_rel s bs" by blast
  show ?case
    using 2(3) bs alloc_pages_spec [OF bs 2(2)] default_alloc_pages_Some(1) [OF bs 2(2)]
    by (auto split: option.splits)
next
  case (3 s n s')
  then obtain bs where "free_rel s bs" by blast
  from alloc_pages_spec [OF this 3(2)] 3(3) show ?case by (auto split: option.splits)
next
  case (4 s n p s')
  then obtain bs where bs: "free_rel s bs" by blast
  obtain bs' where a: "ff_alloc (unat n) bs = Some (p, bs')" "s' = take_block p n s"
    using 4(3) alloc_pages_spec [OF bs 4(2)] by (auto split: option.splits)
  note r = default_alloc_pages_Some(1) [OF bs 4(2) a(1)]
  have "wf_blocks bs" using bs by (simp add: free_rel_def rep_blocks_def)
  then show ?case
    using ff_alloc_pages [OF a(1)] by (simp add: a(2) free_frames_eq [OF bs] free_frames_eq [OF r])
next
  case (5 s n p)
  then obtain bs where bs: "free_rel s bs" "fits_free p (unat n) bs" "insert_ok p bs"
      "\<forall>j\<in>{p..<p + unat n}. page_clear (pages s j)" "sum_list (map snd bs) + unat n < 2 ^ 32"
    by (auto simp: may_free_def)
  then obtain s' where s': "free_pages p n s = ret s'" "free_rel s' (ff_free p (unat n) bs)"
    using free_pages_spec 5(2) by blast
  have "wf_blocks bs" using bs(1) by (simp add: free_rel_def rep_blocks_def)
  then have "pages_of (ff_free p (unat n) bs) = pages_of bs \<union> {p..<p + unat n}"
    using ff_free_pages bs(2) by blast
  with s' free_frames_eq [OF bs(1)] free_frames_eq [OF s'(2)] show ?case by auto
next
  case (6 s n p t j)
  then show ?case by (rule alloc_pages_other)
next
  case (7 s n r t)
  then show ?case unfolding alloc_frame_def by (rule alloc_pages_frame)
next
  case (8 s t)
  then show ?case by (rule alloc_page_None)
qed

end
