(* ===== verification/PmmReach.thy ===== *)
theory PmmReach
  imports Pmm "HOL-Library.Disjoint_Sets"
begin

text \<open>
  The page allocator over whole runs of the kernel: a step relation whose state is the allocator
  together with the blocks its clients hold. A client may ask for pages, give a block it holds
  back, or change the reference count of a page it holds (what mm/pmm.c does with the pages of
  page tables). The invariant of the reachable states is proved by rule induction from the
  specifications of the single calls.

  A step that gives a block back carries the side condition \<open>insert_ok\<close>: some free block lies
  above it or nothing is free. The last theorem shows that the condition is exact: every other release
  breaks the free list, and its pages can be handed out twice.
\<close>

subsection \<open>What a call does to pages it does not own\<close>

lemma page_clear_simps [simp]:
  "page_clear (ClearPageProperty p) \<longleftrightarrow> \<not> PageReserved p"
  "page_clear (p\<lparr>p_ref := r\<rparr>) = page_clear p"
  "page_clear (p\<lparr>p_flags := 0\<rparr>)"
  by (simp_all add: page_clear_def)

lemma merge_prev_clear:
  assumes "merge_prev b (pg, h) = (b', pg', h')" and "page_clear (pg j)"
  shows "page_clear (pg' j)"
  using assms by (auto simp: merge_prev_def Let_def page_clear_def split: if_splits)

lemma merge_next_clear:
  assumes "merge_next b (pg, h) = (pg', h')" and "page_clear (pg j)"
  shows "page_clear (pg' j)"
  using assms by (auto simp: merge_next_def Let_def page_clear_def split: if_splits)

lemma free_pages_loop_clear:
  "free_pages_loop k p pg = ret pg' \<Longrightarrow> page_clear (pg j) \<Longrightarrow> page_clear (pg' j)"
  by (induction k p pg rule: free_pages_loop.induct) (auto split: if_splits)

lemma free_pages_clear:
  assumes "free_pages b n s = ret s'" and "page_clear (pages s j)" and "j \<noteq> b"
  shows "page_clear (pages s' j)"
proof -
  obtain flag s1 where sv: "intr_save s = (flag, s1)" by fastforce
  have s1: "pages s1 = pages s" by (subst intr_save_fields [OF sv]) simp
  obtain s2 where s2: "default_free_pages b n s1 = ret s2" "s' = intr_restore flag s2"
    using assms(1) by (auto simp: pages_calls sv run_bind_eq_ret)
  obtain pg h where pg: "free_pages_loop (unat n) b (pages s1) = ret pg"
      "link_block b (free_list s1) = Some h"
    using s2(1) by (auto simp: default_free_pages_def run_bind_eq_ret loop_run_eq_ret split: if_splits)
  obtain b' pg2 h2 where m: "merge_prev b (set_block_head b n pg, h) = (b', pg2, h2)"
    by (cases "merge_prev b (set_block_head b n pg, h)") auto
  obtain pg3 h3 where m': "merge_next b' (pg2, h2) = (pg3, h3)"
    by (cases "merge_next b' (pg2, h2)") auto
  have "pages s2 = pg3"
    using s2(1) pg m m' by (auto simp: default_free_pages_def split: if_splits)
  moreover have "page_clear (set_block_head b n pg j)"
    using free_pages_loop_clear [OF pg(1)] assms(2,3) s1 by (simp add: set_block_head_def)
  ultimately have "page_clear (pages s2 j)" using merge_prev_clear [OF m] merge_next_clear [OF m'] by simp
  then show ?thesis by (simp add: s2(2) intr_restore_def intr_enable_def)
qed

text \<open>Reference counts: only those of the pages given back change, to 0.\<close>

lemma merge_prev_ref: "merge_prev b (pg, h) = (b', pg', h') \<Longrightarrow> p_ref (pg' j) = p_ref (pg j)"
  by (auto simp: merge_prev_def Let_def split: if_splits)

lemma merge_next_ref: "merge_next b (pg, h) = (pg', h') \<Longrightarrow> p_ref (pg' j) = p_ref (pg j)"
  by (auto simp: merge_next_def Let_def split: if_splits)

lemma free_pages_loop_ref:
  "free_pages_loop k p pg = ret pg' \<Longrightarrow> p_ref (pg' j) = (if j \<in> {p..<p + k} then 0 else p_ref (pg j))"
  by (induction k p pg rule: free_pages_loop.induct) (auto split: if_splits)

lemma free_pages_ref:
  assumes "free_pages b n s = ret s'"
  shows "p_ref (pages s' j) = (if j \<in> {b..<b + unat n} then 0 else p_ref (pages s j))"
proof -
  obtain flag s1 where sv: "intr_save s = (flag, s1)" by fastforce
  have s1: "pages s1 = pages s" by (subst intr_save_fields [OF sv]) simp
  obtain s2 where s2: "default_free_pages b n s1 = ret s2" "s' = intr_restore flag s2"
    using assms(1) by (auto simp: pages_calls sv run_bind_eq_ret)
  obtain pg h where pg: "free_pages_loop (unat n) b (pages s1) = ret pg"
      "link_block b (free_list s1) = Some h"
    using s2(1) by (auto simp: default_free_pages_def run_bind_eq_ret loop_run_eq_ret split: if_splits)
  obtain b' pg2 h2 where m: "merge_prev b (set_block_head b n pg, h) = (b', pg2, h2)"
    by (cases "merge_prev b (set_block_head b n pg, h)") auto
  obtain pg3 h3 where m': "merge_next b' (pg2, h2) = (pg3, h3)"
    by (cases "merge_next b' (pg2, h2)") auto
  have "pages s2 = pg3"
    using s2(1) pg m m' by (auto simp: default_free_pages_def split: if_splits)
  moreover have "p_ref (set_block_head b n pg j) = p_ref (pg j)" by (simp add: set_block_head_def)
  ultimately have "p_ref (pages s2 j) = p_ref (pg j)"
    using merge_prev_ref [OF m] merge_next_ref [OF m'] by simp
  then show ?thesis using free_pages_loop_ref [OF pg(1), of j] s1
    by (simp add: s2(2) intr_restore_def intr_enable_def)
qed

lemma take_block_clear:
  assumes "page_clear (pages s j)" and "n < ucast (p_property (pages s i)) \<longrightarrow> j \<noteq> i + unat n"
  shows "page_clear (pages (take_block i n s) j)"
  using assms by (auto simp: take_block_def Let_def page_clear_def)

lemma set_page_ref_rel:
  assumes "free_rel s bs" and "j \<notin> pages_of bs"
  shows "free_rel (set_page_ref j v s) bs"
proof -
  have "pages (set_page_ref j v s) k = pages s k" if "k \<in> pages_of bs" for k
    using that assms(2) by (auto simp: set_page_ref_def)
  moreover have "p_property (pages (set_page_ref j v s) k) = p_property (pages s k)" for k
    by (simp add: set_page_ref_def)
  ultimately show ?thesis
    using assms(1) by (auto simp: free_rel_def rep_blocks_def flags_ok_def set_page_ref_def)
qed

subsection \<open>The step relation\<close>

text \<open>The blocks held by clients, as (first page, number of pages).\<close>

inductive pm_step :: "'z pmm_state_scheme \<times> block set \<Rightarrow> 'z pmm_state_scheme \<times> block set \<Rightarrow> bool" where
  take: "0 < n \<Longrightarrow> alloc_pages n s = ret (Some p, s') \<Longrightarrow>
    pm_step (s, own) (s', insert (p, unat n) own)"
| refuse: "0 < n \<Longrightarrow> alloc_pages n s = ret (None, s') \<Longrightarrow> pm_step (s, own) (s', own)"
| give: "(b, unat n) \<in> own \<Longrightarrow> 0 < n \<Longrightarrow> free_rel s bs \<Longrightarrow> insert_ok b bs \<Longrightarrow>
    free_pages b n s = ret s' \<Longrightarrow> pm_step (s, own) (s', own - {(b, unat n)})"
| count: "x \<in> own \<Longrightarrow> j \<in> {fst x..<fst x + snd x} \<Longrightarrow>
    pm_step (s, own) (set_page_ref j v s, own)"

inductive_cases pm_stepE: "pm_step (s, own) c"

text \<open>A machine whose \<open>n\<close> pages from \<open>b\<close> on were given to the allocator at boot, and then ran.\<close>

inductive pm_reach :: "nat \<Rightarrow> u64 \<Rightarrow> 'z pmm_state_scheme \<times> block set \<Rightarrow> bool" for b n where
  boot: "0 < n \<Longrightarrow> unat n < 2 ^ 32 \<Longrightarrow> \<forall>j\<in>{b..<b + unat n}. PageReserved (pages s0 j) \<Longrightarrow>
    default_init_memmap b n (default_init s0) = ret s \<Longrightarrow> pm_reach b n (s, {})"
| step: "pm_reach b n c \<Longrightarrow> pm_step c c' \<Longrightarrow> pm_reach b n c'"

definition block_pages :: "block \<Rightarrow> nat set" where
  "block_pages x = {fst x..<fst x + snd x}"

text \<open>The pages are split between the free list and the clients, nothing is held twice, and what
  clients hold is neither reserved nor marked as a free block.\<close>

definition pm_inv :: "nat set \<Rightarrow> 'z pmm_state_scheme \<times> block set \<Rightarrow> bool" where
  "pm_inv arena c \<longleftrightarrow> (\<exists>bs. free_rel (fst c) bs \<and> coalesced bs \<and>
     pages_of bs \<inter> \<Union> (block_pages ` snd c) = {} \<and>
     pages_of bs \<union> \<Union> (block_pages ` snd c) = arena \<and>
     (\<forall>x\<in>snd c. 0 < snd x) \<and> disjoint_family_on block_pages (snd c) \<and>
     (\<forall>j\<in>\<Union> (block_pages ` snd c). page_clear (pages (fst c) j)))"

lemma pm_invE:
  assumes "pm_inv arena (s, own)"
  obtains bs where "free_rel s bs" "coalesced bs" "wf_blocks bs"
    "pages_of bs \<inter> \<Union> (block_pages ` own) = {}" "pages_of bs \<union> \<Union> (block_pages ` own) = arena"
    "\<forall>x\<in>own. 0 < snd x" "disjoint_family_on block_pages own"
    "\<forall>j\<in>\<Union> (block_pages ` own). page_clear (pages s j)"
  using assms coalesced_wf by (auto simp: pm_inv_def)

lemma pm_invI:
  assumes "free_rel s bs" "coalesced bs"
    "pages_of bs \<inter> \<Union> (block_pages ` own) = {}" "pages_of bs \<union> \<Union> (block_pages ` own) = arena"
    "\<forall>x\<in>own. 0 < snd x" "disjoint_family_on block_pages own"
    "\<forall>j\<in>\<Union> (block_pages ` own). page_clear (pages s j)"
  shows "pm_inv arena (s, own)"
  using assms by (auto simp: pm_inv_def)

lemma pm_inv_boot:
  assumes "0 < n" and "unat n < 2 ^ 32" and "\<forall>j\<in>{b..<b + unat n}. PageReserved (pages s0 j)"
    and "default_init_memmap b n (default_init s0) = ret s"
  shows "pm_inv {b..<b + unat n} (s, {})"
proof -
  have "free_rel (default_init s0) ([] @ [])" using default_init_rel by simp
  moreover have "wf_blocks ([] @ (b, unat n) # [])" using assms(1) by (simp add: blocks_simps unat_gt_0_u64)
  moreover have "\<forall>j\<in>{b..<b + unat n}. PageReserved (pages (default_init s0) j)"
    using assms(3) by (simp add: default_init_def)
  ultimately obtain s' where "default_init_memmap b n (default_init s0) = ret s'" "free_rel s' [(b, unat n)]"
    using default_init_memmap_spec [of "default_init s0" "[]" "[]" n b] assms(1,2)
    by (auto simp: insert_ok_def)
  then have "free_rel s [(b, unat n)]" using assms(4) by simp
  then show ?thesis
    using assms(1) by (intro pm_invI) (auto simp: blocks_simps unat_gt_0_u64 disjoint_family_on_def)
qed

lemma pm_inv_take:
  assumes "pm_inv arena (s, own)" and "0 < n" and "alloc_pages n s = ret (Some p, s')"
  shows "pm_inv arena (s', insert (p, unat n) own)"
proof -
  obtain bs where bs: "free_rel s bs" "coalesced bs" "wf_blocks bs"
    "pages_of bs \<inter> \<Union> (block_pages ` own) = {}" "pages_of bs \<union> \<Union> (block_pages ` own) = arena"
    "\<forall>x\<in>own. 0 < snd x" "disjoint_family_on block_pages own"
    "\<forall>j\<in>\<Union> (block_pages ` own). page_clear (pages s j)"
    using assms(1) by (rule pm_invE)
  obtain bs' where a: "ff_alloc (unat n) bs = Some (p, bs')" and s': "s' = take_block p n s"
    using assms(3) alloc_pages_spec [OF bs(1) assms(2)] by (auto split: option.splits)
  note r = default_alloc_pages_Some [OF bs(1) assms(2) a]
  note pgs = ff_alloc_pages [OF a bs(3)]
  have clear: "page_clear (pages s' j)" if j: "j \<in> \<Union> (block_pages ` own)" for j
  proof -
    have "j \<notin> pages_of bs" using j bs(4) by blast
    obtain xs k ys where sp: "bs = xs @ (p, k) # ys" "unat n \<le> k"
      using a by (rule ff_alloc_SomeE)
    have k: "unat (p_property (pages s p)) = k"
      using bs(1) sp(1) by (simp add: free_rel_def rep_blocks_def)
    have "j \<noteq> p + unat n" if "n < ucast (p_property (pages s p))"
    proof -
      have "unat n < k" using that k by (simp add: word_less_nat_alt)
      then have "p + unat n \<in> pages_of bs" by (simp add: sp(1))
      with \<open>j \<notin> pages_of bs\<close> show ?thesis by auto
    qed
    then show ?thesis using bs(8) j take_block_clear s' by blast
  qed
  show ?thesis
  proof (rule pm_invI)
    show "free_rel s' bs'" "coalesced bs'"
      using r(1) s' ff_alloc_coalesced [OF a bs(2)] by simp_all
    have b: "block_pages (p, unat n) = {p..<p + unat n}" by (simp add: block_pages_def)
    show "pages_of bs' \<inter> \<Union> (block_pages ` insert (p, unat n) own) = {}"
      using pgs(2) bs(4) b by auto
    show "pages_of bs' \<union> \<Union> (block_pages ` insert (p, unat n) own) = arena"
      unfolding bs(5) [symmetric] pgs(2) image_insert b using pgs(1) by blast
    show "\<forall>x\<in>insert (p, unat n) own. 0 < snd x" using bs(6) assms(2) by (simp add: unat_gt_0_u64)
    have "block_pages (p, unat n) \<inter> block_pages x = {}" if "x \<in> own" for x
      using that pgs(1) bs(4) unfolding b by blast
    with bs(7) show "disjoint_family_on block_pages (insert (p, unat n) own)"
      unfolding disjoint_family_on_def by blast
    show "\<forall>j\<in>\<Union> (block_pages ` insert (p, unat n) own). page_clear (pages s' j)"
      using clear r(2) b s' by (auto simp: page_idle_def)
  qed
qed

lemma pm_inv_give:
  assumes "pm_inv arena (s, own)" and "(b, unat n) \<in> own" and "0 < n" and "free_rel s cs"
    and "insert_ok b cs" and "free_pages b n s = ret s'" and "finite arena" and "card arena < 2 ^ 32"
  shows "pm_inv arena (s', own - {(b, unat n)})"
proof -
  obtain bs where bs: "free_rel s bs" "coalesced bs" "wf_blocks bs"
    "pages_of bs \<inter> \<Union> (block_pages ` own) = {}" "pages_of bs \<union> \<Union> (block_pages ` own) = arena"
    "\<forall>x\<in>own. 0 < snd x" "disjoint_family_on block_pages own"
    "\<forall>j\<in>\<Union> (block_pages ` own). page_clear (pages s j)"
    using assms(1) by (rule pm_invE)
  have b: "block_pages (b, unat n) = {b..<b + unat n}" by (simp add: block_pages_def)
  have fits: "fits_free b (unat n) bs"
    using bs(4) assms(2,3) b unfolding fits_free_def by (auto simp: unat_gt_0_u64)
  have "card (pages_of bs \<union> {b..<b + unat n}) \<le> card arena"
    using bs(5) assms(2,7) b by (intro card_mono) blast+
  moreover have "card (pages_of bs \<union> {b..<b + unat n}) = sum_list (map snd bs) + unat n"
    using fits card_pages_of [OF bs(3)] by (subst card_Un_disjoint) (auto simp: fits_free_def)
  ultimately have sum: "sum_list (map snd bs) + unat n < 2 ^ 32" using assms(8) by simp
  have "insert_ok b bs" using assms(4,5) bs(1) free_rel_unique by blast
  moreover have "\<forall>j\<in>{b..<b + unat n}. page_clear (pages s j)" using bs(8) assms(2) b by blast
  ultimately have r: "free_rel s' (ff_free b (unat n) bs)"
    using free_pages_spec [OF bs(1) assms(3) fits _ _ sum] assms(6) by auto
  have dis: "block_pages (b, unat n) \<inter> block_pages x = {}" if "x \<in> own - {(b, unat n)}" for x
    using that bs(7) assms(2) unfolding disjoint_family_on_def by blast
  have un: "\<Union> (block_pages ` own) = {b..<b + unat n} \<union> \<Union> (block_pages ` (own - {(b, unat n)}))"
    using assms(2) b by blast
  have apart: "{b..<b + unat n} \<inter> \<Union> (block_pages ` (own - {(b, unat n)})) = {}"
    using dis unfolding b by blast
  note pgs = ff_free_pages [OF fits bs(3)]
  show ?thesis
  proof (rule pm_invI [OF r ff_free_coalesced [OF fits bs(2)]])
    show "pages_of (ff_free b (unat n) bs) \<inter> \<Union> (block_pages ` (own - {(b, unat n)})) = {}"
      using pgs bs(4) un apart by blast
    show "pages_of (ff_free b (unat n) bs) \<union> \<Union> (block_pages ` (own - {(b, unat n)})) = arena"
      using pgs bs(5) un by blast
    show "disjoint_family_on block_pages (own - {(b, unat n)})"
      using bs(7) unfolding disjoint_family_on_def by blast
    show "\<forall>j\<in>\<Union> (block_pages ` (own - {(b, unat n)})). page_clear (pages s' j)"
    proof
      fix j assume j: "j \<in> \<Union> (block_pages ` (own - {(b, unat n)}))"
      have "b \<in> {b..<b + unat n}" using assms(3) by (simp add: unat_gt_0_u64)
      then have "j \<noteq> b" using j apart by blast
      moreover have "page_clear (pages s j)" using j bs(8) un by blast
      ultimately show "page_clear (pages s' j)" using free_pages_clear assms(6) by blast
    qed
  qed (use bs(6) in auto)
qed

lemma pm_inv_count:
  assumes "pm_inv arena (s, own)" and "x \<in> own" and "j \<in> {fst x..<fst x + snd x}"
  shows "pm_inv arena (set_page_ref j v s, own)"
proof -
  obtain bs where bs: "free_rel s bs" "coalesced bs" "wf_blocks bs"
    "pages_of bs \<inter> \<Union> (block_pages ` own) = {}" "pages_of bs \<union> \<Union> (block_pages ` own) = arena"
    "\<forall>x\<in>own. 0 < snd x" "disjoint_family_on block_pages own"
    "\<forall>j\<in>\<Union> (block_pages ` own). page_clear (pages s j)"
    using assms(1) by (rule pm_invE)
  have "j \<in> \<Union> (block_pages ` own)" using assms(2,3) by (auto simp: block_pages_def)
  then have "j \<notin> pages_of bs" using bs(4) by blast
  then have "free_rel (set_page_ref j v s) bs" using bs(1) set_page_ref_rel by blast
  then show ?thesis
    using bs by (intro pm_invI [of _ bs]) (auto simp: set_page_ref_def)
qed

lemma pm_step_inv:
  assumes "pm_inv arena c" and "pm_step c c'" and "finite arena" and "card arena < 2 ^ 32"
  shows "pm_inv arena c'"
  using assms(2,1)
proof cases
  case (take n s p s' own)
  then show ?thesis using assms(1) pm_inv_take by blast
next
  case (refuse n s s' own)
  then obtain bs where "free_rel s bs" using assms(1) by (auto elim: pm_invE)
  from alloc_pages_spec [OF this refuse(3)] refuse(4) have "s' = s" by (auto split: option.splits)
  with refuse show ?thesis using assms(1) by simp
next
  case (give b n own s bs s')
  then show ?thesis using assms(1,3,4) pm_inv_give by blast
next
  case (count x own j s v)
  then show ?thesis using assms(1) pm_inv_count by blast
qed

lemma pm_reach_inv:
  assumes "pm_reach b n c"
  shows "pm_inv {b..<b + unat n} c" and "unat n < 2 ^ 32" and "0 < n"
proof -
  from assms have "pm_inv {b..<b + unat n} c \<and> unat n < 2 ^ 32 \<and> 0 < n"
  proof induction
    case (boot s0 s)
    then show ?case using pm_inv_boot by blast
  next
    case (step c c')
    then show ?case using pm_step_inv [of "{b..<b + unat n}" c c'] by simp
  qed
  then show "pm_inv {b..<b + unat n} c" "unat n < 2 ^ 32" "0 < n" by blast+
qed

subsection \<open>A concrete machine\<close>

text \<open>Interrupts on, every page reserved, nothing linked.\<close>

definition cold_page :: page where
  "cold_page = \<lparr>p_ref = 0, p_flags = 1, p_property = 0\<rparr>"

definition cold_machine :: machine where
  "cold_machine = \<lparr>sstatus = SSTATUS_SIE, sie = 0, satp = 0, stvec = 0, sscratch = 0, bytes = (\<lambda>_. 0), console = []\<rparr>"

definition cold_pmm :: pmm_state where
  "cold_pmm = machine.extend cold_machine
     (pmm_state.fields (\<lambda>_. cold_page) 0 0 \<lparr>le_prev = (\<lambda>_. FreeHead), le_next = (\<lambda>_. FreeHead)\<rparr> 0)"

subsection \<open>A release above every free block\<close>

lemma insert_not_ok:
  assumes "wf_blocks bs" and "fits_free b n bs" and "\<not> insert_ok b bs"
  shows "bs \<noteq> []" "\<forall>x\<in>set bs. fst x < b"
proof -
  show ne: "bs \<noteq> []" using assms(3) by (auto simp: insert_ok_def)
  show "\<forall>x\<in>set bs. fst x < b"
  proof
    fix x assume x: "x \<in> set bs"
    have "0 < snd x" "0 < n" using assms(1,2) x by (auto simp: wf_blocks_def fits_free_def)
    moreover have "fst x \<le> b" using assms(3) x by (auto simp: insert_ok_def not_less)
    ultimately show "fst x < b" using fits_free_order [OF assms(2,1) x] by linarith
  qed
qed

text \<open>A release above every free block: the block is reached by \<open>next\<close>, its own \<open>prev\<close> is itself, and
  it is merged with nothing.\<close>

lemma free_pages_tail:
  assumes rel: "free_rel s bs" and n: "0 < n" and fits: "fits_free b (unat n) bs"
    and clear: "\<forall>j\<in>{b..<b + unat n}. page_clear (pages s j)"
    and tail: "\<not> insert_ok b bs" and sum: "sum_list (map snd bs) + unat n < 2 ^ 32"
  obtains s' where "free_pages b n s = ret s'"
    "npath (free_list s') FreeHead (block_nodes (bs @ [(b, unat n)])) FreeHead"
    "list_prev (free_list s') (Link b) = Link b"
    "\<forall>x\<in>set (bs @ [(b, unat n)]). unat (p_property (pages s' (fst x))) = snd x"
    "unat (nr_free s') = sum_list (map snd bs) + unat n"
proof -
  let ?m = "unat n"
  have rep: "rep_blocks (pages s) (free_list s) bs" and nf: "unat (nr_free s) = sum_list (map snd bs)"
    using rel by (simp_all add: free_rel_def)
  then have dll: "cdll (free_list s) FreeHead (block_nodes bs)" and wf: "wf_blocks bs"
    and sz: "\<forall>x\<in>set bs. unat (p_property (pages s (fst x))) = snd x"
    by (simp_all add: rep_blocks_def)
  note low = insert_not_ok [OF wf fits tail]
  obtain xs z where bs: "bs = xs @ [z]" using low(1) by (metis rev_exhaust)
  obtain h where h: "link_block b (free_list s) = Some h"
      "npath h FreeHead (block_nodes (xs @ [z, (b, ?m)])) FreeHead" "list_prev h (Link b) = Link b"
    using link_block_tail [of "free_list s" xs z b ?m] dll low(2) unfolding bs by blast
  define pg where "pg = set_block_head b n (\<lambda>j. if j \<in> {b..<b + ?m} then (pages s j)\<lparr>p_flags := 0, p_ref := 0\<rparr> else pages s j)"
  have m: "?m < 2 ^ 32" "0 < ?m" using sum n by (simp_all add: unat_gt_0_u64)
  have pb: "unat (p_property (pg b)) = ?m"
    using m(1) by (simp add: pg_def set_block_head_def SetPageProperty_def unat_ucast_u64_u32)
  have "unat (p_property (pg (fst x))) = snd x" if "x \<in> set bs" for x
    using sz low(2) that by (auto simp: pg_def set_block_head_def)
  then have szs: "\<forall>x\<in>set (bs @ [(b, ?m)]). unat (p_property (pg (fst x))) = snd x" using pb by simp
  have "merge_prev b (pg, h) = (b, pg, h)" using h(3) pb m(2) by (simp add: merge_prev_def)
  moreover have "list_next h (Link b) = FreeHead" using h(2) by simp
  then have "merge_next b (pg, h) = (pg, h)" by (simp add: merge_next_def)
  ultimately have run: "free_pages b n s = ret (s\<lparr>pages := pg, free_list := h, nr_free := nr_free s + ucast n\<rparr>)"
    using n free_pages_loop_spec [OF clear] h(1) by (simp add: free_pages_eq default_free_pages_def pg_def)
  have "unat (nr_free s + ucast n) = sum_list (map snd bs) + ?m"
    using nf sum m(1) by (subst unat_add_u32) (simp_all add: unat_ucast_u64_u32)
  then show ?thesis using that [OF run] h(2,3) szs by (simp add: bs)
qed

lemma self_prev_not_free_rel:
  assumes "npath (free_list s) FreeHead (block_nodes (bs @ [(b, k)])) FreeHead" and "bs \<noteq> []"
    and "list_prev (free_list s) (Link b) = Link b" and "\<forall>x\<in>set bs. fst x < b"
  shows "\<not> free_rel s cs"
proof
  assume "free_rel s cs"
  then have c: "cdll (free_list s) FreeHead (block_nodes cs)" by (simp add: free_rel_def rep_blocks_def)
  obtain xs z where bs: "bs = xs @ [z]" using assms(2) by (metis rev_exhaust)
  have "block_nodes cs = block_nodes (bs @ [(b, k)])"
    by (rule npath_unique [OF cdll_npath [OF c] assms(1)]) auto
  then have "cdll (free_list s) FreeHead (block_nodes bs @ Link b # [])" using c by simp
  from cdll_prev [OF this] show False using assms(3,4) by (simp add: bs)
qed

lemma free_pages_broken:
  assumes "free_rel s bs" and "0 < n" and "fits_free b (unat n) bs"
    and "\<forall>j\<in>{b..<b + unat n}. page_clear (pages s j)"
    and "sum_list (map snd bs) + unat n < 2 ^ 32" and "\<not> insert_ok b bs"
  shows "\<exists>s'. free_pages b n s = ret s' \<and> (\<nexists>cs. free_rel s' cs)"
proof -
  have "wf_blocks bs" using assms(1) by (simp add: free_rel_def rep_blocks_def)
  note low = insert_not_ok [OF this assms(3,6)]
  obtain s' where "free_pages b n s = ret s'"
      "npath (free_list s') FreeHead (block_nodes (bs @ [(b, unat n)])) FreeHead"
      "list_prev (free_list s') (Link b) = Link b"
    by (rule free_pages_tail [OF assms(1-4,6,5)])
  then show ?thesis using self_prev_not_free_rel [OF _ low(1) _ low(2)] by blast
qed



lemma ff_alloc_insert_ok:
  assumes a: "ff_alloc n bs = Some (p, bs')" and wf: "wf_blocks bs" and n: "0 < n"
  shows "insert_ok p bs' \<longleftrightarrow> length bs = 1 \<or> last bs \<noteq> (p, n)"
proof -
  obtain xs k ys where sp: "bs = xs @ (p, k) # ys" "n \<le> k" "bs' = xs @ (if n < k then (p + n, k - n) # ys else ys)"
    using a by (rule ff_alloc_SomeE)
  note lt = wf_blocks_less [OF wf [unfolded sp(1)]]
  have xs: "\<not> p < fst x" if "x \<in> set xs" for x using lt(1) that by (meson less_asym)
  show ?thesis
  proof (cases "ys = []")
    case True
    then show ?thesis using sp n xs by (auto simp: insert_ok_def)
  next
    case False
    then have l: "last ys \<in> set ys" by simp
    then have "p < fst (last ys)" using lt(2) by blast
    moreover have "last bs = last ys" using False sp(1) by simp
    moreover have "last ys \<in> set bs'" using l sp(3) by simp
    ultimately show ?thesis by (metis fst_conv insert_ok_def less_irrefl)
  qed
qed

lemma intr_save_snd: "snd (intr_save s) = intr_disable s"
proof (cases "intr_on s")
  case False
  then have "sstatus s AND NOT SSTATUS_SIE = sstatus s"
    by (intro bit_eqI) (auto simp: intr_on_iff SSTATUS_SIE_mask bit_and_iff bit_not_iff bit_BIT_MASK)
  then show ?thesis using False by (simp add: intr_save_def intr_disable_def intr_on_def)
qed (simp add: intr_save_def intr_on_def)

lemma run_bind_cong: "(\<And>a. m = ret a \<Longrightarrow> f a = g a) \<Longrightarrow> run_bind m f = run_bind m g"
  by (auto simp: run_bind_def ret_def split: option.splits sum.splits Option.bind_splits)

subsection \<open>What the allocator guarantees\<close>

text \<open>C3. In every state the allocator reaches by allocations, changes of reference counts, and releases with
  a free block above or nothing free (the others break the list, as C9 says), the pages given to it at
  boot are split between the free list and the blocks held by clients: no page is held twice or both held and free, no page
  is lost, and \<open>nr_free\<close> is the number of free pages.\<close>

theorem pm_reach_partition:
  assumes "pm_reach b n (s, own)"
  shows "disjoint_family_on block_pages own \<and> free_frames s \<inter> \<Union> (block_pages ` own) = {} \<and>
    free_frames s \<union> \<Union> (block_pages ` own) = {b..<b + unat n} \<and>
    unat (nr_free s) = card (free_frames s)"
proof -
  obtain bs where bs: "free_rel s bs" "coalesced bs" "wf_blocks bs"
    "pages_of bs \<inter> \<Union> (block_pages ` own) = {}"
    "pages_of bs \<union> \<Union> (block_pages ` own) = {b..<b + unat n}"
    "disjoint_family_on block_pages own"
    using pm_reach_inv(1) [OF assms] by (rule pm_invE)
  moreover have "unat (nr_free s) = card (pages_of bs)"
    using bs(1) card_pages_of [OF bs(3)] by (simp add: free_rel_def)
  ultimately show ?thesis unfolding free_frames_eq [OF bs(1)] by blast
qed

lemma cold_pages_reserved: "PageReserved (pages cold_pmm j)"
  by (simp add: cold_pmm_def pmm_state.defs cold_machine_def machine.defs cold_page_def
      PageReserved_def test_bit_word_def PG_reserved_def)

lemma reach_boot:
  assumes "0 < n" and "unat n < 2 ^ 32"
  obtains s :: pmm_state where "default_init_memmap 0 n (default_init cold_pmm) = ret s"
    "pm_reach 0 n (s, {})" "free_rel s [(0, unat n)]"
proof -
  have "free_rel (default_init cold_pmm) ([] @ [])" using default_init_rel by simp
  moreover have "wf_blocks ([] @ (0, unat n) # [])" using assms by (simp add: blocks_simps unat_gt_0_u64)
  ultimately obtain s where s: "default_init_memmap 0 n (default_init cold_pmm) = ret s"
      "free_rel s [(0, unat n)]"
    using default_init_memmap_spec [of "default_init cold_pmm" "[]" "[]" n 0] assms cold_pages_reserved
    by (auto simp: insert_ok_def default_init_def)
  have "pm_reach 0 n (s, {})"
    using assms cold_pages_reserved s(1) by (intro pm_reach.boot) auto
  with s that show ?thesis by blast
qed

lemma reach_take_all:
  obtains s :: pmm_state where "pm_reach 0 8 (s, {(0, 8)})" "free_rel s []" "\<forall>j\<in>{0..<8}. page_clear (pages s j)"
proof -
  obtain s :: pmm_state where s: "pm_reach 0 8 (s, {})" "free_rel s [(0, 8)]"
    using reach_boot [of 8] by auto
  have a: "ff_alloc (unat (8 :: u64)) [(0, 8)] = Some (0, [])" by simp
  have "alloc_pages 8 s = ret (Some 0, take_block 0 8 s)"
    using alloc_pages_spec [OF s(2), of 8] by (simp add: a)
  then have "pm_step (s, {}) (take_block 0 8 s, insert (0, unat (8 :: u64)) {})" by (intro pm_step.take) simp_all
  moreover note r = default_alloc_pages_Some [OF s(2) _ a]
  ultimately show ?thesis using s(1) that [of "take_block 0 8 s"]
    by (auto intro: pm_reach.step simp: page_idle_def)
qed

lemma pm_reach_partition_witness:
  "\<exists>s :: pmm_state. pm_reach 0 8 (s, {(0, 8)}) \<and> free_frames s = {} \<and> nr_free s = 0"
proof -
  obtain s :: pmm_state where s: "pm_reach 0 8 (s, {(0, 8)})" "free_rel s []"
    by (rule reach_take_all)
  have "unat (nr_free s) = card (free_frames s)" using pm_reach_partition [OF s(1)] by blast
  with s free_frames_eq [OF s(2)] show ?thesis by (auto simp: unat_eq_zero)
qed

text \<open>C4. When every client has given its blocks back, each release with a free block above or nothing
  free (the others break the list, as C9 says), the free list is again the single block the
  allocator was booted with: whatever was split has been merged.\<close>

theorem pm_reach_all_returned:
  assumes "pm_reach b n (s, {})"
  shows "free_rel s [(b, unat n)]"
proof -
  obtain bs where bs: "free_rel s bs" "coalesced bs" "pages_of bs = {b..<b + unat n}"
    using pm_reach_inv(1) [OF assms] by (auto elim: pm_invE)
  have "0 < n" by (rule pm_reach_inv(3) [OF assms])
  then have "coalesced [(b, unat n)]" by (simp add: blocks_simps unat_gt_0_u64)
  with bs coalesced_unique [of bs "[(b, unat n)]"] show ?thesis by simp
qed

lemma pm_reach_all_returned_witness:
  "\<exists>s s' :: pmm_state. pm_reach 0 8 (s, {(0, 8)}) \<and> free_pages 0 8 s = ret s' \<and>
     free_rel s' [(0, 8)]"
proof -
  obtain s :: pmm_state where s: "pm_reach 0 8 (s, {(0, 8)})" "free_rel s []"
      "\<forall>j\<in>{0..<8}. page_clear (pages s j)"
    by (rule reach_take_all)
  obtain s' where s': "free_pages 0 8 s = ret s'"
    using free_pages_spec [OF s(2), of 8 0] s(3) by (auto simp: fits_free_def insert_ok_def)
  have "pm_step (s, {(0, 8)}) (s', {(0, 8)} - {(0, unat (8 :: u64))})"
    using s(2) s' by (intro pm_step.give) (auto simp: insert_ok_def)
  then have "pm_reach 0 8 (s', {})" using s(1) by (auto intro: pm_reach.step)
  from pm_reach_all_returned [OF this] s(1) s' show ?thesis by auto
qed

text \<open>C5. An allocation takes the first block of the free list that is large enough, hands out its
  lowest pages and leaves the rest in the same place of the list; it fails, changing nothing, exactly
  when every free block is too small. It never panics or loops.\<close>

theorem alloc_pages_first_fit:
  assumes "free_rel s bs" and "0 < n"
  shows "alloc_pages n s =
      ret (case ff_alloc (unat n) bs of None \<Rightarrow> (None, s) | Some (i, _) \<Rightarrow> (Some i, take_block i n s)) \<and>
    (\<forall>i bs'. ff_alloc (unat n) bs = Some (i, bs') \<longrightarrow>
      free_rel (take_block i n s) bs' \<and>
      (\<forall>j\<in>{i..<i + unat n}. page_idle (pages (take_block i n s) j)))"
  using alloc_pages_spec [OF assms] default_alloc_pages_Some [OF assms] by blast+

lemma alloc_pages_first_fit_witness:
  "\<exists>s :: pmm_state. free_rel s [(0, 8)] \<and> alloc_pages 3 s = ret (Some 0, take_block 0 3 s) \<and>
     free_rel (take_block 0 3 s) [(3, 5)]"
proof -
  obtain s :: pmm_state where s: "free_rel s [(0, 8)]" using reach_boot [of 8] by auto
  have "ff_alloc (unat (3 :: u64)) [(0, 8)] = Some (0, [(3, 5)])" by simp
  with alloc_pages_first_fit [OF s, of 3] s show ?thesis by auto
qed

text \<open>C6. Giving back a block that is not free, when some free block lies above it or nothing is
  free, enters it into the address-ordered free list and merges it with both neighbours.\<close>

theorem free_pages_coalesces:
  assumes "free_rel s bs" and "0 < n" and "fits_free b (unat n) bs"
    and "\<forall>j\<in>{b..<b + unat n}. page_clear (pages s j)"
    and "insert_ok b bs" and "sum_list (map snd bs) + unat n < 2 ^ 32"
  shows "\<exists>s'. free_pages b n s = ret s' \<and> free_rel s' (ff_free b (unat n) bs) \<and>
    pages_of (ff_free b (unat n) bs) = pages_of bs \<union> {b..<b + unat n} \<and>
    (coalesced bs \<longrightarrow> coalesced (ff_free b (unat n) bs)) \<and> sstatus s' = sstatus s"
proof -
  obtain s' where "free_pages b n s = ret s'" "free_rel s' (ff_free b (unat n) bs)" "sstatus s' = sstatus s"
    using assms by (rule free_pages_spec)
  moreover have "wf_blocks bs" using assms(1) by (simp add: free_rel_def rep_blocks_def)
  ultimately show ?thesis
    using ff_free_pages [OF assms(3)] ff_free_coalesced [OF assms(3)] by blast
qed

lemma free_pages_coalesces_witness:
  "\<exists>s s' :: pmm_state. free_rel s [(3, 5)] \<and> free_pages 0 3 s = ret s' \<and> free_rel s' [(0, 8)]"
proof -
  obtain s :: pmm_state where s: "free_rel s [(0, 8)]" using reach_boot [of 8] by auto
  have a: "ff_alloc (unat (3 :: u64)) [(0, 8)] = Some (0, [(3, 5)])" by simp
  let ?t = "take_block 0 3 s"
  have t: "free_rel ?t [(3, 5)]" "\<forall>j\<in>{0..<0 + unat (3 :: u64)}. page_clear (pages ?t j)"
    using default_alloc_pages_Some [OF s _ a] by (auto simp: page_idle_def)
  have "ff_free 0 3 [(3, 5)] = [(0, 8)]"
    by (simp add: ff_free_def join_left_def join_right_def)
  with free_pages_coalesces [OF t(1) _ _ t(2)] t(1) show ?thesis
    by (auto simp: fits_free_def insert_ok_def)
qed

text \<open>C7. Allocating \<open>n\<close> pages and giving them straight back restores the free list block by block, but
  for one case: when the pages are the whole last block and other blocks lie below, the release has
  no free block above it and breaks the list.\<close>

theorem alloc_free_pages_roundtrip:
  assumes rel: "free_rel s bs" and co: "coalesced bs" and n: "0 < n" and al: "alloc_pages n s = ret (Some p, s1)"
    and sum: "sum_list (map snd bs) < 2 ^ 32"
  shows "\<exists>s2. free_pages p n s1 = ret s2 \<and>
    (if length bs \<noteq> 1 \<and> last bs = (p, unat n) then \<nexists>cs. free_rel s2 cs else free_rel s2 bs)"
proof -
  obtain bs' where a: "ff_alloc (unat n) bs = Some (p, bs')" and s1: "s1 = take_block p n s"
    using al alloc_pages_spec [OF rel n] by (auto split: option.splits)
  note r = default_alloc_pages_Some [OF rel n a, folded s1]
  have fits: "fits_free p (unat n) bs'"
    using ff_alloc_pages [OF a coalesced_wf [OF co]] n by (auto simp: fits_free_def unat_gt_0_u64)
  have clear: "\<forall>j\<in>{p..<p + unat n}. page_clear (pages s1 j)" using r(2) by (simp add: page_idle_def)
  have sum': "sum_list (map snd bs') + unat n < 2 ^ 32" using ff_alloc_sum [OF a] sum by simp
  have ok: "insert_ok p bs' \<longleftrightarrow> \<not> (length bs \<noteq> 1 \<and> last bs = (p, unat n))"
    using ff_alloc_insert_ok [OF a coalesced_wf [OF co]] n by (simp add: unat_gt_0_u64)
  show ?thesis
  proof (cases "insert_ok p bs'")
    case True
    obtain s2 where "free_pages p n s1 = ret s2" "free_rel s2 (ff_free p (unat n) bs')"
      using free_pages_spec [OF r(1) n fits clear True sum'] by blast
    moreover have "ff_free p (unat n) bs' = bs"
      using ff_alloc_free_roundtrip [OF co _ a] n by (simp add: unat_gt_0_u64)
    ultimately show ?thesis using True ok by auto
  next
    case False
    then show ?thesis using free_pages_broken [OF r(1) n fits clear sum' False] ok by auto
  qed
qed

lemma alloc_free_pages_roundtrip_witness:
  "\<exists>s s1 s2 :: pmm_state. alloc_pages 3 s = ret (Some 0, s1) \<and> free_pages 0 3 s1 = ret s2 \<and>
     free_rel s [(0, 8)] \<and> free_rel s2 [(0, 8)]"
proof -
  obtain s :: pmm_state where s: "free_rel s [(0, 8)]" using reach_boot [of 8] by auto
  have a: "ff_alloc (unat (3 :: u64)) [(0, 8)] = Some (0, [(3, 5)])" by simp
  have al: "alloc_pages 3 s = ret (Some 0, take_block 0 3 s)"
    using alloc_pages_spec [OF s, of 3] by (simp add: a)
  from alloc_free_pages_roundtrip [OF s _ _ al] s al show ?thesis by (auto simp: blocks_simps)
qed

text \<open>C8. Whatever manager the pointer names, as long as its functions leave the interrupt state alone:
  the calls of pmm.c run them with interrupts off and nothing else changed, pass their result on, and
  give the caller its interrupt state back.\<close>

theorem pmm_calls_masked:
  fixes m :: "('z pmm_state_scheme, 'x) pmm_calls_scheme"
  assumes "\<And>n s r t. mgr_alloc_pages m n s = ret (r, t) \<Longrightarrow> sstatus t = sstatus s"
    and "\<And>b n s t. mgr_free_pages m b n s = ret t \<Longrightarrow> sstatus t = sstatus s"
  shows "\<not> intr_on (intr_disable s) \<and>
    pmm_alloc_pages m n s = run_bind (mgr_alloc_pages m n (intr_disable s)) (\<lambda>(r, t). ret (r, t\<lparr>sstatus := sstatus s\<rparr>)) \<and>
    pmm_free_pages m b n s = run_bind (mgr_free_pages m b n (intr_disable s)) (\<lambda>t. ret (t\<lparr>sstatus := sstatus s\<rparr>)) \<and>
    pmm_nr_free_pages m s = (mgr_nr_free_pages m (intr_disable s), s)"
proof -
  obtain flag where sv: "intr_save s = (flag, intr_disable s)" by (metis intr_save_snd prod.collapse)
  note restored = intr_restore_saved [OF sv]
  have "run_bind (mgr_alloc_pages m n (intr_disable s)) (\<lambda>(r, t). ret (r, intr_restore flag t)) =
      run_bind (mgr_alloc_pages m n (intr_disable s)) (\<lambda>(r, t). ret (r, t\<lparr>sstatus := sstatus s\<rparr>))"
    by (intro run_bind_cong) (auto dest!: assms(1) intro: restored)
  moreover have "run_bind (mgr_free_pages m b n (intr_disable s)) (\<lambda>t. ret (intr_restore flag t)) =
      run_bind (mgr_free_pages m b n (intr_disable s)) (\<lambda>t. ret (t\<lparr>sstatus := sstatus s\<rparr>))"
    by (intro run_bind_cong) (auto dest!: assms(2) intro: restored)
  moreover have "intr_restore flag (intr_disable s) = s" using restored [OF refl] by (simp add: intr_disable_def)
  ultimately show ?thesis
    using intr_save_off [of s]
    by (simp add: pmm_alloc_pages_def pmm_free_pages_def pmm_nr_free_pages_def sv intr_save_snd)
qed

text \<open>A manager that has pages only while interrupts are off: the kernel's calls get them, with interrupts
  on before and after.\<close>

definition shy_manager :: "pmm_state pmm_calls" where
  "shy_manager = \<lparr>mgr_name = ''shy'', mgr_init = (\<lambda>s. s), mgr_init_memmap = (\<lambda>_ _ s. ret s),
     mgr_alloc_pages = (\<lambda>n s. ret (if intr_on s then None else Some 7, s)),
     mgr_free_pages = (\<lambda>_ _ s. if intr_on s then panic ''interrupts are on'' else ret s),
     mgr_nr_free_pages = (\<lambda>s. if intr_on s then 0 else 1)\<rparr>"

lemma pmm_calls_masked_witness:
  "intr_on cold_pmm \<and> pmm_alloc_pages shy_manager 1 cold_pmm = ret (Some 7, cold_pmm) \<and>
   pmm_free_pages shy_manager 7 1 cold_pmm = ret cold_pmm \<and> pmm_nr_free_pages shy_manager cold_pmm = (1, cold_pmm)"
proof -
  have "intr_on cold_pmm" by (simp add: intr_on_def cold_pmm_def cold_machine_def pmm_state.defs machine.defs SSTATUS_SIE_def)
  moreover have "(intr_disable cold_pmm)\<lparr>sstatus := sstatus cold_pmm\<rparr> = cold_pmm" by (simp add: intr_disable_def)
  moreover have "\<not> intr_on (intr_disable cold_pmm)" using intr_save_off [of cold_pmm] by (simp add: intr_save_snd)
  moreover have "mgr_alloc_pages shy_manager n s = ret (r, t) \<Longrightarrow> sstatus t = sstatus s"
    "mgr_free_pages shy_manager b n s = ret t \<Longrightarrow> sstatus t = sstatus s" for b n s r t
    by (auto simp: shy_manager_def split: if_splits)
  note pmm_calls_masked [of shy_manager, OF this]
  ultimately show ?thesis by (simp add: shy_manager_def)
qed



end
