(* ===== verification/PmmCheck.thy ===== *)
theory PmmCheck
  imports PmmReach
begin

text \<open>
  The self-test of the page allocator at the end of kern/mm/default_pmm.c, which \<open>pmm_init\<close> runs
  at every boot: \<open>basic_check\<close> and \<open>default_check\<close>, statement by statement on the model of the
  allocator. An assertion that fails is a panic of the model.
\<close>

subsection \<open>Assertions on the results of allocations\<close>

text \<open>\<open>assert((p = alloc_pages(n)) != NULL)\<close> and \<open>assert(alloc_pages(n) == NULL)\<close>.\<close>

definition alloc_some ::
  "u64 \<Rightarrow> 'z pmm_state_scheme \<Rightarrow> (nat \<Rightarrow> 'z pmm_state_scheme \<Rightarrow> 'b run) \<Rightarrow> 'b run" where
  "alloc_some n s k = run_bind (alloc_pages n s) (\<lambda>(r, s').
     case r of None \<Rightarrow> panic ''assertion failed: alloc_pages() != NULL'' | Some p \<Rightarrow> k p s')"

definition alloc_none :: "u64 \<Rightarrow> 'z pmm_state_scheme \<Rightarrow> ('z pmm_state_scheme \<Rightarrow> 'b run) \<Rightarrow> 'b run" where
  "alloc_none n s k = run_bind (alloc_pages n s) (\<lambda>(r, s').
     c_assert (r = None) ''alloc_pages() == NULL'' (k s'))"

text \<open>Save and restore of the list head and of the counter around the tests.\<close>

definition save_area :: "'z pmm_state_scheme \<Rightarrow> pnode \<times> pnode \<times> u32" where
  "save_area s =
     (list_prev (free_list s) FreeHead, list_next (free_list s) FreeHead, nr_free s)"

definition restore_area :: "pnode \<times> pnode \<times> u32 \<Rightarrow> 'z pmm_state_scheme \<Rightarrow> 'z pmm_state_scheme" where
  "restore_area st s =
     (let (p, n, nr) = st
      in s\<lparr>free_list := set_prev FreeHead p (set_next FreeHead n (free_list s)), nr_free := nr\<rparr>)"

subsection \<open>basic_check\<close>

definition basic_check :: "'z pmm_state_scheme \<Rightarrow> 'z pmm_state_scheme run" where
  "basic_check s =
     alloc_some 1 s (\<lambda>p0 s. alloc_some 1 s (\<lambda>p1 s. alloc_some 1 s (\<lambda>p2 s.
     c_assert (p0 \<noteq> p1 \<and> p0 \<noteq> p2 \<and> p1 \<noteq> p2) ''p0 != p1 && p0 != p2 && p1 != p2'' (
     c_assert (page_ref p0 s = 0 \<and> page_ref p1 s = 0 \<and> page_ref p2 s = 0) ''page_ref(p0) == 0'' (
     c_assert (page2pa p0 < npage s * PGSIZE) ''page2pa(p0) < npage * PGSIZE'' (
     c_assert (page2pa p1 < npage s * PGSIZE) ''page2pa(p1) < npage * PGSIZE'' (
     c_assert (page2pa p2 < npage s * PGSIZE) ''page2pa(p2) < npage * PGSIZE'' (
     let store = save_area s;
         s = s\<lparr>free_list := list_init FreeHead (free_list s)\<rparr> in
     c_assert (list_empty (free_list s) FreeHead) ''list_empty(&free_list)'' (
     let s = s\<lparr>nr_free := 0\<rparr> in
     alloc_none 1 s (\<lambda>s.
     run_bind (free_page p0 s) (\<lambda>s. run_bind (free_page p1 s) (\<lambda>s. run_bind (free_page p2 s) (\<lambda>s.
     c_assert (nr_free s = 3) ''nr_free == 3'' (
     alloc_some 1 s (\<lambda>p0 s. alloc_some 1 s (\<lambda>p1 s. alloc_some 1 s (\<lambda>p2 s.
     alloc_none 1 s (\<lambda>s.
     run_bind (free_page p0 s) (\<lambda>s.
     c_assert (\<not> list_empty (free_list s) FreeHead) ''!list_empty(&free_list)'' (
     alloc_some 1 s (\<lambda>p s.
     c_assert (p = p0) ''(p = alloc_page()) == p0'' (
     alloc_none 1 s (\<lambda>s.
     c_assert (nr_free s = 0) ''nr_free == 0'' (
     let s = restore_area store s in
     run_bind (free_page p s) (\<lambda>s. run_bind (free_page p1 s) (\<lambda>s. free_page p2 s
     ))))))))))))))))))))))))))"

subsection \<open>default_check\<close>

text \<open>The first loop counts the free blocks and their pages, the last one counts them down.\<close>

partial_function (option) count_up ::
  "(nat \<Rightarrow> page) \<Rightarrow> pnode links \<Rightarrow> pnode \<Rightarrow> u32 \<times> u32 \<Rightarrow> (u32 \<times> u32) run" where
  "count_up pg h le acc =
     (let le' = list_next h le in
      if le' = FreeHead then ret acc
      else if \<not> PageProperty (pg (le2page le')) then panic ''assertion failed: PageProperty(p)''
      else count_up pg h le' (fst acc + 1, snd acc + p_property (pg (le2page le'))))"

partial_function (option) count_down ::
  "(nat \<Rightarrow> page) \<Rightarrow> pnode links \<Rightarrow> pnode \<Rightarrow> u32 \<times> u32 \<Rightarrow> (u32 \<times> u32) run" where
  "count_down pg h le acc =
     (let le' = list_next h le in
      if le' = FreeHead then ret acc
      else count_down pg h le' (fst acc - 1, snd acc - p_property (pg (le2page le'))))"

declare count_up.simps [code] and count_down.simps [code]

text \<open>The part of \<open>default_check\<close> between the two loops.\<close>

definition check_splits :: "'z pmm_state_scheme \<Rightarrow> 'z pmm_state_scheme run" where
  "check_splits s =
     alloc_some 5 s (\<lambda>p0 s.
     c_assert (\<not> PageProperty (pages s p0)) ''!PageProperty(p0)'' (
     let store = save_area s;
         s = s\<lparr>free_list := list_init FreeHead (free_list s)\<rparr> in
     c_assert (list_empty (free_list s) FreeHead) ''list_empty(&free_list)'' (
     alloc_none 1 s (\<lambda>s.
     let s = s\<lparr>nr_free := 0\<rparr> in
     run_bind (free_pages (p0 + 2) 3 s) (\<lambda>s.
     alloc_none 4 s (\<lambda>s.
     c_assert (PageProperty (pages s (p0 + 2)) \<and> p_property (pages s (p0 + 2)) = 3)
       ''PageProperty(p0 + 2) && p0[2].property == 3'' (
     alloc_some 3 s (\<lambda>p1 s.
     alloc_none 1 s (\<lambda>s.
     c_assert (p0 + 2 = p1) ''p0 + 2 == p1'' (
     let p2 = p0 + 1 in
     run_bind (free_page p0 s) (\<lambda>s. run_bind (free_pages p1 3 s) (\<lambda>s.
     c_assert (PageProperty (pages s p0) \<and> p_property (pages s p0) = 1)
       ''PageProperty(p0) && p0->property == 1'' (
     c_assert (PageProperty (pages s p1) \<and> p_property (pages s p1) = 3)
       ''PageProperty(p1) && p1->property == 3'' (
     alloc_some 1 s (\<lambda>p0 s.
     c_assert (p0 = p2 - 1) ''(p0 = alloc_page()) == p2 - 1'' (
     run_bind (free_page p0 s) (\<lambda>s.
     alloc_some 2 s (\<lambda>p0 s.
     c_assert (p0 = p2 + 1) ''(p0 = alloc_pages(2)) == p2 + 1'' (
     run_bind (free_pages p0 2 s) (\<lambda>s. run_bind (free_page p2 s) (\<lambda>s.
     alloc_some 5 s (\<lambda>p0 s.
     alloc_none 1 s (\<lambda>s.
     c_assert (nr_free s = 0) ''nr_free == 0'' (
     free_pages p0 5 (restore_area store s)))))))))))))))))))))))))"

definition default_check :: "'z pmm_state_scheme \<Rightarrow> 'z pmm_state_scheme run" where
  "default_check s =
     run_bind (count_up (pages s) (free_list s) FreeHead (0, 0)) (\<lambda>acc.
     run_bind (ret (nr_free_pages s)) (\<lambda>(nr, s).
     c_assert (scast (snd acc) = nr) ''total == nr_free_pages()'' (
     run_bind (basic_check s) (\<lambda>s.
     run_bind (check_splits s) (\<lambda>s.
     run_bind (count_down (pages s) (free_list s) FreeHead acc) (\<lambda>(count, total).
     c_assert (count = 0) ''count == 0'' (
     c_assert (total = 0) ''total == 0'' (ret s))))))))"

subsection \<open>The manager\<close>

text \<open>The whole table.\<close>

record 's pmm_manager = "'s pmm_calls" +
  mgr_check :: "'s \<Rightarrow> 's run"

definition default_pmm_manager :: "'z pmm_state_scheme pmm_manager" where
  "default_pmm_manager = \<lparr>mgr_name = ''default_pmm_manager'', mgr_init = default_init,
     mgr_init_memmap = default_init_memmap, mgr_alloc_pages = default_alloc_pages,
     mgr_free_pages = default_free_pages, mgr_nr_free_pages = default_nr_free_pages, mgr_check = default_check\<rparr>"

lemma manager_simps [simp]:
  "mgr_name default_pmm_manager = ''default_pmm_manager''" "mgr_init default_pmm_manager = default_init"
  "mgr_init_memmap default_pmm_manager = default_init_memmap" "mgr_check default_pmm_manager = default_check"
  by (simp_all add: default_pmm_manager_def)

text \<open>The calls of the interface go to the table.\<close>

lemma manager_calls:
  "alloc_pages n s = pmm_alloc_pages default_pmm_manager n s"
  "free_pages base n s = pmm_free_pages default_pmm_manager base n s"
  "nr_free_pages s = pmm_nr_free_pages default_pmm_manager s"
  by (simp_all add: default_pmm_manager_def pages_calls pmm_alloc_pages_def pmm_free_pages_def pmm_nr_free_pages_def)

subsection \<open>The self-test passes\<close>

lemma take_n [run_eval]:
  "init_memmap_pages (numeral k) p pg =
     (if \<not> PageReserved (pg p) then panic ''assertion failed: PageReserved(p)''
      else init_memmap_pages (pred_numeral k) (Suc p)
             (pg(p := (pg p)\<lparr>p_flags := 0, p_property := 0, p_ref := 0\<rparr>)))"
  "free_pages_loop (numeral k) p pg =
     (if PageReserved (pg p) \<or> PageProperty (pg p)
      then panic ''assertion failed: !PageReserved(p) && !PageProperty(p)''
      else free_pages_loop (pred_numeral k) (Suc p) (pg(p := (pg p)\<lparr>p_flags := 0, p_ref := 0\<rparr>)))"
  by (simp_all add: numeral_eq_Suc)

lemmas intr_eval [run_eval] = intr_save_def intr_restore_def intr_enable_def intr_disable_def
  SSTATUS_SIE_def

lemmas flag_eval [run_eval] = SetPageProperty_def ClearPageProperty_def PageProperty_def
  SetPageReserved_def PageReserved_def or_bit_def andnot_bit_def test_bit_word_def BIT_MASK_def
  BITS_PER_LONG_def PG_property_def PG_reserved_def

lemmas pmm_eval [run_eval] = default_init_def default_init_memmap_def default_alloc_pages_def
  default_free_pages_def pages_calls free_page_def alloc_page_def
  default_nr_free_pages_def link_block_def take_block_def set_block_head_def
  insert_loop.simps first_fit_loop.simps merge_prev_def merge_next_def page_ref_def page2pa_def
  page2ppn_def nbase_def PGSIZE_def DRAM_BASE_def Let_def word_le_nat_alt word_less_nat_alt

lemmas check_eval = alloc_some_def alloc_none_def save_area_def restore_area_def count_up.simps
  count_down.simps

text \<open>Eight reserved pages at the start of the DRAM, nothing linked, interrupts on.\<close>

definition eight_pages :: pmm_state where
  "eight_pages = machine.extend cold_machine
     (pmm_state.fields (tab (replicate 8 cold_page) cold_page) (nbase + 8) 0
        \<lparr>le_prev = tabn FreeHead (replicate 8 FreeHead) FreeHead,
         le_next = tabn FreeHead (replicate 8 FreeHead) FreeHead\<rparr> 0)"

lemma replicate_8: "replicate 8 x = [x, x, x, x, x, x, x, x]"
  by (simp add: numeral_eq_Suc)

lemma eight_pages_eval:
  "eight_pages = \<lparr>sstatus = 2, sie = 0, satp = 0, stvec = 0, sscratch = 0, bytes = (\<lambda>_. 0), console = [],
     pages = tab [cold_page, cold_page, cold_page, cold_page, cold_page, cold_page, cold_page, cold_page] cold_page,
     npage = 0x80008, va_pa_offset = 0,
     free_list = \<lparr>le_prev = tabn FreeHead [FreeHead, FreeHead, FreeHead, FreeHead, FreeHead, FreeHead, FreeHead, FreeHead] FreeHead,
                  le_next = tabn FreeHead [FreeHead, FreeHead, FreeHead, FreeHead, FreeHead, FreeHead, FreeHead, FreeHead] FreeHead\<rparr>,
     nr_free = 0\<rparr>"
  by (simp add: eight_pages_def pmm_state.defs cold_machine_def machine.defs nbase_def DRAM_BASE_def
      PGSIZE_def SSTATUS_SIE_def replicate_8)

text \<open>On eight pages handed over at boot the kernel's self-test of the allocator runs to its end
  without a failed assertion and leaves one free block of eight pages.\<close>

theorem default_check_passes:
  "run_bind (default_init_memmap 0 8 (default_init eight_pages)) (\<lambda>s.
   run_bind (default_check s) (\<lambda>s.
     ret (nr_free s, list_next (free_list s) FreeHead, list_next (free_list s) (Link 0), pages s 0))) =
   ret (8, Link 0, FreeHead, \<lparr>p_ref = 0, p_flags = 2, p_property = 8\<rparr>)"
  by (simp add: eight_pages_eval cold_page_def default_check_def basic_check_def check_splits_def
      check_eval run_eval cong: eval_congs)

end
