(* ===== verification/Paging.thy ===== *)
theory Paging
  imports PmmReach
begin

unbundle bit_operations_syntax

text \<open>
  The three-level Sv39 page tables of kern/mm/pmm.c. A \<open>pte_t *\<close> is the address of its cell; the
  cells are the function \<open>ptes\<close> from kernel virtual addresses to 64-bit words. The translation
  cache is \<open>tlb\<close>, from page-aligned linear addresses to the cached entry: \<open>sfence.vma la\<close> drops
  the entry of \<open>la\<close>, \<open>sfence.vma\<close> all of them.

  PagingTree.thy says when page tables are well formed and what the operations do to them.
\<close>

subsection \<open>State\<close>

record vm_state = pmm_state +
  ptes :: "u64 \<Rightarrow> u64"
  tlb :: "u64 \<Rightarrow> u64 option"
  boot_pgdir_va :: u64
  boot_pgdir_pa :: u64

definition E_NO_MEM :: u32 where "E_NO_MEM = 4"
definition E_INVAL :: u32 where "E_INVAL = 3"
definition E_NO_FREE_PROC :: u32 where "E_NO_FREE_PROC = 5"

text \<open>\<open>&table[i]\<close> for a table of 8-byte entries, and \<open>memset(kva, 0, PGSIZE)\<close> on its cells.\<close>

definition pte_at :: "u64 \<Rightarrow> u64 \<Rightarrow> u64" where
  "pte_at table i = table + 8 * i"

definition clear_table :: "u64 \<Rightarrow> (u64 \<Rightarrow> u64) \<Rightarrow> u64 \<Rightarrow> u64" where
  "clear_table kva m = (\<lambda>a. if a - kva < PGSIZE then 0 else m a)"

definition set_pte :: "u64 \<Rightarrow> u64 \<Rightarrow> 'z vm_state_scheme \<Rightarrow> 'z vm_state_scheme" where
  "set_pte p v s = s\<lparr>ptes := (ptes s)(p := v)\<rparr>"

definition tlb_invalidate :: "u64 \<Rightarrow> u64 \<Rightarrow> 'z vm_state_scheme \<Rightarrow> 'z vm_state_scheme" where
  "tlb_invalidate pgdir la s = s\<lparr>tlb := (tlb s)(ROUNDDOWN la PGSIZE := None)\<rparr>"

definition flush_tlb :: "'z vm_state_scheme \<Rightarrow> 'z vm_state_scheme" where
  "flush_tlb s = s\<lparr>tlb := (\<lambda>_. None)\<rparr>"

subsection \<open>Walking and creating page tables\<close>

text \<open>One level of \<open>get_pte\<close>: the entry at \<open>pdep\<close> is valid already, or a zeroed page is linked
  into it; \<open>False\<close> when that is not asked for or no page is left.\<close>

definition get_pte_level :: "u64 \<Rightarrow> bool \<Rightarrow> 'z vm_state_scheme \<Rightarrow> (bool \<times> 'z vm_state_scheme) run" where
  "get_pte_level pdep create s =
     (if ptes s pdep AND PTE_V \<noteq> 0 then ret (True, s)
      else if \<not> create then ret (False, s)
      else run_bind (alloc_page s) (\<lambda>(r, s).
        case r of None \<Rightarrow> ret (False, s)
        | Some page \<Rightarrow>
            let s = set_page_ref page 1 s in
            run_bind (KADDR (page2pa page) s) (\<lambda>kva.
            let s = s\<lparr>ptes := clear_table kva (ptes s)\<rparr> in
            ret (True, set_pte pdep (pte_create (page2ppn page) (ucast (PTE_U OR PTE_V))) s))))"

text \<open>The result 0 is the null pointer.\<close>

definition get_pte :: "u64 \<Rightarrow> u64 \<Rightarrow> bool \<Rightarrow> 'z vm_state_scheme \<Rightarrow> (u64 \<times> 'z vm_state_scheme) run" where
  "get_pte pgdir la create s =
     (let pdep1 = pte_at pgdir (PDX1 la) in
      run_bind (get_pte_level pdep1 create s) (\<lambda>(ok, s).
      if \<not> ok then ret (0, s)
      else run_bind (KADDR (PDE_ADDR (ptes s pdep1)) s) (\<lambda>pd0.
        let pdep0 = pte_at pd0 (PDX0 la) in
        run_bind (get_pte_level pdep0 create s) (\<lambda>(ok, s).
        if \<not> ok then ret (0, s)
        else run_bind (KADDR (PDE_ADDR (ptes s pdep0)) s) (\<lambda>pt.
          ret (pte_at pt (PTX la), s))))))"

text \<open>The entry pointer is the value stored through \<open>ptep_store\<close>.\<close>

definition get_page :: "u64 \<Rightarrow> u64 \<Rightarrow> 'z vm_state_scheme \<Rightarrow> (nat option \<times> u64 \<times> 'z vm_state_scheme) run" where
  "get_page pgdir la s =
     run_bind (get_pte pgdir la False s) (\<lambda>(ptep, s).
     if ptep \<noteq> 0 \<and> ptes s ptep AND PTE_V \<noteq> 0
     then run_bind (pte2page (ptes s ptep) s) (\<lambda>page. ret (Some page, ptep, s))
     else ret (None, ptep, s))"

definition page_remove_pte :: "u64 \<Rightarrow> u64 \<Rightarrow> u64 \<Rightarrow> 'z vm_state_scheme \<Rightarrow> 'z vm_state_scheme run" where
  "page_remove_pte pgdir la ptep s =
     (if ptes s ptep AND PTE_V \<noteq> 0
      then run_bind (pte2page (ptes s ptep) s) (\<lambda>page.
           let s = page_ref_dec page s in
           run_bind (if page_ref page s = 0 then free_page page s else ret s) (\<lambda>s.
           ret (tlb_invalidate pgdir la (set_pte ptep 0 s))))
      else ret s)"

definition page_remove :: "u64 \<Rightarrow> u64 \<Rightarrow> 'z vm_state_scheme \<Rightarrow> 'z vm_state_scheme run" where
  "page_remove pgdir la s =
     run_bind (get_pte pgdir la False s) (\<lambda>(ptep, s).
     if ptep \<noteq> 0 then page_remove_pte pgdir la ptep s else ret s)"

text \<open>The \<open>int\<close> result: 0 or \<open>-E_NO_MEM\<close>.\<close>

definition page_insert ::
  "u64 \<Rightarrow> nat \<Rightarrow> u64 \<Rightarrow> u32 \<Rightarrow> 'z vm_state_scheme \<Rightarrow> (u32 \<times> 'z vm_state_scheme) run" where
  "page_insert pgdir page la perm s =
     run_bind (get_pte pgdir la True s) (\<lambda>(ptep, s).
     if ptep = 0 then ret (- E_NO_MEM, s)
     else
       let s = page_ref_inc page s in
       run_bind
         (if ptes s ptep AND PTE_V \<noteq> 0
          then run_bind (pte2page (ptes s ptep) s) (\<lambda>p.
               if p = page then ret (page_ref_dec page s)
               else page_remove_pte pgdir la ptep s)
          else ret s) (\<lambda>s.
       ret (0, tlb_invalidate pgdir la
                 (set_pte ptep (pte_create (page2ppn page) (ucast PTE_V OR perm)) s))))"

subsection \<open>Mapping at boot\<close>

definition boot_alloc_page :: "'z vm_state_scheme \<Rightarrow> (u64 \<times> 'z vm_state_scheme) run" where
  "boot_alloc_page s =
     run_bind (alloc_page s) (\<lambda>(r, s).
     case r of None \<Rightarrow> panic ''boot_alloc_page failed.''
     | Some p \<Rightarrow> run_bind (page2kva p s) (\<lambda>kva. ret (kva, s)))"

text \<open>The \<open>for\<close> loop of \<open>boot_map_segment\<close> with \<open>n\<close> pages to go.\<close>

fun boot_map_loop ::
  "nat \<Rightarrow> u64 \<Rightarrow> u64 \<Rightarrow> u64 \<Rightarrow> u32 \<Rightarrow> 'z vm_state_scheme \<Rightarrow> 'z vm_state_scheme run" where
  "boot_map_loop 0 pgdir la pa perm s = ret s"
| "boot_map_loop (Suc n) pgdir la pa perm s =
     run_bind (get_pte pgdir la True s) (\<lambda>(ptep, s).
     c_assert (ptep \<noteq> 0) ''ptep != NULL'' (
     boot_map_loop n pgdir (la + PGSIZE) (pa + PGSIZE) perm
       (set_pte ptep (pte_create (drop_bit 12 pa) (ucast PTE_V OR perm)) s)))"

definition boot_map_segment ::
  "u64 \<Rightarrow> u64 \<Rightarrow> u64 \<Rightarrow> u64 \<Rightarrow> u32 \<Rightarrow> 'z vm_state_scheme \<Rightarrow> 'z vm_state_scheme run" where
  "boot_map_segment pgdir la sz pa perm s =
     c_assert (PGOFF la = PGOFF pa) ''PGOFF(la) == PGOFF(pa)'' (
     let n = ROUNDUP (sz + PGOFF la) PGSIZE div PGSIZE in
     boot_map_loop (unat n) pgdir (ROUNDDOWN la PGSIZE) (ROUNDDOWN pa PGSIZE) perm s)"

definition enable_paging :: "'z vm_state_scheme \<Rightarrow> 'z vm_state_scheme" where
  "enable_paging s = s\<lparr>satp := 0x8000000000000000 OR drop_bit 12 (boot_pgdir_pa s)\<rparr>"

end
