(* ===== verification/Kmalloc.thy ===== *)
theory Kmalloc
  imports Paging
begin

unbundle bit_operations_syntax

text \<open>
  kern/mm/kmalloc.c: the SLOB heap. Blocks are chained in a circular list by their addresses. The
  heap memory is split by the type of the access: \<open>heap32\<close> holds the \<open>int\<close> cells and \<open>heap64\<close> the
  pointer cells, both by address, so that \<open>units\<close>/\<open>order\<close> and \<open>next\<close>/\<open>pages\<close> of the two structures
  that share the heap are the same cells, as in the C code. \<open>arena\<close> is the address of the static
  block the list starts with.
\<close>

record heap_state = vm_state +
  heap32 :: "u64 \<Rightarrow> u32"
  heap64 :: "u64 \<Rightarrow> u64"
  arena :: u64
  slobfree :: u64
  bigblocks :: u64

definition SLOB_UNIT :: u64 where "SLOB_UNIT = 16"

definition SLOB_UNITS :: "u64 \<Rightarrow> u64" where
  "SLOB_UNITS sz = (sz + SLOB_UNIT - 1) div SLOB_UNIT"

definition ALIGN :: "u64 \<Rightarrow> u64 \<Rightarrow> u64" where
  "ALIGN addr sz = (addr + sz - 1) AND NOT (sz - 1)"

subsection \<open>Fields\<close>

definition sb_units :: "'z heap_state_scheme \<Rightarrow> u64 \<Rightarrow> u32" where
  "sb_units s b = heap32 s b"

definition sb_next :: "'z heap_state_scheme \<Rightarrow> u64 \<Rightarrow> u64" where
  "sb_next s b = heap64 s (b + 8)"

definition set_units :: "u64 \<Rightarrow> u32 \<Rightarrow> 'z heap_state_scheme \<Rightarrow> 'z heap_state_scheme" where
  "set_units b v s = s\<lparr>heap32 := (heap32 s)(b := v)\<rparr>"

definition set_next_block :: "u64 \<Rightarrow> u64 \<Rightarrow> 'z heap_state_scheme \<Rightarrow> 'z heap_state_scheme" where
  "set_next_block b v s = s\<lparr>heap64 := (heap64 s)(b + 8 := v)\<rparr>"

text \<open>\<open>struct bigblock\<close>: \<open>order\<close>, \<open>pages\<close>, \<open>next\<close>; 24 bytes.\<close>

definition bb_order :: "'z heap_state_scheme \<Rightarrow> u64 \<Rightarrow> u32" where
  "bb_order s b = heap32 s b"

definition bb_pages :: "'z heap_state_scheme \<Rightarrow> u64 \<Rightarrow> u64" where
  "bb_pages s b = heap64 s (b + 8)"

definition bb_next :: "'z heap_state_scheme \<Rightarrow> u64 \<Rightarrow> u64" where
  "bb_next s b = heap64 s (b + 16)"

definition sizeof_bigblock :: u64 where "sizeof_bigblock = 24"

text \<open>Pointer arithmetic on \<open>slob_t *\<close>.\<close>

definition slob_plus :: "u64 \<Rightarrow> u32 \<Rightarrow> u64" where
  "slob_plus b n = b + SLOB_UNIT * scast n"

definition heap_init :: "'z heap_state_scheme \<Rightarrow> 'z heap_state_scheme" where
  "heap_init s = set_units (arena s) 1 (set_next_block (arena s) (arena s)
     (s\<lparr>slobfree := arena s, bigblocks := 0\<rparr>))"

subsection \<open>Pages for the heap\<close>

definition slob_get_free_pages :: "u32 \<Rightarrow> 'z heap_state_scheme \<Rightarrow> (u64 \<times> 'z heap_state_scheme) run" where
  "slob_get_free_pages order s =
     run_bind (alloc_pages (scast (push_bit (unat order) (1 :: u32))) s) (\<lambda>(page, s).
     case page of None \<Rightarrow> ret (0, s)
     | Some p \<Rightarrow> run_bind (page2kva p s) (\<lambda>kva. ret (kva, s)))"

definition slob_free_pages :: "u64 \<Rightarrow> u32 \<Rightarrow> 'z heap_state_scheme \<Rightarrow> 'z heap_state_scheme run" where
  "slob_free_pages kva order s =
     run_bind (kva2page kva s) (\<lambda>p. free_pages p (scast (push_bit (unat order) (1 :: u32))) s)"

subsection \<open>slob_free\<close>

text \<open>The search for the reinsertion point, from \<open>cur\<close> on.\<close>

partial_function (option) slob_find :: "u64 \<Rightarrow> (u64 \<Rightarrow> u64) \<Rightarrow> u64 \<Rightarrow> u64 option" where
  "slob_find b nx cur =
     (if cur < b \<and> b < nx cur then Some cur
      else if nx cur \<le> cur \<and> (cur < b \<or> b < nx cur) then Some cur
      else slob_find b nx (nx cur))"

declare slob_find.simps [code]

text \<open>The two joins and the relinking after \<open>cur\<close>.\<close>

definition slob_link :: "u64 \<Rightarrow> u64 \<Rightarrow> 'z heap_state_scheme \<Rightarrow> 'z heap_state_scheme" where
  "slob_link b cur s =
     (let s = (if slob_plus b (sb_units s b) = sb_next s cur
               then (let n = sb_next s cur;
                         s = set_units b (sb_units s b + sb_units s n) s
                     in set_next_block b (sb_next s n) s)
               else set_next_block b (sb_next s cur) s);
          s = (if slob_plus cur (sb_units s cur) = b
               then (let s = set_units cur (sb_units s cur + sb_units s b) s
                     in set_next_block cur (sb_next s b) s)
               else set_next_block cur b s)
      in s\<lparr>slobfree := cur\<rparr>)"

definition slob_free :: "u64 \<Rightarrow> u32 \<Rightarrow> 'z heap_state_scheme \<Rightarrow> 'z heap_state_scheme run" where
  "slob_free b sz s =
     (if b = 0 then ret s
      else
        let s = (if sz \<noteq> 0 then set_units b (ucast (SLOB_UNITS (scast sz))) s else s);
            (flag, s) = intr_save s
        in run_bind (loop_run (slob_find b (sb_next s) (slobfree s))) (\<lambda>cur.
           ret (intr_restore flag (slob_link b cur s))))"

subsection \<open>slob_alloc\<close>

text \<open>A block with room enough was found at \<open>cur\<close>: fragment its head when the alignment asks for
  it, then take \<open>units\<close> units off it.\<close>

definition slob_take ::
  "u32 \<Rightarrow> u64 \<Rightarrow> u32 \<Rightarrow> u64 \<Rightarrow> u64 \<Rightarrow> 'z heap_state_scheme \<Rightarrow> u64 \<times> 'z heap_state_scheme" where
  "slob_take units aligned delta prev cur s =
     (let (prev, cur, s) =
        (if delta \<noteq> 0
         then (let s = set_units aligned (sb_units s cur - delta) s;
                   s = set_next_block aligned (sb_next s cur) s;
                   s = set_next_block cur aligned s;
                   s = set_units cur delta s
               in (cur, aligned, s))
         else (prev, cur, s));
        s = (if sb_units s cur = units then set_next_block prev (sb_next s cur) s
             else (let s = set_next_block prev (slob_plus cur units) s;
                       r = sb_next s prev;
                       s = set_units r (sb_units s cur - units) s;
                       s = set_next_block r (sb_next s cur) s
                   in set_units cur units s))
      in (cur, s\<lparr>slobfree := prev\<rparr>))"

text \<open>The \<open>for\<close> loop; \<open>flag\<close> is the saved interrupt state. A heap without room grows by a page.\<close>

partial_function (option) slob_loop ::
  "u64 \<Rightarrow> u32 \<Rightarrow> u64 \<Rightarrow> bool \<Rightarrow> u64 \<Rightarrow> u64 \<Rightarrow> 'z heap_state_scheme \<Rightarrow> (u64 \<times> 'z heap_state_scheme) run" where
  "slob_loop sz units align flag prev cur s =
     (let aligned = (if align \<noteq> 0 then ALIGN cur align else 0);
          delta = (if align \<noteq> 0 then ucast ((aligned - cur) div SLOB_UNIT) else 0) :: u32
      in
      if sint (units + delta) \<le> sint (sb_units s cur)
      then (let (p, s) = slob_take units aligned delta prev cur s in ret (p, intr_restore flag s))
      else if cur = slobfree s
      then (let s = intr_restore flag s in
            if sz = PGSIZE then ret (0, s)
            else run_bind (slob_get_free_pages 0 s) (\<lambda>ps. 
              if fst ps = 0 then ret (0, snd ps)
              else run_bind (slob_free (fst ps) (ucast PGSIZE) (snd ps)) (\<lambda>s.
                slob_loop sz units align (fst (intr_save s)) (slobfree s) (sb_next s (slobfree s))
                  (snd (intr_save s)))))
      else slob_loop sz units align flag cur (sb_next s cur) s)"

declare slob_loop.simps [code]

definition slob_alloc :: "u64 \<Rightarrow> u64 \<Rightarrow> 'z heap_state_scheme \<Rightarrow> (u64 \<times> 'z heap_state_scheme) run" where
  "slob_alloc sz align s =
     c_assert (sz + SLOB_UNIT < PGSIZE) ''(size + SLOB_UNIT) < PAGE_SIZE'' (
     let (flag, s) = intr_save s;
         prev = slobfree s
     in slob_loop sz (ucast (SLOB_UNITS sz)) align flag prev (sb_next s prev) s)"

subsection \<open>kmalloc and kfree\<close>

text \<open>\<open>find_order\<close> on the \<open>int\<close> value of the size.\<close>

function find_order :: "int \<Rightarrow> nat" where
  "find_order sz = (if 4096 < sz then Suc (find_order (sz div 2)) else 0)"
  by auto
termination by (relation "measure nat") auto

declare find_order.simps [simp del]

definition kmalloc :: "u64 \<Rightarrow> 'z heap_state_scheme \<Rightarrow> (u64 \<times> 'z heap_state_scheme) run" where
  "kmalloc sz s =
     (if sz < PGSIZE - SLOB_UNIT
      then run_bind (slob_alloc (sz + SLOB_UNIT) 0 s) (\<lambda>(m, s).
           ret (if m \<noteq> 0 then m + SLOB_UNIT else 0, s))
      else run_bind (slob_alloc sizeof_bigblock 0 s) (\<lambda>(bb, s).
        if bb = 0 then ret (0, s)
        else
          let order = of_nat (find_order (sint (ucast sz :: u32)));
              s = s\<lparr>heap32 := (heap32 s)(bb := order)\<rparr>
          in run_bind (slob_get_free_pages order s) (\<lambda>(pgs, s).
             let s = s\<lparr>heap64 := (heap64 s)(bb + 8 := pgs)\<rparr> in
             if pgs \<noteq> 0
             then (let (flag, s) = intr_save s;
                       s = s\<lparr>heap64 := (heap64 s)(bb + 16 := bigblocks s)\<rparr>;
                       s = s\<lparr>bigblocks := bb\<rparr>
                   in ret (pgs, intr_restore flag s))
             else run_bind (slob_free bb (ucast sizeof_bigblock) s) (\<lambda>s. ret (0, s)))))"

text \<open>Walk over the big blocks: the pointer cell that refers to the block, and the block; 0 when
  none has these pages. The cell 0 stands for the global \<open>bigblocks\<close>.\<close>

partial_function (option) find_bigblock ::
  "u64 \<Rightarrow> 'z heap_state_scheme \<Rightarrow> u64 \<Rightarrow> u64 \<Rightarrow> (u64 \<times> u64) option" where
  "find_bigblock blk s lp bb =
     (if bb = 0 then Some (lp, 0)
      else if bb_pages s bb = blk then Some (lp, bb)
      else find_bigblock blk s (bb + 16) (bb_next s bb))"

declare find_bigblock.simps [code]

definition kfree :: "u64 \<Rightarrow> 'z heap_state_scheme \<Rightarrow> 'z heap_state_scheme run" where
  "kfree blk s =
     (if blk = 0 then ret s
      else if blk AND (PGSIZE - 1) = 0
      then (let (flag, s) = intr_save s in
        run_bind (loop_run (find_bigblock blk s 0 (bigblocks s))) (\<lambda>(lp, bb).
        if bb \<noteq> 0
        then (let s = (if lp = 0 then s\<lparr>bigblocks := bb_next s bb\<rparr>
                       else s\<lparr>heap64 := (heap64 s)(lp := bb_next s bb)\<rparr>);
                  s = intr_restore flag s
              in run_bind (slob_free_pages blk (bb_order s bb) s) (\<lambda>s.
                 slob_free bb (ucast sizeof_bigblock) s))
        else slob_free (blk - SLOB_UNIT) 0 (intr_restore flag s)))
      else slob_free (blk - SLOB_UNIT) 0 s)"

definition ksize :: "u64 \<Rightarrow> 'z heap_state_scheme \<Rightarrow> (u32 \<times> 'z heap_state_scheme) run" where
  "ksize blk s =
     (if blk = 0 then ret (0, s)
      else if blk AND (PGSIZE - 1) = 0
      then (let (flag, s) = intr_save s in
        run_bind (loop_run (find_bigblock blk s 0 (bigblocks s))) (\<lambda>(lp, bb).
        let s = intr_restore flag s in
        if bb \<noteq> 0 then ret (ucast (push_bit (unat (bb_order s bb)) PGSIZE), s)
        else ret (ucast (scast (sb_units s (blk - SLOB_UNIT)) * SLOB_UNIT), s)))
      else ret (ucast (scast (sb_units s (blk - SLOB_UNIT)) * SLOB_UNIT), s))"

definition slob_allocated :: "u64" where "slob_allocated = 0"

definition kallocated :: "u64" where "kallocated = slob_allocated"

end
