(* ===== verification/PagingTree.thy ===== *)
theory PagingTree
  imports Paging
begin

unbundle bit_operations_syntax

text \<open>
  Page tables as a tree of frames. The nodes of the tree are named (\<open>Root\<close>, \<open>Dir i\<close> for the
  second-level table under entry \<open>i\<close> of the root, \<open>Tab i j\<close> for the last-level table under entry
  \<open>j\<close> of that), and a ghost map \<open>T\<close> gives the page frame of each existing node. \<open>pt_rel D T s\<close>
  says that the memory of \<open>s\<close> holds this tree for the root entries \<open>D\<close> (the boot page table also has
  entries that map whole gigabytes, which \<open>get_pte\<close> must not be asked to walk): distinct nodes live in distinct
  frames, no node is in a free frame, and each entry is invalid or names the frame of the child.
\<close>

subsection \<open>Frames and cells\<close>

text \<open>The direct mapping of at most one gigabyte of memory, which does not wrap around.\<close>

definition vm_ok :: "'z vm_state_scheme \<Rightarrow> bool" where
  "vm_ok s \<longleftrightarrow> va_pa_offset s = PHYSICAL_MEMORY_OFFSET \<and> unat (npage s) \<le> 0xC0000"

definition valid_frame :: "'z vm_state_scheme \<Rightarrow> nat \<Rightarrow> bool" where
  "valid_frame s f \<longleftrightarrow> 0x80000 + f < unat (npage s)"

definition frame_kva :: "nat \<Rightarrow> u64" where
  "frame_kva f = page2pa f + PHYSICAL_MEMORY_OFFSET"

definition table_pte :: "nat \<Rightarrow> u64" where
  "table_pte f = pte_create (page2ppn f) (ucast (PTE_U OR PTE_V))"

abbreviation cell :: "nat \<Rightarrow> u64 \<Rightarrow> u64" where
  "cell f k \<equiv> pte_at (frame_kva f) k"

lemma nbase_eq: "nbase = 0x80000"
  by (simp add: nbase_def DRAM_BASE_def PGSIZE_def)

lemma page2ppn_eq: "page2ppn f = of_nat (f + 0x80000)"
  by (simp add: page2ppn_def nbase_eq)

lemma unat_page2ppn: "f + 0x80000 < 2 ^ 52 \<Longrightarrow> unat (page2ppn f) = f + 0x80000"
  unfolding page2ppn_eq by (rule unat_of_nat_u64) simp

lemma page2pa_eq: "page2pa f = of_nat (4096 * (f + 0x80000))"
  by (simp add: page2pa_def page2ppn_eq push_bit_eq_mult algebra_simps)

lemma PPN_page2pa: "f + 0x80000 < 2 ^ 52 \<Longrightarrow> PPN (page2pa f) = page2ppn f"
  by (simp add: page2pa_def PPN_push_bit unat_page2ppn)

lemma pa2page_page2pa:
  assumes "f + 0x80000 < unat (npage s)" and "unat (npage s) \<le> 2 ^ 52"
  shows "pa2page (page2pa f) s = ret f"
proof -
  have b: "f + 0x80000 < 2 ^ 52" using assms by simp
  have "\<not> npage s \<le> page2ppn f" using assms unat_page2ppn [OF b] by (simp add: word_le_nat_alt)
  moreover have "unat (page2ppn f - nbase) = f"
    using b by (simp add: page2ppn_def unat_of_nat_u64)
  ultimately show ?thesis using b by (simp add: pa2page_def PPN_page2pa)
qed

lemma valid_bound: "valid_frame s f \<Longrightarrow> vm_ok s \<Longrightarrow> f < 0x40000"
  by (simp add: valid_frame_def vm_ok_def)

lemma KADDR_frame:
  assumes "valid_frame s f" and "vm_ok s"
  shows "KADDR (page2pa f) s = ret (frame_kva f)"
proof -
  have b: "f + 0x80000 < 2 ^ 52" using valid_bound [OF assms] by simp
  have "\<not> npage s \<le> page2ppn f"
    using assms unat_page2ppn [OF b] by (simp add: word_le_nat_alt valid_frame_def)
  then show ?thesis using b assms(2) by (simp add: KADDR_def PPN_page2pa frame_kva_def vm_ok_def)
qed

lemma table_pte_valid: "table_pte f AND PTE_V \<noteq> 0"
  by (simp add: table_pte_def pte_create_valid)

lemma PDE_ADDR_table_pte: "f < 0x40000 \<Longrightarrow> PDE_ADDR (table_pte f) = page2pa f"
  unfolding PDE_ADDR_def table_pte_def page2pa_def
  by (rule PTE_ADDR_pte_create) (simp_all add: unat_page2ppn PTE_U_def PTE_V_def)

lemma PTE_ADDR_leaf:
  "f < 0x40000 \<Longrightarrow> unat perm < 2 ^ 10 \<Longrightarrow> PTE_ADDR (pte_create (page2ppn f) perm) = page2pa f"
  unfolding page2pa_def by (rule PTE_ADDR_pte_create) (simp_all add: unat_page2ppn)

text \<open>Cells of frames, as numbers: no wrap-around, hence distinct cells have distinct addresses.\<close>

lemma unat_cell:
  assumes "f < 0x40000" and "k < 512"
  shows "unat (cell f k) = 0xFFFFFFFFC0000000 + 4096 * f + 8 * unat k"
proof -
  have k: "unat k < 512" using assms(2) by (simp add: word_less_nat_alt)
  have "cell f k = of_nat (0xFFFFFFFF40000000 + 4096 * (f + 0x80000) + 8 * unat k)"
    by (simp add: pte_at_def frame_kva_def page2pa_eq PHYSICAL_MEMORY_OFFSET_def algebra_simps)
  then show ?thesis using assms(1) k by (simp only:) (subst unat_of_nat_u64, simp_all)
qed

lemma cell_inj:
  assumes "f < 0x40000" "g < 0x40000" "i < 512" "j < 512"
  shows "cell f i = cell g j \<longleftrightarrow> f = g \<and> i = j"
proof
  assume "cell f i = cell g j"
  then have eq: "4096 * f + 8 * unat i = 4096 * g + 8 * unat j"
    using unat_cell [OF assms(1,3)] unat_cell [OF assms(2,4)] by simp
  have split: "(4096 * h + 8 * unat k) div 4096 = h" if "k < 512" for h and k :: u64
    using that by (simp add: word_less_nat_alt)
  have "f = g" using split [OF assms(3), of f] split [OF assms(4), of g] eq by simp
  with eq have "f = g \<and> unat i = unat j" by simp
  then show "f = g \<and> i = j" by (simp add: word_unat_eq_iff)
qed auto

lemma cell_neq_0: "f < 0x40000 \<Longrightarrow> k < 512 \<Longrightarrow> cell f k \<noteq> 0"
  using unat_cell [of f k] by (metis add_is_0 unat_0 zero_neq_numeral)

lemma clear_table_cell:
  assumes "f < 0x40000" "g < 0x40000" "k < 512"
  shows "clear_table (frame_kva f) m (cell g k) = (if g = f then 0 else m (cell g k))"
proof -
  have k: "unat k < 512" using assms(3) by (simp add: word_less_nat_alt)
  have f0: "unat (frame_kva f) = 0xFFFFFFFFC0000000 + 4096 * f"
    using unat_cell [of f 0] assms(1) by (simp add: pte_at_def)
  note g = unat_cell [OF assms(2,3)]
  have "unat (cell g k - frame_kva f) =
      (if f \<le> g then 4096 * (g - f) + 8 * unat k else 2 ^ 64 - (4096 * (f - g) - 8 * unat k))"
    using assms(1,2) k by (auto simp: unat_sub_if_size word_size f0 g)
  then have "unat (cell g k - frame_kva f) < 4096 \<longleftrightarrow> g = f"
    using assms(1,2) k by auto
  then show ?thesis by (simp add: clear_table_def PGSIZE_def word_less_nat_alt)
qed

subsection \<open>The tree\<close>

datatype tid = Root | Dir u64 | Tab u64 u64

fun edge :: "u64 set \<Rightarrow> tid \<Rightarrow> u64 \<Rightarrow> tid \<Rightarrow> bool" where
  "edge D Root i y \<longleftrightarrow> i \<in> D \<and> y = Dir i"
| "edge D (Dir i) j y \<longleftrightarrow> j < 512 \<and> y = Tab i j"
| "edge D (Tab i j) k y \<longleftrightarrow> False"

definition entry_rel :: "u64 \<Rightarrow> nat option \<Rightarrow> bool" where
  "entry_rel v c \<longleftrightarrow> (case c of None \<Rightarrow> v AND PTE_V = 0 | Some g \<Rightarrow> v = table_pte g)"

definition pt_rel :: "u64 set \<Rightarrow> (tid \<Rightarrow> nat option) \<Rightarrow> 'z vm_state_scheme \<Rightarrow> bool" where
  "pt_rel D T s \<longleftrightarrow>
     T Root \<noteq> None \<and> (\<forall>i\<in>D. i < 512) \<and>
     (\<forall>x y. T x \<noteq> None \<longrightarrow> T x = T y \<longrightarrow> x = y) \<and>
     (\<forall>x f. T x = Some f \<longrightarrow> valid_frame s f \<and> f \<notin> free_frames s) \<and>
     (\<forall>x k y. edge D x k y \<longrightarrow> T y \<noteq> None \<longrightarrow> T x \<noteq> None) \<and>
     (\<forall>x k y f. edge D x k y \<longrightarrow> T x = Some f \<longrightarrow> entry_rel (ptes s (cell f k)) (T y))"

text \<open>The state of the memory subsystem: a consistent allocator and a page-table tree in frames the
  allocator does not own.\<close>

definition vm_inv :: "u64 set \<Rightarrow> (tid \<Rightarrow> nat option) \<Rightarrow> 'z vm_state_scheme \<Rightarrow> bool" where
  "vm_inv D T s \<longleftrightarrow> vm_ok s \<and> (\<exists>bs. free_rel s bs) \<and> (\<forall>f\<in>free_frames s. valid_frame s f) \<and> pt_rel D T s"

lemma edge_bound: "edge D x k y \<Longrightarrow> \<forall>i\<in>D. i < 512 \<Longrightarrow> k < 512"
  by (cases x) auto

lemma edge_inj: "edge D x k y \<Longrightarrow> edge D x' k' y \<Longrightarrow> x = x' \<and> k = k'"
  by (cases x; cases x') auto

lemma vm_invD:
  assumes "vm_inv D T s"
  shows "vm_ok s" "\<exists>bs. free_rel s bs" "\<And>f. f \<in> free_frames s \<Longrightarrow> valid_frame s f"
    "T Root \<noteq> None" "\<forall>i\<in>D. i < 512" "\<And>x y. T x \<noteq> None \<Longrightarrow> T x = T y \<Longrightarrow> x = y"
    "\<And>x f. T x = Some f \<Longrightarrow> valid_frame s f" "\<And>x f. T x = Some f \<Longrightarrow> f \<notin> free_frames s"
    "\<And>x k y. edge D x k y \<Longrightarrow> T y \<noteq> None \<Longrightarrow> T x \<noteq> None"
    "\<And>x k y f. edge D x k y \<Longrightarrow> T x = Some f \<Longrightarrow> entry_rel (ptes s (cell f k)) (T y)"
    "\<And>x f. T x = Some f \<Longrightarrow> f < 0x40000" "\<And>f. f \<in> free_frames s \<Longrightarrow> f < 0x40000"
  using assms valid_bound [of s] unfolding vm_inv_def pt_rel_def by blast+

text \<open>States that agree on what the invariant reads.\<close>

lemma vm_inv_cong:
  assumes "vm_inv D T s" and "npage t = npage s" "va_pa_offset t = va_pa_offset s"
    and "free_frames t = free_frames s" "\<exists>bs. free_rel t bs"
    and "\<And>x k f. T x = Some f \<Longrightarrow> k < 512 \<Longrightarrow> (\<exists>y. edge D x k y) \<Longrightarrow> ptes t (cell f k) = ptes s (cell f k)"
  shows "vm_inv D T t"
proof -
  note i = vm_invD [OF assms(1)]
  have "entry_rel (ptes t (cell f k)) (T y)" if "edge D x k y" "T x = Some f" for x k y f
  proof -
    have "\<exists>y. edge D x k y" using that(1) by blast
    from i(10) [OF that] assms(6) [OF that(2) edge_bound [OF that(1) i(5)] this] show ?thesis by simp
  qed
  then show ?thesis
    using i(1-9) assms(2-5)
    by (auto simp: vm_inv_def pt_rel_def vm_ok_def valid_frame_def)
qed

text \<open>What an allocation of one page does, from the interface of the page allocator.\<close>

lemma alloc_page_cases:
  assumes "vm_inv D T s"
  obtains (none) "alloc_page s = ret (None, s)" "free_frames s = {}"
  | (some) p s' where "alloc_page s = ret (Some p, s')" "p \<in> free_frames s"
      "free_frames s' = free_frames s - {p}" "\<exists>bs. free_rel s' bs"
      "ptes s' = ptes s" "tlb s' = tlb s" "npage s' = npage s" "va_pa_offset s' = va_pa_offset s"
      "\<forall>j. j \<notin> free_frames s \<longrightarrow> pages s' j = pages s j"
proof -
  from vm_invD(2) [OF assms] show ?thesis
  proof (cases rule: kernel.alloc_one_cases)
    case refused
    then show ?thesis using none by (simp add: alloc_page_def)
  next
    case (granted p t)
    from granted(5) obtain pg h m where "t = s\<lparr>pages := pg, free_list := h, nr_free := m\<rparr>"
      by (auto simp: alloc_frame_def)
    then show ?thesis using granted by (intro some [of p t]) (simp_all add: alloc_page_def)
  qed
qed

lemma free_frames_set_page_ref:
  assumes "\<exists>bs. free_rel s bs" and "j \<notin> free_frames s"
  shows "free_frames (set_page_ref j v s) = free_frames s" "\<exists>bs. free_rel (set_page_ref j v s) bs"
proof -
  obtain bs where bs: "free_rel s bs" using assms(1) by blast
  then have "free_rel (set_page_ref j v s) bs"
    using set_page_ref_rel assms(2) free_frames_eq by blast
  then show "free_frames (set_page_ref j v s) = free_frames s" "\<exists>bs. free_rel (set_page_ref j v s) bs"
    using free_frames_eq [OF bs] free_frames_eq by blast+
qed

subsection \<open>Walking the tree\<close>

text \<open>A zeroed frame \<open>p\<close> entered as the missing child \<open>y\<close> of \<open>x\<close> extends the tree.\<close>

lemma pt_rel_grow:
  assumes inv: "vm_inv D T s" and e: "edge D x k y" and f: "T x = Some f" and None: "T y = None"
    and p: "p \<in> free_frames s" and npage: "npage s' = npage s" and free: "free_frames s' = free_frames s - {p}"
    and cells: "\<And>g k'. g < 0x40000 \<Longrightarrow> k' < 512 \<Longrightarrow> ptes s' (cell g k') =
        (if g = f \<and> k' = k then table_pte p else if g = p then 0 else ptes s (cell g k'))"
  shows "pt_rel D (T(y \<mapsto> p)) s'"
  unfolding pt_rel_def
proof (intro conjI allI impI)
  note i = vm_invD [OF inv]
  have pf: "valid_frame s p" "p < 0x40000" "f \<noteq> p" using i(3,8,12) p f by blast+
  show "(T(y \<mapsto> p)) Root \<noteq> None" using i(4) by simp
  show "\<forall>i\<in>D. i < 512" by (rule i(5))
  show "z = w" if "(T(y \<mapsto> p)) z \<noteq> None" "(T(y \<mapsto> p)) z = (T(y \<mapsto> p)) w" for z w
  proof -
    have "T z \<noteq> Some p" for z using i(8) p by blast
    then show ?thesis using i(6) [of z w] that by (auto split: if_splits)
  qed
  show "valid_frame s' g" "g \<notin> free_frames s'" if "(T(y \<mapsto> p)) z = Some g" for z g
    using that i(7,8) pf(1) npage free by (auto simp: valid_frame_def split: if_splits)
  show "(T(y \<mapsto> p)) z \<noteq> None" if "edge D z j w" "(T(y \<mapsto> p)) w \<noteq> None" for z j w
    using that i(9) e f edge_inj by (fastforce split: if_splits)
  show "entry_rel (ptes s' (cell g j)) ((T(y \<mapsto> p)) w)" if zw: "edge D z j w" "(T(y \<mapsto> p)) z = Some g" for z j w g
  proof (cases "z = y")
    case True
    then have "g = p" using zw(2) by simp
    moreover have "T w = None" using i(9) [OF zw(1)] None True by (cases "T w") simp_all
    moreover have "w \<noteq> y" using zw(1) True by (cases z) auto
    ultimately show ?thesis
      using cells [of g j] pf(2,3) edge_bound [OF zw(1) i(5)] by (simp add: entry_rel_def)
  next
    case False
    then have g: "T z = Some g" using zw(2) by simp
    then have "g < 0x40000" "g \<noteq> p" using i(8,11) p by blast+
    moreover have "g = f \<and> j = k \<longleftrightarrow> w = y"
    proof
      assume "g = f \<and> j = k"
      moreover then have "z = x" using i(6) [of z x] g f by simp
      ultimately show "w = y" using zw(1) e by (cases x) auto
    next
      assume "w = y"
      then have "z = x \<and> j = k" using edge_inj zw(1) e by blast
      then show "g = f \<and> j = k" using g f by simp
    qed
    moreover have "entry_rel (ptes s (cell g j)) (T w)" by (rule i(10) [OF zw(1) g])
    ultimately show ?thesis
      using cells [of g j] edge_bound [OF zw(1) i(5)] by (auto simp: entry_rel_def)
  qed
qed

lemma get_pte_level_spec:
  assumes inv: "vm_inv D T s" and e: "edge D x k y" and f: "T x = Some f"
  obtains (known) g where "T y = Some g" "get_pte_level (cell f k) create s = ret (True, s)"
  | (absent) "T y = None" "get_pte_level (cell f k) create s = ret (False, s)"
      "create \<Longrightarrow> free_frames s = {}"
  | (created) p s' where "create" "T y = None" "get_pte_level (cell f k) create s = ret (True, s')"
      "vm_inv D (T(y \<mapsto> p)) s'" "p \<in> free_frames s" "free_frames s' = free_frames s - {p}"
      "tlb s' = tlb s \<and> npage s' = npage s" "\<forall>j. j \<notin> free_frames s \<longrightarrow> pages s' j = pages s j"
      "\<And>g k'. g < 0x40000 \<Longrightarrow> k' < 512 \<Longrightarrow> ptes s' (cell g k') =
        (if g = f \<and> k' = k then table_pte p else if g = p then 0 else ptes s (cell g k'))"
proof -
  note i = vm_invD [OF inv]
  have k: "k < 512" by (rule edge_bound [OF e i(5)])
  have entry: "entry_rel (ptes s (cell f k)) (T y)" by (rule i(10) [OF e f])
  show ?thesis
  proof (cases "T y")
    case (Some g)
    then show ?thesis using entry table_pte_valid known by (simp add: entry_rel_def get_pte_level_def)
  next
    case None
    then have nv: "ptes s (cell f k) AND PTE_V = 0" using entry by (simp add: entry_rel_def)
    show ?thesis
    proof (cases create)
      case False
      then show ?thesis using nv None absent by (simp add: get_pte_level_def)
    next
      case True
      from inv show ?thesis
      proof (cases rule: alloc_page_cases)
        case none
        then show ?thesis using True nv None absent by (simp add: get_pte_level_def)
      next
        case (some p s1)
        let ?s2 = "set_page_ref p 1 s1"
        let ?s' = "?s2\<lparr>ptes := (clear_table (frame_kva p) (ptes s))(cell f k := table_pte p)\<rparr>"
        have p: "valid_frame s p" "p < 0x40000" and f': "f < 0x40000" using i(3,11,12) some(2) f by blast+
        have fr: "free_frames ?s' = free_frames s - {p}" "\<exists>bs. free_rel ?s' bs"
          using free_frames_set_page_ref [OF some(4)] some(3) free_frames_cong [of ?s' ?s2] free_rel_cong [of ?s' ?s2]
          by simp_all
        have ok: "vm_ok ?s2" "valid_frame ?s2 p"
          using i(1) p(1) some(7,8) by (simp_all add: vm_ok_def valid_frame_def set_page_ref_def)
        then have run: "get_pte_level (cell f k) create s = ret (True, ?s')"
          using True nv some(1,5)
          by (simp add: KADDR_frame get_pte_level_def set_pte_def table_pte_def set_page_ref_def)
        have cells: "ptes ?s' (cell g k') =
            (if g = f \<and> k' = k then table_pte p else if g = p then 0 else ptes s (cell g k'))"
          if "g < 0x40000" "k' < 512" for g k'
          using that p(2) f' k by (simp add: cell_inj clear_table_cell)
        have same: "npage ?s' = npage s" "tlb ?s' = tlb s" using some(6,7) by (simp_all add: set_page_ref_def)
        have "pt_rel D (T(y \<mapsto> p)) ?s'"
          using cells by (intro pt_rel_grow [OF inv e f None some(2) same(1) fr(1)])
        moreover have "vm_ok ?s'" "\<forall>f\<in>free_frames ?s'. valid_frame ?s' f"
          using ok(1) i(3) fr(1) same(1) by (simp_all add: vm_ok_def valid_frame_def)
        ultimately have "vm_inv D (T(y \<mapsto> p)) ?s'" using fr(2) by (simp add: vm_inv_def)
        moreover have "\<forall>j. j \<notin> free_frames s \<longrightarrow> pages ?s' j = pages s j"
          using some(2,9) by (auto simp: set_page_ref_def)
        ultimately show ?thesis using same cells by (intro created [OF True None run _ some(2) fr(1)]) simp_all
      qed
    qed
  qed
qed

text \<open>The entry the tables hold for a linear address, 0 where there is no last-level table.\<close>

definition pte_val :: "(tid \<Rightarrow> nat option) \<Rightarrow> 'z vm_state_scheme \<Rightarrow> u64 \<Rightarrow> u64" where
  "pte_val T s la =
     (case T (Tab (PDX1 la) (PDX0 la)) of None \<Rightarrow> 0 | Some g \<Rightarrow> ptes s (cell g (PTX la)))"

text \<open>What creating tables may change: the tree grows into free frames, every entry that maps a
  linear address, every page that was in use and the translation cache stay the same.\<close>

definition grown :: "u64 set \<Rightarrow> (tid \<Rightarrow> nat option) \<Rightarrow> 'z vm_state_scheme \<Rightarrow>
    (tid \<Rightarrow> nat option) \<Rightarrow> 'z vm_state_scheme \<Rightarrow> bool" where
  "grown D T s T' s' \<longleftrightarrow> vm_inv D T' s' \<and> T \<subseteq>\<^sub>m T' \<and> (\<forall>la. pte_val T' s' la = pte_val T s la) \<and>
     ran T' \<subseteq> ran T \<union> free_frames s \<and> free_frames s' = free_frames s - ran T' \<and> tlb s' = tlb s \<and> npage s' = npage s \<and>
     (\<forall>j. j \<notin> free_frames s \<longrightarrow> pages s' j = pages s j)"

lemma grown_refl: "vm_inv D T s \<Longrightarrow> grown D T s T s"
  using vm_invD(8) [of D T s] by (auto simp: grown_def ran_def)

lemma grown_trans: "grown D T s T1 s1 \<Longrightarrow> grown D T1 s1 T2 s2 \<Longrightarrow> grown D T s T2 s2"
  unfolding grown_def by (auto intro: map_le_trans) (auto simp: map_le_def ran_def dom_def)

lemma grown_keeps: "grown D T s T' s' \<Longrightarrow> T x = Some f \<Longrightarrow> T' x = Some f"
  by (auto simp: grown_def map_le_def dom_def)

lemma grown_created:
  assumes inv: "vm_inv D T s" and e: "edge D x k y" and f: "T x = Some f" and "T y = None"
    and inv': "vm_inv D (T(y \<mapsto> p)) s'" and p: "p \<in> free_frames s" and fr: "free_frames s' = free_frames s - {p}"
    and "tlb s' = tlb s \<and> npage s' = npage s" "\<forall>j. j \<notin> free_frames s \<longrightarrow> pages s' j = pages s j"
    and cells: "\<And>g k'. g < 0x40000 \<Longrightarrow> k' < 512 \<Longrightarrow> ptes s' (cell g k') =
        (if g = f \<and> k' = k then table_pte p else if g = p then 0 else ptes s (cell g k'))"
  shows "grown D T s (T(y \<mapsto> p)) s'"
proof -
  note i = vm_invD [OF inv]
  have "pte_val (T(y \<mapsto> p)) s' la = pte_val T s la" for la
  proof (cases "T (Tab (PDX1 la) (PDX0 la))")
    case None
    have "f \<noteq> p" using i(8) [OF f] p by blast
    then show ?thesis using None cells [of p "PTX la"] i(12) [OF p] index_bounds(3)
      by (simp add: pte_val_def)
  next
    case (Some g)
    then have "g \<noteq> p" "g < 0x40000" using i(8,11) p by blast+
    moreover have "g \<noteq> f"
    proof
      assume "g = f"
      then have "x = Tab (PDX1 la) (PDX0 la)" using i(6) [of x] Some f by simp
      then show False using e by simp
    qed
    moreover have "y \<noteq> Tab (PDX1 la) (PDX0 la)" using Some \<open>T y = None\<close> by auto
    ultimately show ?thesis using Some cells [of g "PTX la"] index_bounds(3) by (simp add: pte_val_def)
  qed
  moreover have "free_frames s - {p} = free_frames s - ran (T(y \<mapsto> p))"
    using i(8) \<open>T y = None\<close> by (auto simp: ran_def split: if_splits)
  ultimately show ?thesis
    using assms(4-9) by (auto simp: grown_def map_le_def ran_def)
qed

text \<open>The entry of a table in the tree leads to the table itself.\<close>

lemma table_walk:
  assumes "vm_inv D T s" "edge D x k y" "T x = Some f" "T y = Some g"
  shows "KADDR (PDE_ADDR (ptes s (cell f k))) s = ret (frame_kva g)"
proof -
  note i = vm_invD [OF assms(1)]
  have "ptes s (cell f k) = table_pte g" using i(10) [OF assms(2,3)] assms(4) by (simp add: entry_rel_def)
  then show ?thesis using i(1,7,11) assms(4) by (simp add: PDE_ADDR_table_pte KADDR_frame)
qed

text \<open>The second level of \<open>get_pte\<close>, once the directory \<open>d\<close> of the address is there.\<close>

lemma get_pte_second:
  assumes r: "T Root = Some r" and D: "PDX1 la \<in> D"
    and l1: "get_pte_level (cell r (PDX1 la)) create s = ret (True, s1)" and g1: "grown D T s T1 s1"
    and d: "T1 (Dir (PDX1 la)) = Some d"
    and keep: "\<not> create \<or> T (Tab (PDX1 la) (PDX0 la)) \<noteq> None \<Longrightarrow> s1 = s \<and> T1 = T"
  obtains (found) T' s' g where "get_pte (frame_kva r) la create s = ret (cell g (PTX la), s')"
      "grown D T s T' s'" "T' (Tab (PDX1 la) (PDX0 la)) = Some g"
      "\<not> create \<or> T (Tab (PDX1 la) (PDX0 la)) \<noteq> None \<Longrightarrow> s' = s \<and> T' = T"
  | (missing) T' s' where "get_pte (frame_kva r) la create s = ret (0, s')" "grown D T s T' s'"
      "T' (Tab (PDX1 la) (PDX0 la)) = None" "\<not> create \<Longrightarrow> s' = s \<and> T' = T" "create \<Longrightarrow> free_frames s' = {}"
proof -
  let ?d = "Dir (PDX1 la)" and ?t = "Tab (PDX1 la) (PDX0 la)"
  have e1: "edge D Root (PDX1 la) ?d" using D by simp
  have e2: "edge D ?d (PDX0 la) ?t" by (simp add: index_bounds)
  have inv1: "vm_inv D T1 s1" using g1 by (simp add: grown_def)
  have r1: "T1 Root = Some r" by (rule grown_keeps [OF g1 r])
  note w1 = table_walk [OF inv1 e1 r1 d]
  have pre: "get_pte (frame_kva r) la create s =
      run_bind (get_pte_level (cell d (PDX0 la)) create s1) (\<lambda>(ok, s).
      if \<not> ok then ret (0, s)
      else run_bind (KADDR (PDE_ADDR (ptes s (cell d (PDX0 la)))) s) (\<lambda>pt. ret (pte_at pt (PTX la), s)))"
    using l1 w1 by (simp add: get_pte_def Let_def)
  show thesis
    using inv1 e2 d
  proof (cases rule: get_pte_level_spec [where create = create])
    case (known g)
    have "KADDR (PDE_ADDR (ptes s1 (cell d (PDX0 la)))) s1 = ret (frame_kva g)"
      by (rule table_walk [OF inv1 e2 d known(1)])
    then show thesis using pre known g1 keep by (intro found [of g s1 T1]) simp_all
  next
    case absent
    then show thesis using pre g1 keep by (intro missing [of s1 T1]) simp_all
  next
    case (created p s2)
    let ?T2 = "T1(?t \<mapsto> p)"
    have g2: "grown D T1 s1 ?T2 s2" by (rule grown_created [OF inv1 e2 d created(2,4-9)])
    have d2: "?T2 ?d = Some d" using d by simp
    have "KADDR (PDE_ADDR (ptes s2 (cell d (PDX0 la)))) s2 = ret (frame_kva p)"
      by (rule table_walk [OF created(4) e2 d2]) simp
    moreover have "T ?t = None" using grown_keeps [OF g1] created(2) by (cases "T ?t") auto
    ultimately show thesis using pre created(1,3) grown_trans [OF g1 g2]
      by (intro found [of p s2 ?T2]) simp_all
  qed
qed

lemma get_pte_spec:
  assumes inv: "vm_inv D T s" and r: "T Root = Some r" and D: "PDX1 la \<in> D"
  obtains (found) T' s' g where "get_pte (frame_kva r) la create s = ret (cell g (PTX la), s')"
      "grown D T s T' s'" "T' (Tab (PDX1 la) (PDX0 la)) = Some g"
      "\<not> create \<or> T (Tab (PDX1 la) (PDX0 la)) \<noteq> None \<Longrightarrow> s' = s \<and> T' = T"
  | (missing) T' s' where "get_pte (frame_kva r) la create s = ret (0, s')" "grown D T s T' s'"
      "T' (Tab (PDX1 la) (PDX0 la)) = None" "\<not> create \<Longrightarrow> s' = s \<and> T' = T" "create \<Longrightarrow> free_frames s' = {}"
proof -
  let ?d = "Dir (PDX1 la)" and ?t = "Tab (PDX1 la) (PDX0 la)"
  have e1: "edge D Root (PDX1 la) ?d" using D by simp
  have e2: "edge D ?d (PDX0 la) ?t" by (simp add: index_bounds)
  note level2 = get_pte_second [where T = T and la = la and r = r and D = D, OF r D]
  show thesis
    using inv e1 r
  proof (cases rule: get_pte_level_spec [where create = create])
    case (known d)
    show thesis
      by (rule level2 [OF known(2) grown_refl [OF inv] known(1)]) (simp, fact found, fact missing)
  next
    case absent
    have "T ?t = None" using vm_invD(9) [OF inv e2] absent(1) by (cases "T ?t") simp_all
    then show thesis using absent grown_refl [OF inv]
      by (intro missing [of s T]) (simp_all add: get_pte_def)
  next
    case (created p s1)
    have g1: "grown D T s (T(?d \<mapsto> p)) s1" by (rule grown_created [OF inv e1 r created(2,4-9)])
    have n: "T ?t = None" using vm_invD(9) [OF inv e2] created(2) by (cases "T ?t") simp_all
    show thesis
    proof (rule level2 [OF created(3) g1])
      show "(T(?d \<mapsto> p)) ?d = Some p" by simp
      show "s1 = s \<and> T(?d \<mapsto> p) = T" if "\<not> create \<or> T ?t \<noteq> None" using that created(1) n by blast
    qed (fact found, fact missing)
  qed
qed

subsection \<open>Entries that map a page\<close>

definition leaf :: "'z vm_state_scheme \<Rightarrow> u64 \<Rightarrow> nat \<Rightarrow> bool" where
  "leaf s v q \<longleftrightarrow> v AND PTE_V \<noteq> 0 \<and> PTE_ADDR v = page2pa q \<and> valid_frame s q"

definition same_page :: "u64 \<Rightarrow> u64 \<Rightarrow> bool" where
  "same_page la la' \<longleftrightarrow> PDX1 la' = PDX1 la \<and> PDX0 la' = PDX0 la \<and> PTX la' = PTX la"

lemma leaf_pte_create:
  "valid_frame s p \<Longrightarrow> vm_ok s \<Longrightarrow> unat perm < 2 ^ 10 \<Longrightarrow> leaf s (pte_create (page2ppn p) perm) p"
  using valid_bound [of s p] by (simp add: leaf_def pte_create_valid PTE_ADDR_leaf)

lemma pte2page_leaf: "leaf s v q \<Longrightarrow> vm_ok s \<Longrightarrow> pte2page v s = ret q"
  by (simp add: leaf_def pte2page_def pa2page_page2pa valid_frame_def vm_ok_def)

lemma valid_frame_simps [simp]:
  "valid_frame (set_pte a v s) f = valid_frame s f" "valid_frame (set_page_ref j r s) f = valid_frame s f"
  "valid_frame (tlb_invalidate pd la s) f = valid_frame s f"
  by (simp_all add: valid_frame_def set_pte_def set_page_ref_def tlb_invalidate_def)

lemma alloc_state_simps [simp]:
  "free_rel (set_pte a v s) bs = free_rel s bs" "free_rel (tlb_invalidate pd la s) bs = free_rel s bs"
  "free_frames (set_pte a v s) = free_frames s" "free_frames (tlb_invalidate pd la s) = free_frames s"
  by (simp_all add: free_frames_def free_rel_def set_pte_def tlb_invalidate_def)

text \<open>Writing the cell that maps \<open>la\<close> keeps the tree and changes the entry of that page only.\<close>

lemma set_leaf:
  assumes inv: "vm_inv D T s" and g: "T (Tab (PDX1 la) (PDX0 la)) = Some g"
  shows "vm_inv D T (set_pte (cell g (PTX la)) v s)"
    and "pte_val T (set_pte (cell g (PTX la)) v s) la' = (if same_page la la' then v else pte_val T s la')"
proof -
  note i = vm_invD [OF inv]
  have other: "ptes (set_pte (cell g (PTX la)) v s) (cell f k) = ptes s (cell f k)"
    if "T x = Some f" "k < 512" "x \<noteq> Tab (PDX1 la) (PDX0 la) \<or> k \<noteq> PTX la" for x f k
  proof -
    have "f = g \<longleftrightarrow> x = Tab (PDX1 la) (PDX0 la)" using i(6) [of x] that(1) g by auto
    then have "cell f k \<noteq> cell g (PTX la)"
      using that i(11) [OF that(1)] i(11) [OF g] index_bounds(3) [of la] by (simp add: cell_inj)
    then show ?thesis by (simp add: set_pte_def)
  qed
  show "vm_inv D T (set_pte (cell g (PTX la)) v s)"
  proof (rule vm_inv_cong [OF inv])
    fix x k f assume "T x = Some f" "k < 512" "\<exists>y. edge D x k y"
    then show "ptes (set_pte (cell g (PTX la)) v s) (cell f k) = ptes s (cell f k)"
      by (intro other) auto
  next
    show "npage (set_pte (cell g (PTX la)) v s) = npage s"
      "va_pa_offset (set_pte (cell g (PTX la)) v s) = va_pa_offset s"
      by (simp_all add: set_pte_def)
  qed (use i(2) in simp_all)
  show "pte_val T (set_pte (cell g (PTX la)) v s) la' = (if same_page la la' then v else pte_val T s la')"
  proof (cases "same_page la la'")
    case True
    then show ?thesis using g by (simp add: same_page_def pte_val_def set_pte_def)
  next
    case False
    then show ?thesis using other [of "Tab (PDX1 la') (PDX0 la')" _ "PTX la'"] index_bounds(3) [of la']
      by (auto simp: same_page_def pte_val_def split: option.split)
  qed
qed

lemma set_page_ref_inv:
  assumes "vm_inv D T s" and "j \<notin> free_frames s"
  shows "vm_inv D T (set_page_ref j r s)" "free_frames (set_page_ref j r s) = free_frames s"
    "pte_val T (set_page_ref j r s) = pte_val T s"
proof -
  note i = vm_invD [OF assms(1)]
  show fr: "free_frames (set_page_ref j r s) = free_frames s"
    by (rule free_frames_set_page_ref(1) [OF i(2) assms(2)])
  show "vm_inv D T (set_page_ref j r s)"
    using free_frames_set_page_ref [OF i(2) assms(2)]
    by (intro vm_inv_cong [OF assms(1)]) (simp_all add: set_page_ref_def)
  show "pte_val T (set_page_ref j r s) = pte_val T s"
    by (simp add: fun_eq_iff pte_val_def set_page_ref_def split: option.split)
qed

lemma tlb_invalidate_inv:
  assumes "vm_inv D T s"
  shows "vm_inv D T (tlb_invalidate pd la s)" "pte_val T (tlb_invalidate pd la s) = pte_val T s"
    "free_frames (tlb_invalidate pd la s) = free_frames s" "pages (tlb_invalidate pd la s) = pages s"
proof -
  note i = vm_invD [OF assms]
  show "free_frames (tlb_invalidate pd la s) = free_frames s" by simp
  have "npage (tlb_invalidate pd la s) = npage s" "va_pa_offset (tlb_invalidate pd la s) = va_pa_offset s"
    "ptes (tlb_invalidate pd la s) = ptes s"
    by (simp_all add: tlb_invalidate_def)
  then show "vm_inv D T (tlb_invalidate pd la s)"
    using i(2) by (intro vm_inv_cong [OF assms]) simp_all
  show "pte_val T (tlb_invalidate pd la s) = pte_val T s"
    by (simp add: fun_eq_iff pte_val_def tlb_invalidate_def split: option.split)
  show "pages (tlb_invalidate pd la s) = pages s" by (simp add: tlb_invalidate_def)
qed

text \<open>Giving back a page that is no table.\<close>

lemma free_page_inv:
  assumes inv: "vm_inv D T s" and "may_free q 1 s" and "valid_frame s q" and "q \<notin> ran T"
  obtains s' where "free_page q s = ret s'" "vm_inv D T s'" "free_frames s' = free_frames s \<union> {q}"
    "pte_val T s' = pte_val T s" "ptes s' = ptes s" "tlb s' = tlb s"
    "\<forall>j. p_ref (pages s' j) = (if j = q then 0 else p_ref (pages s j))"
proof -
  note i = vm_invD [OF inv]
  have u: "{q..<q + unat (1 :: u64)} = {q}" by auto
  obtain s' where s': "free_pages q 1 s = ret s'" "\<exists>bs. free_rel s' bs" "free_frames s' = free_frames s \<union> {q}"
    using kernel.release_returns [OF i(2) _ assms(2)] unfolding u by auto
  obtain pg h m where f: "s' = s\<lparr>pages := pg, free_list := h, nr_free := m\<rparr>"
    using free_pages_frame [OF s'(1)] by blast
  have "vm_inv D T s'"
    unfolding vm_inv_def
  proof (intro conjI)
    show "vm_ok s'" using i(1) f by (simp add: vm_ok_def)
    show "\<exists>bs. free_rel s' bs" by (rule s'(2))
    show "\<forall>f\<in>free_frames s'. valid_frame s' f"
      unfolding s'(3) using i(3) assms(3) f by (auto simp: valid_frame_def)
    show "pt_rel D T s'"
      using inv assms(4) s'(3) f unfolding vm_inv_def pt_rel_def
      by (auto simp: valid_frame_def ran_def)
  qed
  moreover have "\<forall>j. p_ref (pages s' j) = (if j = q then 0 else p_ref (pages s j))"
    using free_pages_ref [OF s'(1)] by auto
  ultimately show ?thesis using s' f
    by (intro that [of s']) (simp_all add: free_page_def fun_eq_iff pte_val_def split: option.split)
qed

end
