(* ===== verification/PagingOps.thy ===== *)
theory PagingOps
  imports PagingTree
begin

unbundle bit_operations_syntax

text \<open>
  What \<open>get_page\<close>, \<open>page_insert\<close> and \<open>page_remove\<close> of kern/mm/pmm.c do to the translation
  from linear addresses to entries, to the reference counts, to the free pages and to the
  translation cache, on states that satisfy \<open>vm_inv\<close>.
\<close>

subsection \<open>The single operations\<close>

lemma get_page_spec:
  assumes inv: "vm_inv D T s" and r: "T Root = Some r" and D: "PDX1 la \<in> D"
    and v: "pte_val T s la AND PTE_V = 0 \<or> leaf s (pte_val T s la) q"
  shows "\<exists>ptep. get_page (frame_kva r) la s =
    ret (if pte_val T s la AND PTE_V = 0 then None else Some q, ptep, s)"
  using inv r D
proof (cases rule: get_pte_spec [where create = False])
  case (found T' s' g)
  then have eq: "T' = T" "s' = s" by simp_all
  have "cell g (PTX la) \<noteq> 0"
    using vm_invD(11) [OF inv, of _ g] found(3) eq index_bounds(3) by (intro cell_neq_0) simp_all
  moreover have "pte_val T s la = ptes s (cell g (PTX la))" using found(3) eq by (simp add: pte_val_def)
  ultimately show ?thesis
    using found(1) v eq pte2page_leaf [of s _ q] vm_invD(1) [OF inv] by (auto simp: get_page_def)
next
  case (missing T' s')
  then have "pte_val T s la = 0" by (simp add: pte_val_def)
  then show ?thesis using missing by (simp add: get_page_def)
qed

text \<open>The condition under which a mapped page can be unmapped: if this is its last reference, the
  allocator takes it back.\<close>

definition unmappable :: "(tid \<Rightarrow> nat option) \<Rightarrow> 'z vm_state_scheme \<Rightarrow> nat \<Rightarrow> bool" where
  "unmappable T s q \<longleftrightarrow> q \<notin> free_frames s \<and> q \<notin> ran T \<and>
     (page_ref q s = 1 \<longrightarrow> may_free q 1 (set_page_ref q 0 s))"

lemma page_remove_pte_spec:
  assumes inv: "vm_inv D T s" and g: "T (Tab (PDX1 la) (PDX0 la)) = Some g"
    and l: "leaf s (pte_val T s la) q" and u: "unmappable T s q"
  obtains s' where "page_remove_pte pgdir la (cell g (PTX la)) s = ret s'" "vm_inv D T s'"
    "\<forall>la'. pte_val T s' la' = (if same_page la la' then 0 else pte_val T s la')"
    "free_frames s' = free_frames s \<union> (if page_ref q s = 1 then {q} else {})"
    "\<forall>j. page_ref j s' = (if j = q then page_ref q s - 1 else page_ref j s)"
    "tlb s' (ROUNDDOWN la PGSIZE) = None"
proof -
  let ?c = "cell g (PTX la)" and ?s1 = "page_ref_dec q s"
  have v: "ptes s ?c = pte_val T s la" using g by (simp add: pte_val_def)
  have p: "pte2page (ptes s ?c) s = ret q" "ptes s ?c AND PTE_V \<noteq> 0"
    using pte2page_leaf [OF l vm_invD(1) [OF inv]] l v by (simp_all add: leaf_def)
  have qf: "q \<notin> free_frames s" "q \<notin> ran T" using u by (simp_all add: unmappable_def)
  note i1 = set_page_ref_inv [OF inv qf(1), of "page_ref q s - 1", folded page_ref_dec_def]
  have ref1: "page_ref j ?s1 = (if j = q then page_ref q s - 1 else page_ref j s)" for j
    by (simp add: page_ref_dec_def set_page_ref_def page_ref_def)
  have last: "page_ref q ?s1 = 0 \<longleftrightarrow> page_ref q s = 1" by (simp add: ref1)
  obtain s2 where s2: "(if page_ref q ?s1 = 0 then free_page q ?s1 else ret ?s1) = ret s2"
      "vm_inv D T s2" "free_frames s2 = free_frames s \<union> (if page_ref q s = 1 then {q} else {})"
      "pte_val T s2 = pte_val T s"
      "\<forall>j. page_ref j s2 = (if j = q then page_ref q s - 1 else page_ref j s)"
  proof (cases "page_ref q s = 1")
    case True
    then have "may_free q 1 ?s1" using u by (simp add: unmappable_def page_ref_dec_def)
    moreover have "valid_frame ?s1 q" using l by (simp add: leaf_def page_ref_dec_def)
    ultimately obtain s2 where "free_page q ?s1 = ret s2" "vm_inv D T s2"
        "free_frames s2 = free_frames ?s1 \<union> {q}" "pte_val T s2 = pte_val T ?s1"
        "\<forall>j. p_ref (pages s2 j) = (if j = q then 0 else p_ref (pages ?s1 j))"
      using free_page_inv [OF i1(1)] qf(2) by blast
    then show ?thesis using True last i1(2,3) ref1 that [of s2] by (simp add: page_ref_def)
  next
    case False
    then show ?thesis using last i1 ref1 that [of ?s1] by simp
  qed
  let ?s3 = "set_pte ?c 0 s2"
  note i3 = set_leaf [OF s2(2) g, of 0]
  note i4 = tlb_invalidate_inv [OF i3(1), of pgdir la]
  have "page_remove_pte pgdir la ?c s = ret (tlb_invalidate pgdir la ?s3)"
    using p s2(1) by (simp add: page_remove_pte_def Let_def)
  moreover have "page_ref j (tlb_invalidate pgdir la ?s3) = page_ref j s2" for j
    by (simp add: page_ref_def tlb_invalidate_def set_pte_def)
  moreover have "tlb (tlb_invalidate pgdir la ?s3) (ROUNDDOWN la PGSIZE) = None"
    by (simp add: tlb_invalidate_def)
  ultimately show ?thesis
    using that [of "tlb_invalidate pgdir la ?s3"] i3 i4 s2(3-5) by simp
qed

lemma may_free_inc:
  assumes "may_free q n t" and "p \<notin> free_frames t"
  shows "may_free q n (page_ref_inc p t)"
proof -
  obtain bs where bs: "free_rel t bs" "fits_free q (unat n) bs \<and> insert_ok q bs \<and>
      (\<forall>j\<in>{q..<q + unat n}. page_clear (pages t j)) \<and> sum_list (map snd bs) + unat n < 2 ^ 32"
    using assms(1) unfolding may_free_def by blast
  have "free_rel (page_ref_inc p t) bs"
    using bs(1) assms(2) free_frames_eq [OF bs(1)] set_page_ref_rel [of t bs p] by (simp add: page_ref_inc_def)
  moreover have "page_clear (pages (page_ref_inc p t) j) = page_clear (pages t j)" for j
    by (simp add: page_ref_inc_def set_page_ref_def)
  ultimately show ?thesis using bs(2) unfolding may_free_def by auto
qed

text \<open>What \<open>page_insert\<close> does to the page that was mapped at the address before.\<close>

lemma page_insert_old:
  assumes inv: "vm_inv D T s" and g: "T (Tab (PDX1 la) (PDX0 la)) = Some g"
    and p: "valid_frame s p" "p \<notin> free_frames s"
    and old: "pte_val T s la AND PTE_V = 0 \<or> leaf s (pte_val T s la) q \<and> (q \<noteq> p \<longrightarrow> unmappable T s q)"
  defines "mapped \<equiv> pte_val T s la AND PTE_V \<noteq> 0"
  obtains s2 where "(if ptes (page_ref_inc p s) (cell g (PTX la)) AND PTE_V \<noteq> 0
          then run_bind (pte2page (ptes (page_ref_inc p s) (cell g (PTX la))) (page_ref_inc p s)) (\<lambda>x.
               if x = p then ret (page_ref_dec p (page_ref_inc p s)) else page_remove_pte pgdir la (cell g (PTX la)) (page_ref_inc p s))
          else ret (page_ref_inc p s)) = ret s2" "vm_inv D T s2"
    "\<forall>la'. \<not> same_page la la' \<longrightarrow> pte_val T s2 la' = pte_val T s la'"
    "free_frames s2 = free_frames s \<union> (if mapped \<and> q \<noteq> p \<and> page_ref q s = 1 then {q} else {})"
    "\<forall>j. page_ref j s2 =
     (if mapped \<and> q = p then page_ref j s
      else if j = p then page_ref p s + 1 else if mapped \<and> j = q then page_ref q s - 1 else page_ref j s)"
proof -
  let ?c = "cell g (PTX la)" and ?s1 = "page_ref_inc p s"
  note i1 = set_page_ref_inv [OF inv p(2), of "page_ref p s + 1", folded page_ref_inc_def]
  have ref1: "page_ref j ?s1 = (if j = p then page_ref p s + 1 else page_ref j s)" for j
    by (simp add: page_ref_inc_def set_page_ref_def page_ref_def)
  have v: "ptes ?s1 ?c = pte_val T s la" "pte_val T ?s1 la = pte_val T s la"
    using g by (simp_all add: pte_val_def page_ref_inc_def set_page_ref_def)
  have l1: "leaf ?s1 w x = leaf s w x" for w x by (simp add: leaf_def page_ref_inc_def)
  show ?thesis
  proof (cases mapped)
    case False
    then show ?thesis using that [of ?s1] i1 ref1 v by (simp add: mapped_def)
  next
    case True
    then have q: "leaf s (pte_val T s la) q" "q \<noteq> p \<longrightarrow> unmappable T s q"
      using old by (simp_all add: mapped_def)
    have t: "pte2page (ptes ?s1 ?c) ?s1 = ret q"
      using pte2page_leaf [of ?s1 _ q] q(1) vm_invD(1) [OF i1(1)] v(1) l1 by simp
    show ?thesis
    proof (cases "q = p")
      case True': True
      let ?s2 = "page_ref_dec p ?s1"
      have "p \<notin> free_frames ?s1" using i1(2) p(2) by simp
      note i2 = set_page_ref_inv [OF i1(1) this, of "page_ref p ?s1 - 1", folded page_ref_dec_def]
      have "page_ref j ?s2 = page_ref j s" for j
        by (simp add: page_ref_dec_def page_ref_inc_def set_page_ref_def page_ref_def)
      then show ?thesis using that [of ?s2] True True' t i1 i2 v by (simp add: mapped_def)
    next
      case False
      have "set_page_ref q 0 ?s1 = page_ref_inc p (set_page_ref q 0 s)"
        using False by (simp add: page_ref_inc_def set_page_ref_def page_ref_def fun_upd_twist)
      moreover have "free_frames (set_page_ref q 0 s) = free_frames s"
        using q(2) False set_page_ref_inv(2) [OF inv] by (simp add: unmappable_def)
      ultimately have "unmappable T ?s1 q"
        using q(2) False p(2) i1(2) ref1 by (simp add: unmappable_def may_free_inc)
      moreover have "leaf ?s1 (pte_val T ?s1 la) q" using q(1) v(2) l1 by simp
      ultimately obtain s2 where r: "page_remove_pte pgdir la ?c ?s1 = ret s2" "vm_inv D T s2"
        "\<forall>la'. pte_val T s2 la' = (if same_page la la' then 0 else pte_val T ?s1 la')"
        "free_frames s2 = free_frames ?s1 \<union> (if page_ref q ?s1 = 1 then {q} else {})"
        "\<forall>j. page_ref j s2 = (if j = q then page_ref q ?s1 - 1 else page_ref j ?s1)"
        using page_remove_pte_spec [OF i1(1) g] by metis
      show ?thesis using that [of s2] r True False t i1 ref1 v by (simp add: mapped_def)
    qed
  qed
qed

lemma page_insert_found:
  assumes inv: "vm_inv D T s" and g: "T (Tab (PDX1 la) (PDX0 la)) = Some g"
    and p: "valid_frame s p" "p \<notin> free_frames s" and perm: "unat perm < 2 ^ 10"
    and old: "pte_val T s la AND PTE_V = 0 \<or> leaf s (pte_val T s la) q \<and> (q \<noteq> p \<longrightarrow> unmappable T s q)"
  defines "mapped \<equiv> pte_val T s la AND PTE_V \<noteq> 0"
  assumes get: "get_pte pgdir la True s0 = ret (cell g (PTX la), s)"
  obtains s' where "page_insert pgdir p la perm s0 = ret (0, s')" "vm_inv D T s'"
    "\<forall>la'. pte_val T s' la' =
       (if same_page la la' then pte_create (page2ppn p) (ucast PTE_V OR perm) else pte_val T s la')"
    "free_frames s' = free_frames s \<union> (if mapped \<and> q \<noteq> p \<and> page_ref q s = 1 then {q} else {})"
    "\<forall>j. page_ref j s' =
       (if mapped \<and> q = p then page_ref j s
        else if j = p then page_ref p s + 1 else if mapped \<and> j = q then page_ref q s - 1 else page_ref j s)"
    "tlb s' (ROUNDDOWN la PGSIZE) = None"
proof -
  let ?c = "cell g (PTX la)" and ?v = "pte_create (page2ppn p) (ucast PTE_V OR perm)"
  have c0: "?c \<noteq> 0" by (rule cell_neq_0 [OF vm_invD(11) [OF inv g] index_bounds(3)])
  obtain s2 where s2: "(if ptes (page_ref_inc p s) (cell g (PTX la)) AND PTE_V \<noteq> 0
          then run_bind (pte2page (ptes (page_ref_inc p s) (cell g (PTX la))) (page_ref_inc p s)) (\<lambda>x.
               if x = p then ret (page_ref_dec p (page_ref_inc p s)) else page_remove_pte pgdir la (cell g (PTX la)) (page_ref_inc p s))
          else ret (page_ref_inc p s)) = ret s2" "vm_inv D T s2"
      "\<forall>la'. \<not> same_page la la' \<longrightarrow> pte_val T s2 la' = pte_val T s la'"
      "free_frames s2 = free_frames s \<union> (if mapped \<and> q \<noteq> p \<and> page_ref q s = 1 then {q} else {})"
      "\<forall>j. page_ref j s2 =
       (if mapped \<and> q = p then page_ref j s
        else if j = p then page_ref p s + 1 else if mapped \<and> j = q then page_ref q s - 1 else page_ref j s)"
    using page_insert_old [OF inv g p old, folded mapped_def] by blast
  let ?s3 = "set_pte ?c ?v s2"
  note i3 = set_leaf [OF s2(2) g, of ?v]
  note i4 = tlb_invalidate_inv [OF i3(1), of pgdir la]
  have "page_insert pgdir p la perm s0 = ret (0, tlb_invalidate pgdir la ?s3)"
    using get c0 s2(1) by (simp add: page_insert_def Let_def)
  moreover have "page_ref j (tlb_invalidate pgdir la ?s3) = page_ref j s2" for j
    by (simp add: page_ref_def tlb_invalidate_def set_pte_def)
  moreover have "tlb (tlb_invalidate pgdir la ?s3) (ROUNDDOWN la PGSIZE) = None"
    by (simp add: tlb_invalidate_def)
  ultimately show ?thesis
    using that [of "tlb_invalidate pgdir la ?s3"] i3 i4 s2(3-5) by simp
qed

subsection \<open>The operations on the mapping\<close>

text \<open>C10. On well-formed page tables \<open>page_insert\<close> returns \<open>-E_NO_MEM\<close> only when pages run out, and
  then leaves every mapping and every page in use as it was. Otherwise it returns 0: the page of \<open>la\<close> is
  mapped to \<open>p\<close> with the permissions asked for, every other linear address keeps its entry, and the
  cached translation of \<open>la\<close> is gone; \<open>p\<close> has one reference more (none if it was mapped there), the page
  \<open>q\<close> mapped before one less, the other pages in use the same; the free pages are those of before, less the
  pages of new tables, and with \<open>q\<close> if that was its last reference. The condition \<open>unmappable\<close> on \<open>q\<close>:
  it is neither free nor a page of the tables, and if its last reference goes, its flags are clear and a
  free page lies above it or none is free, since otherwise the release breaks the free list (C9).\<close>

theorem page_insert_updates_mapping:
  assumes inv: "vm_inv D T s" and r: "T Root = Some r" and D: "PDX1 la \<in> D"
    and p: "valid_frame s p" "p \<notin> free_frames s" and perm: "unat perm < 2 ^ 10"
    and old: "pte_val T s la AND PTE_V = 0 \<or>
      leaf s (pte_val T s la) q \<and> (q \<noteq> p \<longrightarrow> unmappable T s q)"
  defines "mapped \<equiv> pte_val T s la AND PTE_V \<noteq> 0"
  shows "\<exists>res s' T'. page_insert (frame_kva r) p la perm s = ret (res, s') \<and> vm_inv D T' s' \<and>
    T \<subseteq>\<^sub>m T' \<and> ran T' \<subseteq> ran T \<union> free_frames s \<and>
    (res = - E_NO_MEM \<and> free_frames s' = {} \<and> (\<forall>la'. pte_val T' s' la' = pte_val T s la') \<and>
       (\<forall>j. j \<notin> free_frames s \<longrightarrow> pages s' j = pages s j) \<or>
     res = 0 \<and> tlb s' (ROUNDDOWN la PGSIZE) = None \<and>
       (\<forall>la'. pte_val T' s' la' =
          (if same_page la la' then pte_create (page2ppn p) (ucast PTE_V OR perm) else pte_val T s la')) \<and>
       (\<forall>j. j \<notin> free_frames s \<longrightarrow> page_ref j s' =
          (if mapped \<and> q = p then page_ref j s else if j = p then page_ref p s + 1
           else if mapped \<and> j = q then page_ref q s - 1 else page_ref j s)) \<and>
       free_frames s' = (free_frames s - ran T') \<union> (if mapped \<and> q \<noteq> p \<and> page_ref q s = 1 then {q} else {}))"
  using inv r D
proof (cases rule: get_pte_spec [where create = True])
  case (missing T' s')
  then have "page_insert (frame_kva r) p la perm s = ret (- E_NO_MEM, s')"
    by (simp add: page_insert_def)
  with missing show ?thesis by (auto simp: grown_def)
next
  case (found T' s' g)
  then have inv': "vm_inv D T' s'" and v: "\<And>la. pte_val T' s' la = pte_val T s la"
    and "npage s' = npage s" and free: "free_frames s' = free_frames s - ran T'"
    and tree: "T \<subseteq>\<^sub>m T'" "ran T' \<subseteq> ran T \<union> free_frames s"
    and pg: "\<And>j. j \<notin> free_frames s \<Longrightarrow> page_ref j s' = page_ref j s"
    by (auto simp: grown_def page_ref_def)
  then have p': "valid_frame s' p" "p \<notin> free_frames s'" using p by (auto simp: valid_frame_def)
  have "pte_val T' s' la AND PTE_V = 0 \<or>
      leaf s' (pte_val T' s' la) q \<and> (q \<noteq> p \<longrightarrow> unmappable T' s' q)"
  proof (cases "pte_val T s la AND PTE_V = 0")
    case False
    then have "T (Tab (PDX1 la) (PDX0 la)) \<noteq> None" by (auto simp: pte_val_def split: option.splits)
    then show ?thesis using found(4) old by simp
  qed (simp add: v)
  then obtain s2 where s2: "page_insert (frame_kva r) p la perm s = ret (0, s2)" "vm_inv D T' s2"
    "\<forall>la'. pte_val T' s2 la' =
       (if same_page la la' then pte_create (page2ppn p) (ucast PTE_V OR perm) else pte_val T' s' la')"
    "free_frames s2 = free_frames s' \<union>
       (if pte_val T' s' la AND PTE_V \<noteq> 0 \<and> q \<noteq> p \<and> page_ref q s' = 1 then {q} else {})"
    "\<forall>j. page_ref j s2 = (if pte_val T' s' la AND PTE_V \<noteq> 0 \<and> q = p then page_ref j s'
       else if j = p then page_ref p s' + 1
       else if pte_val T' s' la AND PTE_V \<noteq> 0 \<and> j = q then page_ref q s' - 1 else page_ref j s')"
    "tlb s2 (ROUNDDOWN la PGSIZE) = None"
    by (rule page_insert_found [OF inv' found(3) p' perm _ found(1)])
  have q: "mapped \<Longrightarrow> q \<notin> free_frames s" using old p(2) by (auto simp: mapped_def unmappable_def)
  have "free_frames s2 = (free_frames s - ran T') \<union> (if mapped \<and> q \<noteq> p \<and> page_ref q s = 1 then {q} else {})"
    using s2(4) q pg [of q] by (auto simp: v free mapped_def)
  moreover have "page_ref j s2 = (if mapped \<and> q = p then page_ref j s else if j = p then page_ref p s + 1
      else if mapped \<and> j = q then page_ref q s - 1 else page_ref j s)" if "j \<notin> free_frames s" for j
    using s2(5) pg [OF that] pg [OF p(2)] pg [of q] q by (simp add: v mapped_def)
  moreover have "\<forall>la'. pte_val T' s2 la' =
      (if same_page la la' then pte_create (page2ppn p) (ucast PTE_V OR perm) else pte_val T s la')"
    using s2(3) v by simp
  ultimately show ?thesis
    using s2(1,2,6) tree by (intro exI [of _ 0] exI [of _ s2] exI [of _ T'] conjI disjI2) simp_all
qed

text \<open>C11. \<open>get_page\<close> finds the page \<open>q\<close> mapped at \<open>la\<close>; after \<open>page_remove\<close> it finds none. \<open>page_remove\<close>
  leaves all other linear addresses and the counts of all other pages alone, drops one reference of \<open>q\<close>
  and frees it exactly when that was the last one. The condition \<open>unmappable\<close>: \<open>q\<close> is
  neither free nor a page of the tables, and if it is the last one, its flags are clear and a free page
  lies above \<open>q\<close> or none is free, since otherwise the release breaks the free list (C9).\<close>

theorem page_remove_unmaps:
  assumes inv: "vm_inv D T s" and r: "T Root = Some r" and D: "PDX1 la \<in> D"
    and l: "leaf s (pte_val T s la) q" and u: "unmappable T s q"
  shows "\<exists>s' ptep ptep'. get_page (frame_kva r) la s = ret (Some q, ptep, s) \<and>
    page_remove (frame_kva r) la s = ret s' \<and> vm_inv D T s' \<and>
    get_page (frame_kva r) la s' = ret (None, ptep', s') \<and>
    (\<forall>la'. \<not> same_page la la' \<longrightarrow> pte_val T s' la' = pte_val T s la') \<and>
    (\<forall>j. page_ref j s' = (if j = q then page_ref q s - 1 else page_ref j s)) \<and>
    free_frames s' = free_frames s \<union> (if page_ref q s = 1 then {q} else {}) \<and> q \<notin> free_frames s \<and>
    tlb s' (ROUNDDOWN la PGSIZE) = None"
  using inv r D
proof (cases rule: get_pte_spec [where create = False])
  case (missing T' s')
  then have "pte_val T s la = 0" by (simp add: pte_val_def)
  then show ?thesis using l by (simp add: leaf_def)
next
  case (found T' s' g)
  then have eq: "T' = T" "s' = s" by simp_all
  have c0: "cell g (PTX la) \<noteq> 0"
    using vm_invD(11) [OF inv, of _ g] found(3) eq index_bounds(3) by (intro cell_neq_0) simp_all
  obtain s1 where s1: "page_remove_pte (frame_kva r) la (cell g (PTX la)) s = ret s1" "vm_inv D T s1"
    "\<forall>la'. pte_val T s1 la' = (if same_page la la' then 0 else pte_val T s la')"
    "free_frames s1 = free_frames s \<union> (if page_ref q s = 1 then {q} else {})"
    "\<forall>j. page_ref j s1 = (if j = q then page_ref q s - 1 else page_ref j s)"
    "tlb s1 (ROUNDDOWN la PGSIZE) = None"
    using page_remove_pte_spec [OF inv _ l u] found(3) eq by metis
  have "page_remove (frame_kva r) la s = ret s1" using found(1) c0 s1(1) eq by (simp add: page_remove_def)
  moreover obtain ptep where "get_page (frame_kva r) la s = ret (Some q, ptep, s)"
    using get_page_spec [OF inv r D] l by (fastforce simp: leaf_def)
  moreover have "pte_val T s1 la = 0" using s1(3) by (simp add: same_page_def)
  then obtain ptep' where "get_page (frame_kva r) la s1 = ret (None, ptep', s1)"
    using get_page_spec [OF s1(2) r D, of q] by auto
  moreover have "q \<notin> free_frames s" using u by (simp add: unmappable_def)
  ultimately show ?thesis using s1 by simp
qed

subsection \<open>A concrete machine\<close>

text \<open>Sixteen pages: 4 to 11 are one free block, 2 is a page with one reference, 13 to 15 hold the
  tables, which map the linear page 0 to page 2.\<close>

definition sixteen_pages :: vm_state where
  "sixteen_pages = \<lparr>sstatus = 0, sie = 0, satp = 0, stvec = 0, sscratch = 0, bytes = (\<lambda>_. 0), console = [],
     pages = (\<lambda>j. if j = 2 then \<lparr>p_ref = 1, p_flags = 0, p_property = 0\<rparr>
                 else if j = 4 then \<lparr>p_ref = 0, p_flags = 2, p_property = 8\<rparr>
                 else if 4 < j \<and> j < 12 then \<lparr>p_ref = 0, p_flags = 0, p_property = 0\<rparr>
                 else cold_page),
     npage = 0x80010, va_pa_offset = PHYSICAL_MEMORY_OFFSET,
     free_list = \<lparr>le_prev = (\<lambda>_. FreeHead)(FreeHead := Link 4), le_next = (\<lambda>_. FreeHead)(FreeHead := Link 4)\<rparr>,
     nr_free = 8,
     ptes = (\<lambda>_. 0)(cell 15 0 := table_pte 14, cell 14 0 := table_pte 13,
                   cell 13 0 := pte_create (page2ppn 2) 7),
     tlb = (\<lambda>_. None), boot_pgdir_va = 0, boot_pgdir_pa = 0\<rparr>"

definition example_tree :: "tid \<Rightarrow> nat option" where
  "example_tree = [Root \<mapsto> 15, Dir 0 \<mapsto> 14, Tab 0 0 \<mapsto> 13]"

lemma sixteen_free: "free_rel sixteen_pages [(4, 8)]"
  by (auto simp: free_rel_def rep_blocks_def cdll_def list_next_def list_prev_def blocks_simps
      flags_ok_def head_flags_def sixteen_pages_def PageReserved_def PageProperty_def
      test_bit_word_def PG_reserved_def PG_property_def BITS_PER_LONG_def)

lemma sixteen_free_frames: "free_frames sixteen_pages = {4..<12}"
  using free_frames_eq [OF sixteen_free] by simp

lemma sixteen_valid: "valid_frame sixteen_pages f \<longleftrightarrow> f < 16"
  by (simp add: valid_frame_def sixteen_pages_def)

lemma sixteen_cells:
  "ptes sixteen_pages (cell 15 i) = (if i = 0 then table_pte 14 else 0)"
  "ptes sixteen_pages (cell 14 i) = (if i = 0 then table_pte 13 else 0)"
  "ptes sixteen_pages (cell 13 i) = (if i = 0 then pte_create (page2ppn 2) 7 else 0)" if "i < 512"
  using that by (auto simp: sixteen_pages_def cell_inj)

lemma sixteen_inv: "vm_inv {0} example_tree sixteen_pages"
  unfolding vm_inv_def
proof (intro conjI)
  show "vm_ok sixteen_pages" by (simp add: vm_ok_def sixteen_pages_def)
  show "\<exists>bs. free_rel sixteen_pages bs" using sixteen_free by blast
  show "\<forall>f\<in>free_frames sixteen_pages. valid_frame sixteen_pages f"
    by (simp add: sixteen_free_frames sixteen_valid)
  have "entry_rel (ptes sixteen_pages (cell f k)) (example_tree y)"
    if "edge {0} x k y" "example_tree x = Some f" for x k y f
    using that by (cases x) (auto simp: example_tree_def entry_rel_def sixteen_cells split: if_splits)
  then show "pt_rel {0} example_tree sixteen_pages"
    unfolding pt_rel_def sixteen_free_frames sixteen_valid
    by (auto simp: example_tree_def split: if_splits elim!: edge.elims)
qed

lemma sixteen_unmappable: "unmappable example_tree sixteen_pages 2"
proof -
  have "free_rel (set_page_ref 2 0 sixteen_pages) [(4, 8)]"
    by (rule set_page_ref_rel [OF sixteen_free]) simp
  moreover have "page_clear (pages (set_page_ref 2 0 sixteen_pages) 2)"
    by (simp add: set_page_ref_def sixteen_pages_def page_clear_def PageReserved_def PageProperty_def
        test_bit_word_def)
  moreover have "{2..<2 + unat (1 :: u64)} = {2}" by auto
  ultimately have "may_free 2 1 (set_page_ref 2 0 sixteen_pages)"
    unfolding may_free_def by (intro exI [of _ "[(4, 8)]"]) (simp add: fits_free_def insert_ok_def)
  then show ?thesis
    by (auto simp: unmappable_def sixteen_free_frames example_tree_def ran_def split: if_splits)
qed

lemma page_insert_updates_mapping_witness:
  "\<exists>res s' T'. page_insert (frame_kva 15) 3 0x1000 6 sixteen_pages = ret (res, s') \<and> vm_inv {0} T' s'"
proof -
  have "PDX1 0x1000 = 0" "PDX0 0x1000 = 0" "PTX 0x1000 = 1"
    by (simp_all add: PDX1_def PDX0_def PTX_def)
  then have "PDX1 0x1000 \<in> {0}" "pte_val example_tree sixteen_pages 0x1000 AND PTE_V = 0"
    by (simp_all add: pte_val_def example_tree_def sixteen_cells)
  then show ?thesis
    using page_insert_updates_mapping [OF sixteen_inv, of 15 "0x1000" 3 6 0]
    by (auto simp: example_tree_def sixteen_valid sixteen_free_frames)
qed

lemma page_remove_unmaps_witness:
  "\<exists>s' ptep ptep'. get_page (frame_kva 15) 0x800 sixteen_pages = ret (Some 2, ptep, sixteen_pages) \<and>
    page_remove (frame_kva 15) 0x800 sixteen_pages = ret s' \<and>
    get_page (frame_kva 15) 0x800 s' = ret (None, ptep', s') \<and> page_ref 2 s' = 0 \<and> 2 \<in> free_frames s'"
proof -
  have "PDX1 0x800 = 0" "PDX0 0x800 = 0" "PTX 0x800 = 0"
    by (simp_all add: PDX1_def PDX0_def PTX_def)
  then have D: "PDX1 0x800 \<in> {0}" and v: "pte_val example_tree sixteen_pages 0x800 = pte_create (page2ppn 2) 7"
    by (simp_all add: pte_val_def example_tree_def sixteen_cells)
  have "leaf sixteen_pages (pte_val example_tree sixteen_pages 0x800) 2"
    unfolding v by (rule leaf_pte_create) (simp_all add: sixteen_valid vm_invD(1) [OF sixteen_inv])
  from page_remove_unmaps [OF sixteen_inv _ D this sixteen_unmappable, of 15]
  show ?thesis by (auto simp: example_tree_def page_ref_def sixteen_pages_def)
qed

end
