(* ===== verification/CString.thy ===== *)
theory CString
  imports Prelude
begin

unbundle bit_operations_syntax

text \<open>
  libs/string.c on a byte memory: strings are addresses, \<open>char\<close> is an unsigned byte. A function
  whose loop ends at a NUL byte is partial (\<open>None\<close> when there is none); a function that counts
  \<open>n\<close> down recurses on that number. \<open>cstr m a xs\<close> says that the non-zero bytes \<open>xs\<close> and a NUL
  stand at \<open>a\<close>.
\<close>

type_synonym mem = "u64 \<Rightarrow> u8"

subsection \<open>Length\<close>

partial_function (option) strlen_loop :: "mem \<Rightarrow> u64 \<Rightarrow> u64 \<Rightarrow> u64 option" where
  "strlen_loop m s cnt = (if m s \<noteq> 0 then strlen_loop m (s + 1) (cnt + 1) else Some cnt)"

declare strlen_loop.simps [code]

definition strlen :: "mem \<Rightarrow> u64 \<Rightarrow> u64 option" where
  "strlen m s = strlen_loop m s 0"

fun strnlen_loop :: "nat \<Rightarrow> mem \<Rightarrow> u64 \<Rightarrow> u64 \<Rightarrow> u64" where
  "strnlen_loop 0 m s cnt = cnt"
| "strnlen_loop (Suc k) m s cnt = (if m s \<noteq> 0 then strnlen_loop k m (s + 1) (cnt + 1) else cnt)"

definition strnlen :: "mem \<Rightarrow> u64 \<Rightarrow> u64 \<Rightarrow> u64" where
  "strnlen m s len = strnlen_loop (unat len) m s 0"

subsection \<open>Copying strings\<close>

partial_function (option) strcpy_loop :: "u64 \<Rightarrow> u64 \<Rightarrow> mem \<Rightarrow> mem option" where
  "strcpy_loop p src m =
     (let m' = m(p := m src) in if m src \<noteq> 0 then strcpy_loop (p + 1) (src + 1) m' else Some m')"

declare strcpy_loop.simps [code]

definition strcpy :: "u64 \<Rightarrow> u64 \<Rightarrow> mem \<Rightarrow> (u64 \<times> mem) option" where
  "strcpy dst src m = map_option (\<lambda>m'. (dst, m')) (strcpy_loop dst src m)"

text \<open>As in the C code, \<open>len\<close> bytes are written and the loop count never changes: \<open>len\<close> is
  decremented together with \<open>p\<close>, the source stays on its NUL.\<close>

fun strncpy_loop :: "nat \<Rightarrow> u64 \<Rightarrow> u64 \<Rightarrow> mem \<Rightarrow> mem" where
  "strncpy_loop 0 p src m = m"
| "strncpy_loop (Suc len) p src m =
     (let c = m src; m' = m(p := c)
      in strncpy_loop len (p + 1) (if c \<noteq> 0 then src + 1 else src) m')"

definition strncpy :: "u64 \<Rightarrow> u64 \<Rightarrow> u64 \<Rightarrow> mem \<Rightarrow> u64 \<times> mem" where
  "strncpy dst src len m = (dst, strncpy_loop (unat len) dst src m)"

subsection \<open>Comparing\<close>

definition byte_diff :: "u8 \<Rightarrow> u8 \<Rightarrow> u32" where
  "byte_diff a b = ucast a - ucast b"

partial_function (option) strcmp :: "mem \<Rightarrow> u64 \<Rightarrow> u64 \<Rightarrow> u32 option" where
  "strcmp m s1 s2 =
     (if m s1 \<noteq> 0 \<and> m s1 = m s2 then strcmp m (s1 + 1) (s2 + 1)
      else Some (byte_diff (m s1) (m s2)))"

declare strcmp.simps [code]

fun strncmp_loop :: "nat \<Rightarrow> mem \<Rightarrow> u64 \<Rightarrow> u64 \<Rightarrow> u32" where
  "strncmp_loop 0 m s1 s2 = 0"
| "strncmp_loop (Suc n) m s1 s2 =
     (if m s1 \<noteq> 0 \<and> m s1 = m s2 then strncmp_loop n m (s1 + 1) (s2 + 1)
      else byte_diff (m s1) (m s2))"

definition strncmp :: "mem \<Rightarrow> u64 \<Rightarrow> u64 \<Rightarrow> u64 \<Rightarrow> u32" where
  "strncmp m s1 s2 n = strncmp_loop (unat n) m s1 s2"

subsection \<open>Searching\<close>

text \<open>The null pointer is 0.\<close>

partial_function (option) strchr :: "mem \<Rightarrow> u64 \<Rightarrow> u8 \<Rightarrow> u64 option" where
  "strchr m s c = (if m s = 0 then Some 0 else if m s = c then Some s else strchr m (s + 1) c)"

partial_function (option) strfind :: "mem \<Rightarrow> u64 \<Rightarrow> u8 \<Rightarrow> u64 option" where
  "strfind m s c = (if m s = 0 then Some s else if m s = c then Some s else strfind m (s + 1) c)"

declare strchr.simps [code] and strfind.simps [code]

subsection \<open>Numbers\<close>

partial_function (option) skip_space :: "mem \<Rightarrow> u64 \<Rightarrow> u64 option" where
  "skip_space m s = (if m s = 32 \<or> m s = 9 then skip_space m (s + 1) else Some s)"

declare skip_space.simps [code]

definition digit_value :: "u8 \<Rightarrow> int option" where
  "digit_value c =
     (if 48 \<le> c \<and> c \<le> 57 then Some (uint c - 48)
      else if 97 \<le> c \<and> c \<le> 122 then Some (uint c - 97 + 10)
      else if 65 \<le> c \<and> c \<le> 90 then Some (uint c - 65 + 10)
      else None)"

text \<open>The digit loop; \<open>val\<close> is the 64-bit \<open>long\<close>, which wraps.\<close>

partial_function (option) strtol_digits :: "mem \<Rightarrow> int \<Rightarrow> u64 \<Rightarrow> u64 \<Rightarrow> (u64 \<times> u64) option" where
  "strtol_digits m base s val =
     (case digit_value (m s) of None \<Rightarrow> Some (s, val)
      | Some dig \<Rightarrow> if base \<le> dig then Some (s, val)
                    else strtol_digits m base (s + 1) (val * of_int base + of_int dig))"

declare strtol_digits.simps [code]

definition strtol_base :: "mem \<Rightarrow> u64 \<Rightarrow> int \<Rightarrow> u64 \<times> int" where
  "strtol_base m s base =
     (if (base = 0 \<or> base = 16) \<and> m s = 48 \<and> m (s + 1) = 120 then (s + 2, 16)
      else if base = 0 \<and> m s = 48 then (s + 1, 8)
      else if base = 0 then (s, 10)
      else (s, base))"

text \<open>The result and the pointer stored through \<open>endptr\<close>.\<close>

definition strtol :: "mem \<Rightarrow> u64 \<Rightarrow> int \<Rightarrow> (u64 \<times> u64) option" where
  "strtol m s base =
     Option.bind (skip_space m s) (\<lambda>s.
     let (neg, s) = (if m s = 43 then (False, s + 1) else if m s = 45 then (True, s + 1) else (False, s));
         (s, base) = strtol_base m s base
     in map_option (\<lambda>(e, val). (if neg then - val else val, e)) (strtol_digits m base s 0))"

subsection \<open>Blocks of memory\<close>

fun memset_loop :: "nat \<Rightarrow> u64 \<Rightarrow> u8 \<Rightarrow> mem \<Rightarrow> mem" where
  "memset_loop 0 p c m = m"
| "memset_loop (Suc n) p c m = memset_loop n (p + 1) c (m(p := c))"

definition memset :: "u64 \<Rightarrow> u8 \<Rightarrow> u64 \<Rightarrow> mem \<Rightarrow> mem" where
  "memset s c n m = memset_loop (unat n) s c m"

fun copy_up :: "nat \<Rightarrow> u64 \<Rightarrow> u64 \<Rightarrow> mem \<Rightarrow> mem" where
  "copy_up 0 d s m = m"
| "copy_up (Suc n) d s m = copy_up n (d + 1) (s + 1) (m(d := m s))"

fun copy_down :: "nat \<Rightarrow> u64 \<Rightarrow> u64 \<Rightarrow> mem \<Rightarrow> mem" where
  "copy_down 0 d s m = m"
| "copy_down (Suc n) d s m = copy_down n (d - 1) (s - 1) (m(d - 1 := m (s - 1)))"

definition memmove :: "u64 \<Rightarrow> u64 \<Rightarrow> u64 \<Rightarrow> mem \<Rightarrow> mem" where
  "memmove dst src n m =
     (if src < dst \<and> dst < src + n then copy_down (unat n) (dst + n) (src + n) m
      else copy_up (unat n) dst src m)"

definition memcpy :: "u64 \<Rightarrow> u64 \<Rightarrow> u64 \<Rightarrow> mem \<Rightarrow> mem" where
  "memcpy dst src n m = copy_up (unat n) dst src m"

fun memcmp_loop :: "nat \<Rightarrow> mem \<Rightarrow> u64 \<Rightarrow> u64 \<Rightarrow> u32" where
  "memcmp_loop 0 m s1 s2 = 0"
| "memcmp_loop (Suc n) m s1 s2 =
     (if m s1 \<noteq> m s2 then byte_diff (m s1) (m s2) else memcmp_loop n m (s1 + 1) (s2 + 1))"

definition memcmp :: "mem \<Rightarrow> u64 \<Rightarrow> u64 \<Rightarrow> u64 \<Rightarrow> u32" where
  "memcmp m v1 v2 n = memcmp_loop (unat n) m v1 v2"

subsection \<open>Strings in memory\<close>

fun cstr :: "mem \<Rightarrow> u64 \<Rightarrow> u8 list \<Rightarrow> bool" where
  "cstr m a [] \<longleftrightarrow> m a = 0"
| "cstr m a (x # xs) \<longleftrightarrow> m a = x \<and> x \<noteq> 0 \<and> cstr m (a + 1) xs"

text \<open>Bytes \<open>a\<close> to \<open>a + n - 1\<close>, without wrap-around.\<close>

definition block_at :: "u64 \<Rightarrow> nat \<Rightarrow> u64 set" where
  "block_at a n = {x. unat a \<le> unat x \<and> unat x < unat a + n}"

lemma strlen_loop_cstr: "cstr m a xs \<Longrightarrow> strlen_loop m a cnt = Some (cnt + of_nat (length xs))"
proof (induction xs arbitrary: a cnt)
  case Nil
  then show ?case by (simp add: strlen_loop.simps)
next
  case (Cons x xs)
  then show ?case using Cons.IH [of "a + 1" "cnt + 1"]
    by (subst strlen_loop.simps) (simp add: add.assoc)
qed

lemma strnlen_loop_cstr:
  "cstr m a xs \<Longrightarrow> strnlen_loop k m a cnt = cnt + of_nat (min k (length xs))"
proof (induction k arbitrary: a xs cnt)
  case (Suc k)
  then show ?case by (cases xs) (auto simp: algebra_simps)
qed simp

lemma cstr_cong:
  "\<forall>i\<le>length xs. m' (a + of_nat i) = m (a + of_nat i) \<Longrightarrow> cstr m' a xs = cstr m a xs"
proof (induction xs arbitrary: a)
  case (Cons x xs)
  have "\<forall>i\<le>length xs. m' ((a + 1) + of_nat i) = m ((a + 1) + of_nat i)"
  proof (intro allI impI)
    fix i assume "i \<le> length xs"
    then have "m' (a + of_nat (Suc i)) = m (a + of_nat (Suc i))"
      using Cons.prems [rule_format, of "Suc i"] by (simp del: of_nat_Suc)
    then show "m' ((a + 1) + of_nat i) = m ((a + 1) + of_nat i)" by (simp add: algebra_simps)
  qed
  moreover have "m' a = m a" using Cons.prems [rule_format, of 0] by simp
  ultimately show ?case using Cons.IH by simp
qed auto

lemma unat_succ: "unat a + n < 2 ^ 64 \<Longrightarrow> 0 < n \<Longrightarrow> unat ((a :: u64) + 1) = unat a + 1"
  by (simp add: unat_add_u64)

lemma in_block_at: "x \<in> block_at a n \<Longrightarrow> \<exists>i<n. x = a + of_nat i"
proof -
  assume "x \<in> block_at a n"
  then have "unat x - unat a < n" and "x = a + of_nat (unat x - unat a)"
    by (auto simp: block_at_def of_nat_diff)
  then show ?thesis by blast
qed

text \<open>Forward copying, with everything outside the destination kept.\<close>

lemma copy_up_spec:
  assumes "unat d + n < 2 ^ 64" and "unat s + n < 2 ^ 64" and "unat d \<le> unat s \<or> unat s + n \<le> unat d"
  shows "copy_up n d s m = (\<lambda>x. if x \<in> block_at d n then m (x - d + s) else m x)"
  using assms
proof (induction n arbitrary: d s m)
  case (Suc n)
  have d1: "unat (d + 1) = unat d + 1" and s1: "unat (s + 1) = unat s + 1"
    using Suc.prems by (simp_all add: unat_succ [of _ "Suc n"])
  have IH: "copy_up n (d + 1) (s + 1) (m(d := m s)) =
      (\<lambda>x. if x \<in> block_at (d + 1) n then (m(d := m s)) (x - (d + 1) + (s + 1)) else (m(d := m s)) x)"
    using Suc.prems by (intro Suc.IH) (auto simp: d1 s1)
  show ?case
  proof
    fix x
    have shift: "x - (d + 1) + (s + 1) = x - d + s" by (simp add: algebra_simps)
    have split: "x \<in> block_at d (Suc n) \<longleftrightarrow> x = d \<or> x \<in> block_at (d + 1) n"
      by (auto simp: block_at_def d1 word_unat_eq_iff)
    have "x - d + s \<noteq> d" if x: "x \<in> block_at (d + 1) n"
    proof -
      obtain i where i: "i < n" "x = d + 1 + of_nat i" using in_block_at [OF x] by blast
      then have eq: "x - d + s = s + of_nat (Suc i)" by (simp add: algebra_simps)
      have "unat (s + of_nat (Suc i)) = unat s + Suc i"
      proof -
        have "unat (of_nat (Suc i) :: u64) = Suc i"
          using i(1) Suc.prems(2) by (intro unat_of_nat_u64) simp
        then show ?thesis using i(1) Suc.prems(2) by (subst unat_add_u64) simp_all
      qed
      then show ?thesis using Suc.prems(3) i(1) unfolding eq by auto
    qed
    then show "copy_up (Suc n) d s m x = (if x \<in> block_at d (Suc n) then m (x - d + s) else m x)"
      by (auto simp: IH shift split)
  qed
qed (auto simp: block_at_def fun_eq_iff)

text \<open>Backward copying, given the ends of the blocks.\<close>

lemma copy_down_spec:
  assumes "unat d + n < 2 ^ 64" and "unat s + n < 2 ^ 64" and "unat s \<le> unat d"
  shows "copy_down n (d + of_nat n) (s + of_nat n) m = (\<lambda>x. if x \<in> block_at d n then m (x - d + s) else m x)"
  using assms
proof (induction n arbitrary: m)
  case (Suc n)
  let ?m = "m(d + of_nat n := m (s + of_nat n))"
  have un: "unat (d + of_nat i) = unat d + i" "unat (s + of_nat i) = unat s + i" if "i \<le> n" for i
    using that Suc.prems by (simp_all add: unat_add_u64 unat_of_nat_u64)
  have "copy_down (Suc n) (d + of_nat (Suc n)) (s + of_nat (Suc n)) m =
      copy_down n (d + of_nat n) (s + of_nat n) ?m"
    by (simp add: algebra_simps)
  also have "\<dots> = (\<lambda>x. if x \<in> block_at d n then ?m (x - d + s) else ?m x)"
    using Suc.prems by (intro Suc.IH) auto
  finally have IH: "copy_down (Suc n) (d + of_nat (Suc n)) (s + of_nat (Suc n)) m = \<dots>" .
  show ?case
  proof
    fix x
    have split: "x \<in> block_at d (Suc n) \<longleftrightarrow> x = d + of_nat n \<or> x \<in> block_at d n"
      using un(1) [of n] by (auto simp: block_at_def word_unat_eq_iff)
    have "x - d + s \<noteq> d + of_nat n \<and> x \<noteq> d + of_nat n" if x: "x \<in> block_at d n"
    proof -
      obtain i where i: "i < n" "x = d + of_nat i" using in_block_at [OF x] by blast
      have e: "x - d + s = s + of_nat i" unfolding i(2) by simp
      show ?thesis
        unfolding e word_unat_eq_iff using un(1) [of n] un [of i] i Suc.prems(3) by simp
    qed
    then show "copy_down (Suc n) (d + of_nat (Suc n)) (s + of_nat (Suc n)) m x =
        (if x \<in> block_at d (Suc n) then m (x - d + s) else m x)"
      unfolding IH split by (auto simp: add.commute)
  qed
qed (auto simp: block_at_def fun_eq_iff)

text \<open>C37. \<open>memmove\<close> copies the source block as it was before the call, however the blocks overlap,
  and changes nothing outside the destination.\<close>

theorem memmove_copies:
  assumes "unat dst + unat n < 2 ^ 64" and "unat src + unat n < 2 ^ 64"
  shows "memmove dst src n m =
    (\<lambda>x. if x \<in> block_at dst (unat n) then m (x - dst + src) else m x)"
proof (cases "src < dst \<and> dst < src + n")
  case True
  then show ?thesis
    using copy_down_spec [of dst "unat n" src m] assms by (simp add: memmove_def word_less_nat_alt)
next
  case False
  have "unat (src + n) = unat src + unat n" using assms(2) by (simp add: unat_add_u64)
  then have "unat dst \<le> unat src \<or> unat src + unat n \<le> unat dst"
    using False by (auto simp: word_less_nat_alt)
  then show ?thesis using copy_up_spec assms False by (auto simp: memmove_def)
qed

lemma memmove_copies_witness:
  "memmove 101 100 3 ((\<lambda>_. 0)(100 := 7, 101 := 8, 102 := 9)) 103 = (9 :: u8)"
  using memmove_copies [of 101 3 100 "(\<lambda>_. 0)(100 := 7, 101 := 8, 102 := 9)"]
  by (simp add: block_at_def)

text \<open>Comparing strings.\<close>

lemma strcmp_same: "cstr m a xs \<Longrightarrow> cstr m b xs \<Longrightarrow> strcmp m a b = Some 0"
proof (induction xs arbitrary: a b)
  case (Cons x xs)
  then show ?case by (subst strcmp.simps) simp
qed (simp add: strcmp.simps byte_diff_def)

lemma byte_diff_0: "byte_diff a b = 0 \<longleftrightarrow> a = b"
proof -
  have u: "unat (ucast c :: u32) = unat c" for c :: u8
    by (simp add: unsigned_ucast_eq take_bit_nat_eq_self unsigned_less [THEN less_le_trans])
  have "byte_diff a b = 0 \<longleftrightarrow> (ucast a :: u32) = ucast b" by (simp add: byte_diff_def)
  also have "\<dots> \<longleftrightarrow> unat a = unat b" by (simp only: word_unat_eq_iff u)
  finally show ?thesis by (simp add: word_unat_eq_iff)
qed

lemma strcmp_0: "cstr m a xs \<Longrightarrow> cstr m b ys \<Longrightarrow> \<exists>r. strcmp m a b = Some r \<and> (r = 0 \<longleftrightarrow> xs = ys)"
proof (induction xs arbitrary: a b ys)
  case Nil
  then show ?case by (cases ys) (auto simp: strcmp.simps byte_diff_0)
next
  case (Cons x xs)
  show ?case
  proof (cases ys)
    case Nil
    then show ?thesis using Cons.prems by (auto simp: strcmp.simps byte_diff_0)
  next
    case (Cons y zs)
    then show ?thesis using Cons.IH [of "a + 1" "b + 1" zs] Cons.prems \<open>cstr m a (x # xs)\<close>
      by (subst strcmp.simps) (auto simp: byte_diff_0)
  qed
qed

end
