(* ===== verification/PmmInit.thy ===== *)
theory PmmInit
  imports Kmalloc PmmCheck PagingOps CString
begin

unbundle bit_operations_syntax

text \<open>
  The start-up half of kern/mm/pmm.c: \<open>init_pmm_manager\<close>, \<open>page_init\<close> and \<open>pmm_init\<close>, with the
  self-tests \<open>check_pgdir\<close> and \<open>check_boot_pgdir\<close>, and the table scan at the end of the file. The linker symbols \<open>end\<close> and
  \<open>boot_page_table_sv39\<close> and the memory found by dtb.c are arguments. Formats of \<open>cprintf\<close> are given
  without the line feed they end in.
\<close>

subsection \<open>page_init\<close>

definition sizeof_Page :: u64 where "sizeof_Page = 64"

definition init_pmm_manager :: "'z pmm_state_scheme \<Rightarrow> 'z pmm_state_scheme" where
  "init_pmm_manager s = mgr_init default_pmm_manager
     (say ''memory management: %s'' [CStr (mgr_name (default_pmm_manager :: 'z pmm_state_scheme pmm_manager))] s)"

definition init_memmap :: "nat \<Rightarrow> u64 \<Rightarrow> 'z pmm_state_scheme \<Rightarrow> 'z pmm_state_scheme run" where
  "init_memmap base n s = mgr_init_memmap default_pmm_manager base n s"

text \<open>The loop that reserves every page; the first argument is the number of pages to go.\<close>

fun reserve_loop :: "nat \<Rightarrow> nat \<Rightarrow> (nat \<Rightarrow> page) \<Rightarrow> nat \<Rightarrow> page" where
  "reserve_loop 0 i pg = pg"
| "reserve_loop (Suc k) i pg = reserve_loop k (Suc i) (pg(i := SetPageReserved (pg i)))"

definition page_init :: "u64 \<Rightarrow> u64 \<Rightarrow> u64 \<Rightarrow> 'z pmm_state_scheme \<Rightarrow> 'z pmm_state_scheme run" where
  "page_init kend mem_begin mem_size s =
     (let s = s\<lparr>va_pa_offset := PHYSICAL_MEMORY_OFFSET\<rparr> in
      if mem_size = 0 then panic ''DTB memory info not available''
      else
        let mem_end = mem_begin + mem_size;
            s = say ''physcial memory map:'' [] s;
            s = say ''  memory: 0x%08lx, [0x%08lx, 0x%08lx].''
                  [CNum mem_size, CNum mem_begin, CNum (mem_end - 1)] s;
            maxpa = (if KERNTOP < mem_end then KERNTOP else mem_end);
            s = s\<lparr>npage := maxpa div PGSIZE\<rparr>;
            pages_va = ROUNDUP kend PGSIZE;
            s = s\<lparr>pages := reserve_loop (unat (npage s - nbase)) 0 (pages s)\<rparr>
        in run_bind (PADDR (pages_va + sizeof_Page * (npage s - nbase)) s) (\<lambda>freemem.
           let mem_begin = ROUNDUP freemem PGSIZE;
               mem_end = ROUNDDOWN mem_end PGSIZE
           in run_bind
                (if freemem < mem_end
                 then run_bind (pa2page mem_begin s) (\<lambda>p. init_memmap p ((mem_end - mem_begin) div PGSIZE) s)
                 else ret s) (\<lambda>s.
              ret (say ''vapaofset is %llu'' [CNum (va_pa_offset s)] s))))"

definition check_alloc_page :: "'z pmm_state_scheme \<Rightarrow> 'z pmm_state_scheme run" where
  "check_alloc_page s =
     run_bind (mgr_check default_pmm_manager s) (\<lambda>s. ret (say ''check_alloc_page() succeeded!'' [] s))"

subsection \<open>check_pgdir\<close>

text \<open>\<open>assert((ptep = get_pte(pgdir, la, 0)) != NULL)\<close>.\<close>

definition pte_there ::
  "u64 \<Rightarrow> u64 \<Rightarrow> 'z vm_state_scheme \<Rightarrow> (u64 \<Rightarrow> 'z vm_state_scheme \<Rightarrow> 'b run) \<Rightarrow> 'b run" where
  "pte_there pgdir la s k = run_bind (get_pte pgdir la False s) (\<lambda>(ptep, s).
     c_assert (ptep \<noteq> 0) ''(ptep = get_pte(boot_pgdir_va, la, 0)) != NULL'' (k ptep s))"

text \<open>\<open>assert(page_insert(pgdir, page, la, perm) == 0)\<close>; a null page from
  \<open>alloc_page\<close>, which the test would dereference, ends the run.\<close>

definition insert_there ::
  "u64 \<Rightarrow> nat \<Rightarrow> u64 \<Rightarrow> u32 \<Rightarrow> 'z vm_state_scheme \<Rightarrow> ('z vm_state_scheme \<Rightarrow> 'b run) \<Rightarrow> 'b run" where
  "insert_there pgdir p la perm s k = run_bind (page_insert pgdir p la perm s) (\<lambda>(r, s).
     c_assert (r = 0) ''page_insert(boot_pgdir_va, p, la, perm) == 0'' (k s))"

definition page_or_null ::
  "'z vm_state_scheme \<Rightarrow> (nat \<Rightarrow> 'z vm_state_scheme \<Rightarrow> 'b run) \<Rightarrow> 'b run" where
  "page_or_null s k = run_bind (alloc_page s) (\<lambda>(r, s).
     case r of None \<Rightarrow> panic ''null page'' | Some p \<Rightarrow> k p s)"

text \<open>Lines 363 to 380: the first mapping and the position of its entry.\<close>

definition check_pgdir_first :: "'z vm_state_scheme \<Rightarrow> (nat \<times> 'z vm_state_scheme) run" where
  "check_pgdir_first s =
     (let pgdir = boot_pgdir_va s in
      c_assert (npage s \<le> KERNTOP div PGSIZE) ''npage <= KERNTOP / PGSIZE'' (
      c_assert (pgdir \<noteq> 0 \<and> (ucast (PGOFF pgdir) :: u32) = 0)
        ''boot_pgdir_va != NULL && (uint32_t)PGOFF(boot_pgdir_va) == 0'' (
      run_bind (get_page pgdir 0 s) (\<lambda>(r, _, s).
      c_assert (r = None) ''get_page(boot_pgdir_va, 0x0, NULL) == NULL'' (
      page_or_null s (\<lambda>p1 s.
      insert_there pgdir p1 0 0 s (\<lambda>s.
      pte_there pgdir 0 s (\<lambda>ptep s.
      run_bind (pte2page (ptes s ptep) s) (\<lambda>p.
      c_assert (p = p1) ''pte2page(*ptep) == p1'' (
      c_assert (page_ref p1 s = 1) ''page_ref(p1) == 1'' (
      run_bind (KADDR (PDE_ADDR (ptes s pgdir)) s) (\<lambda>pd0.
      run_bind (KADDR (PDE_ADDR (ptes s pd0)) s) (\<lambda>pt.
      run_bind (get_pte pgdir PGSIZE False s) (\<lambda>(ptep, s).
      c_assert (ptep = pt + 8) ''get_pte(boot_pgdir_va, PGSIZE, 0) == ptep'' (
      ret (p1, s))))))))))))))))"

text \<open>Lines 382 to 405: a second page, then the first page at both addresses.\<close>

definition check_pgdir_second :: "nat \<Rightarrow> 'z vm_state_scheme \<Rightarrow> 'z vm_state_scheme run" where
  "check_pgdir_second p1 s =
     (let pgdir = boot_pgdir_va s in
      page_or_null s (\<lambda>p2 s.
      insert_there pgdir p2 PGSIZE (ucast (PTE_U OR PTE_W)) s (\<lambda>s.
      pte_there pgdir PGSIZE s (\<lambda>ptep s.
      c_assert (ptes s ptep AND PTE_U \<noteq> 0) ''*ptep & PTE_U'' (
      c_assert (ptes s ptep AND PTE_W \<noteq> 0) ''*ptep & PTE_W'' (
      c_assert (ptes s pgdir AND PTE_U \<noteq> 0) ''boot_pgdir_va[0] & PTE_U'' (
      c_assert (page_ref p2 s = 1) ''page_ref(p2) == 1'' (
      insert_there pgdir p1 PGSIZE 0 s (\<lambda>s.
      c_assert (page_ref p1 s = 2) ''page_ref(p1) == 2'' (
      c_assert (page_ref p2 s = 0) ''page_ref(p2) == 0'' (
      pte_there pgdir PGSIZE s (\<lambda>ptep s.
      run_bind (pte2page (ptes s ptep) s) (\<lambda>p.
      c_assert (p = p1) ''pte2page(*ptep) == p1'' (
      c_assert (ptes s ptep AND PTE_U = 0) ''(*ptep & PTE_U) == 0'' (
      run_bind (page_remove pgdir 0 s) (\<lambda>s.
      c_assert (page_ref p1 s = 1) ''page_ref(p1) == 1'' (
      c_assert (page_ref p2 s = 0) ''page_ref(p2) == 0'' (
      run_bind (page_remove pgdir PGSIZE s) (\<lambda>s.
      c_assert (page_ref p1 s = 0) ''page_ref(p1) == 0'' (
      c_assert (page_ref p2 s = 0) ''page_ref(p2) == 0'' (
      run_bind (pde2page (ptes s pgdir) s) (\<lambda>d.
      c_assert (page_ref d s = 1) ''page_ref(pde2page(boot_pgdir_va[0])) == 1'' (
      ret s)))))))))))))))))))))))"

text \<open>Lines 407 to 411: the two tables that were created are given back.\<close>

definition check_pgdir_cleanup :: "'z vm_state_scheme \<Rightarrow> 'z vm_state_scheme run" where
  "check_pgdir_cleanup s =
     (let pd1 = boot_pgdir_va s in
      run_bind (pde2page (ptes s pd1) s) (\<lambda>d.
      run_bind (page2kva d s) (\<lambda>pd0.
      run_bind (pde2page (ptes s pd0) s) (\<lambda>t.
      run_bind (free_page t s) (\<lambda>s.
      run_bind (pde2page (ptes s pd1) s) (\<lambda>d.
      run_bind (free_page d s) (\<lambda>s.
      ret (flush_tlb (set_pte pd1 0 s)))))))))"

definition check_pgdir :: "'z vm_state_scheme \<Rightarrow> 'z vm_state_scheme run" where
  "check_pgdir s =
     (let (nr_free_store, s) = nr_free_pages s in
      run_bind (check_pgdir_first s) (\<lambda>(p1, s).
      run_bind (check_pgdir_second p1 s) (\<lambda>s.
      run_bind (check_pgdir_cleanup s) (\<lambda>s.
      let (n, s) = nr_free_pages s in
      c_assert (nr_free_store = n) ''nr_free_store == nr_free_pages()'' (
      ret (say ''check_pgdir() succeeded!'' [] s))))))"

subsection \<open>check_boot_pgdir\<close>

text \<open>The loop of \<open>check_boot_pgdir\<close> over the kernel mapping, with its 32-bit \<open>int\<close> counter, which
  the comparison and the call convert to 64 bits by sign extension.\<close>

partial_function (option) boot_pgdir_loop :: "u32 \<Rightarrow> 'z vm_state_scheme \<Rightarrow> 'z vm_state_scheme run" where
  "boot_pgdir_loop i s =
     (if (scast i :: u64) < npage s * PGSIZE
      then run_bind (KADDR (scast i) s) (\<lambda>va.
           run_bind (get_pte (boot_pgdir_va s) va False s) (\<lambda>r.
           run_bind (c_assert (fst r \<noteq> 0)
             ''(ptep = get_pte(boot_pgdir_va, (uintptr_t)KADDR(i), 0)) != NULL'' (ret ())) (\<lambda>_.
           run_bind (c_assert (PTE_ADDR (ptes (snd r) (fst r)) = scast i) ''PTE_ADDR(*ptep) == i'' (ret ())) (\<lambda>_.
           boot_pgdir_loop (i + ucast PGSIZE) (snd r)))))
      else ret s)"

text \<open>The kernel virtual address of the byte at the address \<open>la\<close>, which the processor translates through
  the boot page table. Where there is no translation the access faults and the run does not go on. The
  strings of the test do not reach past the end of a page, so that it is enough to translate their first
  byte.\<close>

definition user_ptr :: "u64 \<Rightarrow> 'z vm_state_scheme \<Rightarrow> u64 run" where
  "user_ptr la s =
     (case sv39 (\<lambda>pa. ptes s (pa + va_pa_offset s)) (boot_pgdir_pa s) la of
        None \<Rightarrow> None | Some pa \<Rightarrow> ret (pa + va_pa_offset s))"

text \<open>Lines 436 to 447: a page is mapped at two addresses, and a string written at one is read at the
  other. \<open>str\<close> is the address of the literal.\<close>

definition check_boot_strings :: "u64 \<Rightarrow> nat \<Rightarrow> 'z vm_state_scheme \<Rightarrow> 'z vm_state_scheme run" where
  "check_boot_strings str p s =
     run_bind (user_ptr 0x100 s) (\<lambda>x.
     run_bind (loop_run (strcpy x str (bytes s))) (\<lambda>(_, m).
     let s = s\<lparr>bytes := m\<rparr> in
     run_bind (user_ptr 0x100 s) (\<lambda>x.
     run_bind (user_ptr (0x100 + PGSIZE) s) (\<lambda>y.
     run_bind (loop_run (strcmp (bytes s) x y)) (\<lambda>r.
     c_assert (r = 0) ''strcmp((void *)0x100, (void *)(0x100 + PGSIZE)) == 0'' (
     run_bind (page2kva p s) (\<lambda>kva.
     let s = s\<lparr>bytes := (bytes s)(kva + 0x100 := 0)\<rparr> in
     run_bind (user_ptr 0x100 s) (\<lambda>x.
     run_bind (loop_run (strlen (bytes s) x)) (\<lambda>n.
     c_assert (n = 0) ''strlen((const char *)0x100) == 0'' (ret s))))))))))"

definition check_boot_pgdir :: "u64 \<Rightarrow> 'z vm_state_scheme \<Rightarrow> 'z vm_state_scheme run" where
  "check_boot_pgdir str s =
     (let (nr_free_store, s) = nr_free_pages s; pgdir = boot_pgdir_va s in
      run_bind (boot_pgdir_loop (ucast (ROUNDDOWN KERNBASE PGSIZE)) s) (\<lambda>s.
      c_assert (ptes s pgdir = 0) ''boot_pgdir_va[0] == 0'' (
      page_or_null s (\<lambda>p s.
      insert_there pgdir p 0x100 (ucast (PTE_W OR PTE_R)) s (\<lambda>s.
      c_assert (page_ref p s = 1) ''page_ref(p) == 1'' (
      insert_there pgdir p (0x100 + PGSIZE) (ucast (PTE_W OR PTE_R)) s (\<lambda>s.
      c_assert (page_ref p s = 2) ''page_ref(p) == 2'' (
      run_bind (check_boot_strings str p s) (\<lambda>s.
      run_bind (pde2page (ptes s pgdir) s) (\<lambda>d.
      run_bind (page2kva d s) (\<lambda>pd0.
      run_bind (free_page p s) (\<lambda>s.
      run_bind (pde2page (ptes s pd0) s) (\<lambda>t.
      run_bind (free_page t s) (\<lambda>s.
      run_bind (pde2page (ptes s pgdir) s) (\<lambda>d.
      run_bind (free_page d s) (\<lambda>s.
      let s = flush_tlb (set_pte pgdir 0 s); (n, s) = nr_free_pages s in
      c_assert (nr_free_store = n) ''nr_free_store == nr_free_pages()'' (
      ret (say ''check_boot_pgdir() succeeded!'' [] s))))))))))))))))))"

subsection \<open>pmm_init\<close>

definition kmalloc_init :: "'z machine_scheme \<Rightarrow> 'z machine_scheme" where
  "kmalloc_init s = say ''kmalloc_init() succeeded!'' [] (say ''use SLOB allocator'' [] s)"

definition pmm_init ::
  "u64 \<Rightarrow> u64 \<Rightarrow> u64 \<Rightarrow> u64 \<Rightarrow> u64 \<Rightarrow> 'z vm_state_scheme \<Rightarrow> 'z vm_state_scheme run" where
  "pmm_init kend boot_page_table mem_begin mem_size str s =
     run_bind (page_init kend mem_begin mem_size (init_pmm_manager s)) (\<lambda>s.
     run_bind (check_alloc_page s) (\<lambda>s.
     let s = s\<lparr>boot_pgdir_va := boot_page_table\<rparr> in
     run_bind (PADDR boot_page_table s) (\<lambda>pa.
     let s = s\<lparr>boot_pgdir_pa := pa\<rparr> in
     run_bind (check_pgdir s) (\<lambda>s.
     run_bind (check_boot_pgdir str s) (\<lambda>s. ret (kmalloc_init s))))))"

subsection \<open>Scanning a table\<close>

definition perm2str :: "u32 \<Rightarrow> string" where
  "perm2str perm =
     [if perm AND ucast PTE_U \<noteq> 0 then CHR ''u'' else CHR ''-'', CHR ''r'',
      if perm AND ucast PTE_W \<noteq> 0 then CHR ''w'' else CHR ''-'']"

text \<open>A \<open>while\<close> loop that moves \<open>start\<close> up to \<open>right\<close> while the entries satisfy \<open>P\<close>; the first
  argument is \<open>right - start\<close>.\<close>

fun skip_entries :: "nat \<Rightarrow> (nat \<Rightarrow> bool) \<Rightarrow> nat \<Rightarrow> nat" where
  "skip_entries 0 P start = start"
| "skip_entries (Suc k) P start = (if P start then skip_entries k P (Suc start) else start)"

text \<open>The result is the permission and the range stored through \<open>left_store\<close> and \<open>right_store\<close>.\<close>

definition get_pgtable_items :: "nat \<Rightarrow> nat \<Rightarrow> (nat \<Rightarrow> u64) \<Rightarrow> u64 \<times> (nat \<times> nat) option" where
  "get_pgtable_items right start table =
     (if right \<le> start then (0, None)
      else
        let l = skip_entries (right - start) (\<lambda>i. table i AND PTE_V = 0) start in
        if l < right
        then (let perm = table l AND PTE_USER;
                  r = skip_entries (right - Suc l) (\<lambda>i. table i AND PTE_USER = perm) (Suc l)
              in (perm, Some (l, r)))
        else (0, None))"

subsection \<open>What page_init frees\<close>

lemma unat_ROUNDDOWN: "unat (ROUNDDOWN a PGSIZE) = unat a div 4096 * 4096"
proof -
  have "a - a mod PGSIZE = a div PGSIZE * PGSIZE"
    by (metis add_diff_cancel_right' div_mult_mod_eq)
  moreover have "unat (a div PGSIZE * PGSIZE) = unat a div 4096 * 4096"
  proof -
    have "unat a div 4096 * 4096 \<le> unat a" by simp
    then have "unat a div 4096 * 4096 < 2 ^ 64" using unat_less_u64 [of a] by linarith
    then show ?thesis by (simp add: PGSIZE_def unat_word_ariths unat_div)
  qed
  ultimately show ?thesis by (simp add: ROUNDDOWN_def)
qed

lemma unat_ROUNDUP:
  assumes "unat a + 4095 < 2 ^ 64"
  shows "unat (ROUNDUP a PGSIZE) = (unat a + 4095) div 4096 * 4096"
proof -
  have "unat (a + PGSIZE - 1) = unat a + 4095"
  proof -
    have "a + PGSIZE - 1 = a + 4095" by (simp add: PGSIZE_def)
    then show ?thesis using assms unat_add_u64 [of a 4095] by (simp only:) simp
  qed
  then show ?thesis using unat_ROUNDDOWN [of "a + PGSIZE - 1"] by (simp add: ROUNDUP_def)
qed

lemma reserve_loop_spec:
  "reserve_loop k i pg j = (if j \<in> {i..<i + k} then SetPageReserved (pg j) else pg j)"
  by (induction k arbitrary: i pg) auto

text \<open>The number of page frames from the start of memory to \<open>mend\<close>, and the first frame after the
  kernel, which ends at the physical address \<open>k\<close>, and its array of page descriptors.\<close>

definition boot_frames :: "nat \<Rightarrow> nat" where
  "boot_frames mend = mend div 4096 - 0x80000"

definition first_free_frame :: "nat \<Rightarrow> nat \<Rightarrow> nat" where
  "first_free_frame k mend =
     ((k + 4095) div 4096 * 4096 + 64 * boot_frames mend + 4095) div 4096 - 0x80000"

lemma page_init_arith:
  assumes k: "0x80200000 \<le> k" and m: "mend \<le> 0xC0000000" and f: "first_free_frame k mend < boot_frames mend"
  defines "fm \<equiv> (k + 4095) div 4096 * 4096 + 64 * boot_frames mend"
  shows "0x80000000 + 4096 * first_free_frame k mend = (fm + 4095) div 4096 * 4096"
    "fm < mend div 4096 * 4096" "fm + 4095 < 0xC0000000" "0x80000 < mend div 4096"
    "mend div 4096 * 4096 = 0x80000000 + 4096 * boot_frames mend"
    "0x80200000 \<le> fm" "k + 4095 < 0xC0000000" "boot_frames mend \<le> 0x40000"
proof -
  show n: "0x80000 < mend div 4096" using f by (simp add: boot_frames_def)
  then show mend: "mend div 4096 * 4096 = 0x80000000 + 4096 * boot_frames mend"
    by (simp add: boot_frames_def algebra_simps)
  have e: "k \<le> (k + 4095) div 4096 * 4096" by arith
  then show lower: "0x80200000 \<le> fm" using k by (simp add: fm_def)
  have up: "fm \<le> (fm + 4095) div 4096 * 4096" by arith
  have "0x80000 \<le> (fm + 4095) div 4096" using lower by arith
  then show first: "0x80000000 + 4096 * first_free_frame k mend = (fm + 4095) div 4096 * 4096"
    unfolding first_free_frame_def fm_def [symmetric] by (simp add: algebra_simps)
  show small: "boot_frames mend \<le> 0x40000" using m by (simp add: boot_frames_def)
  have step: "(fm + 4095) div 4096 * 4096 + 4096 \<le> mend div 4096 * 4096"
    using f unfolding first [symmetric] mend by simp
  show "fm < mend div 4096 * 4096" using up step by simp
  have "fm + 4095 < (fm + 4095) div 4096 * 4096 + 4096" by arith
  moreover have "mend div 4096 * 4096 \<le> mend" by simp
  ultimately show "fm + 4095 < 0xC0000000" using step m by linarith
  then show "k + 4095 < 0xC0000000" using e by (simp add: fm_def)
qed

lemma default_init_memmap_other:
  assumes "default_init_memmap b n s = ret s'" and "\<forall>j\<in>{b..<b + unat n}. PageReserved (pages s j)"
  shows "j \<notin> {b..<b + unat n} \<Longrightarrow> pages s' j = pages s j" "npage s' = npage s" "va_pa_offset s' = va_pa_offset s"
  using assms(1) by (auto simp: default_init_memmap_def init_memmap_pages_spec [OF assms(2)]
      run_bind_eq_ret set_block_head_def word_less_nat_alt split: if_splits)

lemma default_init_memmap_fresh:
  assumes "default_init_memmap b n s = ret s'" and "\<forall>j\<in>{b..<b + unat n}. PageReserved (pages s j)"
  shows "p_flags (pages s' b) = 2" "\<forall>j\<in>{b<..<b + unat n}. p_flags (pages s' j) = 0"
    "s' = s\<lparr>pages := pages s', free_list := free_list s', nr_free := nr_free s'\<rparr>"
  using assms(1) by (auto simp: default_init_memmap_def init_memmap_pages_spec [OF assms(2)]
      run_bind_eq_ret set_block_head_def SetPageProperty_def or_bit_def PG_property_def BIT_MASK_def
      BITS_PER_LONG_def word_less_nat_alt split: if_splits)

lemma say_pages: "pages (say fmt args s) = pages s"
  by (simp add: say_def)

lemma init_pmm_manager_pages: "pages (init_pmm_manager s) = pages s"
  by (simp add: init_pmm_manager_def default_init_def say_def)

lemma PADDR_kernel:
  assumes "va_pa_offset s = PHYSICAL_MEMORY_OFFSET" and "KERNBASE \<le> va"
  shows "PADDR va s = ret (va - PHYSICAL_MEMORY_OFFSET)"
  using assms by (simp add: PADDR_def not_less [symmetric])

unbundle bit_operations_syntax

text \<open>The addresses \<open>page_init\<close> computes, as numbers: \<open>va\<close> is the end of the page array, \<open>free\<close> its
  physical address.\<close>

lemma page_init_words:
  fixes mem_begin mem_size kend :: u64
  assumes kend: "unat kend = k + 0xFFFFFFFF40000000" and k: "0x80200000 \<le> k"
    and mend: "unat mem_begin + unat mem_size = mend" "mend \<le> 0xC0000000"
    and room: "first_free_frame k mend < boot_frames mend"
  defines "cnt \<equiv> (mem_begin + mem_size) div PGSIZE - nbase"
  defines "va \<equiv> ROUNDUP kend PGSIZE + sizeof_Page * cnt"
  defines "free \<equiv> va - PHYSICAL_MEMORY_OFFSET" and "mem_end \<equiv> ROUNDDOWN (mem_begin + mem_size) PGSIZE"
  shows "unat (mem_begin + mem_size) = mend" "unat ((mem_begin + mem_size) div PGSIZE) = mend div 4096"
    "\<not> KERNTOP < mem_begin + mem_size" "unat cnt = boot_frames mend" "KERNBASE \<le> va" "free < mem_end"
    "unat (PPN (ROUNDUP free PGSIZE)) = 0x80000 + first_free_frame k mend"
    "unat ((mem_end - ROUNDUP free PGSIZE) div PGSIZE) = boot_frames mend - first_free_frame k mend"
proof -
  let ?f = "first_free_frame k mend" and ?N = "boot_frames mend" and ?me = "mem_begin + mem_size"
  note ar = page_init_arith [OF k mend(2) room]
  have me: "unat ?me = mend" using mend by (simp add: unat_add_u64)
  have np: "unat (?me div PGSIZE) = mend div 4096" by (simp add: unat_div me PGSIZE_def)
  have nb: "unat nbase = 0x80000" by (simp add: nbase_def DRAM_BASE_def PGSIZE_def)
  have top: "\<not> KERNTOP < ?me"
    using me mend(2) by (simp add: word_less_nat_alt KERNTOP_def KERNBASE_def KMEMSIZE_def)
  have N: "unat cnt = ?N"
  proof -
    have "nbase \<le> ?me div PGSIZE" using np nb ar(4) by (simp add: word_le_nat_alt)
    then show ?thesis using np nb by (simp add: cnt_def unat_sub boot_frames_def)
  qed
  define fm where "fm = (k + 4095) div 4096 * 4096 + 64 * ?N"
  have va: "unat va = fm + 0xFFFFFFFF40000000"
  proof -
    have "unat kend + 4095 < 2 ^ 64" using ar(7) kend by simp
    then have "unat (ROUNDUP kend PGSIZE) = (k + 4095) div 4096 * 4096 + 0xFFFFFFFF40000000"
    proof -
      have "unat kend + 4095 = (k + 4095) + 0xFFFFFFFF40000 * 4096" using kend by simp
      then have "(unat kend + 4095) div 4096 = (k + 4095) div 4096 + 0xFFFFFFFF40000"
        by (simp only: div_mult_self1 [of "4096 :: nat"])
      then show ?thesis using unat_ROUNDUP [OF \<open>unat kend + 4095 < 2 ^ 64\<close>] by simp
    qed
    moreover have "unat (sizeof_Page * cnt) = 64 * ?N"
      using ar(8) N by (simp add: cnt_def [symmetric] unat_word_ariths sizeof_Page_def)
    ultimately show ?thesis
      unfolding va_def using ar(3) by (subst unat_add_u64) (simp_all add: fm_def)
  qed
  have padr: "unat (va - PHYSICAL_MEMORY_OFFSET) = fm"
  proof -
    have "PHYSICAL_MEMORY_OFFSET \<le> va" using va by (simp add: word_le_nat_alt PHYSICAL_MEMORY_OFFSET_def)
    then show ?thesis using va by (simp add: unat_sub PHYSICAL_MEMORY_OFFSET_def)
  qed
  have kb: "KERNBASE \<le> va" using va ar(6) by (simp add: word_le_nat_alt KERNBASE_def fm_def)
  let ?free = "va - PHYSICAL_MEMORY_OFFSET"
  have up: "unat (ROUNDUP ?free PGSIZE) = 0x80000000 + 4096 * ?f"
    using ar(1,3) padr by (simp add: unat_ROUNDUP fm_def)
  have down: "unat (ROUNDDOWN ?me PGSIZE) = 0x80000000 + 4096 * ?N"
    using ar(5) by (simp add: unat_ROUNDDOWN me)
  have lt: "?free < ROUNDDOWN ?me PGSIZE"
    using ar(2,5) padr down by (simp add: word_less_nat_alt fm_def)
  have ppn: "unat (PPN (ROUNDUP ?free PGSIZE)) = 0x80000 + ?f"
    by (simp add: PPN_def drop_bit_eq_div unat_div up)
  have n: "unat ((ROUNDDOWN ?me PGSIZE - ROUNDUP ?free PGSIZE) div PGSIZE) = ?N - ?f"
  proof -
    have "ROUNDUP ?free PGSIZE \<le> ROUNDDOWN ?me PGSIZE" using up down room by (simp add: word_le_nat_alt)
    then show ?thesis using up down by (simp add: unat_div unat_sub PGSIZE_def)
  qed
  show "unat ?me = mend" "unat (?me div PGSIZE) = mend div 4096" "\<not> KERNTOP < ?me" "unat cnt = ?N" "KERNBASE \<le> va"
    using me np top N kb by (simp_all add: cnt_def)
  show "free < mem_end" "unat (PPN (ROUNDUP free PGSIZE)) = 0x80000 + ?f"
    "unat ((mem_end - ROUNDUP free PGSIZE) div PGSIZE) = ?N - ?f"
    using lt ppn n by (simp_all add: free_def mem_end_def)
qed

text \<open>The state after \<open>page_init\<close>.\<close>

lemma page_init_spec:
  assumes kend: "unat kend = k + 0xFFFFFFFF40000000" and k: "0x80200000 \<le> k"
    and mend: "unat mem_begin + unat mem_size = mend" "mem_size \<noteq> 0" "mend \<le> 0xC0000000"
    and room: "first_free_frame k mend < boot_frames mend"
  shows "\<exists>s'. page_init kend mem_begin mem_size (init_pmm_manager s) = ret s' \<and>
    free_rel s' [(first_free_frame k mend, boot_frames mend - first_free_frame k mend)] \<and>
    unat (npage s') = mend div 4096 \<and> va_pa_offset s' = PHYSICAL_MEMORY_OFFSET \<and>
    (\<forall>j<first_free_frame k mend. PageReserved (pages s' j)) \<and>
    p_flags (pages s' (first_free_frame k mend)) = 2 \<and>
    (\<forall>j\<in>{first_free_frame k mend<..<boot_frames mend}. p_flags (pages s' j) = 0) \<and>
    (\<exists>pg h m c. s' = s\<lparr>console := c, pages := pg, npage := npage s', va_pa_offset := PHYSICAL_MEMORY_OFFSET, free_list := h,
      nr_free := m\<rparr>)"
proof -
  let ?f = "first_free_frame k mend" and ?N = "boot_frames mend" and ?me = "mem_begin + mem_size"
  note ar = page_init_arith [OF k mend(3) room]
  define cnt where "cnt = ?me div PGSIZE - nbase"
  define va where "va = ROUNDUP kend PGSIZE + sizeof_Page * cnt"
  let ?free = "va - PHYSICAL_MEMORY_OFFSET"
  note w = page_init_words [OF kend k mend(1,3) room, folded cnt_def, folded va_def]
  note np = w(2) and N = w(4) and ppn = w(7) and n = w(8)
  have nb: "unat nbase = 0x80000" by (simp add: nbase_def DRAM_BASE_def PGSIZE_def)
  define s1 where "s1 = (say ''  memory: 0x%08lx, [0x%08lx, 0x%08lx].'' [CNum mem_size, CNum mem_begin, CNum (?me - 1)]
      (say ''physcial memory map:'' [] (init_pmm_manager s\<lparr>va_pa_offset := PHYSICAL_MEMORY_OFFSET\<rparr>)))
      \<lparr>npage := ?me div PGSIZE, pages := reserve_loop (unat cnt) 0 (pages s)\<rparr>"
  have rel: "free_rel s1 []"
    using default_init_rel [of s] by (simp add: s1_def init_pmm_manager_def say_def default_init_def free_rel_def rep_blocks_def flags_ok_def)
  have reserved: "PageReserved (pages s1 j) \<longleftrightarrow> j < ?N \<or> PageReserved (pages s j)" for j
    by (simp add: s1_def reserve_loop_spec N PageReserved_def SetPageReserved_def)
  let ?cnt = "(ROUNDDOWN ?me PGSIZE - ROUNDUP ?free PGSIZE) div PGSIZE"
  have pos: "0 < ?cnt" using n room by (simp add: word_less_nat_alt)
  have block: "\<forall>j\<in>{?f..<?f + unat ?cnt}. PageReserved (pages s1 j)" using n reserved room by simp
  have small: "sum_list (map snd ([] @ [] :: block list)) + unat ?cnt < 2 ^ 32" using n ar(8) by simp
  obtain s2 where s2: "default_init_memmap ?f ?cnt s1 = ret s2" "free_rel s2 ([] @ (?f, unat ?cnt) # [])"
    by (rule default_init_memmap_spec [OF _ pos _ block _ small])
      (use rel n room in \<open>simp_all add: wf_blocks_def insert_ok_def\<close>)
  note other = default_init_memmap_other [OF s2(1) block]
  note new = default_init_memmap_fresh [OF s2(1) block]
  have end_eq: "?f + unat ?cnt = ?N" using n room by simp
  have flags: "p_flags (pages s2 ?f) = 2" "\<forall>j\<in>{?f<..<?N}. p_flags (pages s2 j) = 0"
    using new(1,2) unfolding end_eq by simp_all
  let ?res = "say ''vapaofset is %llu'' [CNum (va_pa_offset s2)] s2"
  obtain pg h m where frame: "s2 = s1\<lparr>pages := pg, free_list := h, nr_free := m\<rparr>" using new(3) by metis
  have frame': "\<exists>pg h m c. ?res = s\<lparr>console := c, pages := pg, npage := npage ?res,
      va_pa_offset := PHYSICAL_MEMORY_OFFSET, free_list := h, nr_free := m\<rparr>"
    by (intro exI [of _ pg] exI [of _ h] exI [of _ m] exI [of _ "console ?res"])
      (simp add: frame s1_def say_def init_pmm_manager_def default_init_def)
  have kept: "npage s2 = ?me div PGSIZE" "va_pa_offset s2 = PHYSICAL_MEMORY_OFFSET"
    using other(2,3) by (simp_all add: s1_def say_def)
  have "\<forall>j<?f. PageReserved (pages s2 j)" using other(1) reserved room by simp
  moreover have "pa2page (ROUNDUP ?free PGSIZE) s1 = ret ?f"
  proof -
    have "PPN (ROUNDUP ?free PGSIZE) < npage s1"
      using ppn np ar(4) room by (simp add: s1_def word_less_nat_alt boot_frames_def)
    moreover have "nbase \<le> PPN (ROUNDUP ?free PGSIZE)" using ppn nb by (simp add: word_le_nat_alt)
    ultimately show ?thesis using ppn nb by (simp add: pa2page_def unat_sub not_le [symmetric])
  qed
  moreover have "PADDR va s1 = ret ?free" by (rule PADDR_kernel) (simp_all add: s1_def say_def w(5))
  moreover have "page_init kend mem_begin mem_size (init_pmm_manager s) =
      ret (say ''vapaofset is %llu'' [CNum (va_pa_offset s2)] s2)"
    using w(3,6) mend(2) s2(1) \<open>pa2page _ s1 = _\<close> \<open>PADDR va s1 = _\<close>
    by (simp add: page_init_def Let_def say_pages init_pmm_manager_pages s1_def [symmetric]
        va_def [symmetric] init_memmap_def cnt_def [symmetric])
  ultimately show ?thesis
    using s2(2) n kept np flags frame' by (intro exI [of _ ?res] conjI) (simp_all add: say_def free_rel_def)
qed

text \<open>After \<open>page_init\<close> the allocator has one free block: every page frame from the first page
  after the kernel image and the array of page descriptors up to the end of the memory reported by
  the device tree, whatever the flags in the uninitialised descriptors. \<open>k\<close> is the physical address
  of the linker symbol \<open>end\<close>.\<close>

theorem page_init_frees_rest:
  assumes kend: "unat kend = k + 0xFFFFFFFF40000000" and k: "0x80200000 \<le> k"
    and mend: "unat mem_begin + unat mem_size = mend" "mem_size \<noteq> 0" "mend \<le> 0xC0000000"
    and room: "first_free_frame k mend < boot_frames mend"
  shows "\<exists>s'. page_init kend mem_begin mem_size (init_pmm_manager s) = ret s' \<and>
    free_rel s' [(first_free_frame k mend, boot_frames mend - first_free_frame k mend)] \<and>
    unat (npage s') = mend div 4096 \<and> va_pa_offset s' = PHYSICAL_MEMORY_OFFSET \<and>
    (\<forall>j<first_free_frame k mend. PageReserved (pages s' j))"
  using page_init_spec [OF assms, of s] by blast

lemma page_init_frees_rest_witness:
  "\<exists>s'. page_init 0xFFFFFFFFC0209000 0x80000000 0x8000000 (init_pmm_manager cold_pmm) = ret s' \<and>
    free_rel s' [(0x409, 0x7BF7)]"
  using page_init_frees_rest [where kend = "0xFFFFFFFFC0209000" and k = "0x80209000" and mem_begin = "0x80000000"
      and mem_size = "0x8000000" and mend = "0x88000000" and s = cold_pmm]
  by (auto simp: first_free_frame_def boot_frames_def)

text \<open>The test \<open>freemem < mem_end\<close> does not exclude that nothing is left: when the page array
  ends inside the last page of memory, \<open>page_init\<close> asks for the page after the last one and panics.\<close>

theorem page_init_last_page_panics:
  "page_init 0xFFFFFFFFC0209000 0x80000000 0x212000 (init_pmm_manager cold_pmm) =
   panic ''pa2page called with invalid pa''"
  by (simp add: page_init_def Let_def PADDR_def pa2page_def init_memmap_def default_init_memmap_def
      ROUNDUP_def ROUNDDOWN_def PGSIZE_def nbase_def DRAM_BASE_def sizeof_Page_def KERNBASE_def KERNTOP_def
      KMEMSIZE_def PHYSICAL_MEMORY_OFFSET_def PPN_def say_def)

text \<open>The test of the kernel mapping in \<open>check_boot_pgdir\<close> checks nothing: the \<open>int\<close> counter
  is negative, its conversion is at least \<open>KERNBASE\<close>, and the loop ends before its first round.\<close>

theorem boot_pgdir_loop_empty:
  assumes "npage s * PGSIZE \<le> KERNBASE"
  shows "boot_pgdir_loop (ucast (ROUNDDOWN KERNBASE PGSIZE)) s = ret s"
proof -
  have "(scast (ucast (ROUNDDOWN KERNBASE PGSIZE) :: u32) :: u64) = KERNBASE"
    by (simp add: ROUNDDOWN_def KERNBASE_def PGSIZE_def)
  moreover have "\<not> KERNBASE < npage s * PGSIZE" using assms by simp
  ultimately show ?thesis by (subst boot_pgdir_loop.simps) (simp only: if_False)
qed

lemma boot_pgdir_loop_empty_witness:
  "boot_pgdir_loop (ucast (ROUNDDOWN KERNBASE PGSIZE)) sixteen_pages = ret sixteen_pages"
  by (rule boot_pgdir_loop_empty) (simp add: sixteen_pages_def PGSIZE_def KERNBASE_def)

subsection \<open>The ranges of a table\<close>

lemma skip_entries_spec:
  fixes P :: "nat \<Rightarrow> bool"
  assumes "start \<le> right"
  defines "r \<equiv> skip_entries (right - start) P start"
  shows "start \<le> r" "r \<le> right" "\<forall>i\<in>{start..<r}. P i" "r < right \<longrightarrow> \<not> P r"
proof -
  have "start \<le> skip_entries k P start \<and> skip_entries k P start \<le> start + k \<and>
      (\<forall>i\<in>{start..<skip_entries k P start}. P i) \<and>
      (skip_entries k P start < start + k \<longrightarrow> \<not> P (skip_entries k P start))" for k
  proof (induction k arbitrary: start)
    case (Suc k)
    show ?case
    proof (cases "P start")
      case True
      have "P i" if "i \<in> {start..<skip_entries k P (Suc start)}" for i
        using that True Suc.IH [of "Suc start"] by (cases "i = start") auto
      then show ?thesis using Suc.IH [of "Suc start"] True by simp
    qed simp
  qed simp
  from this [of "right - start"] assms(1)
  show "start \<le> r" "r \<le> right" "\<forall>i\<in>{start..<r}. P i" "r < right \<longrightarrow> \<not> P r" by (simp_all add: r_def)
qed

text \<open>\<open>get_pgtable_items\<close> returns the first range of valid entries from \<open>start\<close> on: the entries
  before it are invalid, it is not empty, all its entries have the permission returned, and it cannot
  be extended; or 0 and no range when no entry is valid.\<close>

theorem get_pgtable_items_range:
  "case get_pgtable_items right start table of
     (perm, None) \<Rightarrow> perm = 0 \<and> (\<forall>i\<in>{start..<right}. table i AND PTE_V = 0)
   | (perm, Some (l, r)) \<Rightarrow> start \<le> l \<and> l < r \<and> r \<le> right \<and>
       (\<forall>i\<in>{start..<l}. table i AND PTE_V = 0) \<and> table l AND PTE_V \<noteq> 0 \<and>
       (\<forall>i\<in>{l..<r}. table i AND PTE_USER = perm) \<and> (r < right \<longrightarrow> table r AND PTE_USER \<noteq> perm)"
proof (cases "right \<le> start")
  case False
  let ?P = "\<lambda>i. table i AND PTE_V = 0"
  define l where "l = skip_entries (right - start) ?P start"
  define perm where "perm = table l AND PTE_USER"
  define r where "r = skip_entries (right - Suc l) (\<lambda>i. table i AND PTE_USER = perm) (Suc l)"
  have le: "start \<le> right" using False by simp
  note ls = skip_entries_spec [OF le, of ?P, folded l_def]
  show ?thesis
  proof (cases "l < right")
    case True
    then have "Suc l \<le> right" by simp
    note rs = skip_entries_spec [OF this, of "\<lambda>i. table i AND PTE_USER = perm", folded r_def]
    have all: "\<forall>i\<in>{l..<r}. table i AND PTE_USER = perm"
    proof
      fix i assume "i \<in> {l..<r}"
      then show "table i AND PTE_USER = perm" using rs(3) by (cases "i = l") (simp_all add: perm_def)
    qed
    have eq: "get_pgtable_items right start table = (perm, Some (l, r))"
      using False True by (simp add: get_pgtable_items_def Let_def l_def r_def perm_def)
    have lr: "l < r" using rs(1) by (rule Suc_le_lessD)
    have valid: "table l AND PTE_V \<noteq> 0" using ls(4) True by (rule mp)
    show ?thesis unfolding eq using ls(1,3) rs(2,4) all lr valid by simp
  next
    case out: False
    then have "l = right" using ls(2) by simp
    moreover have "get_pgtable_items right start table = (0, None)"
      using False out by (simp add: get_pgtable_items_def l_def)
    ultimately show ?thesis using ls(3) by simp
  qed
qed (simp add: get_pgtable_items_def)

lemma get_pgtable_items_range_witness:
  "case get_pgtable_items 4 0 (\<lambda>i. if i = 2 then 0xF else 0) of
     (perm, None) \<Rightarrow> False
   | (perm, Some (l, r)) \<Rightarrow> perm = 0xF \<and> l = 2 \<and> r = 3"
proof -
  have eq: "get_pgtable_items 4 0 (\<lambda>i. if i = 2 then 0xF else 0) = (0xF, Some (2, 3))" by code_simp
  have "0 \<le> (2 :: nat) \<and> (2 :: nat) < 3 \<and> (3 :: nat) \<le> 4"
    using get_pgtable_items_range [of 4 0 "\<lambda>i. if i = 2 then 0xF else 0"] unfolding eq by simp
  then show ?thesis unfolding eq by simp
qed

end
