(* ===== verification/Printfmt.thy ===== *)
theory Printfmt
  imports CString
begin

unbundle bit_operations_syntax

text \<open>
  libs/printfmt.c. The formatter calls \<open>putch\<close> on one character after the other; its model returns
  the characters in order, and the two consumers of the kernel (\<open>sprintputch\<close> here, \<open>cputch\<close> of
  kern/libs/stdio.c) are folded over them. The variable arguments are a list of 8-byte slots. The
  memory the format and string arguments are read from is the one before the call, so a buffer of
  \<open>vsnprintf\<close> must not overlap them.
\<close>

definition MAXERROR :: int where "MAXERROR = 6"

text \<open>The characters of a C string literal.\<close>

definition lit :: "string \<Rightarrow> u8 list" where
  "lit cs = map (\<lambda>c. of_nat (of_char c)) cs"

fun error_string :: "nat \<Rightarrow> u8 list option" where
  "error_string n =
     (if n = 1 then Some (lit ''unspecified error'')
      else if n = 2 then Some (lit ''bad process'')
      else if n = 3 then Some (lit ''invalid parameter'')
      else if n = 4 then Some (lit ''out of memory'')
      else if n = 5 then Some (lit ''out of processes'')
      else if n = 6 then Some (lit ''segmentation fault'')
      else None)"

subsection \<open>Numbers\<close>

definition do_div :: "u64 \<Rightarrow> u64 \<Rightarrow> u64 \<times> u64" where
  "do_div n base = (n mod base, n div base)"

definition digit_char :: "u64 \<Rightarrow> u8" where
  "digit_char d = lit ''0123456789abcdef'' ! unat d"

text \<open>The recursion of \<open>printnum\<close>; without end for base 1.\<close>

partial_function (option) printnum :: "u64 \<Rightarrow> u64 \<Rightarrow> int \<Rightarrow> u8 \<Rightarrow> u8 list option" where
  "printnum num base width padc =
     Option.bind
       (if base \<le> num then printnum (snd (do_div num base)) base (width - 1) padc
        else Some (replicate (nat (width - 1)) padc))
       (\<lambda>out. Some (out @ [digit_char (fst (do_div num base))]))"

declare printnum.simps [code]

definition getuint :: "u64 \<Rightarrow> int \<Rightarrow> u64" where
  "getuint ap lflag =
     (if 2 \<le> lflag then ap else if lflag \<noteq> 0 then ap else ucast (ucast ap :: u32))"

definition getint :: "u64 \<Rightarrow> int \<Rightarrow> u64" where
  "getint ap lflag =
     (if 2 \<le> lflag then ap else if lflag \<noteq> 0 then ap else scast (ucast ap :: u32))"

subsection \<open>Pieces of a conversion\<close>

text \<open>The decimal field; the result is the value and the address of the first character after it.\<close>

partial_function (option) scan_width :: "mem \<Rightarrow> u64 \<Rightarrow> u8 \<Rightarrow> int \<Rightarrow> (int \<times> u64) option" where
  "scan_width m fmt ch acc =
     (let acc = acc * 10 + uint ch - 48; ch = m fmt
      in if ch < 48 \<or> 57 < ch then Some (acc, fmt) else scan_width m (fmt + 1) ch acc)"

text \<open>\<open>%s\<close>: the characters up to the NUL or the precision, and the width that is left.\<close>

partial_function (option) emit_string ::
  "mem \<Rightarrow> bool \<Rightarrow> u64 \<Rightarrow> int \<Rightarrow> int \<Rightarrow> u8 list \<Rightarrow> (u8 list \<times> int) option" where
  "emit_string m altflag p precision width out =
     (let ch = m p in
      if ch \<noteq> 0 \<and> (precision < 0 \<or> 0 \<le> precision - 1)
      then emit_string m altflag (p + 1) (if precision < 0 then precision else precision - 1) (width - 1)
             (out @ [if altflag \<and> (ch < 32 \<or> 126 < ch) then 63 else ch])
      else Some (out, width))"

partial_function (option) back_to_percent :: "mem \<Rightarrow> u64 \<Rightarrow> u64 option" where
  "back_to_percent m fmt = (if m (fmt - 1) \<noteq> 37 then back_to_percent m (fmt - 1) else Some fmt)"

declare scan_width.simps [code] and emit_string.simps [code] and back_to_percent.simps [code]

text \<open>The string at \<open>p\<close>, or the literal when \<open>p\<close> is null; padding on the left unless the flag is
  \<open>'-'\<close>, spaces on the right for what is left of the width.\<close>

definition format_string :: "mem \<Rightarrow> bool \<Rightarrow> u64 \<Rightarrow> int \<Rightarrow> int \<Rightarrow> u8 \<Rightarrow> u8 list option" where
  "format_string m altflag p width precision padc =
     (let len = strnlen m p (of_int precision);
          left = width - uint len;
          (pad, width) = (if 0 < width \<and> padc \<noteq> 45
                          then (replicate (nat left) padc, min left 0) else ([], width))
      in map_option (\<lambda>(out, width). out @ replicate (nat width) 32)
           (emit_string m altflag p precision width pad))"

definition null_string :: "bool \<Rightarrow> int \<Rightarrow> int \<Rightarrow> u8 \<Rightarrow> u8 list" where
  "null_string altflag width precision padc =
     (let s = (if precision < 0 then lit ''(null)'' else take (nat precision) (lit ''(null)''));
          left = width - int (length s)
      in if 0 < width \<and> padc \<noteq> 45 then replicate (nat left) padc @ s
         else s @ replicate (nat left) 32)"

definition format_error :: "u32 \<Rightarrow> u8 list run" where
  "format_error arg =
     (let err = (if sint arg < 0 then sint (- arg) else sint arg) in
      if err < 0 then panic ''error_string: index out of bounds''
      else case (if MAXERROR < err then None else error_string (nat err)) of
        None \<Rightarrow> run_bind (loop_run (printnum (of_int err) 10 (- 1) 32)) (\<lambda>ds. ret (lit ''error '' @ ds))
      | Some msg \<Rightarrow> ret msg)"

subsection \<open>vprintfmt\<close>

text \<open>Where the loop stands: copying text, or inside a conversion with its flags.\<close>

datatype fmode = Text | Spec (padc: u8) (width: int) (precision: int) (lflag: int) (altflag: bool)

definition va_arg :: "u64 list \<Rightarrow> u64 \<times> u64 list" where
  "va_arg ap = (case ap of [] \<Rightarrow> (0, []) | a # ap' \<Rightarrow> (a, ap'))"

definition process_precision :: "int \<Rightarrow> fmode \<Rightarrow> fmode" where
  "process_precision n md =
     (case md of Text \<Rightarrow> Text
      | Spec pc w pr l a \<Rightarrow> if w < 0 then Spec pc n (- 1) l a else Spec pc w n l a)"

text \<open>The numeric conversions: what is put in front, the number and the base.\<close>

definition number_arg :: "u8 \<Rightarrow> int \<Rightarrow> u64 \<Rightarrow> (u8 list \<times> u64 \<times> u64) option" where
  "number_arg ch l arg =
     (if ch = 100
      then (let num = getint arg l in
            if sint num < 0 then Some ([45], - num, 10) else Some ([], num, 10))
      else if ch = 117 then Some ([], getuint arg l, 10)
      else if ch = 111 then Some ([], getuint arg l, 8)
      else if ch = 112 then Some ([48, 120], arg, 16)
      else if ch = 120 then Some ([], getuint arg l, 16)
      else None)"

text \<open>The state of the loop: the format pointer, the arguments left, the mode and the output. One
  step reads one character of the format; \<open>None\<close> is the \<open>return\<close> at the end of the format.\<close>

type_synonym fstate = "u64 \<times> u64 list \<times> fmode \<times> u8 list"

definition spec_step ::
  "mem \<Rightarrow> u64 \<Rightarrow> u64 list \<Rightarrow> u8 \<Rightarrow> int \<Rightarrow> int \<Rightarrow> int \<Rightarrow> bool \<Rightarrow> u8 list \<Rightarrow> fstate run" where
  "spec_step m fmt0 ap pc w pr l a out =
     (let ch = m fmt0; fmt = fmt0 + 1; arg = fst (va_arg ap); ap' = snd (va_arg ap) in
      if ch = 45 then ret (fmt, ap, Spec 45 w pr l a, out)
      else if ch = 48 then ret (fmt, ap, Spec 48 w pr l a, out)
      else if 49 \<le> ch \<and> ch \<le> 57 then
        run_bind (loop_run (scan_width m fmt ch 0)) (\<lambda>(n, fmt).
          ret (fmt, ap, process_precision n (Spec pc w n l a), out))
      else if ch = 42 then
        (let n = sint (ucast arg :: u32)
         in ret (fmt, ap', process_precision n (Spec pc w n l a), out))
      else if ch = 46 then ret (fmt, ap, Spec pc (if w < 0 then 0 else w) pr l a, out)
      else if ch = 35 then ret (fmt, ap, Spec pc w pr l True, out)
      else if ch = 108 then ret (fmt, ap, Spec pc w pr (l + 1) a, out)
      else if ch = 99 then ret (fmt, ap', Text, out @ [ucast arg])
      else if ch = 101 then run_bind (format_error (ucast arg)) (\<lambda>msg. ret (fmt, ap', Text, out @ msg))
      else if ch = 115 then
        run_bind (if arg = 0 then ret (null_string a w pr pc)
                  else loop_run (format_string m a arg w pr pc))
          (\<lambda>str. ret (fmt, ap', Text, out @ str))
      else if ch = 37 then ret (fmt, ap, Text, out @ [37])
      else (case number_arg ch l arg of
              Some (pre, num, base) \<Rightarrow>
                run_bind (loop_run (printnum num base w pc)) (\<lambda>ds. ret (fmt, ap', Text, out @ pre @ ds))
            | None \<Rightarrow>
                run_bind (loop_run (back_to_percent m (fmt - 1))) (\<lambda>fmt. ret (fmt, ap, Text, out @ [37]))))"

definition vprintfmt_step :: "mem \<Rightarrow> fstate \<Rightarrow> fstate option run" where
  "vprintfmt_step m st =
     (let (fmt, ap, md, out) = st in
      case md of
        Text \<Rightarrow>
          ret (if m fmt = 37 then Some (fmt + 1, ap, Spec 32 (- 1) (- 1) 0 False, out)
               else if m fmt = 0 then None
               else Some (fmt + 1, ap, Text, out @ [m fmt]))
      | Spec pc w pr l a \<Rightarrow> run_bind (spec_step m fmt ap pc w pr l a out) (\<lambda>st'. ret (Some st')))"

partial_function (option) vprintfmt_loop :: "mem \<Rightarrow> fstate \<Rightarrow> u8 list run" where
  "vprintfmt_loop m st =
     run_bind (vprintfmt_step m st) (\<lambda>r.
       case r of None \<Rightarrow> ret (snd (snd (snd st))) | Some st' \<Rightarrow> vprintfmt_loop m st')"

declare vprintfmt_loop.simps [code]

definition vprintfmt :: "mem \<Rightarrow> u64 \<Rightarrow> u64 list \<Rightarrow> u8 list run" where
  "vprintfmt m fmt ap = vprintfmt_loop m (fmt, ap, Text, [])"

subsection \<open>Printing into a buffer\<close>

record sprintbuf =
  sb_buf :: u64
  sb_ebuf :: u64
  sb_cnt :: u32

definition sprintputch :: "u8 \<Rightarrow> sprintbuf \<times> mem \<Rightarrow> sprintbuf \<times> mem" where
  "sprintputch ch st =
     (let (b, m) = st; b = b\<lparr>sb_cnt := sb_cnt b + 1\<rparr>
      in if sb_buf b < sb_ebuf b then (b\<lparr>sb_buf := sb_buf b + 1\<rparr>, m(sb_buf b := ch)) else (b, m))"

definition vsnprintf :: "u64 \<Rightarrow> u64 \<Rightarrow> u64 \<Rightarrow> u64 list \<Rightarrow> mem \<Rightarrow> (u32 \<times> mem) run" where
  "vsnprintf str sz fmt ap m =
     (let b = \<lparr>sb_buf = str, sb_ebuf = str + sz - 1, sb_cnt = 0\<rparr> in
      if str = 0 \<or> sb_ebuf b < sb_buf b then ret (- 3, m)
      else run_bind (vprintfmt m fmt ap) (\<lambda>out.
        let (b, m) = fold sprintputch out (b, m)
        in ret (sb_cnt b, m(sb_buf b := 0))))"

text \<open>The functions with variable arguments, which \<open>va_start\<close> makes a list of.\<close>

definition printfmt :: "mem \<Rightarrow> u64 \<Rightarrow> u64 list \<Rightarrow> u8 list run" where
  "printfmt m fmt args = vprintfmt m fmt args"

definition snprintf :: "u64 \<Rightarrow> u64 \<Rightarrow> u64 \<Rightarrow> u64 list \<Rightarrow> mem \<Rightarrow> (u32 \<times> mem) run" where
  "snprintf str sz fmt args m = vsnprintf str sz fmt args m"

subsection \<open>Numbers print as their digits\<close>

definition from_digits :: "u64 \<Rightarrow> u64 \<Rightarrow> u64 list \<Rightarrow> u64" where
  "from_digits b = foldl (\<lambda>v d. v * b + d)"

lemma printnum_spec:
  assumes "2 \<le> unat b"
  shows "\<exists>ds. printnum num b w pc = Some (replicate (nat (w - int (length ds))) pc @ map digit_char ds) \<and>
    ds \<noteq> [] \<and> (\<forall>d\<in>set ds. d < b) \<and> from_digits b 0 ds = num \<and> (num \<noteq> 0 \<longrightarrow> hd ds \<noteq> 0)"
proof (induction "unat num" arbitrary: num w rule: less_induct)
  case less
  have b0: "b \<noteq> 0" using assms by auto
  show ?case
  proof (cases "b \<le> num")
    case False
    then have lt: "num < b" by simp
    then have "num mod b = num" by (simp add: word_unat_eq_iff unat_mod word_less_nat_alt)
    then have "printnum num b w pc = Some (replicate (nat (w - 1)) pc @ [digit_char num])"
      using False by (subst printnum.simps) (simp add: do_div_def)
    then show ?thesis using lt by (intro exI [of _ "[num]"]) (simp add: from_digits_def)
  next
    case True
    let ?q = "num div b"
    have pos: "0 < unat num" using True assms by (simp add: word_le_nat_alt)
    have "unat ?q < unat num" using pos assms by (simp add: unat_div)
    from less [OF this, of "w - 1"] obtain ds where ds:
      "printnum ?q b (w - 1) pc = Some (replicate (nat (w - 1 - int (length ds))) pc @ map digit_char ds)"
      "ds \<noteq> []" "\<forall>d\<in>set ds. d < b" "from_digits b 0 ds = ?q" "?q \<noteq> 0 \<longrightarrow> hd ds \<noteq> 0"
      by blast
    have "num mod b < b" using assms by (simp add: word_less_nat_alt unat_mod)
    moreover have "?q \<noteq> 0"
    proof -
      have "0 < unat num div unat b" using True assms by (simp add: word_le_nat_alt div_greater_zero_iff)
      then have "0 < unat ?q" by (simp add: unat_div)
      then show ?thesis by auto
    qed
    moreover have "from_digits b 0 (ds @ [num mod b]) = num"
      using ds(4) by (simp add: from_digits_def div_mult_mod_eq)
    moreover have "printnum num b w pc =
        Some (replicate (nat (w - int (length (ds @ [num mod b])))) pc @ map digit_char (ds @ [num mod b]))"
      using True ds(1) by (subst printnum.simps) (simp add: do_div_def algebra_simps)
    ultimately show ?thesis using ds by (intro exI [of _ "ds @ [num mod b]"]) auto
  qed
qed

lemma digit_cases: "(d :: u64) < 16 \<Longrightarrow> unat d \<in> {0, 1, 2, 3, 4, 5, 6, 7, 8, 9, 10, 11, 12, 13, 14, 15}"
proof -
  have "n < 16 \<Longrightarrow> n = 0 \<or> n = 1 \<or> n = 2 \<or> n = 3 \<or> n = 4 \<or> n = 5 \<or> n = 6 \<or> n = 7 \<or> n = 8 \<or>
    n = 9 \<or> n = 10 \<or> n = 11 \<or> n = 12 \<or> n = 13 \<or> n = 14 \<or> n = 15" for n :: nat
    by presburger
  then show "d < 16 \<Longrightarrow> ?thesis" by (simp add: word_less_nat_alt)
qed

lemma digit_char_table:
  "digit_char d = [48, 49, 50, 51, 52, 53, 54, 55, 56, 57, 97, 98, 99, 100, 101, 102] ! unat d"
  by (simp add: digit_char_def lit_def)

lemma digit_char_value:
  assumes "d < 16"
  shows "digit_value (digit_char d) = Some (uint d)" "digit_char d \<notin> {0, 9, 32, 43, 45, 120}"
    "digit_char d = 48 \<longleftrightarrow> d = 0"
proof -
  have u: "uint d = int (unat d)" by simp
  from digit_cases [OF assms] show "digit_value (digit_char d) = Some (uint d)"
    unfolding u digit_char_table by (elim insertE emptyE) (simp_all add: digit_value_def)
  from digit_cases [OF assms] show "digit_char d \<notin> {0, 9, 32, 43, 45, 120}"
    unfolding digit_char_table by (elim insertE emptyE) simp_all
  from digit_cases [OF assms] show "digit_char d = 48 \<longleftrightarrow> d = 0"
    unfolding digit_char_table unat_eq_zero [symmetric] by (elim insertE emptyE) simp_all
qed

text \<open>Reading digits back.\<close>

lemma strtol_digits_back:
  assumes "\<forall>d\<in>set ds. d < b" and "b \<le> 16" and "cstr m a (map digit_char ds)"
  shows "strtol_digits m (uint b) a v = Some (a + of_nat (length ds), from_digits b v ds)"
  using assms
proof (induction ds arbitrary: a v)
  case Nil
  then have "digit_value (m a) = None" by (simp add: digit_value_def)
  then show ?case by (subst strtol_digits.simps) (simp add: from_digits_def)
next
  case (Cons d ds)
  have db: "d < b" using Cons.prems by simp
  have d: "d < 16" "uint d < uint b" using less_le_trans [OF db Cons.prems(2)] db by (simp_all add: word_less_def)
  have "strtol_digits m (uint b) a v = strtol_digits m (uint b) (a + 1) (v * b + d)"
    using Cons.prems d by (subst strtol_digits.simps) (simp add: digit_char_value)
  then show ?case
    using Cons.IH [of "a + 1" "v * b + d"] Cons.prems by (simp add: from_digits_def add.assoc)
qed

text \<open>C38. What \<open>printnum\<close> prints for a number in base 8, 10 or 16 without padding is read back by
  \<open>strtol\<close> as the same number, and \<open>strtol\<close> stops right behind it.\<close>

theorem printnum_strtol_roundtrip:
  assumes "b \<in> {8, 10, 16}" and "printnum num b 0 pc = Some out" and "cstr m a out"
  shows "strtol m a (uint b) = Some (num, a + of_nat (length out))"
proof -
  have b: "2 \<le> unat b" "b \<le> 16" using assms(1) by auto
  obtain ds where ds: "out = map digit_char ds" "ds \<noteq> []" "\<forall>d\<in>set ds. d < b" "from_digits b 0 ds = num"
      "num \<noteq> 0 \<longrightarrow> hd ds \<noteq> 0"
    using printnum_spec [OF b(1), of num 0 pc] assms(2) by auto
  obtain d es where de: "ds = d # es" using ds(2) by (cases ds) auto
  have d: "d < 16" using ds(3) b(2) de by auto
  have m: "m a = digit_char d" "cstr m (a + 1) (map digit_char es)" using assms(3) ds(1) de by auto
  have skip: "skip_space m a = Some a"
    using digit_char_value(2) [OF d] m(1) by (subst skip_space.simps) auto
  have prefix: "strtol_base m a (uint b) = (a, uint b)"
  proof -
    have "\<not> (m a = 48 \<and> m (a + 1) = 120)"
    proof (cases es)
      case Nil
      then show ?thesis using m(2) by auto
    next
      case (Cons e fs)
      then have "e < 16" using ds(3) b(2) de by auto
      then show ?thesis using m(2) Cons digit_char_value(2) by auto
    qed
    moreover have "uint b \<noteq> 0" using assms(1) by auto
    ultimately show ?thesis by (simp add: strtol_base_def)
  qed
  have "strtol_digits m (uint b) a 0 = Some (a + of_nat (length ds), num)"
    using strtol_digits_back [OF ds(3) b(2), of m a 0] assms(3) ds(1,4) by simp
  moreover have "m a \<noteq> 43" "m a \<noteq> 45" using digit_char_value(2) [OF d] m(1) by auto
  ultimately show ?thesis using skip prefix ds(1) by (simp add: strtol_def)
qed

lemma printnum_strtol_roundtrip_witness:
  "strtol ((\<lambda>_. 0)(100 := 52, 101 := 50)) 100 10 = Some (42, 102)"
proof -
  have "printnum 42 10 0 32 = Some [52, 50]"
    by (simp add: printnum.simps do_div_def digit_char_table)
  from printnum_strtol_roundtrip [OF _ this, of "(\<lambda>_. 0)(100 := 52, 101 := 50)" 100] show ?thesis by simp
qed

subsection \<open>The buffer of vsnprintf\<close>

lemma sprintputch_fold:
  assumes "sb_ebuf b = sb_buf b + of_nat k" and "unat (sb_buf b) + k < 2 ^ 64"
  shows "\<exists>m'. fold sprintputch out (b, m) =
      (b\<lparr>sb_buf := sb_buf b + of_nat (min k (length out)), sb_cnt := sb_cnt b + of_nat (length out)\<rparr>, m') \<and>
    (\<forall>i<min k (length out). m' (sb_buf b + of_nat i) = out ! i) \<and>
    (\<forall>x. x \<notin> block_at (sb_buf b) (min k (length out)) \<longrightarrow> m' x = m x)"
  using assms
proof (induction out arbitrary: b m k)
  case (Cons c out)
  have eb: "unat (sb_ebuf b) = unat (sb_buf b) + k"
    using Cons.prems by (simp add: unat_add_u64 unat_of_nat_u64)
  show ?case
  proof (cases k)
    case 0
    then have full: "sb_ebuf b = sb_buf b" using Cons.prems by simp
    let ?b = "b\<lparr>sb_cnt := sb_cnt b + 1\<rparr>"
    have "sprintputch c (b, m) = (?b, m)" using full by (simp add: sprintputch_def)
    moreover obtain m' where m': "fold sprintputch out (?b, m) =
        (?b\<lparr>sb_buf := sb_buf ?b + of_nat (min 0 (length out)), sb_cnt := sb_cnt ?b + of_nat (length out)\<rparr>, m')"
        "\<forall>x. x \<notin> block_at (sb_buf ?b) (min 0 (length out)) \<longrightarrow> m' x = m x"
      using Cons.IH [of ?b 0 m] full Cons.prems by auto
    ultimately show ?thesis using 0 by (simp add: algebra_simps)
  next
    case (Suc j)
    let ?b = "b\<lparr>sb_buf := sb_buf b + 1, sb_cnt := sb_cnt b + 1\<rparr>" and ?m = "m(sb_buf b := c)"
    have b1: "unat (sb_buf b + 1) = unat (sb_buf b) + 1"
      using Cons.prems(2) Suc by (intro unat_succ [of _ k]) simp_all
    have step: "sprintputch c (b, m) = (?b, ?m)" using eb Suc by (simp add: sprintputch_def word_less_nat_alt)
    obtain m' where m': "fold sprintputch out (?b, ?m) =
        (?b\<lparr>sb_buf := sb_buf b + 1 + of_nat (min j (length out)), sb_cnt := sb_cnt b + 1 + of_nat (length out)\<rparr>, m')"
        "\<forall>i<min j (length out). m' (sb_buf b + 1 + of_nat i) = out ! i"
        "\<forall>x. x \<notin> block_at (sb_buf b + 1) (min j (length out)) \<longrightarrow> m' x = ?m x"
    proof -
      have "sb_ebuf ?b = sb_buf ?b + of_nat j" using Cons.prems(1) Suc by (simp add: add.assoc)
      moreover have "unat (sb_buf ?b) + j < 2 ^ 64" using Cons.prems(2) Suc b1 by simp
      ultimately show thesis using Cons.IH [of ?b j ?m] that
        by (simp del: fun_upd_apply) blast
    qed
    have "m' (sb_buf b + of_nat i) = (c # out) ! i" if "i < min k (length (c # out))" for i
    proof (cases i)
      case 0
      have "sb_buf b \<notin> block_at (sb_buf b + 1) (min j (length out))" by (simp add: block_at_def b1)
      then show ?thesis using 0 m'(3) by simp
    next
      case (Suc l)
      then show ?thesis using m'(2) that \<open>k = Suc j\<close> by (simp add: add.assoc)
    qed
    moreover have "m' x = m x" if "x \<notin> block_at (sb_buf b) (min k (length (c # out)))" for x
    proof -
      have "x \<notin> block_at (sb_buf b + 1) (min j (length out))" "x \<noteq> sb_buf b"
        using that Suc by (auto simp: block_at_def b1)
      then show ?thesis using m'(3) by simp
    qed
    ultimately show ?thesis using step m'(1) Suc by (simp add: algebra_simps)
  qed
qed simp

text \<open>C39. \<open>vsnprintf\<close> writes only inside the buffer it was given: the first \<open>size - 1\<close> characters of
  the formatted text, then a NUL; it returns the length the whole text would have.\<close>

theorem vsnprintf_bounded:
  assumes "vprintfmt m fmt ap = ret out" and "str \<noteq> 0" and "0 < sz" and "unat str + unat sz < 2 ^ 64"
  defines "k \<equiv> min (unat sz - 1) (length out)"
  shows "\<exists>m'. vsnprintf str sz fmt ap m = ret (of_nat (length out), m') \<and>
    (\<forall>i<k. m' (str + of_nat i) = out ! i) \<and> m' (str + of_nat k) = 0 \<and>
    (\<forall>x. x \<notin> block_at str (unat sz) \<longrightarrow> m' x = m x)"
proof -
  let ?b = "\<lparr>sb_buf = str, sb_ebuf = str + sz - 1, sb_cnt = 0\<rparr>"
  have pos: "0 < unat sz" using assms(3) by (simp add: unat_gt_0_u64)
  have "unat (sz - 1) = unat sz - 1" using pos by (simp add: unat_sub word_le_nat_alt)
  then have sz: "sz - 1 = of_nat (unat sz - 1)" by (metis of_nat_unat ucast_id)
  have eb: "sb_ebuf ?b = sb_buf ?b + of_nat (unat sz - 1)" 
    by (simp only: sprintbuf.simps sz [symmetric] add_diff_eq)
  have room: "unat (sb_buf ?b) + (unat sz - 1) < 2 ^ 64" using assms(4) by simp
  obtain m' where m': "fold sprintputch out (?b, m) =
      (?b\<lparr>sb_buf := str + of_nat k, sb_cnt := of_nat (length out)\<rparr>, m')"
      "\<forall>i<k. m' (str + of_nat i) = out ! i" "\<forall>x. x \<notin> block_at str k \<longrightarrow> m' x = m x"
    using sprintputch_fold [OF eb room, of out m] by (auto simp: k_def)
  have kb: "k < unat sz" using pos by (simp add: k_def)
  have at: "unat (str + of_nat i) = unat str + i" if "i \<le> k" for i
    using that kb assms(4) by (simp add: unat_add_u64 unat_of_nat_u64)
  have "unat (sb_ebuf ?b) = unat str + (unat sz - 1)"
    unfolding eb using room by (simp add: unat_add_u64 unat_of_nat_u64)
  then have "\<not> sb_ebuf ?b < sb_buf ?b" by (simp add: word_less_nat_alt)
  then have "vsnprintf str sz fmt ap m = ret (of_nat (length out), m'(str + of_nat k := 0))"
    using assms(1,2) m'(1) by (simp add: vsnprintf_def)
  moreover have "(m'(str + of_nat k := 0)) (str + of_nat i) = out ! i" if "i < k" for i
    using that m'(2) at [of i] at [of k] by (auto simp: word_unat_eq_iff)
  moreover have "(m'(str + of_nat k := 0)) x = m x" if "x \<notin> block_at str (unat sz)" for x
  proof -
    have "x \<notin> block_at str k" "x \<noteq> str + of_nat k" using that kb at [of k] by (auto simp: block_at_def)
    then show ?thesis using m'(3) by simp
  qed
  ultimately show ?thesis by (intro exI [of _ "m'(str + of_nat k := 0)"]) simp
qed

text \<open>The format \<open>"n=%d"\<close> at address 64.\<close>

definition fmt_mem :: mem where
  "fmt_mem = (\<lambda>_. 0)(64 := 110, 65 := 61, 66 := 37, 67 := 100)"

lemma fmt_mem_run: "vprintfmt fmt_mem 64 [42] = ret [110, 61, 52, 50]"
  by (simp add: vprintfmt_def fmt_mem_def vprintfmt_loop.simps vprintfmt_step_def spec_step_def Let_def
      number_arg_def getint_def va_arg_def printnum.simps do_div_def digit_char_table cong: eval_congs)

lemma vsnprintf_bounded_witness:
  "\<exists>m'. vsnprintf 128 4 64 [42] fmt_mem = ret (4, m') \<and> m' 128 = 110 \<and> m' 130 = 52 \<and> m' 131 = 0"
  using vsnprintf_bounded [OF fmt_mem_run, of 128 4] by fastforce

lemma replicate_three: "replicate 3 x = [x, x, x]"
  by (simp add: numeral_eq_Suc)

text \<open>The flag \<open>'-'\<close> does not pad a number on the right, as its comment says: \<open>"%-5d"\<close> of 42
  prints three minus signs in front of the digits.\<close>

theorem minus_flag_pads_left:
  "vprintfmt ((\<lambda>_. 0)(64 := 37, 65 := 45, 66 := 53, 67 := 100)) 64 [42] =
   ret (lit ''---42'')"
  by (simp add: vprintfmt_def vprintfmt_loop.simps vprintfmt_step_def spec_step_def Let_def lit_def
      number_arg_def getint_def va_arg_def printnum.simps scan_width.simps process_precision_def do_div_def
      digit_char_table replicate_three cong: eval_congs)

end
