(* ===== verification/Vmm.thy ===== *)
theory Vmm
  imports Kmalloc CList
begin

text \<open>
  kern/mm/vmm.c: memory descriptors and their lists of virtual memory areas. A \<open>struct mm_struct *\<close>
  and a \<open>struct vma_struct *\<close> are addresses from \<open>kmalloc\<close>; 0 is the null pointer. The links of all
  \<open>mmap_list\<close> heads and \<open>list_link\<close> fields form one structure.

  The second half: on a sorted list of disjoint areas \<open>find_vma\<close> finds the area of an address and
  \<open>insert_vma_struct\<close> keeps the list sorted, or panics exactly when the new area is empty or meets
  another one.
\<close>

subsection \<open>State\<close>

record vma_struct =
  vm_mm :: u64
  vm_start :: u64
  vm_end :: u64
  vm_flags :: u32

record mm_struct =
  mmap_cache :: u64
  mm_pgdir :: u64
  map_count :: u32
  sm_priv :: u64

type_synonym vnode = "(u64, u64) lnode"

abbreviation le2vma :: "vnode \<Rightarrow> u64" where "le2vma \<equiv> le2struct"

record vma_state = heap_state +
  vmas :: "u64 \<Rightarrow> vma_struct"
  mms :: "u64 \<Rightarrow> mm_struct"
  mmap_links :: "vnode links"

definition sizeof_mm_struct :: u64 where "sizeof_mm_struct = 48"
definition sizeof_vma_struct :: u64 where "sizeof_vma_struct = 48"

subsection \<open>The operations of vmm.c\<close>

definition mm_create :: "'z vma_state_scheme \<Rightarrow> (u64 \<times> 'z vma_state_scheme) run" where
  "mm_create s =
     run_bind (kmalloc sizeof_mm_struct s) (\<lambda>(mm, s).
     ret (mm,
       if mm \<noteq> 0
       then s\<lparr>mmap_links := list_init (LHead mm) (mmap_links s),
              mms := (mms s)(mm := \<lparr>mmap_cache = 0, mm_pgdir = 0, map_count = 0, sm_priv = 0\<rparr>)\<rparr>
       else s))"

definition vma_create :: "u64 \<Rightarrow> u64 \<Rightarrow> u32 \<Rightarrow> 'z vma_state_scheme \<Rightarrow> (u64 \<times> 'z vma_state_scheme) run" where
  "vma_create start fin flags s =
     run_bind (kmalloc sizeof_vma_struct s) (\<lambda>(vma, s).
     ret (vma,
       if vma \<noteq> 0
       then s\<lparr>vmas := (vmas s)(vma := (vmas s vma)\<lparr>vm_start := start, vm_end := fin, vm_flags := flags\<rparr>)\<rparr>
       else s))"

definition vma_has :: "vma_struct \<Rightarrow> u64 \<Rightarrow> bool" where
  "vma_has v addr \<longleftrightarrow> vm_start v \<le> addr \<and> addr < vm_end v"

text \<open>The list search; 0 when no area has the address.\<close>

partial_function (option) find_vma_loop :: "vnode links \<Rightarrow> (u64 \<Rightarrow> vma_struct) \<Rightarrow> u64 \<Rightarrow> u64 \<Rightarrow> vnode \<Rightarrow> u64 option" where
  "find_vma_loop h vm mm addr le =
     (let le' = list_next h le in
      if le' = LHead mm then Some 0
      else if vma_has (vm (le2vma le')) addr then Some (le2vma le')
      else find_vma_loop h vm mm addr le')"

declare find_vma_loop.simps [code]

definition find_vma :: "u64 \<Rightarrow> u64 \<Rightarrow> 'z vma_state_scheme \<Rightarrow> (u64 \<times> 'z vma_state_scheme) run" where
  "find_vma mm addr s =
     (if mm = 0 then ret (0, s)
      else
        let c = mmap_cache (mms s mm) in
        run_bind (if c \<noteq> 0 \<and> vma_has (vmas s c) addr then ret c
                  else loop_run (find_vma_loop (mmap_links s) (vmas s) mm addr (LHead mm))) (\<lambda>vma.
        ret (vma, if vma \<noteq> 0 then s\<lparr>mms := (mms s)(mm := (mms s mm)\<lparr>mmap_cache := vma\<rparr>)\<rparr> else s)))"

definition check_vma_overlap :: "vma_struct \<Rightarrow> vma_struct \<Rightarrow> 'b run \<Rightarrow> 'b run" where
  "check_vma_overlap prv nxt rest =
     c_assert (vm_start prv < vm_end prv) ''prev->vm_start < prev->vm_end'' (
     c_assert (vm_end prv \<le> vm_start nxt) ''prev->vm_end <= next->vm_start'' (
     c_assert (vm_start nxt < vm_end nxt) ''next->vm_start < next->vm_end'' rest))"

text \<open>The loop that finds the last area starting at or before \<open>start\<close>.\<close>

partial_function (option) insert_vma_loop ::
  "vnode links \<Rightarrow> (u64 \<Rightarrow> vma_struct) \<Rightarrow> u64 \<Rightarrow> u64 \<Rightarrow> vnode \<Rightarrow> vnode option" where
  "insert_vma_loop h vm mm start prv =
     (let le = list_next h prv in
      if le = LHead mm then Some prv
      else if start < vm_start (vm (le2vma le)) then Some prv
      else insert_vma_loop h vm mm start le)"

declare insert_vma_loop.simps [code]

definition insert_vma_struct :: "u64 \<Rightarrow> u64 \<Rightarrow> 'z vma_state_scheme \<Rightarrow> 'z vma_state_scheme run" where
  "insert_vma_struct mm vma s =
     c_assert (vm_start (vmas s vma) < vm_end (vmas s vma)) ''vma->vm_start < vma->vm_end'' (
     run_bind (loop_run (insert_vma_loop (mmap_links s) (vmas s) mm (vm_start (vmas s vma)) (LHead mm))) (\<lambda>le_prev.
     let le_next = list_next (mmap_links s) le_prev;
         done = ret (s\<lparr>vmas := (vmas s)(vma := (vmas s vma)\<lparr>vm_mm := mm\<rparr>),
                       mmap_links := list_add_after le_prev (Link vma) (mmap_links s),
                       mms := (mms s)(mm := (mms s mm)\<lparr>map_count := map_count (mms s mm) + 1\<rparr>)\<rparr>);
         check_next = (if le_next \<noteq> LHead mm
                       then check_vma_overlap (vmas s vma) (vmas s (le2vma le_next)) done else done)
     in if le_prev \<noteq> LHead mm
        then check_vma_overlap (vmas s (le2vma le_prev)) (vmas s vma) check_next
        else check_next))"

text \<open>The loop of \<open>mm_destroy\<close> unlinks and frees the first area until the list is empty.\<close>

partial_function (option) mm_destroy_loop :: "u64 \<Rightarrow> 'z vma_state_scheme \<Rightarrow> 'z vma_state_scheme run" where
  "mm_destroy_loop mm s =
     (let le = list_next (mmap_links s) (LHead mm) in
      if le = LHead mm then ret s
      else run_bind (kfree (le2vma le) (s\<lparr>mmap_links := list_del le (mmap_links s)\<rparr>)) (\<lambda>s.
           mm_destroy_loop mm s))"

declare mm_destroy_loop.simps [code]

definition mm_destroy :: "u64 \<Rightarrow> 'z vma_state_scheme \<Rightarrow> 'z vma_state_scheme run" where
  "mm_destroy mm s = run_bind (mm_destroy_loop mm s) (\<lambda>s. kfree mm s)"

subsection \<open>Well-formed areas\<close>

definition vmas_ok :: "(u64 \<Rightarrow> vma_struct) \<Rightarrow> u64 list \<Rightarrow> bool" where
  "vmas_ok vm vs \<longleftrightarrow> (\<forall>v\<in>set vs. v \<noteq> 0 \<and> vm_start (vm v) < vm_end (vm v)) \<and>
     sorted_wrt (\<lambda>v w. vm_end (vm v) \<le> vm_start (vm w)) vs"

definition mm_rel :: "'z vma_state_scheme \<Rightarrow> u64 \<Rightarrow> u64 list \<Rightarrow> bool" where
  "mm_rel s mm vs \<longleftrightarrow> mm \<noteq> 0 \<and> cdll (mmap_links s) (LHead mm) (map Link vs) \<and> vmas_ok (vmas s) vs \<and>
     (mmap_cache (mms s mm) = 0 \<or> mmap_cache (mms s mm) \<in> set vs)"

definition vma_disjoint :: "vma_struct \<Rightarrow> vma_struct \<Rightarrow> bool" where
  "vma_disjoint v w \<longleftrightarrow> vm_end v \<le> vm_start w \<or> vm_end w \<le> vm_start v"

text \<open>Distinct areas share no address.\<close>

lemma vmas_ok_unique:
  assumes "vmas_ok vm vs" and "v \<in> set vs" "w \<in> set vs" and "vma_has (vm v) addr" "vma_has (vm w) addr"
  shows "v = w"
proof (rule ccontr)
  assume "v \<noteq> w"
  obtain xs ys where xs: "vs = xs @ v # ys" using assms(2) by (meson split_list)
  then have "w \<in> set xs \<or> w \<in> set ys" using assms(3) \<open>v \<noteq> w\<close> by auto
  then have "vm_end (vm w) \<le> vm_start (vm v) \<or> vm_end (vm v) \<le> vm_start (vm w)"
    using assms(1) xs by (auto simp: vmas_ok_def sorted_wrt_append)
  then show False using assms(4,5) by (auto simp: vma_has_def)
qed

lemma find_vma_loop_spec:
  assumes "npath h le (map Link vs) (LHead mm)"
  shows "find_vma_loop h vm mm addr le =
    Some (case filter (\<lambda>v. vma_has (vm v) addr) vs of [] \<Rightarrow> 0 | v # _ \<Rightarrow> v)"
  using assms
proof (induction vs arbitrary: le)
  case (Cons v vs)
  then show ?case by (subst find_vma_loop.simps) simp
qed (simp add: find_vma_loop.simps)

lemma find_vma_spec:
  assumes "mm_rel s mm vs"
  shows "\<exists>v s'. find_vma mm addr s = ret (v, s') \<and> mm_rel s' mm vs \<and> vmas s' = vmas s \<and>
    (if v = 0 then \<forall>w\<in>set vs. \<not> vma_has (vmas s w) addr else v \<in> set vs \<and> vma_has (vmas s v) addr)"
proof -
  let ?c = "mmap_cache (mms s mm)"
  let ?f = "filter (\<lambda>v. vma_has (vmas s v) addr) vs"
  have ok: "mm \<noteq> 0" "vmas_ok (vmas s) vs" "npath (mmap_links s) (LHead mm) (map Link vs) (LHead mm)"
    using assms cdll_npath by (auto simp: mm_rel_def)
  show ?thesis
  proof (cases "?c \<noteq> 0 \<and> vma_has (vmas s ?c) addr")
    case True
    then have "find_vma mm addr s = ret (?c, s\<lparr>mms := (mms s)(mm := (mms s mm)\<lparr>mmap_cache := ?c\<rparr>)\<rparr>)"
      using ok(1) by (simp add: find_vma_def)
    then show ?thesis using True assms by (auto simp: mm_rel_def)
  next
    case False
    define v where "v = (case ?f of [] \<Rightarrow> 0 | v # _ \<Rightarrow> v)"
    have run: "find_vma mm addr s =
        ret (v, if v \<noteq> 0 then s\<lparr>mms := (mms s)(mm := (mms s mm)\<lparr>mmap_cache := v\<rparr>)\<rparr> else s)"
    proof -
      have "find_vma_loop (mmap_links s) (vmas s) mm addr (LHead mm) = Some v"
        by (simp add: find_vma_loop_spec [OF ok(3)] v_def)
      then show ?thesis using ok(1) unfolding find_vma_def Let_def if_not_P [OF False] by simp
    qed
    have "if v = 0 then \<forall>w\<in>set vs. \<not> vma_has (vmas s w) addr else v \<in> set vs \<and> vma_has (vmas s v) addr"
    proof (cases ?f)
      case Nil
      then show ?thesis by (simp add: v_def filter_empty_conv)
    next
      case (Cons w ws)
      have "set ?f = {v \<in> set vs. vma_has (vmas s v) addr}" by simp
      then have "w \<in> set vs" "vma_has (vmas s w) addr" unfolding Cons by auto
      then show ?thesis using Cons ok(2) by (auto simp: v_def vmas_ok_def)
    qed
    then show ?thesis using run assms by (auto simp: mm_rel_def)
  qed
qed

text \<open>The insertion point: after the areas that start at or before the new one.\<close>

lemma insert_vma_loop_spec:
  assumes "npath h prv (map Link vs) (LHead mm)"
  shows "insert_vma_loop h vm mm start prv =
    Some (last (prv # map Link (takeWhile (\<lambda>v. vm_start (vm v) \<le> start) vs)))"
  using assms
proof (induction vs arbitrary: prv)
  case (Cons v vs)
  then show ?case by (subst insert_vma_loop.simps) (auto simp: not_le)
qed (simp add: insert_vma_loop.simps)

text \<open>Every area behind the insertion point starts above it.\<close>

lemma vmas_right:
  "vmas_ok vm vs \<Longrightarrow> w \<in> set (dropWhile (\<lambda>v. vm_start (vm v) \<le> a) vs) \<Longrightarrow> a < vm_start (vm w)"
proof (induction vs)
  case (Cons v vs)
  have ok: "vmas_ok vm vs" using Cons.prems(1) by (simp add: vmas_ok_def)
  show ?case
  proof (cases "vm_start (vm v) \<le> a")
    case True
    then show ?thesis using Cons ok by simp
  next
    case False
    then have "w = v \<or> w \<in> set vs" using Cons.prems(2) by simp
    moreover have "vm_start (vm v) < vm_end (vm v)" "\<forall>u\<in>set vs. vm_end (vm v) \<le> vm_start (vm u)"
      using Cons.prems(1) by (simp_all add: vmas_ok_def)
    ultimately show ?thesis using False by fastforce
  qed
qed simp

text \<open>The areas around the insertion point \<open>a\<close>.\<close>

definition vma_split :: "(u64 \<Rightarrow> vma_struct) \<Rightarrow> u64 \<Rightarrow> u64 list \<Rightarrow> u64 list \<Rightarrow> bool" where
  "vma_split vm a ls rs \<longleftrightarrow> (\<forall>v\<in>set ls. vm_start (vm v) \<le> a) \<and> (\<forall>v\<in>set rs. a < vm_start (vm v))"

lemma vma_split_here:
  assumes "vmas_ok vm vs"
  obtains ls rs where "vs = ls @ rs" "vma_split vm a ls rs" "ls = takeWhile (\<lambda>v. vm_start (vm v) \<le> a) vs"
proof
  show "vs = takeWhile (\<lambda>v. vm_start (vm v) \<le> a) vs @ dropWhile (\<lambda>v. vm_start (vm v) \<le> a) vs" by simp
  show "vma_split vm a (takeWhile (\<lambda>v. vm_start (vm v) \<le> a) vs) (dropWhile (\<lambda>v. vm_start (vm v) \<le> a) vs)"
    using vmas_right [OF assms] by (auto simp: vma_split_def dest: set_takeWhileD)
qed simp

text \<open>The neighbours decide whether the new area meets any other.\<close>

lemma vma_neighbours:
  assumes ok: "vmas_ok vm (ls @ rs)" and n: "vm_start n < vm_end n" and sp: "vma_split vm (vm_start n) ls rs"
  shows "(\<forall>v\<in>set (ls @ rs). vma_disjoint (vm v) n) \<longleftrightarrow>
    (ls = [] \<or> vm_end (vm (last ls)) \<le> vm_start n) \<and> (rs = [] \<or> vm_end n \<le> vm_start (vm (hd rs)))"
proof -
  have l: "vma_disjoint (vm v) n \<longleftrightarrow> vm_end (vm v) \<le> vm_start n" if "v \<in> set ls" for v
    using that sp n by (auto simp: vma_disjoint_def vma_split_def)
  have r: "vma_disjoint (vm v) n \<longleftrightarrow> vm_end n \<le> vm_start (vm v)" if "v \<in> set rs" for v
  proof -
    have "vm_start n < vm_start (vm v)" "vm_start (vm v) < vm_end (vm v)"
      using that sp ok by (auto simp: vmas_ok_def vma_split_def)
    then show ?thesis by (auto simp: vma_disjoint_def)
  qed
  have "(\<forall>v\<in>set ls. vm_end (vm v) \<le> vm_start n) \<longleftrightarrow> ls = [] \<or> vm_end (vm (last ls)) \<le> vm_start n"
  proof (cases ls rule: rev_cases)
    case (snoc xs x)
    have "vm_end (vm v) \<le> vm_end (vm x)" if "v \<in> set xs" for v
      using ok snoc that by (fastforce simp: vmas_ok_def sorted_wrt_append)
    then show ?thesis using snoc by fastforce
  qed simp
  moreover have "(\<forall>v\<in>set rs. vm_end n \<le> vm_start (vm v)) \<longleftrightarrow> rs = [] \<or> vm_end n \<le> vm_start (vm (hd rs))"
  proof (cases rs)
    case (Cons y ys)
    have "vm_start (vm y) \<le> vm_start (vm v)" if "v \<in> set ys" for v
      using ok Cons that by (fastforce simp: vmas_ok_def sorted_wrt_append)
    then show ?thesis using Cons by fastforce
  qed simp
  ultimately show ?thesis using l r by auto
qed

lemma vmas_ok_insert:
  assumes "vmas_ok vm (ls @ rs)" and "v \<noteq> 0" and "vm_start (vm v) < vm_end (vm v)"
    and "\<forall>w\<in>set (ls @ rs). vma_disjoint (vm w) (vm v)" and "vma_split vm (vm_start (vm v)) ls rs"
  shows "vmas_ok vm (ls @ v # rs)"
proof -
  have "vm_end (vm w) \<le> vm_start (vm v)" if "w \<in> set ls" for w
    using that assms(3-5) by (fastforce simp: vma_disjoint_def vma_split_def)
  moreover have "vm_end (vm v) \<le> vm_start (vm w)" if "w \<in> set rs" for w
  proof -
    have "vma_disjoint (vm w) (vm v)" "vm_start (vm w) < vm_end (vm w)" "vm_start (vm v) < vm_start (vm w)"
      using that assms by (auto simp: vmas_ok_def vma_split_def)
    then show ?thesis by (auto simp: vma_disjoint_def)
  qed
  ultimately show ?thesis using assms(1-3) by (auto simp: vmas_ok_def sorted_wrt_append)
qed

text \<open>C34. \<open>find_vma\<close> always returns: the area that contains the address, which is the only one, or
  the null pointer when there is none; the cache and the list stay consistent.\<close>

theorem find_vma_correct:
  assumes "mm_rel s mm vs"
  shows "\<exists>v s'. find_vma mm addr s = ret (v, s') \<and> mm_rel s' mm vs \<and> vmas s' = vmas s \<and>
    (\<forall>w\<in>set vs. vma_has (vmas s w) addr \<longleftrightarrow> w = v) \<and> (v = 0 \<or> v \<in> set vs)"
proof -
  obtain v s' where r: "find_vma mm addr s = ret (v, s')" "mm_rel s' mm vs" "vmas s' = vmas s"
      "if v = 0 then \<forall>w\<in>set vs. \<not> vma_has (vmas s w) addr else v \<in> set vs \<and> vma_has (vmas s v) addr"
    using find_vma_spec [OF assms, of addr] by blast
  have ok: "vmas_ok (vmas s) vs" using assms by (simp add: mm_rel_def)
  have "vma_has (vmas s w) addr \<longleftrightarrow> w = v" if "w \<in> set vs" for w
    using r(4) that ok vmas_ok_unique [OF ok that] by (auto simp: vmas_ok_def split: if_splits)
  then show ?thesis using r by (auto split: if_splits)
qed

text \<open>The state after the area \<open>v\<close> has been entered behind the entry \<open>prv\<close>.\<close>

definition vma_entered :: "u64 \<Rightarrow> vnode \<Rightarrow> u64 \<Rightarrow> 'z vma_state_scheme \<Rightarrow> 'z vma_state_scheme" where
  "vma_entered mm prv v s =
     s\<lparr>vmas := (vmas s)(v := (vmas s v)\<lparr>vm_mm := mm\<rparr>), mmap_links := list_add_after prv (Link v) (mmap_links s),
       mms := (mms s)(mm := (mms s mm)\<lparr>map_count := map_count (mms s mm) + 1\<rparr>)\<rparr>"

lemma mm_rel_entered:
  assumes rel: "mm_rel s mm (ls @ rs)" and v: "v \<noteq> 0" "v \<notin> set (ls @ rs)"
    and n: "vm_start (vmas s v) < vm_end (vmas s v)" and sp: "vma_split (vmas s) (vm_start (vmas s v)) ls rs"
    and dis: "\<forall>w\<in>set (ls @ rs). vma_disjoint (vmas s w) (vmas s v)"
  shows "mm_rel (vma_entered mm (last (LHead mm # map Link ls)) v s) mm (ls @ v # rs)"
proof -
  let ?s = "vma_entered mm (last (LHead mm # map Link ls)) v s"
  have dll: "cdll (mmap_links s) (LHead mm) (map Link ls @ map Link rs)" and ok: "vmas_ok (vmas s) (ls @ rs)"
    using rel by (simp_all add: mm_rel_def)
  have "cdll (list_add (last (LHead mm # map Link ls)) (Link v) (mmap_links s)) (LHead mm)
      (map Link ls @ Link v # map Link rs)"
    using v(2) by (intro cdll_add_after [OF dll]) auto
  then have "cdll (mmap_links ?s) (LHead mm) (map Link (ls @ v # rs))"
    by (simp add: vma_entered_def list_add_def)
  moreover have "vmas_ok (vmas s) (ls @ v # rs)" by (rule vmas_ok_insert [OF ok v(1) n dis sp])
  moreover have "vm_start (vmas ?s w) = vm_start (vmas s w)" "vm_end (vmas ?s w) = vm_end (vmas s w)" for w
    by (simp_all add: vma_entered_def)
  ultimately show ?thesis using rel by (auto simp: mm_rel_def vmas_ok_def vma_entered_def)
qed

text \<open>What \<open>insert_vma_struct\<close> does once its loop has found the place between \<open>ls\<close> and \<open>rs\<close>.\<close>

lemma insert_vma_struct_run:
  assumes rel: "mm_rel s mm (ls @ rs)"
    and ls: "ls = takeWhile (\<lambda>w. vm_start (vmas s w) \<le> vm_start (vmas s v)) (ls @ rs)"
    and n: "vm_start (vmas s v) < vm_end (vmas s v)"
  shows "insert_vma_struct mm v s =
    (if (ls = [] \<or> vm_end (vmas s (last ls)) \<le> vm_start (vmas s v)) \<and>
        (rs = [] \<or> vm_end (vmas s v) \<le> vm_start (vmas s (hd rs)))
     then ret (vma_entered mm (last (LHead mm # map Link ls)) v s)
     else panic (''assertion failed: '' @ ''prev->vm_end <= next->vm_start''))"
proof -
  define prv where "prv = last (LHead mm # map Link ls)"
  have dll: "cdll (mmap_links s) (LHead mm) (map Link ls @ map Link rs)" "vmas_ok (vmas s) (ls @ rs)"
    using rel by (simp_all add: mm_rel_def)
  have loop: "insert_vma_loop (mmap_links s) (vmas s) mm (vm_start (vmas s v)) (LHead mm) = Some prv"
    using insert_vma_loop_spec [OF cdll_npath [of "mmap_links s" "LHead mm" "map Link (ls @ rs)"]] dll(1) ls
    by (simp add: prv_def)
  have nxt: "list_next (mmap_links s) prv = hd (map Link rs @ [LHead mm])"
    unfolding prv_def by (rule cdll_next_last [OF dll(1)])
  have prv: "prv = LHead mm \<longleftrightarrow> ls = []" "ls \<noteq> [] \<Longrightarrow> le2vma prv = last ls"
    by (auto simp: prv_def last_map)
  have nxt': "hd (map Link rs @ [LHead mm]) = LHead mm \<longleftrightarrow> rs = []"
    "rs \<noteq> [] \<Longrightarrow> le2vma (hd (map Link rs @ [LHead mm])) = hd rs"
    by (cases rs; simp)+
  have "ls \<noteq> [] \<Longrightarrow> vm_start (vmas s (last ls)) < vm_end (vmas s (last ls))"
    "rs \<noteq> [] \<Longrightarrow> vm_start (vmas s (hd rs)) < vm_end (vmas s (hd rs))"
    using dll(2) by (simp_all add: vmas_ok_def)
  moreover have "insert_vma_struct mm v s =
      (let done = ret (vma_entered mm prv v s);
           check_next = (if rs \<noteq> [] then check_vma_overlap (vmas s v) (vmas s (hd rs)) done else done)
       in if ls \<noteq> [] then check_vma_overlap (vmas s (last ls)) (vmas s v) check_next else check_next)"
    using n loop nxt prv nxt' by (simp add: insert_vma_struct_def Let_def vma_entered_def)
  ultimately show ?thesis using n
    by (cases "ls = []"; cases "rs = []"; simp add: check_vma_overlap_def c_assert_def Let_def prv_def)
qed

lemma insert_vma_struct_spec:
  assumes rel: "mm_rel s mm vs" and v: "v \<noteq> 0" "v \<notin> set vs"
  shows "if vm_start (vmas s v) < vm_end (vmas s v) \<and> (\<forall>w\<in>set vs. vma_disjoint (vmas s w) (vmas s v))
    then \<exists>s' ls rs l m. insert_vma_struct mm v s = ret s' \<and> vs = ls @ rs \<and> mm_rel s' mm (ls @ v # rs) \<and>
      map_count (mms s' mm) = map_count (mms s mm) + 1 \<and>
      s' = s\<lparr>vmas := (vmas s)(v := (vmas s v)\<lparr>vm_mm := mm\<rparr>), mmap_links := l, mms := m\<rparr>
    else \<exists>msg. insert_vma_struct mm v s = panic msg"
proof (cases "vm_start (vmas s v) < vm_end (vmas s v)")
  case False
  then show ?thesis by (simp add: insert_vma_struct_def c_assert_def)
next
  case n: True
  have ok: "vmas_ok (vmas s) vs" using rel by (simp add: mm_rel_def)
  obtain ls rs where vs: "vs = ls @ rs" and sp: "vma_split (vmas s) (vm_start (vmas s v)) ls rs"
      and ls: "ls = takeWhile (\<lambda>w. vm_start (vmas s w) \<le> vm_start (vmas s v)) vs"
    using vma_split_here [OF ok] .
  let ?dis = "\<forall>w\<in>set (ls @ rs). vma_disjoint (vmas s w) (vmas s v)"
    and ?s' = "vma_entered mm (last (LHead mm # map Link ls)) v s"
  note run = insert_vma_struct_run [OF rel [unfolded vs] ls [unfolded vs] n,
      folded vma_neighbours [OF ok [unfolded vs] n sp]]
  show ?thesis
  proof (cases ?dis)
    case True
    have "insert_vma_struct mm v s = ret ?s'" unfolding run if_P [OF True] ..
    moreover have "mm_rel ?s' mm (ls @ v # rs)"
      using mm_rel_entered [OF rel [unfolded vs] v(1) v(2) [unfolded vs] n sp True] .
    ultimately show ?thesis
      unfolding vs if_P [OF conjI [OF n True]] by (auto simp: vma_entered_def intro!: exI)
  next
    case False
    then have "\<exists>msg. insert_vma_struct mm v s = panic msg" unfolding run if_not_P [OF False] by blast
    then show ?thesis using False vs by auto
  qed
qed

text \<open>C33. \<open>insert_vma_struct\<close> panics exactly when the new area is empty or overlaps an existing one;
  otherwise the list stays sorted and disjoint and has the new area at its place.\<close>

theorem insert_vma_struct_correct:
  assumes rel: "mm_rel s mm vs" and v: "v \<noteq> 0" "v \<notin> set vs"
  shows "if vm_start (vmas s v) < vm_end (vmas s v) \<and> (\<forall>w\<in>set vs. vma_disjoint (vmas s w) (vmas s v))
    then \<exists>s' ls rs. insert_vma_struct mm v s = ret s' \<and> vs = ls @ rs \<and> mm_rel s' mm (ls @ v # rs) \<and>
      map_count (mms s' mm) = map_count (mms s mm) + 1
    else \<exists>msg. insert_vma_struct mm v s = panic msg"
proof -
  note spec = insert_vma_struct_spec [OF assms]
  show ?thesis
  proof (cases "vm_start (vmas s v) < vm_end (vmas s v) \<and> (\<forall>w\<in>set vs. vma_disjoint (vmas s w) (vmas s v))")
    case True
    then show ?thesis using spec unfolding if_P [OF True] by blast
  next
    case False
    then show ?thesis using spec unfolding if_not_P [OF False] by blast
  qed
qed

subsection \<open>A concrete descriptor\<close>

text \<open>The descriptor 64 with the area [16, 32) at 128; a second area [48, 64) at 256 is ready.\<close>

definition two_vmas :: vma_state where
  "two_vmas = \<lparr>sstatus = 0, sie = 0, satp = 0, stvec = 0, sscratch = 0, bytes = (\<lambda>_. 0), console = [],
     pages = (\<lambda>_. cold_page), npage = 0, va_pa_offset = 0,
     free_list = \<lparr>le_prev = (\<lambda>_. FreeHead), le_next = (\<lambda>_. FreeHead)\<rparr>, nr_free = 0,
     ptes = (\<lambda>_. 0), tlb = (\<lambda>_. None), boot_pgdir_va = 0, boot_pgdir_pa = 0,
     heap32 = (\<lambda>_. 0), heap64 = (\<lambda>_. 0), arena = 0, slobfree = 0, bigblocks = 0,
     vmas = (\<lambda>v. if v = 128 then \<lparr>vm_mm = 64, vm_start = 16, vm_end = 32, vm_flags = 0\<rparr>
                else \<lparr>vm_mm = 0, vm_start = 48, vm_end = 64, vm_flags = 0\<rparr>),
     mms = (\<lambda>_. \<lparr>mmap_cache = 0, mm_pgdir = 0, map_count = 1, sm_priv = 0\<rparr>),
     mmap_links = \<lparr>le_prev = (\<lambda>_. LHead 64)(LHead 64 := Link 128),
                   le_next = (\<lambda>_. LHead 64)(LHead 64 := Link 128)\<rparr>\<rparr>"

lemma two_vmas_rel: "mm_rel two_vmas 64 [128]"
  by (simp add: mm_rel_def cdll_def vmas_ok_def list_next_def list_prev_def two_vmas_def)

lemma find_vma_correct_witness:
  "\<exists>s'. find_vma 64 20 two_vmas = ret (128, s') \<and> mm_rel s' 64 [128]"
proof -
  have "vma_has (vmas two_vmas 128) 20" by (simp add: vma_has_def two_vmas_def)
  then show ?thesis using find_vma_correct [OF two_vmas_rel, of 20] by auto
qed

lemma insert_vma_struct_correct_witness:
  "\<exists>s' ls rs. insert_vma_struct 64 256 two_vmas = ret s' \<and> [128] = ls @ rs \<and> mm_rel s' 64 (ls @ 256 # rs)"
proof -
  have "vm_start (vmas two_vmas 256) < vm_end (vmas two_vmas 256)"
    "vma_disjoint (vmas two_vmas 128) (vmas two_vmas 256)"
    by (simp_all add: two_vmas_def vma_disjoint_def)
  then show ?thesis using insert_vma_struct_correct [OF two_vmas_rel, of 256] by auto
qed

end
