(* ===== verification/Proc.thy ===== *)
theory Proc
  imports Vmm CString
begin

unbundle bit_operations_syntax

text \<open>
  kern/process/proc.c, kern/schedule/sched.c and libs/hash.c: kernel threads. A \<open>proc_struct *\<close> is the
  address \<open>kmalloc\<close> returned. The \<open>list_link\<close> fields and \<open>proc_list\<close> form one link structure, the
  \<open>hash_link\<close> fields and the buckets of \<open>hash_list\<close> another. \<open>cpu\<close> holds the callee-saved registers
  that \<open>switch_to\<close> exchanges; trap frames are objects at their address.

  A call of \<open>proc_run\<close> that switches does not come back in the same thread: its model ends at the
  switch and returns the interrupt flag the thread keeps on its stack, and \<open>proc_run_resume\<close> is the
  rest, executed when the thread is switched to again. The same holds for \<open>schedule\<close>.
\<close>

subsection \<open>State\<close>

datatype proc_state = PROC_UNINIT | PROC_SLEEPING | PROC_RUNNABLE | PROC_ZOMBIE

record proc_context =
  c_ra :: u64
  c_sp :: u64
  c_s0 :: u64
  c_s1 :: u64
  c_s2 :: u64
  c_s3 :: u64
  c_s4 :: u64
  c_s5 :: u64
  c_s6 :: u64
  c_s7 :: u64
  c_s8 :: u64
  c_s9 :: u64
  c_s10 :: u64
  c_s11 :: u64

definition zero_context :: proc_context where
  "zero_context = \<lparr>c_ra = 0, c_sp = 0, c_s0 = 0, c_s1 = 0, c_s2 = 0, c_s3 = 0, c_s4 = 0, c_s5 = 0,
     c_s6 = 0, c_s7 = 0, c_s8 = 0, c_s9 = 0, c_s10 = 0, c_s11 = 0\<rparr>"

text \<open>The registers of \<open>struct pushregs\<close>, in the order of its fields.\<close>

datatype greg = G_zero | G_ra | G_sp | G_gp | G_tp | G_t0 | G_t1 | G_t2 | G_s0 | G_s1 | G_a0 | G_a1
  | G_a2 | G_a3 | G_a4 | G_a5 | G_a6 | G_a7 | G_s2 | G_s3 | G_s4 | G_s5 | G_s6 | G_s7 | G_s8 | G_s9
  | G_s10 | G_s11 | G_t3 | G_t4 | G_t5 | G_t6

record trapframe =
  gpr :: "greg \<Rightarrow> u64"
  tf_status :: u64
  tf_epc :: u64
  tf_badvaddr :: u64
  tf_cause :: u64

record proc_struct =
  state :: proc_state
  pid :: int
  runs :: u32
  kstack :: u64
  need_resched :: bool
  parent :: u64
  proc_mm :: u64
  ctx :: proc_context
  proc_tf :: u64
  pgdir :: u64
  proc_flags :: u32
  name :: "u8 list"

type_synonym plink = "(unit, u64) lnode"
type_synonym hlink = "(u32, u64) lnode"

abbreviation le2proc :: "('h, u64) lnode \<Rightarrow> u64" where "le2proc \<equiv> le2struct"
abbreviation ProcHead :: plink where "ProcHead \<equiv> LHead ()"

record kernel_state = vma_state +
  procs :: "u64 \<Rightarrow> proc_struct"
  tfs :: "u64 \<Rightarrow> trapframe"
  proc_list :: "plink links"
  hash_list :: "hlink links"
  idleproc :: u64
  initproc :: u64
  current :: u64
  nr_process :: u32
  next_safe :: int
  last_pid :: int
  name_buf :: "u8 list"
  cpu :: proc_context

definition PROC_NAME_LEN :: nat where "PROC_NAME_LEN = 15"
definition MAX_PROCESS :: int where "MAX_PROCESS = 4096"
definition MAX_PID :: int where "MAX_PID = MAX_PROCESS * 2"
definition HASH_SHIFT :: nat where "HASH_SHIFT = 10"
definition HASH_LIST_SIZE :: nat where "HASH_LIST_SIZE = 2 ^ HASH_SHIFT"
definition sizeof_proc_struct :: u64 where "sizeof_proc_struct = 232"
definition sizeof_trapframe :: u64 where "sizeof_trapframe = 288"
definition CLONE_VM :: u32 where "CLONE_VM = 0x100"

definition hash32 :: "u32 \<Rightarrow> nat \<Rightarrow> u32" where
  "hash32 val bits = drop_bit (32 - bits) (val * 0x9e370001)"

definition pid_hashfn :: "int \<Rightarrow> u32" where
  "pid_hashfn x = hash32 (of_int x) HASH_SHIFT"

definition upd_proc :: "u64 \<Rightarrow> (proc_struct \<Rightarrow> proc_struct) \<Rightarrow> 'z kernel_state_scheme \<Rightarrow> 'z kernel_state_scheme" where
  "upd_proc p f s = s\<lparr>procs := (procs s)(p := f (procs s p))\<rparr>"

subsection \<open>Process descriptors\<close>

definition alloc_proc :: "'z kernel_state_scheme \<Rightarrow> (u64 \<times> 'z kernel_state_scheme) run" where
  "alloc_proc s =
     run_bind (kmalloc sizeof_proc_struct s) (\<lambda>(proc, s).
     ret (proc,
       if proc \<noteq> 0
       then s\<lparr>procs := (procs s)(proc :=
                \<lparr>state = PROC_UNINIT, pid = -1, runs = 0, kstack = 0, need_resched = False, parent = 0,
                 proc_mm = 0, ctx = zero_context, proc_tf = 0, pgdir = boot_pgdir_pa s,
                 proc_flags = 0, name = replicate (PROC_NAME_LEN + 1) 0\<rparr>),
              proc_list := list_init (Link proc) (proc_list s),
              hash_list := list_init (Link proc) (hash_list s)\<rparr>
       else s))"

text \<open>The name is copied from the byte memory; 15 bytes are read whatever the length of the string.\<close>

definition read_bytes :: "mem \<Rightarrow> u64 \<Rightarrow> nat \<Rightarrow> u8 list" where
  "read_bytes m a n = map (\<lambda>i. m (a + of_nat i)) [0..<n]"

definition set_proc_name :: "u64 \<Rightarrow> u64 \<Rightarrow> 'z kernel_state_scheme \<Rightarrow> 'z kernel_state_scheme" where
  "set_proc_name proc nm s =
     upd_proc proc (\<lambda>p. p\<lparr>name := read_bytes (bytes s) nm PROC_NAME_LEN @ [0]\<rparr>) s"

definition get_proc_name :: "u64 \<Rightarrow> 'z kernel_state_scheme \<Rightarrow> 'z kernel_state_scheme" where
  "get_proc_name proc s = s\<lparr>name_buf := take PROC_NAME_LEN (name (procs s proc)) @ [0]\<rparr>"

subsection \<open>Process identifiers\<close>

text \<open>The scan of the process list inside \<open>get_pid\<close>, from \<open>le\<close> on, with the jump to \<open>repeat\<close>.\<close>

partial_function (option) pid_scan ::
  "plink links \<Rightarrow> (u64 \<Rightarrow> int) \<Rightarrow> plink \<Rightarrow> int \<Rightarrow> int \<Rightarrow> (int \<times> int) option" where
  "pid_scan h f le lp safe =
     (let le' = list_next h le in
      if le' = ProcHead then Some (lp, safe)
      else if f (le2proc le') = lp then
        (if safe \<le> lp + 1
         then pid_scan h f ProcHead (if MAX_PID \<le> lp + 1 then 1 else lp + 1) MAX_PID
         else pid_scan h f le' (lp + 1) safe)
      else if lp < f (le2proc le') \<and> f (le2proc le') < safe then pid_scan h f le' lp (f (le2proc le'))
      else pid_scan h f le' lp safe)"

declare pid_scan.simps [code]

definition get_pid :: "'z kernel_state_scheme \<Rightarrow> (int \<times> 'z kernel_state_scheme) option" where
  "get_pid s =
     (let lp = last_pid s + 1;
          scan = (\<lambda>lp. map_option (\<lambda>(lp, safe). (lp, s\<lparr>last_pid := lp, next_safe := safe\<rparr>))
                   (pid_scan (proc_list s) (\<lambda>p. pid (procs s p)) ProcHead lp MAX_PID))
      in if MAX_PID \<le> lp then scan 1
         else if next_safe s \<le> lp then scan lp
         else Some (lp, s\<lparr>last_pid := lp\<rparr>))"

definition hash_proc :: "u64 \<Rightarrow> 'z kernel_state_scheme \<Rightarrow> 'z kernel_state_scheme" where
  "hash_proc proc s =
     s\<lparr>hash_list := list_add (LHead (pid_hashfn (pid (procs s proc)))) (Link proc) (hash_list s)\<rparr>"

partial_function (option) find_proc_loop ::
  "hlink links \<Rightarrow> (u64 \<Rightarrow> int) \<Rightarrow> u32 \<Rightarrow> int \<Rightarrow> hlink \<Rightarrow> u64 option" where
  "find_proc_loop h f bucket pd le =
     (let le' = list_next h le in
      if le' = LHead bucket then Some 0
      else if f (le2proc le') = pd then Some (le2proc le')
      else find_proc_loop h f bucket pd le')"

declare find_proc_loop.simps [code]

text \<open>The null pointer is 0.\<close>

definition find_proc :: "int \<Rightarrow> 'z kernel_state_scheme \<Rightarrow> u64 option" where
  "find_proc pd s =
     (if 0 < pd \<and> pd < MAX_PID
      then find_proc_loop (hash_list s) (\<lambda>p. pid (procs s p)) (pid_hashfn pd) pd (LHead (pid_hashfn pd))
      else Some 0)"

subsection \<open>Switching\<close>

definition SATP32_MODE :: u32 where "SATP32_MODE = 0x80000000"

text \<open>The parameter is an \<open>unsigned int\<close>; the operand of \<open>csrw\<close> is the 32-bit value as RV64 registers
  hold it, sign-extended.\<close>

definition lsatp :: "u32 \<Rightarrow> 'z machine_scheme \<Rightarrow> 'z machine_scheme" where
  "lsatp pgd s = s\<lparr>satp := scast (SATP32_MODE OR drop_bit 12 pgd)\<rparr>"

definition switch_to :: "u64 \<Rightarrow> u64 \<Rightarrow> 'z kernel_state_scheme \<Rightarrow> 'z kernel_state_scheme" where
  "switch_to from to s =
     (let s = upd_proc from (\<lambda>p. p\<lparr>ctx := cpu s\<rparr>) s
      in s\<lparr>cpu := ctx (procs s to)\<rparr>)"

text \<open>\<open>None\<close>: no switch took place. \<open>Some flag\<close>: the caller is suspended in \<open>switch_to\<close>.\<close>

definition proc_run :: "u64 \<Rightarrow> 'z kernel_state_scheme \<Rightarrow> bool option \<times> 'z kernel_state_scheme" where
  "proc_run proc s =
     (if proc \<noteq> current s
      then (let prv = current s;
                (flag, s) = intr_save s;
                s = s\<lparr>current := proc\<rparr>;
                s = lsatp (ucast (pgdir (procs s proc))) s
            in (Some flag, switch_to prv proc s))
      else (None, s))"

definition proc_run_resume :: "bool \<Rightarrow> 'z kernel_state_scheme \<Rightarrow> 'z kernel_state_scheme" where
  "proc_run_resume flag s = intr_restore flag s"

subsection \<open>Creating threads\<close>

definition setup_kstack :: "u64 \<Rightarrow> 'z kernel_state_scheme \<Rightarrow> (u32 \<times> 'z kernel_state_scheme) run" where
  "setup_kstack proc s =
     run_bind (alloc_pages KSTACKPAGE s) (\<lambda>(page, s).
     case page of None \<Rightarrow> ret (- E_NO_MEM, s)
     | Some p \<Rightarrow> run_bind (page2kva p s) (\<lambda>kva. ret (0, upd_proc proc (\<lambda>pr. pr\<lparr>kstack := kva\<rparr>) s)))"

definition put_kstack :: "u64 \<Rightarrow> 'z kernel_state_scheme \<Rightarrow> 'z kernel_state_scheme run" where
  "put_kstack proc s =
     run_bind (kva2page (kstack (procs s proc)) s) (\<lambda>p. free_pages p KSTACKPAGE s)"

definition copy_mm :: "u32 \<Rightarrow> u64 \<Rightarrow> 'z kernel_state_scheme \<Rightarrow> (u32 \<times> 'z kernel_state_scheme) run" where
  "copy_mm clone_flags proc s =
     c_assert (proc_mm (procs s (current s)) = 0) ''current->mm == NULL'' (ret (0, s))"

text \<open>\<open>forkret\<close> is the address of the function of that name.\<close>

definition copy_thread ::
  "u64 \<Rightarrow> u64 \<Rightarrow> u64 \<Rightarrow> trapframe \<Rightarrow> 'z kernel_state_scheme \<Rightarrow> 'z kernel_state_scheme" where
  "copy_thread forkret proc esp tf s =
     (let a = kstack (procs s proc) + KSTACKSIZE - sizeof_trapframe;
          g = (gpr tf)(G_a0 := 0);
          s = upd_proc proc (\<lambda>p. p\<lparr>proc_tf := a\<rparr>) s;
          s = s\<lparr>tfs := (tfs s)(a := tf\<lparr>gpr := g(G_sp := if esp = 0 then a else esp)\<rparr>)\<rparr>
      in upd_proc proc (\<lambda>p. p\<lparr>ctx := (ctx p)\<lparr>c_ra := forkret, c_sp := a\<rparr>\<rparr>) s)"

definition wakeup_proc :: "u64 \<Rightarrow> 'z kernel_state_scheme \<Rightarrow> 'z kernel_state_scheme run" where
  "wakeup_proc proc s =
     c_assert (state (procs s proc) \<noteq> PROC_ZOMBIE \<and> state (procs s proc) \<noteq> PROC_RUNNABLE)
       ''proc->state != PROC_ZOMBIE && proc->state != PROC_RUNNABLE''
       (ret (upd_proc proc (\<lambda>p. p\<lparr>state := PROC_RUNNABLE\<rparr>) s))"

text \<open>\<open>do_fork\<close> with its exits: the result is the pid or a negative error code.\<close>

definition do_fork ::
  "u64 \<Rightarrow> u32 \<Rightarrow> u64 \<Rightarrow> trapframe \<Rightarrow> 'z kernel_state_scheme \<Rightarrow> (int \<times> 'z kernel_state_scheme) run" where
  "do_fork forkret clone_flags stack tf s =
     (if MAX_PROCESS \<le> sint (nr_process s) then ret (- sint E_NO_FREE_PROC, s)
      else run_bind (alloc_proc s) (\<lambda>(proc, s).
        if proc = 0 then ret (- sint E_NO_MEM, s)
        else
          let s = upd_proc proc (\<lambda>p. p\<lparr>parent := current s\<rparr>) s in
          run_bind (setup_kstack proc s) (\<lambda>(r, s).
          if r \<noteq> 0 then run_bind (kfree proc s) (\<lambda>s. ret (sint r, s))
          else run_bind (copy_mm clone_flags proc s) (\<lambda>(r, s).
            if r \<noteq> 0 then run_bind (put_kstack proc s) (\<lambda>s. run_bind (kfree proc s) (\<lambda>s. ret (sint r, s)))
            else
              let s = copy_thread forkret proc stack tf s in
              run_bind (loop_run (get_pid s)) (\<lambda>(pd, s).
              let s = upd_proc proc (\<lambda>p. p\<lparr>pid := pd\<rparr>) s;
                  s = hash_proc proc s;
                  s = s\<lparr>proc_list := list_add ProcHead (Link proc) (proc_list s)\<rparr>;
                  s = s\<lparr>nr_process := nr_process s + 1\<rparr>
              in run_bind (wakeup_proc proc s) (\<lambda>s. ret (pid (procs s proc), s)))))))"

text \<open>\<open>entry\<close> is the address of \<open>kernel_thread_entry\<close>.\<close>

definition kernel_thread ::
  "u64 \<Rightarrow> u64 \<Rightarrow> u64 \<Rightarrow> u64 \<Rightarrow> u32 \<Rightarrow> 'z kernel_state_scheme \<Rightarrow> (int \<times> 'z kernel_state_scheme) run" where
  "kernel_thread forkret entry fn arg clone_flags s =
     (let tf = \<lparr>gpr = (\<lambda>_. 0)(G_s0 := fn, G_s1 := arg),
                tf_status = (sstatus s OR SSTATUS_SPP OR SSTATUS_SPIE) AND NOT SSTATUS_SIE,
                tf_epc = entry, tf_badvaddr = 0, tf_cause = 0\<rparr>
      in do_fork forkret (clone_flags OR CLONE_VM) 0 tf s)"

definition do_exit :: "int \<Rightarrow> 'z kernel_state_scheme \<Rightarrow> (int \<times> 'z kernel_state_scheme) run" where
  "do_exit error_code s = panic ''process exit!!.''"

subsection \<open>The scheduler\<close>

text \<open>The \<open>do\<close> loop of \<open>schedule\<close>: the last entry looked at that is a process, if any.\<close>

partial_function (option) sched_loop ::
  "plink links \<Rightarrow> (u64 \<Rightarrow> proc_state) \<Rightarrow> plink \<Rightarrow> plink \<Rightarrow> u64 option \<Rightarrow> u64 option option" where
  "sched_loop h st lp le nxt =
     (let le' = list_next h le in
      if le' \<noteq> ProcHead \<and> st (le2proc le') = PROC_RUNNABLE then Some (Some (le2proc le'))
      else
        let nxt' = (if le' \<noteq> ProcHead then Some (le2proc le') else nxt) in
        if le' \<noteq> lp then sched_loop h st lp le' nxt' else Some nxt')"

declare sched_loop.simps [code]

text \<open>\<open>None\<close>: the thread goes on. \<open>Some (flag1, flag2)\<close>: it is suspended in \<open>switch_to\<close>, with the flag
  saved by \<open>schedule\<close> and the one saved by \<open>proc_run\<close> on its stack.\<close>

definition schedule :: "'z kernel_state_scheme \<Rightarrow> ((bool \<times> bool) option \<times> 'z kernel_state_scheme) run" where
  "schedule s =
     (let (flag, s) = intr_save s;
          s = upd_proc (current s) (\<lambda>p. p\<lparr>need_resched := False\<rparr>) s;
          lp = (if current s = idleproc s then ProcHead else Link (current s))
      in run_bind (loop_run (sched_loop (proc_list s) (\<lambda>p. state (procs s p)) lp lp None)) (\<lambda>nxt.
         let nxt = (case nxt of None \<Rightarrow> idleproc s
                    | Some p \<Rightarrow> if state (procs s p) \<noteq> PROC_RUNNABLE then idleproc s else p);
             s = upd_proc nxt (\<lambda>p. p\<lparr>runs := runs p + 1\<rparr>) s
         in if nxt \<noteq> current s
            then (case proc_run nxt s of
                    (None, s) \<Rightarrow> ret (None, intr_restore flag s)
                  | (Some flag2, s) \<Rightarrow> ret (Some (flag, flag2), s))
            else ret (None, intr_restore flag s)))"

definition schedule_resume :: "bool \<times> bool \<Rightarrow> 'z kernel_state_scheme \<Rightarrow> 'z kernel_state_scheme" where
  "schedule_resume flags s = intr_restore (fst flags) (proc_run_resume (snd flags) s)"

text \<open>One round of the loop of \<open>cpu_idle\<close>.\<close>

definition cpu_idle_step :: "'z kernel_state_scheme \<Rightarrow> ((bool \<times> bool) option \<times> 'z kernel_state_scheme) run" where
  "cpu_idle_step s =
     (if need_resched (procs s (current s)) then schedule s else ret (None, s))"

subsection \<open>Start-up\<close>

fun init_buckets :: "nat \<Rightarrow> hlink links \<Rightarrow> hlink links" where
  "init_buckets 0 h = h"
| "init_buckets (Suc k) h = list_init (LHead (of_nat k)) (init_buckets k h)"

text \<open>Addresses of the linker and of the code that \<open>proc_init\<close> uses.\<close>

record proc_addrs =
  a_bootstack :: u64
  a_forkret :: u64
  a_entry :: u64
  a_init_main :: u64
  a_idle_name :: u64
  a_init_name :: u64
  a_hello :: u64

definition sizeof_context :: u64 where "sizeof_context = 112"

text \<open>\<open>memset(p, 0, n)\<close> on the result of \<open>kmalloc\<close>, which is not tested: a store to the null pointer
  faults and the run does not go on.\<close>

definition zero_block :: "u64 \<Rightarrow> u64 \<Rightarrow> 'z kernel_state_scheme \<Rightarrow> 'z kernel_state_scheme run" where
  "zero_block p n s = (if p = 0 then None else ret (s\<lparr>bytes := memset p 0 n (bytes s)\<rparr>))"

text \<open>The test of the new descriptor; \<open>memcmp\<close> with a zeroed block is 0 when the bytes are all 0.\<close>

definition idle_correct :: "u64 \<Rightarrow> bool \<Rightarrow> bool \<Rightarrow> 'z kernel_state_scheme \<Rightarrow> bool" where
  "idle_correct idle context_init_flag proc_name_flag s \<longleftrightarrow>
     (let p = procs s idle in
      pgdir p = boot_pgdir_pa s \<and> proc_tf p = 0 \<and> \<not> context_init_flag \<and> state p = PROC_UNINIT \<and>
      pid p = -1 \<and> runs p = 0 \<and> kstack p = 0 \<and> \<not> need_resched p \<and> parent p = 0 \<and> proc_mm p = 0 \<and>
      proc_flags p = 0 \<and> \<not> proc_name_flag)"

text \<open>\<open>set_proc_name\<close> of a null \<open>initproc\<close> would fault as well.\<close>

definition proc_init :: "proc_addrs \<Rightarrow> 'z kernel_state_scheme \<Rightarrow> 'z kernel_state_scheme run" where
  "proc_init a s =
     (let s = s\<lparr>proc_list := list_init ProcHead (proc_list s),
                hash_list := init_buckets HASH_LIST_SIZE (hash_list s)\<rparr> in
      run_bind (alloc_proc s) (\<lambda>(idle, s).
      let s = s\<lparr>idleproc := idle\<rparr> in
      if idle = 0 then panic ''cannot alloc idleproc.''
      else
        run_bind (kmalloc sizeof_context s) (\<lambda>(context_mem, s).
        run_bind (zero_block context_mem sizeof_context s) (\<lambda>s.
        let context_init_flag = (ctx (procs s idle) \<noteq> zero_context) in
        run_bind (kmalloc (of_nat PROC_NAME_LEN) s) (\<lambda>(name_mem, s).
        run_bind (zero_block name_mem (of_nat PROC_NAME_LEN) s) (\<lambda>s.
        let proc_name_flag = (take PROC_NAME_LEN (name (procs s idle)) \<noteq> replicate PROC_NAME_LEN 0);
            s = (if idle_correct idle context_init_flag proc_name_flag s
                 then say ''alloc_proc() correct!\<newline>'' [] s else s);
            s = upd_proc idle (\<lambda>p. p\<lparr>pid := 0, state := PROC_RUNNABLE, kstack := a_bootstack a,
                                      need_resched := True\<rparr>) s;
            s = set_proc_name idle (a_idle_name a) s;
            s = s\<lparr>nr_process := nr_process s + 1, current := idle\<rparr> in
        run_bind (kernel_thread (a_forkret a) (a_entry a) (a_init_main a) (a_hello a) 0 s) (\<lambda>(pd, s).
        if pd \<le> 0 then panic ''create init_main failed.''
        else run_bind (loop_run (find_proc pd s)) (\<lambda>init.
          if init = 0 then None else
          let s = s\<lparr>initproc := init\<rparr>;
              s = set_proc_name init (a_init_name a) s in
          c_assert (idleproc s \<noteq> 0 \<and> pid (procs s (idleproc s)) = 0) ''idleproc != NULL && idleproc->pid == 0'' (
          c_assert (initproc s \<noteq> 0 \<and> pid (procs s (initproc s)) = 1) ''initproc != NULL && initproc->pid == 1'' (
          ret s))))))))))"

end
