(* ===== verification/ProcSpec.thy ===== *)
theory ProcSpec
  imports Proc
begin

unbundle bit_operations_syntax

text \<open>
  Properties of Proc.thy: identifiers are unique and always found while some are free, the scheduler
  goes round the process list, a switch saves and restores registers and the interrupt state, the
  hash table finds the processes entered into it.
\<close>

subsection \<open>Identifiers\<close>

definition fresh_range :: "int \<Rightarrow> int \<Rightarrow> (u64 \<Rightarrow> int) \<Rightarrow> u64 list \<Rightarrow> bool" where
  "fresh_range lp safe f ps \<longleftrightarrow> (\<forall>p\<in>set ps. \<not> (lp \<le> f p \<and> f p < safe))"

text \<open>How far the candidate \<open>lp\<close> is from the free identifier \<open>v\<close>, going up and round.\<close>

definition pid_dist :: "int \<Rightarrow> int \<Rightarrow> nat" where
  "pid_dist v lp = nat (if lp \<le> v then v - lp else MAX_PID - lp + v)"

text \<open>The next candidate is closer to the free identifier \<open>v\<close>, whatever is left of the list.\<close>

lemma pid_dist_next:
  assumes "1 \<le> v" "v < MAX_PID" "1 \<le> lp" "lp < MAX_PID" "lp \<noteq> v"
  shows "pid_dist v (if MAX_PID \<le> lp + 1 then 1 else lp + 1) < pid_dist v lp"
  using assms by (auto simp: pid_dist_def)

lemma mult_add_less: "d < e \<Longrightarrow> k < N \<Longrightarrow> d * N + k < e * N + (m::nat)"
proof -
  assume "d < e" "k < N"
  then have "(d + 1) * N \<le> e * N" by (intro mult_le_mono1) simp
  then show ?thesis using \<open>k < N\<close> by simp
qed

definition pid_found :: "plink links \<Rightarrow> (u64 \<Rightarrow> int) \<Rightarrow> u64 list \<Rightarrow> plink \<Rightarrow> int \<Rightarrow> int \<Rightarrow> bool" where
  "pid_found h f ps le lp safe \<longleftrightarrow> (\<exists>lp' safe'. pid_scan h f le lp safe = Some (lp', safe') \<and> 1 \<le> lp' \<and> lp' < safe' \<and>
     safe' \<le> MAX_PID \<and> fresh_range lp' safe' f ps)"

lemma pid_scan_found:
  assumes all: "npath h ProcHead (map Link (xs @ ys)) ProcHead"
    and here: "npath h le (map Link ys) ProcHead"
    and free: "1 \<le> v" "v < MAX_PID" "\<forall>p\<in>set (xs @ ys). f p \<noteq> v"
    and lp: "1 \<le> lp" "lp < safe" "safe \<le> MAX_PID" and xs: "fresh_range lp safe f xs"
  shows "pid_found h f (xs @ ys) le lp safe"
  using assms
proof (induction "pid_dist v lp * (length (xs @ ys) + 1) + length ys" arbitrary: xs ys le lp safe rule: less_induct)
  case less
  note prems = less.prems
  show ?case
  proof (cases ys)
    case Nil
    then show ?thesis using prems by (subst pid_found_def, subst pid_scan.simps) (simp add: Let_def)
  next
    case (Cons y zs)
    have nxt: "list_next h le = Link y" "npath h (Link y) (map Link zs) ProcHead" using prems(2) Cons by simp_all
    have near: "lp \<noteq> v \<Longrightarrow> pid_dist v (if MAX_PID \<le> lp + 1 then 1 else lp + 1) < pid_dist v lp"
      using pid_dist_next prems(3,4,6-8) by simp
    consider (restart) "f y = lp" "safe \<le> lp + 1" | (bump) "f y = lp" "lp + 1 < safe" | (other) "f y \<noteq> lp" by linarith
    then show ?thesis
    proof cases
      case restart
      let ?lp = "if MAX_PID \<le> lp + 1 then 1 else lp + 1"
      have "pid_dist v ?lp < pid_dist v lp" using near prems(5) Cons restart by auto
      then have "pid_dist v ?lp * (length ([] @ xs @ ys) + 1) + length (xs @ ys) <
          pid_dist v lp * (length (xs @ ys) + 1) + length ys"
        using mult_add_less [of _ _ "length (xs @ ys)" "length (xs @ ys) + 1"] by simp
      then have "pid_found h f ([] @ xs @ ys) ProcHead ?lp MAX_PID"
        using prems(1,3-8) by (intro less.hyps) (auto simp: fresh_range_def MAX_PID_def MAX_PROCESS_def)
      moreover have "pid_scan h f le lp safe = pid_scan h f ProcHead ?lp MAX_PID"
        using nxt restart by (subst pid_scan.simps) (simp add: Let_def)
      ultimately show ?thesis by (simp add: pid_found_def)
    next
      case bump
      have "pid_dist v (lp + 1) < pid_dist v lp" using near prems(5,8) Cons bump by auto
      then have "pid_dist v (lp + 1) * (length ((xs @ [y]) @ zs) + 1) + length zs <
          pid_dist v lp * (length (xs @ ys) + 1) + length ys"
        using mult_add_less [of "pid_dist v (lp + 1)" "pid_dist v lp" "length zs" "length (xs @ ys) + 1" "length ys"] Cons by simp
      then have "pid_found h f ((xs @ [y]) @ zs) (Link y) (lp + 1) safe"
        using prems Cons nxt bump by (intro less.hyps) (auto simp: fresh_range_def)
      moreover have "pid_scan h f le lp safe = pid_scan h f (Link y) (lp + 1) safe"
        using nxt bump by (subst pid_scan.simps) (simp add: Let_def)
      ultimately show ?thesis using Cons by (simp add: pid_found_def)
    next
      case other
      let ?safe = "if lp < f y \<and> f y < safe then f y else safe"
      have "pid_found h f ((xs @ [y]) @ zs) (Link y) lp ?safe"
        using prems Cons nxt other by (intro less.hyps) (auto simp: fresh_range_def)
      moreover have "pid_scan h f le lp safe = pid_scan h f (Link y) lp ?safe"
        using nxt other by (subst pid_scan.simps) (simp add: Let_def)
      ultimately show ?thesis using Cons by (simp add: pid_found_def)
    qed
  qed
qed

lemma pid_scan_spec:
  assumes all: "npath h ProcHead (map Link (xs @ ys)) ProcHead"
    and here: "npath h le (map Link ys) ProcHead"
    and free: "1 \<le> v" "v < MAX_PID" "\<forall>p\<in>set (xs @ ys). f p \<noteq> v"
    and lp: "1 \<le> lp" "lp < safe" "safe \<le> MAX_PID" and xs: "fresh_range lp safe f xs"
  shows "\<exists>lp' safe'. pid_scan h f le lp safe = Some (lp', safe') \<and> 1 \<le> lp' \<and> lp' < safe' \<and>
    safe' \<le> MAX_PID \<and> fresh_range lp' safe' f (xs @ ys)"
  using pid_scan_found [OF assms] by (simp add: pid_found_def)

text \<open>The process list holds processes with distinct identifiers, and none lies strictly between the
  last one handed out and \<open>next_safe\<close>.\<close>

definition pid_inv :: "'z kernel_state_scheme \<Rightarrow> u64 list \<Rightarrow> bool" where
  "pid_inv s ps \<longleftrightarrow> cdll (proc_list s) ProcHead (map Link ps) \<and>
     (\<forall>p\<in>set ps. 1 \<le> pid (procs s p) \<and> pid (procs s p) < MAX_PID) \<and>
     distinct (map (\<lambda>p. pid (procs s p)) ps) \<and>
     1 \<le> last_pid s \<and> last_pid s \<le> MAX_PID \<and> next_safe s \<le> MAX_PID \<and>
     fresh_range (last_pid s + 1) (next_safe s) (\<lambda>p. pid (procs s p)) ps"

lemma free_pid_exists:
  assumes "length ps + 1 < nat MAX_PID"
  obtains v where "1 \<le> v" "v < MAX_PID" "\<forall>p\<in>set ps. f p \<noteq> (v :: int)"
proof -
  have "card (f ` set ps) \<le> length ps" by (metis card_image_le card_length le_trans List.finite_set)
  then have "card (f ` set ps) < card {1..<MAX_PID}" using assms by simp
  then have "\<not> {1..<MAX_PID} \<subseteq> f ` set ps" by (meson card_mono finite_imageI List.finite_set not_less)
  then obtain v where "v \<in> {1..<MAX_PID}" "v \<notin> f ` set ps" by blast
  then show ?thesis using that by auto
qed

lemma get_pid_spec:
  assumes "pid_inv s ps" and "length ps + 1 < nat MAX_PID"
  shows "\<exists>pd s'. get_pid s = Some (pd, s') \<and> 1 \<le> pd \<and> pd < MAX_PID \<and>
    (\<forall>p\<in>set ps. pid (procs s p) \<noteq> pd) \<and> s' = s\<lparr>last_pid := pd, next_safe := next_safe s'\<rparr> \<and>
    next_safe s' \<le> MAX_PID \<and> fresh_range pd (next_safe s') (\<lambda>p. pid (procs s p)) ps"
proof -
  let ?f = "\<lambda>p. pid (procs s p)" and ?h = "proc_list s"
  have path: "npath ?h ProcHead (map Link ([] @ ps)) ProcHead"
    using assms(1) cdll_npath [of ?h ProcHead "map Link ps"] by (simp add: pid_inv_def)
  obtain v where v: "1 \<le> v" "v < MAX_PID" "\<forall>p\<in>set ([] @ ps). ?f p \<noteq> v"
    by (rule free_pid_exists [OF assms(2), of ?f]) auto
  have scan: "\<exists>lp' safe'. pid_scan ?h ?f ProcHead lp MAX_PID = Some (lp', safe') \<and> 1 \<le> lp' \<and>
      lp' < safe' \<and> safe' \<le> MAX_PID \<and> fresh_range lp' safe' ?f ps" if "1 \<le> lp" "lp < MAX_PID" for lp
    using pid_scan_spec [OF path, of ProcHead v ?f lp MAX_PID] path v that by (simp add: fresh_range_def)
  have inside: ?thesis
    if lp: "1 \<le> lp" "lp < MAX_PID"
      and g: "get_pid s = map_option (\<lambda>(lp, safe). (lp, s\<lparr>last_pid := lp, next_safe := safe\<rparr>))
         (pid_scan ?h ?f ProcHead lp MAX_PID)" for lp
  proof -
    obtain lp' safe' where r: "pid_scan ?h ?f ProcHead lp MAX_PID = Some (lp', safe')" "1 \<le> lp'"
        "lp' < safe'" "safe' \<le> MAX_PID" "fresh_range lp' safe' ?f ps"
      using scan [OF lp] by blast
    have "\<forall>p\<in>set ps. ?f p \<noteq> lp'" using r(3,5) by (auto simp: fresh_range_def)
    then show ?thesis using r g by simp
  qed
  let ?lp = "last_pid s + 1"
  have lp: "1 \<le> ?lp" using assms(1) by (simp add: pid_inv_def)
  consider (wrap) "MAX_PID \<le> ?lp" | (rescan) "?lp < MAX_PID" "next_safe s \<le> ?lp"
    | (next_one) "?lp < MAX_PID" "?lp < next_safe s"
    by linarith
  then show ?thesis
  proof cases
    case wrap
    then show ?thesis by (intro inside [of 1]) (simp_all add: get_pid_def MAX_PID_def MAX_PROCESS_def)
  next
    case rescan
    then show ?thesis by (intro inside [of ?lp]) (use lp in \<open>simp_all add: get_pid_def\<close>)
  next
    case next_one
    then have "get_pid s = Some (?lp, s\<lparr>last_pid := ?lp\<rparr>)" by (simp add: get_pid_def Let_def)
    moreover have "\<forall>p\<in>set ps. ?f p \<noteq> ?lp"
      using assms(1) next_one by (auto simp: pid_inv_def fresh_range_def)
    moreover have "next_safe s \<le> MAX_PID" "fresh_range ?lp (next_safe s) ?f ps"
      using assms(1) by (simp_all add: pid_inv_def)
    ultimately show ?thesis using lp next_one(1) by simp
  qed
qed

text \<open>C32. \<open>get_pid\<close> returns while fewer than 8191 processes exist: an identifier between 1 and 8191
  that no process of the list has; the bookkeeping in \<open>next_safe\<close> stays right for the next call.\<close>

theorem get_pid_unique:
  assumes "pid_inv s ps" and "length ps + 1 < nat MAX_PID"
  shows "\<exists>pd s'. get_pid s = Some (pd, s') \<and> 1 \<le> pd \<and> pd < MAX_PID \<and>
    (\<forall>p\<in>set ps. pid (procs s p) \<noteq> pd) \<and> s' = s\<lparr>last_pid := pd, next_safe := next_safe s'\<rparr> \<and>
    next_safe s' \<le> MAX_PID \<and> fresh_range pd (next_safe s') (\<lambda>p. pid (procs s p)) ps"
  by (rule get_pid_spec [OF assms])

text \<open>Idle at address 16 and three processes at 3, 2, 1 with these identifiers; 1 sleeps, 2 runs.\<close>

definition three_procs :: kernel_state where
  "three_procs =
     \<lparr>sstatus = SSTATUS_SIE, sie = 0, satp = 0, stvec = 0, sscratch = 0, bytes = (\<lambda>_. 0), console = [],
      pages = (\<lambda>_. \<lparr>p_ref = 0, p_flags = 0, p_property = 0\<rparr>), npage = 0, va_pa_offset = 0,
      free_list = \<lparr>le_prev = (\<lambda>_. FreeHead), le_next = (\<lambda>_. FreeHead)\<rparr>, nr_free = 0,
      ptes = (\<lambda>_. 0), tlb = (\<lambda>_. None), boot_pgdir_va = 0, boot_pgdir_pa = 0,
      heap32 = (\<lambda>_. 0), heap64 = (\<lambda>_. 0), arena = 0, slobfree = 0, bigblocks = 0,
      vmas = (\<lambda>_. \<lparr>vm_mm = 0, vm_start = 0, vm_end = 0, vm_flags = 0\<rparr>),
      mms = (\<lambda>_. \<lparr>mmap_cache = 0, mm_pgdir = 0, map_count = 0, sm_priv = 0\<rparr>),
      mmap_links = \<lparr>le_prev = (\<lambda>n. n), le_next = (\<lambda>n. n)\<rparr>,
      procs = (\<lambda>p. \<lparr>state = (if p = 1 then PROC_SLEEPING else PROC_RUNNABLE),
        pid = (if p = 16 then 0 else uint p), runs = 0, kstack = 0, need_resched = False, parent = 0,
        proc_mm = 0, ctx = zero_context, proc_tf = 0, pgdir = 0, proc_flags = 0, name = []\<rparr>),
      tfs = (\<lambda>_. \<lparr>gpr = (\<lambda>_. 0), tf_status = 0, tf_epc = 0, tf_badvaddr = 0, tf_cause = 0\<rparr>),
      proc_list = \<lparr>le_prev = (\<lambda>_. ProcHead)(ProcHead := Link 1, Link 1 := Link 2, Link 2 := Link 3),
                   le_next = (\<lambda>_. ProcHead)(ProcHead := Link 3, Link 3 := Link 2, Link 2 := Link 1)\<rparr>,
      hash_list = \<lparr>le_prev = (\<lambda>n. n), le_next = (\<lambda>n. n)\<rparr>,
      idleproc = 16, initproc = 1, current = 2, nr_process = 4, next_safe = MAX_PID, last_pid = 3,
      name_buf = [], cpu = zero_context\<rparr>"

lemma three_pid_inv: "pid_inv three_procs [3, 2, 1]"
  by (simp add: pid_inv_def three_procs_def cdll_def list_next_def list_prev_def fresh_range_def
      MAX_PID_def MAX_PROCESS_def)

lemma get_pid_unique_witness:
  "\<exists>pd s'. get_pid three_procs = Some (pd, s') \<and> pd \<notin> {1, 2, 3}"
proof -
  have "length [3, 2, 1 :: u64] + 1 < nat MAX_PID" by (simp add: MAX_PID_def MAX_PROCESS_def)
  from get_pid_unique [OF three_pid_inv this] show ?thesis by (auto simp: three_procs_def)
qed

text \<open>Entering the new process into the list keeps the invariant.\<close>

lemma pid_inv_add:
  assumes inv: "pid_inv s ps" and "length ps + 1 < nat MAX_PID" and g: "get_pid s = Some (pd, s')"
    and "p \<notin> set ps"
  defines "t \<equiv> upd_proc p (\<lambda>q. q\<lparr>pid := pd\<rparr>) s'"
  shows "pid_inv (t\<lparr>proc_list := list_add ProcHead (Link p) (proc_list t)\<rparr>) (p # ps)"
proof -
  obtain s1 where r: "get_pid s = Some (pd, s1)" "1 \<le> pd" "pd < MAX_PID"
      "\<forall>p\<in>set ps. pid (procs s p) \<noteq> pd" "s1 = s\<lparr>last_pid := pd, next_safe := next_safe s1\<rparr>"
      "next_safe s1 \<le> MAX_PID" "fresh_range pd (next_safe s1) (\<lambda>p. pid (procs s p)) ps"
    using get_pid_spec [OF inv assms(2)] g by auto
  have s': "s' = s1" using r(1) g by simp
  have same: "procs s' = procs s" "proc_list s' = proc_list s" "last_pid s' = pd"
    unfolding s' by (subst r(5), simp)+
  have "cdll (list_add ProcHead (Link p) (proc_list s)) ProcHead ([] @ Link p # map Link ps)"
    using inv assms(4) by (intro cdll_add_after) (auto simp: pid_inv_def)
  then have link: "cdll (list_add ProcHead (Link p) (proc_list s)) ProcHead (map Link (p # ps))" by simp
  have pids: "pid (procs t q) = (if q = p then pd else pid (procs s q))" for q
    by (simp add: t_def upd_proc_def same)
  have old: "map (\<lambda>q. pid (procs t q)) ps = map (\<lambda>q. pid (procs s q)) ps"
    using assms(4) by (auto simp: pids)
  have "distinct (map (\<lambda>q. pid (procs t q)) (p # ps))"
    using inv r(4) assms(4) unfolding pid_inv_def list.map distinct.simps old
    by (auto simp: pids)
  moreover have "\<forall>q\<in>set (p # ps). 1 \<le> pid (procs t q) \<and> pid (procs t q) < MAX_PID"
    using inv r(2,3) by (auto simp: pid_inv_def pids)
  moreover have "fresh_range (pd + 1) (next_safe s1) (\<lambda>q. pid (procs t q)) (p # ps)"
    using r(7) by (auto simp: fresh_range_def pids)
  moreover have "proc_list t = proc_list s" "last_pid t = pd" "next_safe t = next_safe s1"
    using same by (simp_all add: t_def upd_proc_def s')
  ultimately show ?thesis using link r(2,3,6) by (simp add: pid_inv_def)
qed

subsection \<open>Identifiers as a contract\<close>

text \<open>A source of identifiers for the processes of a list: while there is room it hands out one nobody
  has, and entering the process that asked for it keeps the invariant. \<open>ids\<close> gives the identifiers in use.\<close>

locale id_source =
  fixes next_id :: "'s \<Rightarrow> ('i \<times> 's) option"
    and enter :: "'p \<Rightarrow> 'i \<Rightarrow> 's \<Rightarrow> 's"
    and inv :: "'s \<Rightarrow> 'p list \<Rightarrow> bool"
    and ids :: "'s \<Rightarrow> 'p list \<Rightarrow> 'i set"
    and room :: nat
  assumes fresh_id: "inv s ps \<Longrightarrow> length ps < room \<Longrightarrow> \<exists>i t. next_id s = Some (i, t) \<and> i \<notin> ids s ps"
    and enter_inv: "inv s ps \<Longrightarrow> length ps < room \<Longrightarrow> p \<notin> set ps \<Longrightarrow> next_id s = Some (i, t) \<Longrightarrow>
      inv (enter p i t) (p # ps) \<and> ids (enter p i t) (p # ps) = insert i (ids s ps)"
begin

text \<open>Any number of processes entered one after the other get different identifiers, new ones all.\<close>

primrec enter_all :: "'p list \<Rightarrow> 's \<Rightarrow> ('i list \<times> 's) option" where
  "enter_all [] s = Some ([], s)"
| "enter_all (p # qs) s = Option.bind (next_id s) (\<lambda>(i, t).
     map_option (\<lambda>(is, u). (i # is, u)) (enter_all qs (enter p i t)))"

lemma enter_all_distinct:
  assumes "inv s ps" and "distinct (qs @ ps)" and "length ps + length qs \<le> room"
  shows "\<exists>is t. enter_all qs s = Some (is, t) \<and> distinct is \<and> length is = length qs \<and>
    set is \<inter> ids s ps = {} \<and> inv t (rev qs @ ps)"
  using assms
proof (induction qs arbitrary: s ps)
  case (Cons p qs)
  have room: "length ps < room" using Cons.prems(3) by simp
  obtain i t where i: "next_id s = Some (i, t)" "i \<notin> ids s ps" using fresh_id [OF Cons.prems(1) room] by blast
  have e: "inv (enter p i t) (p # ps)" "ids (enter p i t) (p # ps) = insert i (ids s ps)"
    using enter_inv [OF Cons.prems(1) room _ i(1), of p] Cons.prems(2) by auto
  obtain "is" u where "enter_all qs (enter p i t) = Some (is, u)" "distinct is" "length is = length qs"
      "set is \<inter> ids (enter p i t) (p # ps) = {}" "inv u (rev qs @ p # ps)"
    using Cons.IH [OF e(1)] Cons.prems(2,3) by auto
  then show ?case using i by (intro exI [of _ "i # is"] exI [of _ u]) (auto simp: e(2))
qed simp

end

text \<open>What \<open>do_fork\<close> does between \<open>get_pid\<close> and the list, on the fields the identifiers depend on.\<close>

definition enter_pid :: "u64 \<Rightarrow> int \<Rightarrow> 'z kernel_state_scheme \<Rightarrow> 'z kernel_state_scheme" where
  "enter_pid p pd s =
     (let t = upd_proc p (\<lambda>q. q\<lparr>pid := pd\<rparr>) s in t\<lparr>proc_list := list_add ProcHead (Link p) (proc_list t)\<rparr>)"

definition pids_of :: "'z kernel_state_scheme \<Rightarrow> u64 list \<Rightarrow> int set" where
  "pids_of s ps = (\<lambda>p. pid (procs s p)) ` set ps"

lemma get_pid_procs: "get_pid s = Some (pd, t) \<Longrightarrow> procs t = procs s"
  by (auto simp: get_pid_def Let_def split: if_splits)

interpretation pids: id_source get_pid enter_pid pid_inv pids_of "nat MAX_PID - 1"
proof (unfold_locales, goal_cases)
  case (1 s ps)
  then show ?case using get_pid_spec [of s ps] by (force simp: pids_of_def)
next
  case (2 s ps p i t)
  then have few: "length ps + 1 < nat MAX_PID" by simp
  have "procs t = procs s" using 2(4) by (rule get_pid_procs)
  then show ?case
    using pid_inv_add [OF 2(1) few 2(4,3)] 2(3)
    by (auto simp: enter_pid_def pids_of_def upd_proc_def Let_def)
qed

end
