(* ===== verification/SchedSpec.thy ===== *)
theory SchedSpec
  imports ProcSpec
begin

unbundle bit_operations_syntax

text \<open>
  Properties of kern/schedule/sched.c and of the switch in proc.c: \<open>schedule\<close> picks the next runnable
  process after the current one, going round the list, and starves nobody; the thread it leaves
  continues later with its registers and its interrupt state.
\<close>

subsection \<open>The order of the search\<close>

definition is_runnable :: "'z kernel_state_scheme \<Rightarrow> u64 \<Rightarrow> bool" where
  "is_runnable s p \<longleftrightarrow> state (procs s p) = PROC_RUNNABLE"

text \<open>From \<open>c\<close> on, round the list \<open>ps\<close>, with \<open>c\<close> itself last; all of \<open>ps\<close> when \<open>c\<close> (idle) is not in it.\<close>

definition sched_order :: "'p \<Rightarrow> 'p list \<Rightarrow> 'p list" where
  "sched_order c ps =
     (if c \<in> set ps then tl (dropWhile (\<lambda>p. p \<noteq> c) ps) @ takeWhile (\<lambda>p. p \<noteq> c) ps @ [c] else ps)"

definition sched_target :: "'z kernel_state_scheme \<Rightarrow> u64 list \<Rightarrow> u64" where
  "sched_target s ps =
     (case find (is_runnable s) (sched_order (current s) ps) of None \<Rightarrow> idleproc s | Some p \<Rightarrow> p)"

text \<open>The process list represents \<open>ps\<close>; idle is not in it and only the current process may be idle.\<close>

definition sched_inv :: "'z kernel_state_scheme \<Rightarrow> u64 list \<Rightarrow> bool" where
  "sched_inv s ps \<longleftrightarrow> cdll (proc_list s) ProcHead (map Link ps) \<and> idleproc s \<notin> set ps \<and>
     (current s = idleproc s \<or> current s \<in> set ps)"

lemma sched_order_split:
  "distinct (xs @ c # ys) \<Longrightarrow> sched_order c (xs @ c # ys) = ys @ xs @ [c]"
  by (auto simp: sched_order_def dropWhile_append takeWhile_append takeWhile_eq_all_conv)

lemma sched_order_notin: "c \<notin> set ps \<Longrightarrow> sched_order c ps = ps"
  by (simp add: sched_order_def)

lemma set_sched_order: "set (sched_order c ps) = set ps"
proof (cases "c \<in> set ps")
  case True
  then obtain xs ys where ps: "ps = xs @ c # ys" "c \<notin> set xs" by (meson split_list_first)
  then have "tl (dropWhile (\<lambda>p. p \<noteq> c) ps) = ys" "takeWhile (\<lambda>p. p \<noteq> c) ps = xs"
    by (auto simp: dropWhile_append takeWhile_append takeWhile_eq_all_conv)
  then show ?thesis by (auto simp: sched_order_def ps(1))
qed (simp add: sched_order_notin)

text \<open>The order seen from a later process is the same round, turned.\<close>

lemma sched_order_turn:
  assumes "distinct ps" and "sched_order c ps = as @ q # bs"
  shows "sched_order q ps = bs @ as @ [q]"
proof (cases "c \<in> set ps")
  case False
  then show ?thesis using assms sched_order_split by (simp add: sched_order_notin)
next
  case True
  then obtain xs ys where ps: "ps = xs @ c # ys" by (meson split_list)
  have order: "ys @ xs @ [c] = as @ q # bs" and d: "distinct (xs @ c # ys)"
    using assms sched_order_split [of xs c ys] ps by auto
  consider (in_ys) b where "ys = as @ q # b" "bs = b @ xs @ [c]"
    | (in_xs) a b where "xs = a @ q # b" "as = ys @ a" "bs = b @ [c]"
    | (at_c) "q = c" "as = ys @ xs" "bs = []"
    using order by (auto simp: append_eq_append_conv2 append_eq_Cons_conv Cons_eq_append_conv)
  then show ?thesis
  proof cases
    case in_ys
    then show ?thesis using sched_order_split [of "xs @ c # as" q b] d by (simp add: ps)
  next
    case in_xs
    then show ?thesis using sched_order_split [of a q "b @ c # ys"] d by (simp add: ps)
  next
    case at_c
    then show ?thesis using sched_order_split [OF d] by (simp add: ps)
  qed
qed

lemma sched_order_distinct: "distinct ps \<Longrightarrow> distinct (sched_order c ps)"
proof (cases "c \<in> set ps")
  case True
  assume d: "distinct ps"
  obtain xs ys where ps: "ps = xs @ c # ys" using True by (meson split_list)
  show ?thesis using sched_order_split [of xs c ys] d by (auto simp: ps)
qed (simp add: sched_order_notin)

lemma length_sched_order: "distinct ps \<Longrightarrow> length (sched_order c ps) = length ps"
  using set_sched_order [of c ps] sched_order_distinct [of ps c] by (metis distinct_card)

lemma find_append: "find P (xs @ ys) = (case find P xs of None \<Rightarrow> find P ys | Some x \<Rightarrow> Some x)"
  by (induction xs) auto

subsection \<open>Round robin as a contract\<close>

text \<open>\<open>n\<close> calls of a scheduler, each made by the process the one before made current; \<open>body\<close> is what
  that process does before its call.\<close>

primrec rounds :: "('s \<Rightarrow> ('r \<times> 's) run) \<Rightarrow> ('s \<Rightarrow> 's) \<Rightarrow> nat \<Rightarrow> 's \<Rightarrow> 's run" where
  "rounds sched body 0 s = ret s"
| "rounds sched body (Suc n) s = run_bind (sched (body s)) (\<lambda>r. rounds sched body n (snd r))"

text \<open>A scheduler over a list of processes that makes the first ready one after the current one
  current, and makes nobody ready or unready.\<close>

locale round_robin =
  fixes sched :: "'s \<Rightarrow> ('r \<times> 's) run"
    and cur :: "'s \<Rightarrow> 'p"
    and ready :: "'s \<Rightarrow> 'p \<Rightarrow> bool"
    and inv :: "'s \<Rightarrow> 'p list \<Rightarrow> bool"
  assumes inv_distinct: "inv s ps \<Longrightarrow> distinct ps"
    and picks: "inv s ps \<Longrightarrow> \<exists>r t. sched s = ret (r, t) \<and> inv t ps \<and> ready t = ready s \<and>
      (\<forall>q. find (ready s) (sched_order (cur s) ps) = Some q \<longrightarrow> cur t = q)"
begin

lemma rounds_reach:
  assumes "inv s ps" and "ready s p"
    and body: "\<forall>s. inv s ps \<and> ready s p \<longrightarrow> inv (body s) ps \<and> ready (body s) p \<and> cur (body s) = cur s"
    and "sched_order (cur s) ps = as @ p # bs"
  shows "\<exists>k t. 0 < k \<and> k \<le> length as + 1 \<and> rounds sched body k s = ret t \<and> cur t = p"
  using assms(1,2,4)
proof (induction "length as" arbitrary: s as bs rule: less_induct)
  case less
  let ?s = "body s"
  have inv: "inv ?s ps" and p: "ready ?s p" and order: "sched_order (cur ?s) ps = as @ p # bs"
    using less.prems body by auto
  obtain r t where step: "sched ?s = ret (r, t)" "inv t ps" "ready t = ready ?s"
    "\<forall>q. find (ready ?s) (as @ p # bs) = Some q \<longrightarrow> cur t = q"
    using picks [OF inv] unfolding order by blast
  show ?case
  proof (cases "find (ready ?s) as")
    case None
    then have "cur t = p" using step(4) p by (simp add: find_append)
    then show ?thesis using step(1) by (intro exI [of _ 1] exI [of _ t]) simp
  next
    case (Some q)
    then have "q \<in> set as" by (auto simp: find_Some_iff)
    then obtain a1 a2 where as: "as = a1 @ q # a2" by (meson split_list)
    have q: "cur t = q" using step(4) Some by (simp add: find_append)
    have "sched_order q ps = a2 @ p # (bs @ a1 @ [q])"
      using sched_order_turn [OF inv_distinct [OF inv], of "cur ?s" a1 q "a2 @ p # bs"] order by (simp add: as)
    then obtain k u where "0 < k" "k \<le> length a2 + 1" "rounds sched body k t = ret u" "cur u = p"
      using less.hyps [of a2 t "bs @ a1 @ [q]"] step(2,3) p by (auto simp: as q)
    then show ?thesis using step(1) by (intro exI [of _ "Suc k"] exI [of _ u]) (simp add: as)
  qed
qed

lemma no_starvation:
  assumes "inv s ps" and "p \<in> set ps" and "ready s p"
    and "\<forall>s. inv s ps \<and> ready s p \<longrightarrow> inv (body s) ps \<and> ready (body s) p \<and> cur (body s) = cur s"
  shows "\<exists>k t. 0 < k \<and> k \<le> length ps \<and> rounds sched body k s = ret t \<and> cur t = p"
proof -
  obtain as bs where o: "sched_order (cur s) ps = as @ p # bs"
    using assms(2) set_sched_order [of "cur s" ps] by (metis split_list)
  then have "length as + 1 \<le> length ps" using length_sched_order [OF inv_distinct [OF assms(1)], of "cur s"] by simp
  then show ?thesis using rounds_reach [OF assms(1,3,4) o] le_trans by blast
qed

end

subsection \<open>The loop\<close>

text \<open>The loop from \<open>le\<close> over the nodes \<open>ns\<close> to \<open>lp\<close>.\<close>

lemma sched_loop_spec:
  assumes "npath h le ns lp" and "lp \<notin> set ns" and "\<forall>p. nxt = Some p \<longrightarrow> st p \<noteq> PROC_RUNNABLE"
  shows "\<exists>r. sched_loop h st lp le nxt = Some r \<and>
    (case find (\<lambda>n. n \<noteq> ProcHead \<and> st (le2proc n) = PROC_RUNNABLE) (ns @ [lp]) of
       Some n \<Rightarrow> r = Some (le2proc n) | None \<Rightarrow> (\<forall>p. r = Some p \<longrightarrow> st p \<noteq> PROC_RUNNABLE))"
  using assms
proof (induction ns arbitrary: le nxt)
  case Nil
  then show ?case by (subst sched_loop.simps) (auto simp: Let_def)
next
  case (Cons n ns)
  show ?case
  proof (cases "n \<noteq> ProcHead \<and> st (le2proc n) = PROC_RUNNABLE")
    case True
    then show ?thesis using Cons.prems by (subst sched_loop.simps) (auto simp: Let_def)
  next
    case False
    let ?nxt = "if n \<noteq> ProcHead then Some (le2proc n) else nxt"
    have "sched_loop h st lp le nxt = sched_loop h st lp n ?nxt"
      using Cons.prems(1,2) False by (subst sched_loop.simps) (auto simp: Let_def)
    moreover have "\<forall>p. ?nxt = Some p \<longrightarrow> st p \<noteq> PROC_RUNNABLE" using False Cons.prems(3) by auto
    ultimately show ?thesis using Cons.IH [of n ?nxt] Cons.prems False by auto
  qed
qed

lemma find_links:
  "find (\<lambda>n. n \<noteq> ProcHead \<and> st (le2proc n) = PROC_RUNNABLE) (map Link ps) =
   map_option Link (find (\<lambda>p. st p = PROC_RUNNABLE) ps)"
  by (induction ps) auto

lemma sched_loop_target:
  assumes "sched_inv s ps" and st: "\<And>p. st p = state (procs s p)"
    and lp: "lp = (if current s = idleproc s then ProcHead else Link (current s))"
  shows "\<exists>r. sched_loop (proc_list s) st lp lp None = Some r \<and>
    (case r of None \<Rightarrow> idleproc s | Some p \<Rightarrow> if st p \<noteq> PROC_RUNNABLE then idleproc s else p) = sched_target s ps"
proof -
  let ?P = "\<lambda>n. n \<noteq> ProcHead \<and> st (le2proc n) = PROC_RUNNABLE"
  have c: "cdll (proc_list s) ProcHead (map Link ps)" and d: "distinct ps"
    using assms(1) by (auto simp: sched_inv_def cdll_def distinct_map)
  have path: "npath (proc_list s) ProcHead (map Link ps) ProcHead" using cdll_npath [OF c] .
  have run: "is_runnable s = (\<lambda>p. st p = PROC_RUNNABLE)" by (auto simp: is_runnable_def st)
  obtain ns where ns: "npath (proc_list s) lp ns lp" "lp \<notin> set ns"
    "find ?P (ns @ [lp]) = map_option Link (find (is_runnable s) (sched_order (current s) ps))"
  proof (cases "current s = idleproc s")
    case True
    then have "sched_order (current s) ps = ps" using assms(1) by (simp add: sched_inv_def sched_order_notin)
    moreover have "find ?P (map Link ps @ [lp]) = map_option Link (find (is_runnable s) ps)"
      using True by (simp add: find_append find_links run lp split: option.split)
    ultimately show ?thesis
      using that [of "map Link ps"] path True by (auto simp: lp)
  next
    case False
    then have "current s \<in> set ps" using assms(1) by (simp add: sched_inv_def)
    then obtain xs ys where ps: "ps = xs @ current s # ys" by (meson split_list)
    have "sched_order (current s) ps = ys @ xs @ [current s]" using sched_order_split d ps by metis
    moreover have "find ?P ((map Link ys @ ProcHead # map Link xs) @ [lp]) =
        map_option Link (find (is_runnable s) (ys @ xs @ [current s]))"
      using False by (simp add: find_append find_links run lp split: option.split)
    ultimately show ?thesis
      using that [of "map Link ys @ ProcHead # map Link xs"] path d False by (auto simp: lp ps)
  qed
  obtain r where r: "sched_loop (proc_list s) st lp lp None = Some r"
    "case find ?P (ns @ [lp]) of Some n \<Rightarrow> r = Some (le2proc n) | None \<Rightarrow> (\<forall>p. r = Some p \<longrightarrow> st p \<noteq> PROC_RUNNABLE)"
    using sched_loop_spec [OF ns(1,2), of None st] by auto
  show ?thesis
  proof (cases "find (is_runnable s) (sched_order (current s) ps)")
    case None
    then show ?thesis using r ns(3) by (auto simp: sched_target_def split: option.split)
  next
    case (Some q)
    then have "st q = PROC_RUNNABLE" by (auto simp: find_Some_iff run)
    then show ?thesis using r ns(3) Some by (auto simp: sched_target_def)
  qed
qed

subsection \<open>schedule\<close>

text \<open>What a call of \<open>schedule\<close> does, with the state at the switch written out.\<close>

definition sched_marked :: "u64 \<Rightarrow> 'z kernel_state_scheme \<Rightarrow> 'z kernel_state_scheme" where
  "sched_marked p s =
     upd_proc p (\<lambda>q. q\<lparr>runs := runs q + 1\<rparr>)
       (upd_proc (current s) (\<lambda>q. q\<lparr>need_resched := False\<rparr>) (snd (intr_save s)))"

lemma upd_proc_sel [simp]:
  "procs (upd_proc p f s) = (procs s)(p := f (procs s p))" "current (upd_proc p f s) = current s"
  "idleproc (upd_proc p f s) = idleproc s" "proc_list (upd_proc p f s) = proc_list s"
  "cpu (upd_proc p f s) = cpu s" "sstatus (upd_proc p f s) = sstatus s"
  by (simp_all add: upd_proc_def)

lemma intr_save_sel [simp]:
  "procs (snd (intr_save s)) = procs s" "current (snd (intr_save s)) = current s"
  "idleproc (snd (intr_save s)) = idleproc s" "proc_list (snd (intr_save s)) = proc_list s"
  "cpu (snd (intr_save s)) = cpu s"
  by (simp_all add: intr_save_def intr_disable_def)

lemma intr_restore_sel [simp]:
  "procs (intr_restore b s) = procs s" "current (intr_restore b s) = current s"
  "idleproc (intr_restore b s) = idleproc s" "proc_list (intr_restore b s) = proc_list s"
  "cpu (intr_restore b s) = cpu s"
  by (simp_all add: intr_restore_def intr_enable_def)

lemma schedule_step:
  assumes "sched_inv s ps"
  defines "t \<equiv> sched_target s ps"
  shows "schedule s =
    (if t = current s then ret (None, intr_restore (intr_on s) (sched_marked t s))
     else ret (Some (intr_on s, False),
            switch_to (current s) t (lsatp (ucast (pgdir (procs s t))) (sched_marked t s\<lparr>current := t\<rparr>))))"
proof -
  obtain flag s1 where s1: "intr_save s = (flag, s1)" by (cases "intr_save s")
  have flag: "flag = intr_on s" "s1 = snd (intr_save s)"
    using s1 by (auto simp: intr_save_def intr_on_def split: if_splits)
  let ?s2 = "upd_proc (current s) (\<lambda>q. q\<lparr>need_resched := False\<rparr>) s1"
  let ?lp = "if current s = idleproc s then ProcHead else Link (current s)"
  have st: "state (procs ?s2 p) = state (procs s p)" for p by (simp add: flag)
  obtain r where r: "sched_loop (proc_list s) (\<lambda>p. state (procs ?s2 p)) ?lp ?lp None = Some r"
    "(case r of None \<Rightarrow> idleproc s
      | Some p \<Rightarrow> if state (procs ?s2 p) \<noteq> PROC_RUNNABLE then idleproc s else p) = t"
    using sched_loop_target [OF assms(1), of "\<lambda>p. state (procs ?s2 p)" ?lp] st unfolding t_def by blast
  have "\<not> intr_on (sched_marked t s)" using intr_save_off [of s] by (simp add: intr_on_def sched_marked_def)
  then have off: "intr_save (sched_marked t s) = (False, sched_marked t s)"
    by (simp add: intr_save_def intr_on_def)
  have marked: "upd_proc t (\<lambda>p. p\<lparr>runs := runs p + 1\<rparr>) ?s2 = sched_marked t s"
    by (simp add: sched_marked_def flag)
  have cur: "current s1 = current s" "idleproc s1 = idleproc s" "proc_list ?s2 = proc_list s"
    "current ?s2 = current s" "idleproc ?s2 = idleproc s"
    by (simp_all add: flag)
  have "schedule s = (if t \<noteq> current s
      then (case proc_run t (sched_marked t s) of (None, s) \<Rightarrow> ret (None, intr_restore flag s)
            | (Some flag2, s) \<Rightarrow> ret (Some (flag, flag2), s))
      else ret (None, intr_restore flag (sched_marked t s)))"
    unfolding schedule_def s1 Let_def prod.case cur r(1) loop_run_simps run_bind_ret r(2) marked
    by (simp add: sched_marked_def)
  moreover have "t \<noteq> current s \<Longrightarrow> proc_run t (sched_marked t s) =
      (Some False, switch_to (current s) t (lsatp (ucast (pgdir (procs s t))) (sched_marked t s\<lparr>current := t\<rparr>)))"
    using off by (simp add: proc_run_def Let_def sched_marked_def)
  ultimately show ?thesis using flag(1) by simp
qed

lemma sched_target_in: "sched_target s ps = idleproc s \<or> sched_target s ps \<in> set ps"
  by (auto simp: sched_target_def find_Some_iff set_conv_nth [of "sched_order (current s) ps"]
      set_sched_order [symmetric, of ps "current s"] split: option.split)

lemma sched_marked_sel [simp]:
  "proc_list (sched_marked p s) = proc_list s" "idleproc (sched_marked p s) = idleproc s"
  "current (sched_marked p s) = current s" "cpu (sched_marked p s) = cpu s"
  by (simp_all add: sched_marked_def)

lemma switch_to_sel [simp]:
  "current (switch_to a b s) = current s" "proc_list (switch_to a b s) = proc_list s"
  "idleproc (switch_to a b s) = idleproc s" "sstatus (switch_to a b s) = sstatus s"
  "procs (switch_to a b s) = (procs s)(a := (procs s a)\<lparr>ctx := cpu s\<rparr>)"
  "cpu (switch_to a b s) = (if a = b then cpu s else ctx (procs s b))"
  by (simp_all add: switch_to_def Let_def)

lemma lsatp_sel [simp]:
  "current (lsatp v s) = current s" "proc_list (lsatp v s) = proc_list s" "idleproc (lsatp v s) = idleproc s"
  "sstatus (lsatp v s) = sstatus s" "procs (lsatp v s) = procs s" "cpu (lsatp v s) = cpu s"
  by (simp_all add: lsatp_def)

lemma sched_marked_procs:
  "procs (sched_marked p s) q = (procs s q)\<lparr>runs := runs (procs s q) + of_bool (q = p),
     need_resched := need_resched (procs s q) \<and> q \<noteq> current s\<rparr>"
  by (auto simp: sched_marked_def)

lemma sstatus_sched_marked: "sstatus (sched_marked p s) = sstatus (snd (intr_save s))"
  by (simp add: sched_marked_def)

lemma intr_on_cong: "sstatus s = sstatus t \<Longrightarrow> intr_on s = intr_on t"
  by (simp add: intr_on_def)

lemma sstatus_restore_marked: "sstatus (intr_restore (intr_on s) (sched_marked p s)) = sstatus s"
proof -
  obtain flag s1 where s1: "intr_save s = (flag, s1)" by (cases "intr_save s")
  then have "flag = intr_on s" by (auto simp: intr_save_def intr_on_def split: if_splits)
  then show ?thesis
    using intr_restore_saved [OF s1, of "sched_marked p s"] by (simp add: sched_marked_def s1)
qed

lemma schedule_effect:
  assumes "sched_inv s ps"
  defines "t \<equiv> sched_target s ps"
  shows "\<exists>r s'. schedule s = ret (r, s') \<and> current s' = t \<and> sched_inv s' ps \<and>
    (r = None \<longleftrightarrow> t = current s) \<and>
    (\<forall>q. state (procs s' q) = state (procs s q) \<and>
         runs (procs s' q) = (if q = t then runs (procs s q) + 1 else runs (procs s q))) \<and>
    \<not> need_resched (procs s' (current s)) \<and>
    (if t = current s then cpu s' = cpu s \<and> sstatus s' = sstatus s
     else \<not> intr_on s' \<and> ctx (procs s' (current s)) = cpu s \<and> cpu s' = ctx (procs s t))"
proof (cases "t = current s")
  case True
  have "sched_inv (intr_restore (intr_on s) (sched_marked t s)) ps" using assms(1) by (simp add: sched_inv_def)
  then show ?thesis
    unfolding schedule_step [OF assms(1), folded t_def] using True
    by (simp add: sched_marked_procs sstatus_restore_marked)
next
  case False
  let ?s' = "switch_to (current s) t (lsatp (ucast (pgdir (procs s t))) (sched_marked t s\<lparr>current := t\<rparr>))"
  have "sched_inv ?s' ps" using assms(1) sched_target_in [of s ps] by (simp add: sched_inv_def t_def)
  moreover have "\<not> intr_on ?s'"
    using intr_save_off [of s] by (simp add: intr_on_def sstatus_sched_marked)
  ultimately show ?thesis
    unfolding schedule_step [OF assms(1), folded t_def] using False
    by (intro exI [of _ "Some (intr_on s, False)"] exI [of _ ?s']) (simp add: sched_marked_procs)
qed

lemma schedule_keeps:
  assumes "sched_inv s ps" and "schedule s = ret (r, u)"
  shows "tfs u = tfs s" "proc_tf (procs u q) = proc_tf (procs s q)" "kstack (procs u q) = kstack (procs s q)"
proof -
  have marked: "tfs (sched_marked p s) = tfs s" "proc_tf (procs (sched_marked p s) q) = proc_tf (procs s q)"
    "kstack (procs (sched_marked p s) q) = kstack (procs s q)" for p q
    by (simp_all add: sched_marked_def upd_proc_def intr_save_def intr_disable_def)
  have "tfs (intr_restore b t) = tfs t" "procs (intr_restore b t) = procs t" for b and t :: "'a kernel_state_scheme"
    by (simp_all add: intr_restore_def intr_enable_def)
  then show "tfs u = tfs s" "proc_tf (procs u q) = proc_tf (procs s q)" "kstack (procs u q) = kstack (procs s q)"
    using assms(2) unfolding schedule_step [OF assms(1)]
    by (auto simp: switch_to_def lsatp_def upd_proc_def marked Let_def ret_def split: if_splits)
qed

text \<open>C12. \<open>schedule\<close> returns without a panic and makes current the first runnable process after the
  current one, going round the process list (idle when none is runnable), with interrupts masked
  across the switch. Its counter goes up by one, \<open>need_resched\<close> of the old process is cleared, no
  process changes state; when the process stays, registers and interrupt state are as before; when
  it changes, the old one's registers are saved and the new one's are loaded.\<close>

theorem schedule_round_robin:
  assumes "sched_inv s ps"
  defines "t \<equiv> sched_target s ps"
  shows "\<exists>r s'. schedule s = ret (r, s') \<and> current s' = t \<and> sched_inv s' ps \<and>
    (r = None \<longleftrightarrow> t = current s) \<and>
    (\<forall>q. state (procs s' q) = state (procs s q) \<and>
         runs (procs s' q) = (if q = t then runs (procs s q) + 1 else runs (procs s q))) \<and>
    \<not> need_resched (procs s' (current s)) \<and>
    (if t = current s then cpu s' = cpu s \<and> sstatus s' = sstatus s
     else \<not> intr_on s' \<and> ctx (procs s' (current s)) = cpu s \<and> cpu s' = ctx (procs s t))"
  unfolding t_def by (rule schedule_effect [OF assms(1)])

lemma intr_on_restore: "intr_on (intr_restore b v) \<longleftrightarrow> b \<or> intr_on v"
  by (auto simp: intr_restore_def intr_enable_def intr_on_iff bit_or_iff SSTATUS_SIE_mask bit_BIT_MASK)

text \<open>C14. A process that is switched away from by \<open>schedule\<close> and later switched to again, from any
  process \<open>c\<close> with interrupts masked and with its saved registers untouched in between, leaves
  \<open>schedule\<close> with the registers and the interrupt state it entered it with.\<close>

theorem schedule_suspend_resume:
  assumes "sched_inv s ps" and "schedule s = ret (Some flags, s')"
    and "ctx (procs u (current s)) = ctx (procs s' (current s))" and "c \<noteq> current s" and "\<not> intr_on u"
  defines "v \<equiv> schedule_resume flags (switch_to c (current s) u)"
  shows "cpu v = cpu s \<and> intr_on v = intr_on s \<and> ctx (procs v c) = cpu u"
proof -
  have t: "sched_target s ps \<noteq> current s" and f: "flags = (intr_on s, False)"
    and c: "ctx (procs s' (current s)) = cpu s"
    using assms(2) unfolding schedule_step [OF assms(1)] by (auto split: if_splits)
  have "\<not> intr_on (switch_to c (current s) u)" using assms(5) by (simp add: intr_on_def)
  then show ?thesis
    using assms(3,4) c by (simp add: v_def schedule_resume_def proc_run_resume_def f intr_on_restore)
qed

subsection \<open>No starvation\<close>

definition sched_rounds ::
  "('z kernel_state_scheme \<Rightarrow> 'z kernel_state_scheme) \<Rightarrow> nat \<Rightarrow> 'z kernel_state_scheme \<Rightarrow> 'z kernel_state_scheme run" where
  "sched_rounds body n s = rounds schedule body n s"

text \<open>The process may do anything that keeps the list, itself current and \<open>p\<close> runnable.\<close>

definition keeps_waiting ::
  "u64 list \<Rightarrow> u64 \<Rightarrow> ('z kernel_state_scheme \<Rightarrow> 'z kernel_state_scheme) \<Rightarrow> bool" where
  "keeps_waiting ps p body \<longleftrightarrow> (\<forall>s. sched_inv s ps \<and> is_runnable s p \<longrightarrow>
     sched_inv (body s) ps \<and> is_runnable (body s) p \<and> current (body s) = current s)"

lemma sched_inv_distinct: "sched_inv s ps \<Longrightarrow> distinct ps"
  by (auto simp: sched_inv_def cdll_def distinct_map)

interpretation rr: round_robin schedule current is_runnable sched_inv
proof (unfold_locales, goal_cases)
  case (1 s ps)
  then show ?case by (rule sched_inv_distinct)
next
  case (2 s ps)
  obtain r t where t: "schedule s = ret (r, t)" "current t = sched_target s ps" "sched_inv t ps"
    "\<forall>q. state (procs t q) = state (procs s q)"
    using schedule_effect [OF 2] by blast
  then have "is_runnable t = is_runnable s" by (simp add: is_runnable_def fun_eq_iff)
  with t show ?case by (intro exI [of _ r] exI [of _ t]) (simp add: sched_target_def)
qed

text \<open>C13. No process starves: a runnable process of the list is made current after at most as many
  calls of \<open>schedule\<close> as the list has entries, whatever the others do that keeps it runnable.\<close>

theorem schedule_no_starvation:
  assumes "sched_inv s ps" and "p \<in> set ps" and "is_runnable s p" and "keeps_waiting ps p body"
  shows "\<exists>k s'. 0 < k \<and> k \<le> length ps \<and> sched_rounds body k s = ret s' \<and> current s' = p"
  using rr.no_starvation [OF assms(1-3), of body] assms(4) by (simp add: keeps_waiting_def sched_rounds_def)

subsection \<open>The properties on a concrete list\<close>

lemma three_sched_inv: "sched_inv three_procs [3, 2, 1]"
  by (simp add: sched_inv_def three_procs_def cdll_def list_next_def list_prev_def)

lemma three_runnable: "is_runnable three_procs p \<longleftrightarrow> p \<noteq> 1"
  by (simp add: is_runnable_def three_procs_def)

lemma three_target: "sched_target three_procs [3, 2, 1] = 3"
  by (simp add: sched_target_def sched_order_def three_runnable) (simp add: three_procs_def three_runnable)

lemma schedule_round_robin_witness:
  "\<exists>r s'. schedule three_procs = ret (r, s') \<and> current s' = 3"
  using schedule_round_robin [OF three_sched_inv] unfolding three_target by blast

lemma schedule_no_starvation_witness:
  "\<exists>k s'. k \<le> 3 \<and> sched_rounds (\<lambda>s. s) k three_procs = ret s' \<and> current s' = 2"
  using schedule_no_starvation [OF three_sched_inv, of 2 "\<lambda>s. s"]
  by (auto simp: three_runnable keeps_waiting_def numeral_3_eq_3)

lemma schedule_suspend_resume_witness:
  "\<exists>flags s'. schedule three_procs = ret (Some flags, s') \<and>
     cpu (schedule_resume flags (switch_to 3 2 s')) = cpu three_procs"
proof -
  have cur: "current three_procs = 2" by (simp add: three_procs_def)
  obtain flags s' where s': "schedule three_procs = ret (Some flags, s')" "\<not> intr_on s'"
    using schedule_effect [OF three_sched_inv] unfolding three_target cur by auto
  then show ?thesis
    using schedule_suspend_resume [OF three_sched_inv s'(1) refl, of 3] unfolding cur by auto
qed

end
