(* ===== verification/Slob.thy ===== *)
theory Slob
  imports Kmalloc
begin

unbundle bit_operations_syntax

text \<open>
  The list of free blocks of kern/mm/kmalloc.c as a ring. A block is \<open>(i, k)\<close>: \<open>k\<close> units of 16 bytes
  at the address \<open>16 * i\<close>. \<open>slob_rel s bs\<close> says that the \<open>next\<close> pointers close the address-ordered,
  coalesced blocks \<open>bs\<close> to a ring that \<open>slobfree\<close> points into. The first block is the static \<open>arena\<close>,
  of one unit, which no page of the heap touches. \<open>slob_free\<close> implements the release of FirstFit.thy on
  these blocks; \<open>slob_alloc\<close> takes units off one block.
\<close>

subsection \<open>Addresses of units\<close>

definition unit_addr :: "nat \<Rightarrow> u64" where
  "unit_addr i = of_nat (16 * i)"

lemma unat_unit_addr: "i < 2 ^ 60 \<Longrightarrow> unat (unit_addr i) = 16 * i"
  unfolding unit_addr_def by (rule unat_of_nat_u64) simp

lemma unit_addr_less [simp]: "i < 2 ^ 60 \<Longrightarrow> j < 2 ^ 60 \<Longrightarrow> unit_addr i < unit_addr j \<longleftrightarrow> i < j"
  by (simp add: word_less_nat_alt unat_unit_addr)

lemma unit_addr_le [simp]: "i < 2 ^ 60 \<Longrightarrow> j < 2 ^ 60 \<Longrightarrow> unit_addr i \<le> unit_addr j \<longleftrightarrow> i \<le> j"
  by (simp add: word_le_nat_alt unat_unit_addr)

lemma unit_addr_eq [simp]: "i < 2 ^ 60 \<Longrightarrow> j < 2 ^ 60 \<Longrightarrow> unit_addr i = unit_addr j \<longleftrightarrow> i = j"
  by (simp add: word_unat_eq_iff unat_unit_addr)

lemma unit_addr_0 [simp]: "i < 2 ^ 60 \<Longrightarrow> unit_addr i = 0 \<longleftrightarrow> i = 0"
  using unat_unit_addr [of i] by (auto simp: unit_addr_def word_unat_eq_iff)

lemma scast_of_nat: "k < 2 ^ 31 \<Longrightarrow> (scast (of_nat k :: u32) :: u64) = of_nat k"
proof -
  assume k: "k < 2 ^ 31"
  have "sint (of_nat k :: u32) = int k"
    using k by (simp add: sint_uint signed_take_bit_int_eq_self unsigned_of_nat take_bit_nat_eq_self)
  then show ?thesis by (metis of_int_of_nat_eq of_int_sint)
qed

lemma slob_plus_unit_addr: "k < 2 ^ 31 \<Longrightarrow> slob_plus (unit_addr i) (of_nat k) = unit_addr (i + k)"
  by (simp add: slob_plus_def scast_of_nat unit_addr_def SLOB_UNIT_def algebra_simps)

lemma sint_of_nat_u32: "k < 2 ^ 31 \<Longrightarrow> sint (of_nat k :: u32) = int k"
  by (simp add: sint_uint signed_take_bit_int_eq_self unsigned_of_nat take_bit_nat_eq_self)

lemma of_nat_u32_eq: "k < 2 ^ 31 \<Longrightarrow> m < 2 ^ 31 \<Longrightarrow> (of_nat k :: u32) = of_nat m \<longleftrightarrow> k = m"
  by (metis of_nat_eq_iff sint_of_nat_u32)

subsection \<open>Rings\<close>

definition hd_addr :: "block list \<Rightarrow> u64 \<Rightarrow> u64" where
  "hd_addr bs z = (case bs of [] \<Rightarrow> z | x # _ \<Rightarrow> unit_addr (fst x))"

fun chain :: "(u64 \<Rightarrow> u64) \<Rightarrow> block list \<Rightarrow> u64 \<Rightarrow> bool" where
  "chain nx [] z \<longleftrightarrow> True"
| "chain nx (x # bs) z \<longleftrightarrow> nx (unit_addr (fst x)) = hd_addr bs z \<and> chain nx bs z"

lemma hd_addr_simps [simp]:
  "hd_addr [] z = z" "hd_addr (x # bs) z = unit_addr (fst x)"
  "hd_addr (bs @ cs) z = hd_addr bs (hd_addr cs z)"
  by (simp_all add: hd_addr_def split: list.split)

lemma chain_append [simp]: "chain nx (bs @ cs) z \<longleftrightarrow> chain nx bs (hd_addr cs z) \<and> chain nx cs z"
  by (induction bs) auto

lemma chain_upd [simp]:
  "a \<notin> (\<lambda>x. unit_addr (fst x)) ` set bs \<Longrightarrow> chain (nx(a := v)) bs z = chain nx bs z"
  by (induction bs) auto

lemma chain_hd_addr: "cs \<noteq> [] \<Longrightarrow> fst (hd cs) = fst (hd ds) \<Longrightarrow> ds \<noteq> [] \<Longrightarrow> hd_addr cs z = hd_addr ds z"
  by (cases cs; cases ds) simp_all

definition slob_bound :: "block list \<Rightarrow> bool" where
  "slob_bound bs \<longleftrightarrow> (\<forall>x\<in>set bs. fst x + snd x < 2 ^ 60) \<and> sum_list (map snd bs) < 2 ^ 31"

definition slob_rel :: "'z heap_state_scheme \<Rightarrow> block list \<Rightarrow> bool" where
  "slob_rel s bs \<longleftrightarrow> bs \<noteq> [] \<and> coalesced bs \<and> slob_bound bs \<and>
     (\<forall>x\<in>set bs. sb_units s (unit_addr (fst x)) = of_nat (snd x)) \<and>
     chain (sb_next s) bs (hd_addr bs 0) \<and> slobfree s \<in> (\<lambda>x. unit_addr (fst x)) ` set bs"

lemma slob_bound_mem: "slob_bound bs \<Longrightarrow> x \<in> set bs \<Longrightarrow> fst x < 2 ^ 60 \<and> snd x < 2 ^ 31"
  using member_le_sum_list [of "snd x" "map snd bs"] by (force simp: slob_bound_def)

subsection \<open>The search for the reinsertion point\<close>

text \<open>From a block before the predecessor \<open>w\<close> of \<open>b\<close> the search reaches \<open>w\<close>.\<close>

lemma slob_find_left:
  assumes "chain nx (x # ms @ w # ys) z" and "sorted_wrt (\<lambda>x y. fst x < fst y) (x # ms @ [w])"
    and "\<forall>y\<in>set (x # ms @ [w]). fst y < b" and "b < 2 ^ 60"
  shows "slob_find (unit_addr b) nx (unit_addr (fst x)) = slob_find (unit_addr b) nx (unit_addr (fst w))"
  using assms
proof (induction ms arbitrary: x)
  case Nil
  then show ?case by (subst slob_find.simps) (auto simp: not_less)
next
  case (Cons y ms)
  have "slob_find (unit_addr b) nx (unit_addr (fst x)) = slob_find (unit_addr b) nx (unit_addr (fst y))"
    using Cons.prems by (subst slob_find.simps) (auto simp: not_less)
  also have "\<dots> = slob_find (unit_addr b) nx (unit_addr (fst w))"
    by (rule Cons.IH) (use Cons.prems in auto)
  finally show ?case .
qed

text \<open>From a block above \<open>b\<close> it goes to the end and round to the first block.\<close>

lemma slob_find_right:
  assumes "chain nx (x # vs) (unit_addr f)" and "sorted_wrt (\<lambda>x y. fst x < fst y) (x # vs)"
    and "\<forall>y\<in>set (x # vs). b < fst y \<and> fst y < 2 ^ 60" and "b < 2 ^ 60" and "f < b"
  shows "slob_find (unit_addr b) nx (unit_addr (fst x)) = slob_find (unit_addr b) nx (unit_addr f)"
  using assms
proof (induction vs arbitrary: x)
  case Nil
  then show ?case by (subst slob_find.simps) (auto simp: not_less)
next
  case (Cons y vs)
  have "slob_find (unit_addr b) nx (unit_addr (fst x)) = slob_find (unit_addr b) nx (unit_addr (fst y))"
    using Cons.prems by (subst slob_find.simps) (auto simp: not_less)
  also have "\<dots> = slob_find (unit_addr b) nx (unit_addr f)"
    by (rule Cons.IH) (use Cons.prems in auto)
  finally show ?case .
qed

lemma slob_find_spec:
  assumes chain: "chain nx (ws @ w # ys) (hd_addr (ws @ w # ys) 0)"
    and sorted: "sorted_wrt (\<lambda>x y. fst x < fst y) (ws @ w # ys)"
    and bound: "\<forall>y\<in>set (ws @ w # ys). fst y < 2 ^ 60"
    and left: "\<forall>x\<in>set (ws @ [w]). fst x < b" and right: "\<forall>y\<in>set ys. b < fst y" and b: "b < 2 ^ 60"
    and x: "x \<in> set (ws @ w # ys)"
  shows "slob_find (unit_addr b) nx (unit_addr (fst x)) = Some (unit_addr (fst w))"
proof -
  have at_w: "slob_find (unit_addr b) nx (unit_addr (fst w)) = Some (unit_addr (fst w))"
  proof (cases ys)
    case Nil
    have "\<exists>f. hd_addr (ws @ w # ys) 0 = unit_addr f \<and> f \<le> fst w \<and> f < b"
      using sorted left by (cases ws) (auto simp: sorted_wrt_append)
    then obtain f where "nx (unit_addr (fst w)) = unit_addr f" "f \<le> fst w" "f < b"
      using chain Nil by auto
    then show ?thesis using bound left b by (subst slob_find.simps) auto
  next
    case (Cons y ys')
    then show ?thesis using chain left right bound b by (subst slob_find.simps) auto
  qed
  have from_left: "slob_find (unit_addr b) nx (unit_addr (fst y)) = Some (unit_addr (fst w))"
    if y: "y \<in> set (ws @ [w])" for y
  proof (cases "y = w")
    case False
    then obtain as bs where "ws = as @ y # bs" using y by (auto dest: split_list)
    then show ?thesis
      using slob_find_left [of nx y bs w ys "hd_addr (ws @ w # ys) 0" b] chain sorted left b at_w
      by (simp add: sorted_wrt_append)
  qed (simp add: at_w)
  show ?thesis
  proof (cases "x \<in> set ys")
    case True
    then obtain as bs where ys: "ys = as @ x # bs" by (auto dest: split_list)
    obtain h where h: "h \<in> set (ws @ [w])" "hd_addr (ws @ w # ys) 0 = unit_addr (fst h)" by (cases ws) auto
    have "slob_find (unit_addr b) nx (unit_addr (fst x)) = slob_find (unit_addr b) nx (unit_addr (fst h))"
      using chain sorted bound right left h b
      by (intro slob_find_right [where vs = bs]) (auto simp: ys sorted_wrt_append)
    then show ?thesis using from_left [OF h(1)] by simp
  qed (use x from_left in auto)
qed

subsection \<open>slob_link and slob_free\<close>

lemma sb_set [simp]:
  "sb_units (set_units p v s) = (sb_units s)(p := v)" "sb_next (set_units p v s) = sb_next s"
  "sb_units (set_next_block p u s) = sb_units s" "sb_next (set_next_block p u s) = (sb_next s)(p := u)"
  "slobfree (set_units p v s) = slobfree s" "slobfree (set_next_block p u s) = slobfree s"
  "sb_units (s\<lparr>slobfree := c\<rparr>) = sb_units s" "sb_next (s\<lparr>slobfree := c\<rparr>) = sb_next s"
  by (auto simp: sb_units_def sb_next_def set_units_def set_next_block_def fun_eq_iff)

lemma slob_link_join:
  assumes "slob_plus b (sb_units s b) = sb_next s cur" and "sb_next s cur \<noteq> b" and "cur \<noteq> b"
    and "cur \<noteq> sb_next s cur"
  defines "n \<equiv> sb_next s cur"
  shows "slob_link b cur s =
    (let s1 = set_next_block b (sb_next s n) (set_units b (sb_units s b + sb_units s n) s)
     in (if slob_plus cur (sb_units s cur) = b
         then set_next_block cur (sb_next s n) (set_units cur (sb_units s cur + (sb_units s b + sb_units s n)) s1)
         else set_next_block cur b s1)\<lparr>slobfree := cur\<rparr>)"
  using assms by (simp add: slob_link_def Let_def)

lemma slob_link_apart:
  assumes "slob_plus b (sb_units s b) \<noteq> sb_next s cur" and "cur \<noteq> b"
  defines "n \<equiv> sb_next s cur"
  shows "slob_link b cur s =
    (let s1 = set_next_block b n s
     in (if slob_plus cur (sb_units s cur) = b
         then set_next_block cur n (set_units cur (sb_units s cur + sb_units s b) s1)
         else set_next_block cur b s1)\<lparr>slobfree := cur\<rparr>)"
  using assms by (simp add: slob_link_def Let_def)

text \<open>The first block is lower than the block given back and does not end at it.\<close>

lemma slob_rel_split:
  assumes "slob_rel s bs" and "fits_free b n bs" and "fst (hd bs) + snd (hd bs) < b" and "b + n < 2 ^ 60"
  obtains ws w ys where "bs = ws @ w # ys" "\<forall>x\<in>set (ws @ [w]). fst x + snd x \<le> b"
    "\<forall>y\<in>set ys. b + n \<le> fst y"
    "ff_free b n bs = (if fst w + snd w = b then ws @ join_right (fst w, snd w + n) ys
      else (ws @ [w]) @ join_right (b, n) ys)"
    "fst w + snd w = b \<Longrightarrow> ws \<noteq> []"
proof -
  have ne: "bs \<noteq> []" and wf: "wf_blocks bs"
    using assms(1) coalesced_wf by (auto simp: slob_rel_def)
  obtain xs ys where s: "bs = xs @ ys" "xs = takeWhile (\<lambda>x. fst x < b) bs" "ys = dropWhile (\<lambda>x. fst x < b) bs"
    "\<forall>x\<in>set xs. fst x + snd x \<le> b" "\<forall>y\<in>set ys. b + n \<le> fst y"
    using fits_free_split [OF assms(2) wf] .
  have "xs \<noteq> []" using assms(3) ne by (cases bs) (auto simp: s(2))
  then obtain ws w where xs: "xs = ws @ [w]" by (metis rev_exhaust)
  show ?thesis
  proof (rule that [of ws w ys])
    show "ff_free b n bs = (if fst w + snd w = b then ws @ join_right (fst w, snd w + n) ys
        else (ws @ [w]) @ join_right (b, n) ys)"
      using xs by (simp add: ff_free_def Let_def s(2,3) [symmetric] join_left_def)
    show "fst w + snd w = b \<Longrightarrow> ws \<noteq> []" using assms(3) by (auto simp: s(1) xs)
  qed (use s(1,4,5) xs in auto)
qed

lemma slob_bound_ff_free:
  assumes fits: "fits_free b n bs" and co: "coalesced bs" and bd: "slob_bound bs"
    and b: "b + n < 2 ^ 60" and sum: "sum_list (map snd bs) + n < 2 ^ 31"
  shows "slob_bound (ff_free b n bs)"
  unfolding slob_bound_def
proof
  note wf = coalesced_wf [OF co]
  show "sum_list (map snd (ff_free b n bs)) < 2 ^ 31" using ff_free_sum [OF fits wf] sum by simp
  show "\<forall>x\<in>set (ff_free b n bs). fst x + snd x < 2 ^ 60"
  proof
    fix x assume x: "x \<in> set (ff_free b n bs)"
    then have pos: "0 < snd x" using ff_free_coalesced [OF fits co] by (simp add: coalesced_def)
    then have "fst x + snd x - 1 \<in> pages_of (ff_free b n bs)" using x by (force simp: pages_of_def)
    then have "fst x + snd x - 1 \<in> pages_of bs \<union> {b..<b + n}" by (simp only: ff_free_pages [OF fits wf])
    then have "fst x + snd x - 1 + 1 < 2 ^ 60"
    proof
      assume "fst x + snd x - 1 \<in> pages_of bs"
      then obtain y where "y \<in> set bs" "fst x + snd x - 1 < fst y + snd y" by (auto simp: pages_of_def)
      then show ?thesis using bd by (fastforce simp: slob_bound_def)
    qed (use b in simp)
    then show "fst x + snd x < 2 ^ 60" using pos by simp
  qed
qed

text \<open>The stores of \<open>slob_link\<close>: the block right after the freed one is joined to it, then the freed one to
  the block before it.\<close>

lemma slob_link_effect:
  fixes b n w ys s f
  defines "L \<equiv> fst w + snd w = b" and "B \<equiv> unit_addr b" and "W \<equiv> unit_addr (fst w)" and "nx \<equiv> sb_next s"
    and "t \<equiv> slob_link (unit_addr b) (unit_addr (fst w)) s"
  assumes nx: "nx W = hd_addr ys f" "chain nx ys f" and f: "\<exists>i. f = unit_addr i \<and> i < b \<and> i < 2 ^ 60"
    and un: "sb_units s W = of_nat (snd w)" "\<forall>y\<in>set ys. sb_units s (unit_addr (fst y)) = of_nat (snd y)"
      "sb_units s B = of_nat n"
    and w: "fst w < b" "fst w + snd w < 2 ^ 60" "snd w < 2 ^ 31" and n: "0 < n" "n < 2 ^ 31" "b + n < 2 ^ 60"
    and ys: "\<forall>y\<in>set ys. fst y < 2 ^ 60"
  obtains m rest where "sb_units t = (if L then ((sb_units s)(B := of_nat m))(W := of_nat (snd w + m))
        else (sb_units s)(B := of_nat m))"
    "sb_next t = (if L then (nx(B := hd_addr rest f))(W := hd_addr rest f) else (nx(B := hd_addr rest f))(W := B))"
    "slobfree t = W" "set rest \<subseteq> set ys" "chain nx rest f"
    "join_right (b, n) ys = (b, m) # rest" "join_right (fst w, snd w + n) ys = (fst w, snd w + m) # rest \<or> \<not> L"
proof -
  have bw: "B \<noteq> W" using w n by (simp add: B_def W_def)
  have right: "slob_plus B (of_nat n) = unit_addr (b + n)" using n by (simp add: slob_plus_unit_addr B_def)
  have left: "slob_plus W (of_nat (snd w)) = B \<longleftrightarrow> L"
    using w n by (simp add: slob_plus_unit_addr B_def W_def L_def)
  show ?thesis
  proof (cases "\<exists>y ys'. ys = y # ys' \<and> fst y = b + n")
    case True
    then obtain y ys' where y: "ys = y # ys'" "fst y = b + n" by blast
    have nxt: "nx W = unit_addr (b + n)" "nx (unit_addr (b + n)) = hd_addr ys' f" using nx y by simp_all
    have "sb_units s (unit_addr (b + n)) = of_nat (snd y)" using un y by simp
    moreover have "unit_addr (b + n) \<noteq> B" "W \<noteq> B" "W \<noteq> unit_addr (b + n)"
      using w n by (simp_all add: B_def W_def)
    ultimately have "t = (let s1 = set_next_block B (hd_addr ys' f) (set_units B (of_nat (n + snd y)) s)
       in (if L then set_next_block W (hd_addr ys' f) (set_units W (of_nat (snd w + (n + snd y))) s1)
           else set_next_block W B s1)\<lparr>slobfree := W\<rparr>)"
      unfolding t_def B_def [symmetric] W_def [symmetric]
      by (subst slob_link_join) (simp_all add: nxt [unfolded nx_def] right left un cong: if_cong)
    then show ?thesis using nx(2) y
      by (intro that [of "n + snd y" ys']) (auto simp: Let_def join_right_def L_def nx_def)
  next
    case False
    have "unit_addr (b + n) \<noteq> nx W" using nx(1) f False n ys by (cases ys) auto
    then have "t = (let s1 = set_next_block B (hd_addr ys f) s
       in (if L then set_next_block W (hd_addr ys f) (set_units W (of_nat (snd w + n)) s1)
           else set_next_block W B s1)\<lparr>slobfree := W\<rparr>)"
      unfolding t_def B_def [symmetric] W_def [symmetric] using bw
      by (subst slob_link_apart) (simp_all add: nx(1) [unfolded nx_def] nx_def right left un cong: if_cong)
    moreover have "join_right (b, n) ys = (b, n) # ys" "L \<Longrightarrow> join_right (fst w, snd w + n) ys = (fst w, snd w + n) # ys"
      using False by (cases ys; auto simp: join_right_def L_def)+
    ultimately show ?thesis
      using nx(2) un(3) by (intro that [of n ys]) (auto simp: Let_def fun_upd_idem nx_def)
  qed
qed

lemma slob_link_spec:
  assumes rel: "slob_rel s bs" and fits: "fits_free b n bs" and above: "fst (hd bs) + snd (hd bs) < b"
    and b: "b + n < 2 ^ 60" and sum: "sum_list (map snd bs) + n < 2 ^ 31"
    and units: "sb_units s (unit_addr b) = of_nat n"
    and s: "bs = ws @ w # ys" "\<forall>x\<in>set (ws @ [w]). fst x + snd x \<le> b" "\<forall>y\<in>set ys. b + n \<le> fst y"
    and free: "ff_free b n bs = (if fst w + snd w = b then ws @ join_right (fst w, snd w + n) ys
      else (ws @ [w]) @ join_right (b, n) ys)"
    and ne: "fst w + snd w = b \<Longrightarrow> ws \<noteq> []"
  defines "t \<equiv> slob_link (unit_addr b) (unit_addr (fst w)) s"
  shows "slob_rel t (ff_free b n bs)"
    and "p \<noteq> unit_addr b \<Longrightarrow> p \<noteq> unit_addr (fst w) \<Longrightarrow> sb_units t p = sb_units s p \<and> sb_next t p = sb_next s p"
proof -
  let ?L = "fst w + snd w = b" and ?b = "unit_addr b" and ?w = "unit_addr (fst w)" and ?nx = "sb_next s"
  define f where "f = hd_addr bs 0"
  have co: "coalesced bs" and bd: "slob_bound bs"
    and un: "\<forall>x\<in>set bs. sb_units s (unit_addr (fst x)) = of_nat (snd x)"
    and ch: "chain ?nx bs f"
    using rel by (auto simp: slob_rel_def f_def)
  have n: "0 < n" using fits by (simp add: fits_free_def)
  have lim: "fst x < 2 ^ 60" "fst x + snd x < 2 ^ 60" "0 < snd x" "snd x < 2 ^ 31" if "x \<in> set bs" for x
    using that bd co slob_bound_mem [OF bd that] by (auto simp: slob_bound_def coalesced_def)
  note limw = lim [of w, unfolded s(1), simplified]
  have f: "\<exists>i. f = unit_addr i \<and> i < b \<and> i < 2 ^ 60"
    using above lim(1) [of "hd bs"] rel by (cases bs) (auto simp: slob_rel_def f_def)
  have wb: "fst w < b" using s(2) limw(3) by auto
  have bw: "?b \<noteq> ?w" using wb b by simp
  have out_ws: "?b \<notin> (\<lambda>x. unit_addr (fst x)) ` set ws" "?w \<notin> (\<lambda>x. unit_addr (fst x)) ` set ws"
    using s(2) lim co b wb by (force simp: s(1) blocks_simps)+
  have out_ys: "?b \<notin> (\<lambda>x. unit_addr (fst x)) ` set ys" "?w \<notin> (\<lambda>x. unit_addr (fst x)) ` set ys"
    using s(3) lim co b n wb by (force simp: s(1) blocks_simps)+
  have chain: "chain ?nx ws ?w" "?nx ?w = hd_addr ys f" "chain ?nx ys f" using ch by (simp_all add: s(1))
  have unw: "sb_units s ?w = of_nat (snd w)" "\<forall>y\<in>set ys. sb_units s (unit_addr (fst y)) = of_nat (snd y)"
    "\<forall>y\<in>set ys. fst y < 2 ^ 60" "n < 2 ^ 31" "fst w + snd w < 2 ^ 60" "snd w < 2 ^ 31"
    using un lim sum by (auto simp: s(1))
  obtain m rest where t: "sb_units t = (if ?L then ((sb_units s)(?b := of_nat m))(?w := of_nat (snd w + m))
        else (sb_units s)(?b := of_nat m))"
      "sb_next t = (if ?L then (?nx(?b := hd_addr rest f))(?w := hd_addr rest f)
        else (?nx(?b := hd_addr rest f))(?w := ?b))" "slobfree t = ?w"
    and rest: "set rest \<subseteq> set ys" "chain ?nx rest f"
    and join: "join_right (b, n) ys = (b, m) # rest" "join_right (fst w, snd w + n) ys = (fst w, snd w + m) # rest \<or> \<not> ?L"
    unfolding t_def
    by (rule slob_link_effect [OF chain(2,3) f unw(1,2) units wb unw(5,6) n unw(4) b unw(3)])
  have free': "ff_free b n bs = (if ?L then ws @ (fst w, snd w + m) # rest else ws @ w # (b, m) # rest)"
    using join free by auto
  show "sb_units t p = sb_units s p \<and> sb_next t p = ?nx p" if "p \<noteq> ?b" "p \<noteq> ?w"
    using that by (simp add: t)
  have out_rest: "?b \<notin> (\<lambda>x. unit_addr (fst x)) ` set rest" "?w \<notin> (\<lambda>x. unit_addr (fst x)) ` set rest"
    using out_ys rest(1) by blast+
  have "f = hd_addr (ws @ w # ys) 0" by (simp only: f_def s(1))
  then have hd: "hd_addr (ff_free b n bs) 0 = f" by (cases ws) (simp_all add: free')
  have "chain (sb_next t) (ff_free b n bs) f"
    using chain(1) rest(2) out_ws out_rest bw by (simp add: t(2) free')
  moreover have "\<forall>x\<in>set (ff_free b n bs). sb_units t (unit_addr (fst x)) = of_nat (snd x)"
  proof -
    have "\<forall>x\<in>set ws \<union> set rest. sb_units s (unit_addr (fst x)) = of_nat (snd x)"
      using un rest(1) by (auto simp: s(1))
    moreover have "\<forall>x\<in>set ws \<union> set rest. unit_addr (fst x) \<noteq> ?b \<and> unit_addr (fst x) \<noteq> ?w"
      using out_ws out_rest by (metis (no_types, lifting) UnE image_eqI)
    ultimately have "\<forall>x\<in>set ws \<union> set rest. sb_units t (unit_addr (fst x)) = of_nat (snd x)" by (simp add: t(1))
    moreover have "sb_units t ?w = of_nat (if ?L then snd w + m else snd w)" "\<not> ?L \<Longrightarrow> sb_units t ?b = of_nat m"
      using bw unw(1) by (simp_all add: t(1))
    ultimately show ?thesis unfolding free' by simp
  qed
  moreover have "slobfree t \<in> (\<lambda>x. unit_addr (fst x)) ` set (ff_free b n bs)" "ff_free b n bs \<noteq> []"
    by (simp_all add: t(3) free')
  ultimately show "slob_rel t (ff_free b n bs)"
    unfolding slob_rel_def hd using ff_free_coalesced [OF fits co] slob_bound_ff_free [OF fits co bd b sum] by blast
qed

text \<open>Two states that differ at most in the heap cells and \<open>slobfree\<close>.\<close>

definition heap_same :: "'z heap_state_scheme \<Rightarrow> 'z heap_state_scheme \<Rightarrow> bool" where
  "heap_same s t \<longleftrightarrow> (\<exists>a b c. t = s\<lparr>heap32 := a, heap64 := b, slobfree := c\<rparr>)"

lemma heap_same_refl [simp]: "heap_same s s"
  unfolding heap_same_def
  by (intro exI [of _ "heap32 s"] exI [of _ "heap64 s"] exI [of _ "slobfree s"]) simp

lemma heap_same_trans: "heap_same s t \<Longrightarrow> heap_same t u \<Longrightarrow> heap_same s u"
  unfolding heap_same_def by fastforce

lemma heap_same_set:
  "heap_same s (set_units p v s)" "heap_same s (set_next_block p u s)" "heap_same s (s\<lparr>slobfree := c\<rparr>)"
  unfolding heap_same_def set_units_def set_next_block_def
  by (intro exI [of _ "(heap32 s)(p := v)"] exI [of _ "heap64 s"] exI [of _ "slobfree s"], simp)
    (intro exI [of _ "heap32 s"] exI [of _ "(heap64 s)(p + 8 := u)"] exI [of _ "slobfree s"], simp,
     intro exI [of _ "heap32 s"] exI [of _ "heap64 s"] exI [of _ c], simp)

lemma heap_same_link: "heap_same s (slob_link b cur s)"
  unfolding slob_link_def Let_def by (auto intro!: heap_same_set heap_same_trans [OF _ heap_same_set(3)]
      heap_same_trans [OF _ heap_same_set(2)] heap_same_trans [OF _ heap_same_set(1)])

lemma heap_same_sel:
  assumes "heap_same s t"
  shows "sstatus t = sstatus s" "pages t = pages s" "npage t = npage s" "va_pa_offset t = va_pa_offset s"
    "free_list t = free_list s" "nr_free t = nr_free s" "ptes t = ptes s" "tlb t = tlb s" "arena t = arena s"
    "bigblocks t = bigblocks s" "boot_pgdir_pa t = boot_pgdir_pa s" "heap_state.more t = heap_state.more s"
  using assms by (auto simp: heap_same_def)

lemma heap_same_masked:
  assumes "intr_save s = (flag, s1)" and "heap_same s1 t"
  shows "heap_same s (intr_restore flag t)" "intr_restore flag t = t\<lparr>sstatus := sstatus s\<rparr>"
proof -
  obtain a b c where t: "t = s1\<lparr>heap32 := a, heap64 := b, slobfree := c\<rparr>"
    using assms(2) by (auto simp: heap_same_def)
  show eq: "intr_restore flag t = t\<lparr>sstatus := sstatus s\<rparr>"
    by (rule intr_restore_saved [OF assms(1)]) (simp add: t)
  note eq
  also have "t\<lparr>sstatus := sstatus s\<rparr> = s\<lparr>heap32 := a, heap64 := b, slobfree := c\<rparr>"
    unfolding t by (subst intr_save_fields [OF assms(1)]) simp
  finally show "heap_same s (intr_restore flag t)" unfolding heap_same_def by blast
qed

lemma slob_rel_cong:
  assumes "slobfree t = slobfree s" "sb_next t = sb_next s"
    and "\<And>x. x \<in> set bs \<Longrightarrow> sb_units t (unit_addr (fst x)) = sb_units s (unit_addr (fst x))"
  shows "slob_rel t bs \<longleftrightarrow> slob_rel s bs"
  using assms by (simp add: slob_rel_def)

lemma sb_sstatus [simp]:
  "sb_units (s\<lparr>sstatus := v\<rparr>) = sb_units s" "sb_next (s\<lparr>sstatus := v\<rparr>) = sb_next s"
  by (auto simp: sb_units_def sb_next_def fun_eq_iff)

lemma slob_rel_sstatus [simp]: "slob_rel (s\<lparr>sstatus := v\<rparr>) bs \<longleftrightarrow> slob_rel s bs"
  by (rule slob_rel_cong) simp_all

text \<open>The cells of the units outside \<open>A\<close> are the same in both states.\<close>

definition same_outside :: "nat set \<Rightarrow> 'z heap_state_scheme \<Rightarrow> 'z heap_state_scheme \<Rightarrow> bool" where
  "same_outside A s t \<longleftrightarrow> (\<forall>p. p \<notin> unit_addr ` A \<longrightarrow> sb_units t p = sb_units s p \<and> sb_next t p = sb_next s p)"

text \<open>The number of units \<open>slob_free\<close> takes the block to have.\<close>

definition freed_units :: "u32 \<Rightarrow> nat \<Rightarrow> nat \<Rightarrow> 'z heap_state_scheme \<Rightarrow> bool" where
  "freed_units sz b n s \<longleftrightarrow>
     (if sz = 0 then sb_units s (unit_addr b) else ucast (SLOB_UNITS (scast sz))) = of_nat n"

lemma slob_free_spec:
  assumes rel: "slob_rel s bs" and fits: "fits_free b n bs" and above: "fst (hd bs) + snd (hd bs) < b"
    and b: "b + n < 2 ^ 60" and sum: "sum_list (map snd bs) + n < 2 ^ 31" and units: "freed_units sz b n s"
  obtains t where "slob_free (unit_addr b) sz s = ret t" "slob_rel t (ff_free b n bs)" "heap_same s t"
    "same_outside (pages_of (ff_free b n bs)) s t"
proof -
  have co: "coalesced bs" and bd: "slob_bound bs" using rel by (auto simp: slob_rel_def)
  have n: "0 < n" using fits by (simp add: fits_free_def)
  obtain ws w ys where s: "bs = ws @ w # ys" "\<forall>x\<in>set (ws @ [w]). fst x + snd x \<le> b"
      "\<forall>y\<in>set ys. b + n \<le> fst y"
      "ff_free b n bs = (if fst w + snd w = b then ws @ join_right (fst w, snd w + n) ys
        else (ws @ [w]) @ join_right (b, n) ys)" "fst w + snd w = b \<Longrightarrow> ws \<noteq> []"
    using slob_rel_split [OF rel fits above b] by blast
  define s1 where "s1 = (if sz \<noteq> 0 then set_units (unit_addr b) (ucast (SLOB_UNITS (scast sz))) s else s)"
  obtain flag s2 where sv: "intr_save s1 = (flag, s2)" by fastforce
  note s2 = intr_save_fields [OF sv]
  have lim: "fst x < 2 ^ 60" "0 < snd x" if "x \<in> set bs" for x
    using slob_bound_mem [OF bd that] co that by (auto simp: coalesced_def)
  have start: "unit_addr (fst x) \<noteq> unit_addr b" if "x \<in> set bs" for x
  proof -
    have "fst x + snd x \<le> b \<or> b + n \<le> fst x" using that s(2,3) by (auto simp: s(1))
    then have "fst x \<noteq> b" using lim(2) [OF that] n by linarith
    then show ?thesis using lim(1) [OF that] b by simp
  qed
  have s1: "slob_rel s1 bs" "sb_units s1 (unit_addr b) = of_nat n" "heap_same s s1" "sb_next s1 = sb_next s"
    "p \<noteq> unit_addr b \<Longrightarrow> sb_units s1 p = sb_units s p" for p
    using rel units start unfolding s1_def freed_units_def
    by (auto simp: slob_rel_def heap_same_set)
  have rel2: "slob_rel s2 bs" by (subst s2) (simp add: s1(1))
  have units2: "sb_units s2 = sb_units s1" "sb_next s2 = sb_next s1" by (subst s2, simp)+
  have "slob_find (unit_addr b) (sb_next s2) (slobfree s2) = Some (unit_addr (fst w))"
  proof -
    obtain x where x: "x \<in> set bs" "slobfree s2 = unit_addr (fst x)" using rel2 by (auto simp: slob_rel_def)
    have "sorted_wrt (\<lambda>x y. fst x < fst y) bs"
      using co by (auto simp: coalesced_def intro: sorted_wrt_mono_rel [of bs "\<lambda>x y. fst x + snd x < fst y"])
    moreover have "\<forall>y\<in>set ys. b < fst y" using s(3) n by fastforce
    moreover have "\<forall>x\<in>set (ws @ [w]). fst x < b" using s(2) lim by (fastforce simp: s(1))
    ultimately show ?thesis
      unfolding x(2) using rel2 lim b x(1)
      by (intro slob_find_spec [of _ ws w ys]) (auto simp: slob_rel_def s(1))
  qed
  moreover define t where "t = intr_restore flag (slob_link (unit_addr b) (unit_addr (fst w)) s2)"
  moreover have "unit_addr b \<noteq> 0" using above b by simp
  ultimately have run: "slob_free (unit_addr b) sz s = ret t"
    unfolding slob_free_def using sv by (simp add: s1_def [symmetric])
  note link = slob_link_spec [OF rel2 fits above b sum _ s(1-5)]
  note t = heap_same_masked [OF sv heap_same_link [of s2], of "unit_addr b" "unit_addr (fst w)"]
  have pw: "b \<in> pages_of (ff_free b n bs)" "fst w \<in> pages_of (ff_free b n bs)"
    using ff_free_pages [OF fits coalesced_wf [OF co]] n lim by (auto simp: s(1))
  show ?thesis
  proof (rule that [of t])
    show "slob_rel t (ff_free b n bs)" using link(1) units2 s1(2) by (simp add: t_def t(2))
    show "heap_same s t" unfolding t_def by (rule heap_same_trans [OF s1(3) t(1)])
    show "same_outside (pages_of (ff_free b n bs)) s t"
      unfolding same_outside_def
    proof (intro allI impI)
      fix p assume "p \<notin> unit_addr ` pages_of (ff_free b n bs)"
      then have "p \<noteq> unit_addr b" "p \<noteq> unit_addr (fst w)" using pw by blast+
      then show "sb_units t p = sb_units s p \<and> sb_next t p = sb_next s p"
        using link(2) [of p] units2 s1 by (simp add: t_def t(2))
    qed
  qed (rule run)
qed

subsection \<open>slob_alloc\<close>

text \<open>What is left of the block at \<open>c\<close> when \<open>n\<close> of its \<open>k\<close> units are taken.\<close>

definition rest_block :: "nat \<Rightarrow> nat \<Rightarrow> nat \<Rightarrow> block list" where
  "rest_block n c k = (if n < k then [(c + n, k - n)] else [])"

text \<open>A block that fits exactly leaves the ring; a larger one is cut, and its rest takes its place.\<close>

lemma slob_take_exact:
  assumes rel: "slob_rel s (us @ (c, n) # vs)" and ne: "us \<noteq> []" and n: "n < 2 ^ 31"
  shows "slob_take (of_nat n) 0 0 (unit_addr (fst (last us))) (unit_addr c) s =
    (unit_addr c, (set_next_block (unit_addr (fst (last us))) (hd_addr vs (hd_addr us 0)) s)
       \<lparr>slobfree := unit_addr (fst (last us))\<rparr>)"
proof -
  have "chain (sb_next s) (us @ (c, n) # vs) (hd_addr us 0)"
    using rel ne by (cases us) (simp_all add: slob_rel_def)
  then have "sb_next s (unit_addr c) = hd_addr vs (hd_addr us 0)" using ne by (cases us) simp_all
  moreover have "sb_units s (unit_addr c) = of_nat n" using rel by (simp add: slob_rel_def)
  ultimately show ?thesis by (simp add: slob_take_def Let_def)
qed


lemma slob_take_cut:
  assumes rel: "slob_rel s (us @ (c, k) # vs)" and ne: "us \<noteq> []" and n: "0 < n" "n < k" "k < 2 ^ 31" "c + k < 2 ^ 60"
    and p: "unit_addr (fst (last us)) \<noteq> unit_addr c" "unit_addr (fst (last us)) \<noteq> unit_addr (c + n)"
  shows "slob_take (of_nat n) 0 0 (unit_addr (fst (last us))) (unit_addr c) s =
    (unit_addr c, (set_units (unit_addr c) (of_nat n) (set_next_block (unit_addr (c + n)) (hd_addr vs (hd_addr us 0))
       (set_units (unit_addr (c + n)) (of_nat (k - n)) (set_next_block (unit_addr (fst (last us))) (unit_addr (c + n)) s))))
       \<lparr>slobfree := unit_addr (fst (last us))\<rparr>)"
proof -
  have "chain (sb_next s) (us @ (c, k) # vs) (hd_addr us 0)"
    using rel ne by (cases us) (simp_all add: slob_rel_def)
  then have "sb_next s (unit_addr c) = hd_addr vs (hd_addr us 0)" using ne by (cases us) simp_all
  moreover have "sb_units s (unit_addr c) = of_nat k" using rel by (simp add: slob_rel_def)
  moreover have "slob_plus (unit_addr c) (of_nat n) = unit_addr (c + n)" using n by (simp add: slob_plus_unit_addr)
  moreover have "(of_nat k - of_nat n :: u32) = of_nat (k - n)" using n by simp
  moreover have "(of_nat k :: u32) \<noteq> of_nat n" using n by (simp add: of_nat_u32_eq)
  moreover have "unit_addr (c + n) \<noteq> unit_addr c" using n by simp
  ultimately show ?thesis using p by (simp add: slob_take_def Let_def)
qed

text \<open>The list stays well formed when its block at \<open>c\<close> loses its first \<open>n\<close> units.\<close>

lemma rest_block_ok:
  assumes "coalesced (us @ (c, k) # vs)" and "slob_bound (us @ (c, k) # vs)" and n: "0 < n" "n \<le> k"
  shows "coalesced (us @ rest_block n c k @ vs)" "slob_bound (us @ rest_block n c k @ vs)"
proof -
  have "\<forall>x\<in>set us. fst x + snd x < c" using assms(1) by (auto simp: blocks_simps)
  then have "\<forall>x\<in>set us. fst x + snd x < c + n" by (meson trans_less_add1)
  then show "coalesced (us @ rest_block n c k @ vs)" using assms(1) n by (auto simp: blocks_simps rest_block_def)
  show "slob_bound (us @ rest_block n c k @ vs)" using assms(2) n by (auto simp: slob_bound_def rest_block_def)
qed

text \<open>The headers that the cut writes are not those of the other blocks.\<close>

lemma cut_apart:
  assumes co: "coalesced (as @ p # (c, k) # vs)" and bd: "slob_bound (as @ p # (c, k) # vs)" and n: "0 < n" "n \<le> k"
  defines "heads xs \<equiv> (\<lambda>x. unit_addr (fst x)) ` set xs"
  shows "unit_addr c \<notin> heads (as @ p # vs)" "unit_addr (fst p) \<notin> heads (as @ vs)"
    "n < k \<Longrightarrow> unit_addr (c + n) \<notin> heads (as @ p # (c, k) # vs)"
proof -
  have lim: "fst x < 2 ^ 60" "fst x + snd x < 2 ^ 60" if "x \<in> set (as @ p # (c, k) # vs)" for x
    using slob_bound_mem [OF bd that] that bd by (auto simp: slob_bound_def)
  have "unit_addr c \<noteq> unit_addr (fst x)" "n < k \<Longrightarrow> unit_addr (c + n) \<noteq> unit_addr (fst x)"
    if "x \<in> set (as @ p # vs)" for x
    using co that n lim [of x] lim [of "(c, k)"] by (auto simp: blocks_simps)
  moreover have "unit_addr (fst p) \<noteq> unit_addr (fst x)" if "x \<in> set (as @ vs)" for x
    using co that n lim [of x] lim [of p] by (auto simp: blocks_simps)
  moreover have "n < k \<Longrightarrow> unit_addr (c + n) \<noteq> unit_addr c" using n lim [of "(c, k)"] by simp
  ultimately show "unit_addr c \<notin> heads (as @ p # vs)" "unit_addr (fst p) \<notin> heads (as @ vs)"
    "n < k \<Longrightarrow> unit_addr (c + n) \<notin> heads (as @ p # (c, k) # vs)"
    unfolding heads_def by (simp_all add: image_iff)
qed

lemma slob_take_spec:
  assumes rel: "slob_rel s (us @ (c, k) # vs)" and ne: "us \<noteq> []" and n: "0 < n" "n \<le> k"
  defines "r \<equiv> slob_take (of_nat n) 0 0 (unit_addr (fst (last us))) (unit_addr c) s"
  shows "fst r = unit_addr c" and "slob_rel (snd r) (us @ rest_block n c k @ vs)"
    and "sb_units (snd r) (unit_addr c) = of_nat n" and "heap_same s (snd r)"
    and "same_outside (pages_of (us @ (c, k) # vs)) s (snd r)"
    and "slobfree (snd r) = unit_addr (fst (last us))"
proof -
  let ?bs = "us @ (c, k) # vs" and ?nx = "sb_next s" and ?p = "unit_addr (fst (last us))"
  let ?q = "unit_addr (c + n)" and ?c = "unit_addr c"
  obtain as p where us: "us = as @ [p]" using ne by (metis rev_exhaust)
  define f where "f = hd_addr us 0"
  have co: "coalesced ?bs" and bd: "slob_bound ?bs"
    and un: "\<forall>x\<in>set ?bs. sb_units s (unit_addr (fst x)) = of_nat (snd x)"
    using rel by (auto simp: slob_rel_def)
  have f: "hd_addr us z = f" for z using ne by (cases us) (simp_all add: f_def)
  then have "chain ?nx ?bs f" using rel by (simp add: slob_rel_def)
  then have chain: "chain ?nx as ?p" "chain ?nx vs f" by (simp_all add: us)
  have k: "k < 2 ^ 31" "c + k < 2 ^ 60" "0 < snd p" using bd co by (auto simp: us slob_bound_def coalesced_def)
  note ok = rest_block_ok [OF co bd n] and out = cut_apart [of as p c k vs n, OF _ _ n]
  have out: "?c \<noteq> ?p" "\<forall>x\<in>set as \<union> set vs. ?c \<noteq> unit_addr (fst x) \<and> ?p \<noteq> unit_addr (fst x)"
    "?p \<notin> (\<lambda>x. unit_addr (fst x)) ` set as" "?p \<notin> (\<lambda>x. unit_addr (fst x)) ` set vs"
    and q: "n < k \<Longrightarrow> ?q \<noteq> ?c \<and> ?q \<noteq> ?p \<and> (\<forall>x\<in>set as \<union> set vs. ?q \<noteq> unit_addr (fst x))"
    "n < k \<Longrightarrow> ?q \<notin> (\<lambda>x. unit_addr (fst x)) ` set as" "n < k \<Longrightarrow> ?q \<notin> (\<lambda>x. unit_addr (fst x)) ` set vs"
    using out co bd by (auto simp: us)
  have fp: "hd_addr as (unit_addr (fst p)) = f" using f [of 0] by (simp add: us)
  have mem: "?c \<in> unit_addr ` pages_of ?bs" "?p \<in> unit_addr ` pages_of ?bs" "n < k \<Longrightarrow> ?q \<in> unit_addr ` pages_of ?bs"
    using n k(3) by (auto simp: us pages_of_def)
  have "slob_rel (snd r) (us @ rest_block n c k @ vs) \<and> sb_units (snd r) ?c = of_nat n \<and>
    same_outside (pages_of ?bs) s (snd r)"
  proof (cases "n = k")
    case True
    have t: "snd r = (set_next_block ?p (hd_addr vs f) s)\<lparr>slobfree := ?p\<rparr>"
      unfolding r_def f_def using slob_take_exact [of s us c k vs] rel ne k(1) True by simp
    have "slob_rel (snd r) (us @ rest_block n c k @ vs)"
      unfolding slob_rel_def using ok un chain out(3,4) True by (auto simp: t us fp rest_block_def)
    then show ?thesis using un True mem(2) by (auto simp: t same_outside_def)
  next
    case False
    then have lt: "n < k" using n by simp
    have t: "snd r = (set_units ?c (of_nat n) (set_next_block ?q (hd_addr vs f) (set_units ?q (of_nat (k - n))
        (set_next_block ?p ?q s))))\<lparr>slobfree := ?p\<rparr>"
      unfolding r_def f_def using slob_take_cut [OF rel ne n(1) lt k(1,2)] out(1) q(1) [OF lt] by fastforce
    have "\<forall>x\<in>set as \<union> set vs. sb_units (snd r) (unit_addr (fst x)) = of_nat (snd x)"
      using un out(2) q(1) [OF lt] by (simp add: t us) (metis Un_iff)
    moreover have "sb_units (snd r) ?p = of_nat (snd p)" "sb_units (snd r) ?q = of_nat (k - n)"
      "chain (sb_next (snd r)) as ?p" "chain (sb_next (snd r)) vs f"
      "sb_next (snd r) ?p = ?q" "sb_next (snd r) ?q = hd_addr vs f" "slobfree (snd r) = ?p"
      using un out q lt chain q(1) [OF lt, THEN conjunct2, THEN conjunct1, THEN not_sym] by (simp_all add: t us)
    ultimately have "slob_rel (snd r) (us @ rest_block n c k @ vs)"
      unfolding slob_rel_def using ok lt by (auto simp: us fp rest_block_def)
    then show ?thesis using mem lt by (auto simp: same_outside_def t)
  qed
  then show "slob_rel (snd r) (us @ rest_block n c k @ vs)" "sb_units (snd r) ?c = of_nat n"
    "same_outside (pages_of ?bs) s (snd r)" by blast+
  show "heap_same s (snd r)"
    by (auto simp: r_def slob_take_def Let_def intro!: heap_same_set heap_same_trans [OF _ heap_same_set(3)]
      heap_same_trans [OF _ heap_same_set(2)] heap_same_trans [OF _ heap_same_set(1)])
  show "fst r = ?c" "slobfree (snd r) = ?p" by (simp_all add: r_def slob_take_def Let_def)
qed

text \<open>The scan over the blocks \<open>os\<close> that are too small, up to a block that fits or back to \<open>slobfree\<close>.\<close>

lemma slob_loop_hit:
  assumes "chain (sb_next s) (y # os @ [(c, k)]) z"
    and "\<forall>x\<in>set os. sb_units s (unit_addr (fst x)) = of_nat (snd x) \<and> snd x < n \<and>
      unit_addr (fst x) \<noteq> slobfree s"
    and "sb_units s (unit_addr c) = of_nat k" and "n \<le> k" and "k < 2 ^ 31"
    and "p = unit_addr (fst y)" and "q = sb_next s p"
  shows "slob_loop sz (of_nat n) 0 flag p q s =
    (case slob_take (of_nat n) 0 0 (unit_addr (fst (last (y # os)))) (unit_addr c) s of
       (m, t) \<Rightarrow> ret (m, intr_restore flag t))"
  using assms
proof (induction os arbitrary: y p q)
  case Nil
  then show ?case by (subst slob_loop.simps) (simp add: sint_of_nat_u32)
next
  case (Cons x os)
  have "snd x < n" and "sb_units s (unit_addr (fst x)) = of_nat (snd x)"
      and "unit_addr (fst x) \<noteq> slobfree s" and q: "q = unit_addr (fst x)"
    using Cons.prems by simp_all
  then have "slob_loop sz (of_nat n) 0 flag p q s = slob_loop sz (of_nat n) 0 flag q (sb_next s q) s"
    using Cons.prems(4,5) by (subst slob_loop.simps) (simp add: sint_of_nat_u32)
  also have "\<dots> = (case slob_take (of_nat n) 0 0 (unit_addr (fst (last (x # os)))) (unit_addr c) s of
       (m, t) \<Rightarrow> ret (m, intr_restore flag t))"
    by (rule Cons.IH [where y = x]) (use Cons.prems q in simp_all)
  finally show ?case by simp
qed

text \<open>What the loop does when it is back at \<open>slobfree\<close>: the heap grows by a page.\<close>

definition slob_grow :: "u64 \<Rightarrow> u32 \<Rightarrow> 'z heap_state_scheme \<Rightarrow> (u64 \<times> 'z heap_state_scheme) run" where
  "slob_grow sz units s =
     (if sz = PGSIZE then ret (0, s)
      else run_bind (slob_get_free_pages 0 s) (\<lambda>ps. 
        if fst ps = 0 then ret (0, snd ps)
        else run_bind (slob_free (fst ps) (ucast PGSIZE) (snd ps)) (\<lambda>s.
          slob_loop sz units 0 (fst (intr_save s)) (slobfree s) (sb_next s (slobfree s))
            (snd (intr_save s)))))"

lemma slob_loop_miss:
  assumes "chain (sb_next s) (y # os @ [x]) z"
    and "\<forall>x\<in>set (os @ [x]). sb_units s (unit_addr (fst x)) = of_nat (snd x) \<and> snd x < n"
    and "\<forall>x\<in>set os. unit_addr (fst x) \<noteq> slobfree s" and "unit_addr (fst x) = slobfree s"
    and "n < 2 ^ 31" and "p = unit_addr (fst y)" and "q = sb_next s p"
  shows "slob_loop sz (of_nat n) 0 flag p q s = slob_grow sz (of_nat n) (intr_restore flag s)"
  using assms
proof (induction os arbitrary: y p q)
  case Nil
  then show ?case by (subst slob_loop.simps) (simp add: sint_of_nat_u32 slob_grow_def Let_def)
next
  case (Cons w os)
  have "snd w < n" and "sb_units s (unit_addr (fst w)) = of_nat (snd w)"
      and "unit_addr (fst w) \<noteq> slobfree s" and q: "q = unit_addr (fst w)"
    using Cons.prems by simp_all
  then have "slob_loop sz (of_nat n) 0 flag p q s = slob_loop sz (of_nat n) 0 flag q (sb_next s q) s"
    using Cons.prems(5) by (subst slob_loop.simps) (simp add: sint_of_nat_u32)
  also have "\<dots> = slob_grow sz (of_nat n) (intr_restore flag s)"
    by (rule Cons.IH [where y = w]) (use Cons.prems q in simp_all)
  finally show ?case .
qed

end
