(* ===== verification/SlobAlloc.thy ===== *)
theory SlobAlloc
  imports Slob
begin

unbundle bit_operations_syntax

text \<open>
  \<open>slob_alloc\<close> of kern/mm/kmalloc.c is a next-fit search: it goes round the ring from the block after
  \<open>slobfree\<close> and takes the first block with room. A round without success makes the heap larger by one
  page, which the second round finds.
\<close>

subsection \<open>The order of the search\<close>

definition ring_from :: "u64 \<Rightarrow> block list \<Rightarrow> block list" where
  "ring_from a bs =
     (case dropWhile (\<lambda>x. unit_addr (fst x) \<noteq> a) bs of
        [] \<Rightarrow> bs
      | x # vs \<Rightarrow> vs @ takeWhile (\<lambda>x. unit_addr (fst x) \<noteq> a) bs @ [x])"

definition next_fit :: "nat \<Rightarrow> u64 \<Rightarrow> block list \<Rightarrow> block option" where
  "next_fit n a bs = find (\<lambda>x. n \<le> snd x) (ring_from a bs)"

lemma ring_from_split:
  assumes "unit_addr (fst x) = a" and "\<forall>y\<in>set us. unit_addr (fst y) \<noteq> a"
  shows "ring_from a (us @ x # vs) = vs @ us @ [x]"
  using assms by (simp add: ring_from_def dropWhile_append takeWhile_append)

lemma next_fit_None: "next_fit n a bs = None \<longleftrightarrow> (\<forall>x\<in>set bs. snd x < n)"
proof -
  have "set (ring_from a bs) = set bs"
  proof (cases "dropWhile (\<lambda>x. unit_addr (fst x) \<noteq> a) bs")
    case (Cons x vs)
    have "set bs = set (takeWhile (\<lambda>x. unit_addr (fst x) \<noteq> a) bs @ dropWhile (\<lambda>x. unit_addr (fst x) \<noteq> a) bs)"
      by simp
    also have "\<dots> = set (ring_from a bs)" unfolding ring_from_def Cons by auto
    finally show ?thesis by simp
  next
    case Nil
    then show ?thesis by (simp only: ring_from_def list.case)
  qed
  then show ?thesis by (auto simp: next_fit_def find_None_iff not_le)
qed

text \<open>The ring as the scan meets it: \<open>x\<close> is the block at \<open>slobfree\<close>.\<close>

lemma slob_rel_ring:
  assumes "slob_rel s bs"
  obtains us x vs where "bs = us @ x # vs" "slobfree s = unit_addr (fst x)"
    "\<forall>y\<in>set (vs @ us). unit_addr (fst y) \<noteq> slobfree s" "ring_from (slobfree s) bs = vs @ us @ [x]"
    "chain (sb_next s) (x # vs @ us @ [x]) (hd_addr vs (hd_addr us (slobfree s)))"
proof -
  obtain x where x: "x \<in> set bs" "slobfree s = unit_addr (fst x)" using assms by (auto simp: slob_rel_def)
  obtain us vs where bs: "bs = us @ x # vs" using x(1) by (auto dest: split_list)
  have co: "coalesced bs" and bd: "slob_bound bs" and ch: "chain (sb_next s) bs (hd_addr bs 0)"
    using assms by (auto simp: slob_rel_def)
  have ne: "unit_addr (fst y) \<noteq> slobfree s" if "y \<in> set (vs @ us)" for y
  proof -
    have "fst y \<noteq> fst x" using co that by (auto simp: bs blocks_simps)
    then show ?thesis using slob_bound_mem [OF bd, of y] slob_bound_mem [OF bd, of x] that by (auto simp: x(2) bs)
  qed
  then have "ring_from (slobfree s) bs = vs @ us @ [x]"
    unfolding bs using x(2) by (intro ring_from_split) auto
  moreover have "chain (sb_next s) (x # vs @ us @ [x]) (hd_addr vs (hd_addr us (slobfree s)))"
    using ch by (simp add: bs x(2))
  ultimately show ?thesis using bs x(2) ne by (intro that) auto
qed

lemma find_SomeE:
  assumes "find P xs = Some y"
  obtains os rs where "xs = os @ y # rs" "P y" "\<forall>x\<in>set os. \<not> P x"
proof -
  obtain i where i: "i < length xs" "P (xs ! i)" "y = xs ! i" "\<And>j. j < i \<Longrightarrow> \<not> P (xs ! j)"
    using assms by (auto simp: find_Some_iff)
  show ?thesis
  proof (rule that [of "take i xs" "drop (Suc i) xs"])
    show "xs = take i xs @ y # drop (Suc i) xs" using i(1,3) by (simp add: id_take_nth_drop)
    show "\<forall>x\<in>set (take i xs). \<not> P x" using i(1,4) by (auto simp: in_set_conv_nth)
  qed (use i in simp)
qed

text \<open>The block before the \<open>os\<close>-th one of the ring is the block before it in the list.\<close>

lemma ring_pred:
  assumes "vs @ us @ [x] = os @ y # rs" and "\<not> (\<exists>zs. us @ x # vs = y # zs)"
  obtains as cs where "us @ x # vs = as @ y # cs" "as \<noteq> []" "last as = last (x # os)"
proof -
  consider (v) ys where "vs = os @ y # ys" | (u) ps ys where "os = vs @ ps" "us = ps @ y # ys"
    | (x) "os = vs @ us" "y = x" "rs = []"
    using assms(1) by (fastforce simp: append_eq_append_conv2 append_eq_Cons_conv Cons_eq_append_conv)
  then show ?thesis
  proof cases
    case v
    then show ?thesis by (intro that [of "us @ x # os" ys]) auto
  next
    case u
    then have "ps \<noteq> []" using assms(2) by auto
    then show ?thesis using u by (intro that [of ps "ys @ x # vs"]) auto
  next
    case x
    then have "us \<noteq> []" using assms(2) by auto
    then show ?thesis using x by (intro that [of us vs]) auto
  qed
qed

subsection \<open>One round\<close>

lemma slob_round_hit:
  assumes rel: "slob_rel s bs" and hd: "snd (hd bs) < n" and n: "0 < n"
    and fit: "next_fit n (slobfree s) bs = Some (c, k)" and q: "q = sb_next s (slobfree s)"
  obtains us vs t where "bs = us @ (c, k) # vs" "us \<noteq> []" "n \<le> k"
    "slob_loop sz (of_nat n) 0 flag (slobfree s) q s = ret (unit_addr c, intr_restore flag t)"
    "slob_rel t (us @ rest_block n c k @ vs)" "sb_units t (unit_addr c) = of_nat n" "heap_same s t"
    "same_outside (pages_of bs) s t" "slobfree t = unit_addr (fst (last us))"
proof -
  obtain us x vs where r: "bs = us @ x # vs" "slobfree s = unit_addr (fst x)"
      "\<forall>y\<in>set (vs @ us). unit_addr (fst y) \<noteq> slobfree s" "ring_from (slobfree s) bs = vs @ us @ [x]"
      "chain (sb_next s) (x # vs @ us @ [x]) (hd_addr vs (hd_addr us (slobfree s)))"
    using rel by (rule slob_rel_ring)
  obtain os rs where o: "vs @ us @ [x] = os @ (c, k) # rs" "n \<le> k" "\<forall>y\<in>set os. snd y < n"
    using fit by (auto simp: next_fit_def r(4) not_le elim!: find_SomeE)
  have "\<not> (\<exists>zs. us @ x # vs = (c, k) # zs)" using hd o(2) by (auto simp: r(1))
  then obtain as cs where a: "us @ x # vs = as @ (c, k) # cs" "as \<noteq> []" "last as = last (x # os)"
    using ring_pred [OF o(1)] by blast
  have bd: "slob_bound bs" and un: "\<forall>x\<in>set bs. sb_units s (unit_addr (fst x)) = of_nat (snd x)"
    using rel by (auto simp: slob_rel_def)
  have set: "set bs = set (vs @ us @ [x])" by (auto simp: r(1))
  have os: "set os \<subseteq> set (vs @ us)"
  proof
    fix y assume "y \<in> set os"
    moreover have "os @ (c, k) # rs = (vs @ us) @ [x]" using o(1) by simp
    then have "os = take (length os) (vs @ us)" by (metis append_eq_append_conv_if append_take_drop_id
        butlast_append butlast_snoc length_append list.distinct(1) append_eq_conv_conj)
    ultimately show "y \<in> set (vs @ us)" by (metis in_set_takeD)
  qed
  have ck: "(c, k) \<in> set bs" unfolding set o(1) by simp
  have loop: "slob_loop sz (of_nat n) 0 flag (slobfree s) q s =
    (case slob_take (of_nat n) 0 0 (unit_addr (fst (last (x # os)))) (unit_addr c) s of
       (m, t) \<Rightarrow> ret (m, intr_restore flag t))"
  proof (rule slob_loop_hit)
    have "chain (sb_next s) ((x # os @ [(c, k)]) @ rs) (hd_addr vs (hd_addr us (slobfree s)))"
      using r(5) unfolding o(1) by simp
    then show "chain (sb_next s) (x # os @ [(c, k)])
        (hd_addr rs (hd_addr vs (hd_addr us (slobfree s))))" using r(2) by simp
    show "\<forall>x\<in>set os. sb_units s (unit_addr (fst x)) = of_nat (snd x) \<and> snd x < n \<and>
        unit_addr (fst x) \<noteq> slobfree s"
      using un os r(3) o(3) by (auto simp: set)
    show "sb_units s (unit_addr c) = of_nat k" using un ck by fastforce
    show "k < 2 ^ 31" using slob_bound_mem [OF bd ck] by simp
  qed (use o(2) r(2) q in auto)
  define t where "t = snd (slob_take (of_nat n) 0 0 (unit_addr (fst (last as))) (unit_addr c) s)"
  have rel': "slob_rel s (as @ (c, k) # cs)" using rel by (simp add: r(1) a(1) [symmetric])
  note take = slob_take_spec [OF rel' a(2) n o(2), folded t_def]
  show ?thesis
  proof (rule that [of as cs t])
    show "bs = as @ (c, k) # cs" by (simp add: r(1) a(1))
    then show "same_outside (pages_of bs) s t" using take(5) by simp
    show "slob_loop sz (of_nat n) 0 flag (slobfree s) q s = ret (unit_addr c, intr_restore flag t)"
      unfolding loop a(3) [symmetric] by (simp add: case_prod_unfold take(1) t_def)
  qed (use a(2) o(2) take in auto)
qed

lemma slob_round_miss:
  assumes rel: "slob_rel s bs" and fit: "\<forall>x\<in>set bs. snd x < n" and n: "n < 2 ^ 31"
    and q: "q = sb_next s (slobfree s)"
  shows "slob_loop sz (of_nat n) 0 flag (slobfree s) q s = slob_grow sz (of_nat n) (intr_restore flag s)"
proof -
  obtain us x vs where r: "bs = us @ x # vs" "slobfree s = unit_addr (fst x)"
      "\<forall>y\<in>set (vs @ us). unit_addr (fst y) \<noteq> slobfree s"
      "chain (sb_next s) (x # vs @ us @ [x]) (hd_addr vs (hd_addr us (slobfree s)))"
    using rel by (rule slob_rel_ring)
  have un: "\<forall>x\<in>set bs. sb_units s (unit_addr (fst x)) = of_nat (snd x)"
    using rel by (auto simp: slob_rel_def)
  show ?thesis
  proof (rule slob_loop_miss)
    show "chain (sb_next s) (x # (vs @ us) @ [x]) (hd_addr vs (hd_addr us (slobfree s)))"
      using r(2,4) by simp
  qed (use un fit r n q in auto)
qed

end
