(* ===== verification/KmallocSpec.thy ===== *)
theory KmallocSpec
  imports SlobAlloc PagingTree
begin

unbundle bit_operations_syntax

text \<open>
  The heap of kern/mm/kmalloc.c as its clients see it. \<open>heap_inv s al\<close>: the blocks \<open>al\<close> are in use, every
  unit of the pages the heap owns is in exactly one of them or in one free block, and those pages are not free
  for the page allocator. \<open>kmalloc\<close> of 1 to 4063 bytes and \<open>kfree\<close> keep this; the locale \<open>heap_source\<close> is the
  interface that the rest of the kernel uses.
\<close>

subsection \<open>Pages as units\<close>

definition frame_unit :: "nat \<Rightarrow> nat" where
  "frame_unit f = 0xFFFFFFFFC000000 + 256 * f"

definition frame_units :: "nat \<Rightarrow> nat set" where
  "frame_units f = {frame_unit f..<frame_unit f + 256}"

text \<open>The last frame of the gigabyte is left out: its end is the end of the address space.\<close>

definition heap_units :: "nat set" where
  "heap_units = {frame_unit 0..<frame_unit 0x3FFFF}"

lemma frame_kva_unit: "frame_kva f = unit_addr (frame_unit f)"
  by (simp add: frame_kva_def page2pa_eq PHYSICAL_MEMORY_OFFSET_def KERNBASE_def DRAM_BASE_def
      unit_addr_def frame_unit_def algebra_simps)

lemma frame_units_heap: "f < 0x3FFFF \<Longrightarrow> frame_units f \<subseteq> heap_units"
  by (auto simp: frame_units_def heap_units_def frame_unit_def)

lemma frame_units_disjoint: "f \<noteq> g \<Longrightarrow> frame_units f \<inter> frame_units g = {}"
  by (auto simp: frame_units_def frame_unit_def)

lemma heap_units_less: "u \<in> heap_units \<Longrightarrow> u < 2 ^ 60"
  by (simp add: heap_units_def frame_unit_def)

lemma ff_free_Cons:
  assumes "fst x + snd x < b"
  shows "ff_free b n (x # bs) = x # ff_free b n bs"
  using assms by (auto simp: ff_free_def join_left_def Let_def)

subsection \<open>Blocks in use and free blocks\<close>

definition heap_core :: "'z heap_state_scheme \<Rightarrow> nat \<Rightarrow> block list \<Rightarrow> block set \<Rightarrow> bool" where
  "heap_core s a bs al \<longleftrightarrow> slob_rel s ((a, 1) # bs) \<and> arena s = unit_addr a \<and>
     pages_of bs \<union> \<Union> (block_pages ` al) \<subseteq> heap_units \<inter> {a + 2..} \<and>
     pages_of bs \<inter> \<Union> (block_pages ` al) = {} \<and> disjoint_family_on block_pages al \<and>
     (\<forall>x\<in>al. 0 < snd x \<and> sb_units s (unit_addr (fst x)) = of_nat (snd x))"

lemma heap_coreD:
  assumes "heap_core s a bs al"
  shows "slob_rel s ((a, 1) # bs)" "arena s = unit_addr a"
    "pages_of bs \<union> \<Union> (block_pages ` al) \<subseteq> heap_units \<inter> {a + 2..}"
    "pages_of bs \<inter> \<Union> (block_pages ` al) = {}" "disjoint_family_on block_pages al"
    "\<And>x. x \<in> al \<Longrightarrow> 0 < snd x \<and> sb_units s (unit_addr (fst x)) = of_nat (snd x)"
  using assms unfolding heap_core_def by blast+

lemma heap_core_arena:
  assumes "heap_core s a bs al"
  shows "a < 2 ^ 60" and "wf_blocks bs" and "coalesced ((a, 1) # bs)"
  using heap_coreD(1) [OF assms] coalesced_wf
  by (auto simp: slob_rel_def slob_bound_def coalesced_Cons)

text \<open>The free units, with others of the heap, fit into a 32-bit counter.\<close>

lemma heap_core_sum:
  assumes "heap_core s a bs al" and "{b..<b + n} \<subseteq> heap_units" and "{b..<b + n} \<inter> pages_of bs = {}"
  shows "sum_list (map snd ((a, 1) # bs)) + n < 2 ^ 31"
proof -
  have "sum_list (map snd bs) + n = card (pages_of bs) + card {b..<b + n}"
    using card_pages_of [OF heap_core_arena(2) [OF assms(1)]] by simp
  also have "\<dots> = card (pages_of bs \<union> {b..<b + n})"
    using assms(3) by (subst card_Un_disjoint) auto
  also have "\<dots> \<le> card heap_units"
    using heap_coreD(3) [OF assms(1)] assms(2) by (intro card_mono) (auto simp: heap_units_def)
  also have "card heap_units = 0x3FFFF00" by (simp add: heap_units_def frame_unit_def)
  finally show ?thesis by simp
qed

text \<open>The headers of the blocks in use are not among the cells of the free blocks.\<close>

lemma heap_core_header:
  assumes core: "heap_core s a bs al" and x: "x \<in> al" and same: "same_outside U s t"
    and U: "U \<subseteq> insert a (heap_units - block_pages x)"
  shows "sb_units t (unit_addr (fst x)) = of_nat (snd x)"
proof -
  have pos: "0 < snd x" and un: "sb_units s (unit_addr (fst x)) = of_nat (snd x)"
    using heap_coreD(6) [OF core x] by blast+
  have mem: "fst x \<in> block_pages x" using pos by (simp add: block_pages_def)
  then have "fst x \<in> \<Union> (block_pages ` al)" using x by blast
  then have h: "fst x \<in> heap_units" "a + 2 \<le> fst x" using heap_coreD(3) [OF core] by auto
  have "unit_addr (fst x) \<notin> unit_addr ` U"
  proof
    assume "unit_addr (fst x) \<in> unit_addr ` U"
    then obtain u where u: "u \<in> U" "unit_addr (fst x) = unit_addr u" by blast
    have "u < 2 ^ 60" using u(1) U heap_units_less heap_core_arena(1) [OF core] by auto
    then have "fst x = u" using u(2) heap_units_less [OF h(1)] by simp
    then show False using u(1) U mem h(2) by auto
  qed
  then show ?thesis using same un by (simp add: same_outside_def)
qed

lemma heap_core_cong:
  assumes "heap_core s a bs al" and "sb_units t = sb_units s" "sb_next t = sb_next s"
    and "slobfree t = slobfree s" "arena t = arena s"
  shows "heap_core t a bs al"
  using assms by (simp add: heap_core_def slob_rel_cong [of t s])

subsection \<open>Taking and giving back units\<close>

lemma heap_take:
  assumes core: "heap_core s a bs al" and split: "(a, 1) # bs = us @ (c, k) # vs" "us \<noteq> []"
    and n: "0 < n" "n \<le> k" and rel: "slob_rel t (us @ rest_block n c k @ vs)"
    and un: "sb_units t (unit_addr c) = of_nat n" and same: "same_outside (pages_of ((a, 1) # bs)) s t"
    and heap: "heap_same s t"
  obtains bs' where "heap_core t a bs' (insert (c, n) al)" "pages_of bs = pages_of bs' \<union> {c..<c + n}"
    "c \<noteq> 0" "c < 2 ^ 60" "{c..<c + n} \<inter> \<Union> (block_pages ` al) = {}"
proof -
  obtain us' where us: "us = (a, 1) # us'" using split by (cases us) auto
  have bs: "bs = us' @ (c, k) # vs" using split(1) by (simp add: us)
  let ?bs' = "us' @ rest_block n c k @ vs"
  have wf: "wf_blocks bs" by (rule heap_core_arena(2) [OF core])
  have pages: "pages_of bs = pages_of ?bs' \<union> {c..<c + n}"
    using n by (auto simp: bs rest_block_def)
  have "p < c" if "p \<in> pages_of us'" for p
    using wf by (intro pages_of_below [OF _ that]) (auto simp: bs blocks_simps)
  moreover have "c + n \<le> p" if "p \<in> pages_of (rest_block n c k @ vs)" for p
    using wf n by (intro pages_of_above [OF _ that]) (auto simp: bs blocks_simps rest_block_def)
  ultimately have disj: "pages_of ?bs' \<inter> {c..<c + n} = {}" by fastforce
  note D = heap_coreD [OF core]
  have c: "c \<in> pages_of bs" using n by (simp add: bs)
  then have h: "c \<in> heap_units" "a + 2 \<le> c" using D(3) by auto
  have fresh: "{c..<c + n} \<inter> \<Union> (block_pages ` al) = {}" using D(4) pages by blast
  have "heap_core t a ?bs' (insert (c, n) al)"
    unfolding heap_core_def
  proof (intro conjI)
    show "slob_rel t ((a, 1) # ?bs')" using rel by (simp add: us)
    show "arena t = unit_addr a" using D(2) heap_same_sel [OF heap] by simp
    show "pages_of ?bs' \<union> \<Union> (block_pages ` insert (c, n) al) \<subseteq> heap_units \<inter> {a + 2..}"
      using D(3) pages by (auto simp: block_pages_def)
    show "pages_of ?bs' \<inter> \<Union> (block_pages ` insert (c, n) al) = {}"
      using disj D(4) pages by (auto simp: block_pages_def)
    have "(c, n) \<notin> al" using fresh n by (force simp: block_pages_def)
    then show "disjoint_family_on block_pages (insert (c, n) al)"
      using D(5) fresh by (simp add: disjoint_family_on_insert block_pages_def)
    show "\<forall>x\<in>insert (c, n) al. 0 < snd x \<and> sb_units t (unit_addr (fst x)) = of_nat (snd x)"
    proof
      fix x assume x: "x \<in> insert (c, n) al"
      show "0 < snd x \<and> sb_units t (unit_addr (fst x)) = of_nat (snd x)"
      proof (cases "x = (c, n)")
        case False
        then have x: "x \<in> al" using x by blast
        have "pages_of ((a, 1) # bs) \<subseteq> insert a (heap_units - block_pages x)"
          using D(3,4) x by auto
        then show ?thesis using D(6) [OF x] heap_core_header [OF core x same] by blast
      qed (use un n in simp)
    qed
  qed
  then show ?thesis using that [OF _ pages] h heap_units_less [OF h(1)] fresh by simp
qed

lemma heap_give:
  assumes core: "heap_core s a bs al" and sub: "al' \<subseteq> al" and units: "{b..<b + n} \<subseteq> heap_units \<inter> {a + 2..}"
    and n: "0 < n" and free: "{b..<b + n} \<inter> (pages_of bs \<union> \<Union> (block_pages ` al')) = {}"
    and sz: "freed_units sz b n s"
  obtains t where "slob_free (unit_addr b) sz s = ret t" "heap_core t a (ff_free b n bs) al'" "heap_same s t"
    "pages_of (ff_free b n bs) = pages_of bs \<union> {b..<b + n}"
proof -
  note D = heap_coreD [OF core]
  have wf: "wf_blocks bs" by (rule heap_core_arena(2) [OF core])
  have "b \<in> {b..<b + n}" "b + n - 1 \<in> {b..<b + n}" using n by auto
  then have "b \<in> heap_units \<inter> {a + 2..}" "b + n - 1 \<in> heap_units \<inter> {a + 2..}" using units by blast+
  then have b: "b \<in> heap_units" "b + n - 1 \<in> heap_units" "a + 2 \<le> b" by auto
  obtain m where m: "n = Suc m" using n by (cases n) auto
  have bn: "b + n < 2 ^ 60" using b(2) unfolding m by (simp add: heap_units_def frame_unit_def)
  have fits: "fits_free b n bs" using n free by (auto simp: fits_free_def)
  have fits1: "fits_free b n ((a, 1) # bs)" using fits b(3) by (auto simp: fits_free_def)
  have above: "fst (hd ((a, 1) # bs)) + snd (hd ((a, 1) # bs)) < b" using b(3) by simp
  have cons: "ff_free b n ((a, 1) # bs) = (a, 1) # ff_free b n bs" using b(3) by (simp add: ff_free_Cons)
  have sum: "sum_list (map snd ((a, 1) # bs)) + n < 2 ^ 31"
    by (rule heap_core_sum [OF core]) (use units free in blast)+
  obtain t where t: "slob_free (unit_addr b) sz s = ret t" "slob_rel t ((a, 1) # ff_free b n bs)"
      "heap_same s t" "same_outside (pages_of ((a, 1) # ff_free b n bs)) s t"
    using slob_free_spec [OF D(1) fits1 above bn sum sz] cons by metis
  have pages: "pages_of (ff_free b n bs) = pages_of bs \<union> {b..<b + n}" by (rule ff_free_pages [OF fits wf])
  have "heap_core t a (ff_free b n bs) al'"
    unfolding heap_core_def
  proof (intro conjI)
    show "arena t = unit_addr a" using D(2) heap_same_sel [OF t(3)] by simp
    show "pages_of (ff_free b n bs) \<union> \<Union> (block_pages ` al') \<subseteq> heap_units \<inter> {a + 2..}"
      using D(3) sub units pages by blast
    show "pages_of (ff_free b n bs) \<inter> \<Union> (block_pages ` al') = {}"
      using D(4) sub free pages by blast
    show "disjoint_family_on block_pages al'" using D(5) sub unfolding disjoint_family_on_def by blast
    show "\<forall>x\<in>al'. 0 < snd x \<and> sb_units t (unit_addr (fst x)) = of_nat (snd x)"
    proof
      fix x assume x: "x \<in> al'"
      then have xa: "x \<in> al" using sub by blast
      have "pages_of ((a, 1) # ff_free b n bs) \<subseteq> insert a (heap_units - block_pages x)"
        using D(3,4) x xa units free unfolding pages_of_simps pages by auto
      then show "0 < snd x \<and> sb_units t (unit_addr (fst x)) = of_nat (snd x)"
        using D(6) [OF xa] heap_core_header [OF core xa t(4)] by blast
    qed
  qed (rule t(2))
  then show ?thesis using that t(1,3) pages by blast
qed

subsection \<open>The heap and the page allocator\<close>

definition heap_rel :: "'z heap_state_scheme \<Rightarrow> nat \<Rightarrow> block list \<Rightarrow> nat set \<Rightarrow> block set \<Rightarrow> bool" where
  "heap_rel s a bs F al \<longleftrightarrow> heap_core s a bs al \<and> vm_ok s \<and> (\<exists>fs. free_rel s fs) \<and>
     F \<inter> free_frames s = {} \<and>
     (\<forall>f\<in>F \<union> free_frames s. valid_frame s f \<and> f < 0x3FFFF \<and> a + 2 \<le> frame_unit f) \<and>
     pages_of bs \<union> \<Union> (block_pages ` al) = \<Union> (frame_units ` F) \<and> bigblocks s = 0"

definition heap_inv :: "'z heap_state_scheme \<Rightarrow> block set \<Rightarrow> bool" where
  "heap_inv s al \<longleftrightarrow> (\<exists>a bs F. heap_rel s a bs F al)"

lemma heap_relD:
  assumes "heap_rel s a bs F al"
  shows "heap_core s a bs al" "vm_ok s" "\<exists>fs. free_rel s fs" "F \<inter> free_frames s = {}"
    "\<And>f. f \<in> F \<union> free_frames s \<Longrightarrow> valid_frame s f \<and> f < 0x3FFFF \<and> a + 2 \<le> frame_unit f"
    "pages_of bs \<union> \<Union> (block_pages ` al) = \<Union> (frame_units ` F)" "bigblocks s = 0"
  using assms unfolding heap_rel_def by blast+

text \<open>Some free block of the page allocator has \<open>k\<close> pages.\<close>

definition free_room :: "nat \<Rightarrow> 'z pmm_state_scheme \<Rightarrow> bool" where
  "free_room k s \<longleftrightarrow> (\<exists>fs. free_rel s fs \<and> (\<exists>x\<in>set fs. k \<le> snd x))"

text \<open>The parts of the state that are not the heap's own.\<close>

lemma free_rel_heap_same: "heap_same s t \<Longrightarrow> free_rel t fs = free_rel s fs"
  by (rule free_rel_cong) (simp_all add: heap_same_sel)

lemma free_room_mono: "free_room (Suc k) s \<Longrightarrow> free_room k s"
  unfolding free_room_def by (meson Suc_leD)

lemma free_room_heap_same: "heap_same s t \<Longrightarrow> free_room k t = free_room k s"
  by (simp add: free_room_def free_rel_heap_same)

lemma free_frames_heap_same: "heap_same s t \<Longrightarrow> free_frames t = free_frames s"
  by (rule free_frames_cong) (simp_all add: heap_same_sel)

lemma heap_rel_same:
  assumes "heap_rel s a bs F al" and "heap_same s t" and "heap_core t a bs' al'"
    and "pages_of bs' \<union> \<Union> (block_pages ` al') = \<Union> (frame_units ` F)"
  shows "heap_rel t a bs' F al'"
  using assms heap_relD [OF assms(1)] heap_same_sel [OF assms(2)]
  by (simp add: heap_rel_def vm_ok_def valid_frame_def free_rel_heap_same free_frames_heap_same)

lemma heap_core_restored:
  assumes "heap_core t a bs al" and "intr_save s = (flag, s1)" and "heap_same s1 t"
  shows "heap_core (intr_restore flag t) a bs al" "heap_same s (intr_restore flag t)"
proof -
  show "heap_same s (intr_restore flag t)" by (rule heap_same_masked [OF assms(2,3)])
  show "heap_core (intr_restore flag t) a bs al"
    unfolding heap_same_masked(2) [OF assms(2,3)] by (rule heap_core_cong [OF assms(1)]) simp_all
qed

lemma heap_rel_saved:
  assumes "heap_rel s a bs F al" and "intr_save s = (flag, s1)"
  shows "heap_core s1 a bs al" "slobfree s1 = slobfree s" "bigblocks s1 = bigblocks s"
proof -
  note s1 = intr_save_fields [OF assms(2)]
  have "sb_units s1 = sb_units s" "sb_next s1 = sb_next s" "arena s1 = arena s"
    by (subst s1, simp)+
  moreover show "slobfree s1 = slobfree s" "bigblocks s1 = bigblocks s" by (subst s1, simp)+
  ultimately show "heap_core s1 a bs al" using heap_core_cong [OF heap_relD(1) [OF assms(1)]] by blast
qed

subsection \<open>Growing\<close>

text \<open>A page taken makes a block at most one page smaller.\<close>

lemma free_room_alloc_page:
  assumes "free_room (Suc k) s" and "alloc_pages 1 s = ret (r, t)" and "0 < k"
  shows "free_room k t"
proof -
  obtain fs x where fs: "free_rel s fs" "x \<in> set fs" "Suc k \<le> snd x" using assms(1) by (auto simp: free_room_def)
  show ?thesis
  proof (cases "ff_alloc 1 fs")
    case None
    then have "t = s" using alloc_pages_spec [OF fs(1), of 1] assms(2) by simp
    then show ?thesis using fs by (auto simp: free_room_def intro!: exI [of _ fs] bexI [of _ x])
  next
    case (Some a)
    obtain i fs' where a: "ff_alloc (unat (1 :: u64)) fs = Some (i, fs')" using Some by (cases a) simp
    then have t: "free_rel t fs'"
      using alloc_pages_spec [OF fs(1), of 1] assms(2) default_alloc_pages_Some(1) [OF fs(1) _ a] by simp
    obtain xs m ys where s: "fs = xs @ (i, m) # ys" "1 \<le> m"
        "fs' = xs @ (if 1 < m then (i + 1, m - 1) # ys else ys)"
      using ff_alloc_SomeE [OF a] by (metis unsigned_1)
    have "x \<in> set xs \<union> set ys \<or> x = (i, m)" using fs(2) s(1) by auto
    then have "\<exists>y\<in>set fs'. k \<le> snd y"
    proof
      assume "x \<in> set xs \<union> set ys"
      then have "x \<in> set fs'" by (auto simp: s(3))
      then show ?thesis using fs(3) by (intro bexI [of _ x]) simp_all
    next
      assume "x = (i, m)"
      then show ?thesis using fs(3) assms(3) by (intro bexI [of _ "(i + 1, m - 1)"]) (auto simp: s(3))
    qed
    then show ?thesis using t by (auto simp: free_room_def)
  qed
qed

lemma slob_get_free_page:
  assumes "heap_rel s a bs F al"
  obtains (none) "slob_get_free_pages 0 s = ret (0, s)" "free_frames s = {}"
  | (page) f t where "slob_get_free_pages 0 s = ret (frame_kva f, t)" "f \<in> free_frames s"
      "free_frames t = free_frames s - {f}" "heap_rel t a bs F al"
      "\<exists>pg h m. t = s\<lparr>pages := pg, free_list := h, nr_free := m\<rparr>"
      "\<forall>k>0. free_room (Suc k) s \<longrightarrow> free_room k t"
proof -
  note D = heap_relD [OF assms]
  from D(3) show ?thesis
  proof (cases rule: kernel.alloc_one_cases)
    case refused
    then show ?thesis using none by (simp add: slob_get_free_pages_def)
  next
    case (granted f t)
    from granted(5) obtain pg h m where t: "t = s\<lparr>pages := pg, free_list := h, nr_free := m\<rparr>"
      by (auto simp: alloc_frame_def)
    have vm: "vm_ok t" "valid_frame t g = valid_frame s g" for g
      using D(2) by (simp_all add: t vm_ok_def valid_frame_def)
    have "KADDR (page2pa f) t = ret (frame_kva f)" using granted(3) D(5) by (intro KADDR_frame) (simp_all add: vm)
    then have "slob_get_free_pages 0 s = ret (frame_kva f, t)"
      using granted(1) by (simp add: slob_get_free_pages_def page2kva_def)
    moreover have "heap_core t a bs al"
      by (rule heap_core_cong [OF D(1)]) (auto simp: t sb_units_def sb_next_def fun_eq_iff)
    moreover have "\<forall>k>0. free_room (Suc k) s \<longrightarrow> free_room k t" using free_room_alloc_page granted(1) by blast
    ultimately show ?thesis using D(4-7) vm granted(2-4) by (intro page) (auto simp: heap_rel_def t)
  qed
qed

lemma freed_page: "freed_units (ucast PGSIZE) b 256 s"
  by (simp add: freed_units_def SLOB_UNITS_def SLOB_UNIT_def PGSIZE_def)

text \<open>A page given to the heap becomes one more free block of 256 units, or grows one.\<close>

lemma heap_give_page:
  assumes "heap_rel s a bs F al" and "f \<notin> F" "f \<notin> free_frames s" "valid_frame s f" "f < 0x3FFFF"
    and "a + 2 \<le> frame_unit f"
  obtains t where "slob_free (frame_kva f) (ucast PGSIZE) s = ret t" "heap_same s t"
    "heap_rel t a (ff_free (frame_unit f) 256 bs) (insert f F) al"
    "fits_free (frame_unit f) 256 bs"
proof -
  note D = heap_relD [OF assms(1)]
  have fu: "{frame_unit f..<frame_unit f + 256} = frame_units f" by (simp add: frame_units_def)
  have "frame_units f \<inter> frame_units g = {}" if "g \<in> F" for g
    by (rule frame_units_disjoint) (use that assms(2) in blast)
  then have dis: "frame_units f \<inter> \<Union> (frame_units ` F) = {}" by blast
  obtain t where t: "slob_free (unit_addr (frame_unit f)) (ucast PGSIZE) s = ret t"
      "heap_core t a (ff_free (frame_unit f) 256 bs) al" "heap_same s t"
      "pages_of (ff_free (frame_unit f) 256 bs) = pages_of bs \<union> {frame_unit f..<frame_unit f + 256}"
  proof (rule heap_give [OF D(1) subset_refl])
    show "{frame_unit f..<frame_unit f + 256} \<subseteq> heap_units \<inter> {a + 2..}"
      using frame_units_heap [OF assms(5)] assms(6) unfolding fu by (auto simp: frame_units_def)
    show "{frame_unit f..<frame_unit f + 256} \<inter> (pages_of bs \<union> \<Union> (block_pages ` al)) = {}"
      unfolding D(6) fu by (rule dis)
  qed (use freed_page in auto)
  note sel = heap_same_sel [OF t(3)] and fr = free_frames_heap_same [OF t(3)]
  have "heap_rel t a (ff_free (frame_unit f) 256 bs) (insert f F) al"
    unfolding heap_rel_def
  proof (intro conjI)
    show "vm_ok t" using D(2) sel by (simp add: vm_ok_def)
    show "\<exists>fs. free_rel t fs" using D(3) by (simp add: free_rel_heap_same [OF t(3)])
    show "insert f F \<inter> free_frames t = {}" using D(4) assms(3) fr by blast
    have "valid_frame t g = valid_frame s g" for g using sel by (simp add: valid_frame_def)
    then show "\<forall>g\<in>insert f F \<union> free_frames t. valid_frame t g \<and> g < 0x3FFFF \<and> a + 2 \<le> frame_unit g"
      using D(5) assms(4-6) fr by blast
    show "pages_of (ff_free (frame_unit f) 256 bs) \<union> \<Union> (block_pages ` al) = \<Union> (frame_units ` insert f F)"
      unfolding t(4) fu using D(6) by blast
    show "bigblocks t = 0" using D(7) sel by simp
  qed (rule t(2))
  moreover have "pages_of bs \<inter> {frame_unit f..<frame_unit f + 256} = {}" using dis D(6) unfolding fu by blast
  then have "fits_free (frame_unit f) 256 bs" unfolding fits_free_def by auto
  ultimately show ?thesis using that t(1,3) by (simp add: frame_kva_unit)
qed

subsection \<open>slob_alloc\<close>

text \<open>Two states that differ at most in the heap and in the page allocator.\<close>

definition kmem_same :: "'z heap_state_scheme \<Rightarrow> 'z heap_state_scheme \<Rightarrow> bool" where
  "kmem_same s t \<longleftrightarrow> (\<exists>a b c pg h m. t = s\<lparr>heap32 := a, heap64 := b, slobfree := c, pages := pg,
     free_list := h, nr_free := m\<rparr>)"

lemma kmem_same_trans: "kmem_same s t \<Longrightarrow> kmem_same t u \<Longrightarrow> kmem_same s u"
  unfolding kmem_same_def by fastforce

lemma kmem_same_heap: "heap_same s t \<Longrightarrow> kmem_same s t"
  unfolding heap_same_def kmem_same_def
  by (elim exE) (rule exI, rule exI, rule exI, rule exI [of _ "pages s"], rule exI [of _ "free_list s"],
      rule exI [of _ "nr_free s"], simp)

lemma kmem_same_pages: "\<exists>pg h m. t = s\<lparr>pages := pg, free_list := h, nr_free := m\<rparr> \<Longrightarrow> kmem_same s t"
  unfolding kmem_same_def
  by (elim exE) (rule exI [of _ "heap32 s"], rule exI [of _ "heap64 s"], rule exI [of _ "slobfree s"],
      rule exI, rule exI, rule exI, simp)

lemma kmem_same_sel:
  assumes "kmem_same s t"
  shows "sstatus t = sstatus s" "npage t = npage s" "va_pa_offset t = va_pa_offset s" "ptes t = ptes s"
    "tlb t = tlb s" "arena t = arena s" "bigblocks t = bigblocks s" "boot_pgdir_pa t = boot_pgdir_pa s"
    "bytes t = bytes s" "heap_state.more t = heap_state.more s"
  using assms by (auto simp: kmem_same_def)

text \<open>A round that starts when some block has room.\<close>

lemma slob_scan_take:
  assumes inv: "heap_rel s a bs F al" and sv: "intr_save s = (flag, s1)" and n: "2 \<le> n"
    and fit: "\<not> (\<forall>x\<in>set ((a, 1) # bs). snd x < n)"
  obtains c t bs' where
    "slob_loop sz (of_nat n) 0 flag (slobfree s1) (sb_next s1 (slobfree s1)) s1 = ret (unit_addr c, t)"
    "heap_rel t a bs' F (insert (c, n) al)" "heap_same s t" "c \<noteq> 0" "c < 2 ^ 60"
    "{c..<c + n} \<inter> \<Union> (block_pages ` al) = {}"
proof -
  note core = heap_rel_saved [OF inv sv]
  have "next_fit n (slobfree s1) ((a, 1) # bs) \<noteq> None" using fit unfolding next_fit_None .
  then obtain c k where x: "next_fit n (slobfree s1) ((a, 1) # bs) = Some (c, k)" by auto
  have hd: "snd (hd ((a, 1) # bs)) < n" and n0: "0 < n" using n by simp_all
  obtain us vs t where h: "(a, 1) # bs = us @ (c, k) # vs" "us \<noteq> []" "n \<le> k"
      "slob_loop sz (of_nat n) 0 flag (slobfree s1) (sb_next s1 (slobfree s1)) s1
        = ret (unit_addr c, intr_restore flag t)"
      "slob_rel t (us @ rest_block n c k @ vs)" "sb_units t (unit_addr c) = of_nat n" "heap_same s1 t"
      "same_outside (pages_of ((a, 1) # bs)) s1 t"
    using slob_round_hit [OF heap_coreD(1) [OF core(1)] hd n0 x refl] by blast
  obtain bs' where t: "heap_core t a bs' (insert (c, n) al)" "pages_of bs = pages_of bs' \<union> {c..<c + n}"
      "c \<noteq> 0" "c < 2 ^ 60" "{c..<c + n} \<inter> \<Union> (block_pages ` al) = {}"
    using heap_take [OF core(1) h(1,2) n0 h(3,5,6,8,7)] by blast
  note r = heap_core_restored [OF t(1) sv h(7)]
  have "heap_rel (intr_restore flag t) a bs' F (insert (c, n) al)"
    using heap_relD(6) [OF inv] t(2)
    by (intro heap_rel_same [OF inv r(2,1)]) (auto simp: block_pages_def)
  from that [OF h(4) this r(2) t(3-5)] show ?thesis .
qed

lemma ff_free_room:
  assumes "fits_free b n bs" and "wf_blocks bs"
  obtains x where "x \<in> set (ff_free b n bs)" "n \<le> snd x"
  using assms
proof (cases rule: ff_free_split_cases)
  case (apart xs ys)
  then show ?thesis by (intro that [of "hd (join_right (b, n) ys)"])
      (auto simp: join_right_def split: list.split)
next
  case (joined ws w ys)
  then show ?thesis by (intro that [of "hd (join_right (fst w, snd w + n) ys)"])
      (auto simp: join_right_def split: list.split)
qed

text \<open>When no free block is long enough, the heap grows by a page and the block is cut from it.\<close>

lemma slob_grow_spec:
  assumes inv: "heap_rel s a bs F al" and sz: "sz \<noteq> PGSIZE" and n: "2 \<le> n" "n \<le> 256"
  obtains (none) "slob_grow sz (of_nat n) s = ret (0, s)" "free_frames s = {}"
  | (block) c t bs' F' where "slob_grow sz (of_nat n) s = ret (unit_addr c, t)" "heap_rel t a bs' F' (insert (c, n) al)"
      "c \<noteq> 0" "c < 2 ^ 60" "{c..<c + n} \<inter> \<Union> (block_pages ` al) = {}"
      "free_frames t \<subseteq> free_frames s" "kmem_same s t"
      "\<forall>k>0. free_room (Suc k) s \<longrightarrow> free_room k t"
proof -
  from inv show ?thesis
  proof (cases rule: slob_get_free_page)
    case none
    then show ?thesis by (intro that(1)) (simp_all add: slob_grow_def sz)
  next
    case (page f s2)
    note D = heap_relD [OF inv]
    have f: "f \<notin> F" "f \<notin> free_frames s2" "valid_frame s2 f" "f < 0x3FFFF" "a + 2 \<le> frame_unit f"
      using D(4) D(5) [of f] page(2,3) page(5) by (auto simp: valid_frame_def)
    let ?bs = "ff_free (frame_unit f) 256 bs"
    obtain s3 where s3: "slob_free (frame_kva f) (ucast PGSIZE) s2 = ret s3" "heap_same s2 s3"
        "heap_rel s3 a ?bs (insert f F) al" "fits_free (frame_unit f) 256 bs"
      using heap_give_page [OF page(4) f] by blast
    have ne: "frame_kva f \<noteq> 0" unfolding frame_kva_unit using f(4) by (simp add: frame_unit_def)
    obtain flag3 s4 where sv4: "intr_save s3 = (flag3, s4)" by fastforce
    have "sb_next s3 = sb_next s4" by (subst intr_save_fields [OF sv4]) (simp add: sb_next_def fun_eq_iff)
    then have run3: "slob_grow sz (of_nat n) s =
        slob_loop sz (of_nat n) 0 flag3 (slobfree s4) (sb_next s4 (slobfree s4)) s4"
      using page(1) ne s3(1) sz heap_rel_saved(2) [OF s3(3) sv4] by (simp add: slob_grow_def sv4)
    obtain x where "x \<in> set ?bs" "256 \<le> snd x"
      using ff_free_room [OF s3(4) heap_core_arena(2) [OF D(1)]] .
    then have room: "\<not> (\<forall>x\<in>set ((a, 1) # ?bs). snd x < n)" using n(2) by fastforce
    obtain c t bs' where t:
      "slob_loop sz (of_nat n) 0 flag3 (slobfree s4) (sb_next s4 (slobfree s4)) s4 = ret (unit_addr c, t)"
      "heap_rel t a bs' (insert f F) (insert (c, n) al)" "heap_same s3 t" "c \<noteq> 0" "c < 2 ^ 60"
      "{c..<c + n} \<inter> \<Union> (block_pages ` al) = {}"
      using slob_scan_take [OF s3(3) sv4 n(1) room] by blast
    have fr: "free_frames t = free_frames s2"
      using free_frames_heap_same [OF t(3)] free_frames_heap_same [OF s3(2)] by simp
    show ?thesis
    proof (rule block [OF _ t(2,4,5,6)])
      show "slob_grow sz (of_nat n) s = ret (unit_addr c, t)" using run3 t(1) by simp
      show "free_frames t \<subseteq> free_frames s" using fr page(3) by blast
      show "kmem_same s t"
        using kmem_same_pages [OF page(5)] kmem_same_heap [OF s3(2)] kmem_same_heap [OF t(3)] kmem_same_trans
        by blast
      show "\<forall>k>0. free_room (Suc k) s \<longrightarrow> free_room k t"
        using page(6) free_room_heap_same [OF t(3)] free_room_heap_same [OF s3(2)] by simp
    qed
  qed
qed

text \<open>The second round of the search is the last one: the new page has room.\<close>

lemma slob_alloc_spec:
  assumes inv: "heap_rel s a bs F al" and sz: "unat sz + 16 < 4096" "ucast (SLOB_UNITS sz) = (of_nat n :: u32)"
    and n: "2 \<le> n" "n \<le> 256"
  obtains (none) "slob_alloc sz 0 s = ret (0, s)" "free_frames s = {}" "\<forall>x\<in>set bs. snd x < n"
  | (block) c t bs' F' where "slob_alloc sz 0 s = ret (unit_addr c, t)" "heap_rel t a bs' F' (insert (c, n) al)"
      "c \<noteq> 0" "c < 2 ^ 60" "{c..<c + n} \<inter> \<Union> (block_pages ` al) = {}"
      "free_frames t \<subseteq> free_frames s" "kmem_same s t"
      "\<forall>k>0. free_room (Suc k) s \<longrightarrow> free_room k t"
proof -
  have sz': "sz + SLOB_UNIT < PGSIZE" "sz \<noteq> PGSIZE"
    using sz(1) by (auto simp: word_less_nat_alt SLOB_UNIT_def PGSIZE_def unat_word_ariths)
  obtain flag s1 where sv: "intr_save s = (flag, s1)" by fastforce
  have run: "slob_alloc sz 0 s = slob_loop sz (of_nat n) 0 flag (slobfree s1) (sb_next s1 (slobfree s1)) s1"
    using sz' sz(2) by (simp add: slob_alloc_def sv Let_def)
  show ?thesis
  proof (cases "\<forall>x\<in>set ((a, 1) # bs). snd x < n")
    case False
    obtain c t bs' where t:
      "slob_loop sz (of_nat n) 0 flag (slobfree s1) (sb_next s1 (slobfree s1)) s1 = ret (unit_addr c, t)"
      "heap_rel t a bs' F (insert (c, n) al)" "heap_same s t" "c \<noteq> 0" "c < 2 ^ 60"
      "{c..<c + n} \<inter> \<Union> (block_pages ` al) = {}"
      using slob_scan_take [OF inv sv n(1) False] by blast
    have "\<forall>k>0. free_room (Suc k) s \<longrightarrow> free_room k t"
      unfolding free_room_heap_same [OF t(3)] using free_room_mono by blast
    with block [OF _ t(2,4,5,6)] show ?thesis
      using run t(1) kmem_same_heap [OF t(3)] free_frames_heap_same [OF t(3)] by simp
  next
    case True
    have same: "intr_restore flag s1 = s"
      by (subst intr_restore_saved [OF sv refl], subst intr_save_fields [OF sv], simp)
    have "slob_loop sz (of_nat n) 0 flag (slobfree s1) (sb_next s1 (slobfree s1)) s1 = slob_grow sz (of_nat n) s"
      using slob_round_miss [OF heap_coreD(1) [OF heap_rel_saved(1) [OF inv sv]] True _ refl] n same by simp
    with run have run2: "slob_alloc sz 0 s = slob_grow sz (of_nat n) s" by simp
    show ?thesis
      by (rule slob_grow_spec [OF inv sz'(2) n]) (use run2 True that in \<open>auto simp: sz'\<close>)
  qed
qed

subsection \<open>kmalloc and kfree\<close>

text \<open>The units of a block of \<open>sz\<close> bytes with its header.\<close>

definition kmalloc_units :: "u64 \<Rightarrow> nat" where
  "kmalloc_units sz = (unat sz + 31) div 16"

lemma kmalloc_units_bounds:
  assumes "0 < sz" and "sz < 4064"
  shows "2 \<le> kmalloc_units sz" "kmalloc_units sz \<le> 255" "unat sz + 16 \<le> 16 * kmalloc_units sz"
    "unat (sz + SLOB_UNIT) + 16 < 4096" "ucast (SLOB_UNITS (sz + SLOB_UNIT)) = (of_nat (kmalloc_units sz) :: u32)"
proof -
  have sz: "0 < unat sz" "unat sz < 4064" using assms by (simp_all add: word_less_nat_alt)
  then show "2 \<le> kmalloc_units sz" "kmalloc_units sz \<le> 255" "unat sz + 16 \<le> 16 * kmalloc_units sz"
    unfolding kmalloc_units_def by linarith+
  have u: "unat (sz + SLOB_UNIT) = unat sz + 16" using sz by (simp add: SLOB_UNIT_def unat_word_ariths)
  then show "unat (sz + SLOB_UNIT) + 16 < 4096" using sz by simp
  have "unat (sz + SLOB_UNIT + SLOB_UNIT - 1) = unat sz + 31"
    using sz by (simp add: SLOB_UNIT_def unat_word_ariths)
  then have "unat (SLOB_UNITS (sz + SLOB_UNIT)) = kmalloc_units sz"
    by (simp add: SLOB_UNITS_def unat_div kmalloc_units_def) (simp add: SLOB_UNIT_def)
  then have "SLOB_UNITS (sz + SLOB_UNIT) = of_nat (kmalloc_units sz)" by (metis of_nat_unat ucast_id)
  then show "ucast (SLOB_UNITS (sz + SLOB_UNIT)) = (of_nat (kmalloc_units sz) :: u32)"
    using sz by (simp add: unsigned_of_nat kmalloc_units_def take_bit_nat_eq_self)
qed

lemma kmalloc_spec:
  assumes "heap_inv s al" and "0 < sz" and "sz < 4064"
  obtains (none) "kmalloc sz s = ret (0, s)" "free_frames s = {}"
  | (block) c t where "kmalloc sz s = ret (unit_addr (c + 1), t)" "heap_inv t (insert (c, kmalloc_units sz) al)"
      "c + 1 < 2 ^ 60" "{c..<c + kmalloc_units sz} \<inter> \<Union> (block_pages ` al) = {}"
      "free_frames t \<subseteq> free_frames s" "kmem_same s t"
      "\<forall>k>0. free_room (Suc k) s \<longrightarrow> free_room k t"
proof -
  obtain a bs F where inv: "heap_rel s a bs F al" using assms(1) by (auto simp: heap_inv_def)
  note n = kmalloc_units_bounds [OF assms(2,3)]
  have n256: "kmalloc_units sz \<le> 256" using n(2) by simp
  have "sz < PGSIZE - SLOB_UNIT" using assms(3) by (simp add: PGSIZE_def SLOB_UNIT_def word_less_nat_alt)
  then have run: "kmalloc sz s = run_bind (slob_alloc (sz + SLOB_UNIT) 0 s)
      (\<lambda>(m, s). ret (if m \<noteq> 0 then m + SLOB_UNIT else 0, s))" by (simp add: kmalloc_def)
  from inv n(4,5,1) n256 show ?thesis
  proof (cases rule: slob_alloc_spec)
    case none
    then show ?thesis using run by (intro that(1)) simp_all
  next
    case (block c t bs' F')
    have u: "unit_addr c + SLOB_UNIT = unit_addr (c + 1)" by (simp add: unit_addr_def SLOB_UNIT_def)
    have "c \<in> block_pages (c, kmalloc_units sz)" "c + 1 \<in> block_pages (c, kmalloc_units sz)"
      using n(1) by (simp_all add: block_pages_def)
    then have "c + 1 \<in> heap_units" using heap_coreD(3) [OF heap_relD(1) [OF block(2)]] by blast
    then have "c + 1 < 2 ^ 60" by (rule heap_units_less)
    from that(2) [OF _ _ this block(5-8)] show ?thesis
      using run block(1,2) unit_addr_0 [OF block(4)] block(3) by (auto simp: heap_inv_def u)
  qed
qed

lemma find_bigblock_none [simp]: "find_bigblock blk s lp 0 = Some (lp, 0)"
  by (subst find_bigblock.simps) simp

text \<open>With no big blocks \<open>kfree\<close> always comes down to \<open>slob_free\<close>, whatever the alignment.\<close>

lemma kfree_small:
  assumes "heap_rel s a bs F al" and "blk \<noteq> 0"
  shows "kfree blk s = slob_free (blk - SLOB_UNIT) 0 s"
proof -
  obtain flag s1 where sv: "intr_save s = (flag, s1)" by fastforce
  have "intr_restore flag s1 = s"
    by (subst intr_restore_saved [OF sv refl], subst intr_save_fields [OF sv], simp)
  moreover have "bigblocks s1 = 0" using heap_rel_saved(3) [OF assms(1) sv] heap_relD(7) [OF assms(1)] by simp
  ultimately show ?thesis using assms(2) by (simp add: kfree_def sv)
qed

lemma kfree_spec:
  assumes "heap_inv s al" and "(c, n) \<in> al"
  obtains t where "kfree (unit_addr (c + 1)) s = ret t" "heap_inv t (al - {(c, n)})"
    "free_frames t = free_frames s" "kmem_same s t" "heap_same s t"
proof -
  obtain a bs F where inv: "heap_rel s a bs F al" using assms(1) by (auto simp: heap_inv_def)
  note core = heap_relD(1) [OF inv] and D = heap_coreD [OF heap_relD(1) [OF inv]]
  have n: "0 < n" "sb_units s (unit_addr c) = of_nat n" using D(6) [OF assms(2)] by simp_all
  have blk: "block_pages (c, n) = {c..<c + n}" by (simp add: block_pages_def)
  have sub: "{c..<c + n} \<subseteq> \<Union> (block_pages ` al)" using assms(2) unfolding blk [symmetric] by blast
  have c: "c + 1 < 2 ^ 60"
  proof -
    have "c \<in> {c..<c + n}" using n(1) by simp
    then have "c \<in> heap_units" using sub D(3) by blast
    then show ?thesis by (simp add: heap_units_def frame_unit_def)
  qed
  have rest: "{c..<c + n} \<inter> \<Union> (block_pages ` (al - {(c, n)})) = {}"
    using D(5) assms(2) unfolding blk [symmetric] disjoint_family_on_def by blast
  obtain t where t: "slob_free (unit_addr c) 0 s = ret t" "heap_core t a (ff_free c n bs) (al - {(c, n)})"
      "heap_same s t" "pages_of (ff_free c n bs) = pages_of bs \<union> {c..<c + n}"
  proof (rule heap_give [OF core Diff_subset [of al "{(c, n)}"] _ n(1)])
    show "{c..<c + n} \<subseteq> heap_units \<inter> {a + 2..}" using sub D(3) by blast
    show "{c..<c + n} \<inter> (pages_of bs \<union> \<Union> (block_pages ` (al - {(c, n)}))) = {}"
      using sub D(4) rest by blast
    show "freed_units 0 c n s" using n(2) by (simp add: freed_units_def)
  qed blast
  have "unit_addr (c + 1) - SLOB_UNIT = unit_addr c" by (simp add: unit_addr_def SLOB_UNIT_def)
  then have "kfree (unit_addr (c + 1)) s = ret t" using kfree_small [OF inv, of "unit_addr (c + 1)"] c t(1) by simp
  moreover have "pages_of (ff_free c n bs) \<union> \<Union> (block_pages ` (al - {(c, n)})) = \<Union> (frame_units ` F)"
    using heap_relD(6) [OF inv] assms(2) unfolding t(4) blk [symmetric] by blast
  then have "heap_inv t (al - {(c, n)})" using heap_rel_same [OF inv t(3,2)] by (auto simp: heap_inv_def)
  ultimately show ?thesis using that kmem_same_heap [OF t(3)] free_frames_heap_same [OF t(3)] t(3) by simp
qed

end
