(* ===== verification/HeapSpec.thy ===== *)
theory HeapSpec
  imports KmallocSpec PagingOps
begin

unbundle bit_operations_syntax

text \<open>
  The properties of the heap: what \<open>slob_free\<close> and \<open>slob_alloc\<close> do to the ring, the interface the kernel
  uses (\<open>heap_source\<close>) with its interpretation on \<open>kmalloc\<close> and \<open>kfree\<close>, the runs of the heap from boot on,
  and three sizes for which \<open>kmalloc\<close> does not do what its caller asks for.
\<close>

subsection \<open>The interface\<close>

text \<open>A heap in a state \<open>s\<close> has given out the blocks \<open>al\<close>, first unit and number of units; \<open>ptr\<close> is the
  pointer its client holds.\<close>

locale heap_source =
  fixes alloc :: "u64 \<Rightarrow> 's \<Rightarrow> (u64 \<times> 's) run"
    and release :: "u64 \<Rightarrow> 's \<Rightarrow> 's run"
    and inv :: "'s \<Rightarrow> block set \<Rightarrow> bool"
    and ptr :: "block \<Rightarrow> u64"
    and good_size :: "u64 \<Rightarrow> bool"
  assumes alloc_outcome: "inv s al \<Longrightarrow> good_size sz \<Longrightarrow>
      alloc sz s = ret (0, s) \<or>
      (\<exists>x s'. alloc sz s = ret (ptr x, s') \<and> ptr x \<noteq> 0 \<and> inv s' (insert x al) \<and>
        unat sz + 16 \<le> 16 * snd x \<and> (\<forall>y\<in>al. block_pages x \<inter> block_pages y = {}))"
    and release_outcome: "inv s al \<Longrightarrow> x \<in> al \<Longrightarrow> \<exists>s'. release (ptr x) s = ret s' \<and> inv s' (al - {x})"
    and blocks: "inv s al \<Longrightarrow> x \<in> al \<Longrightarrow> 0 < snd x"
begin

text \<open>A block that was just given out is new, and giving it back leaves the blocks of before.\<close>

lemma alloc_release:
  assumes "inv s al" and "good_size sz" and "alloc sz s = ret (p, s1)" and "p \<noteq> 0"
  obtains s2 where "release p s1 = ret s2" "inv s2 al"
proof -
  obtain x where x: "p = ptr x" "inv s1 (insert x al)" "\<forall>y\<in>al. block_pages x \<inter> block_pages y = {}"
    using alloc_outcome [OF assms(1,2)] assms(3,4) by auto
  have "0 < snd x" using blocks [OF x(2)] by simp
  then have "x \<notin> al" using x(3) by (force simp: block_pages_def)
  then have "insert x al - {x} = al" by blast
  with release_outcome [OF x(2), of x] x(1) that show ?thesis by auto
qed

text \<open>Two blocks in use at the same time never overlap.\<close>

lemma alloc_alloc_disjoint:
  assumes "inv s al" and "good_size sz1" and "good_size sz2" and "alloc sz1 s = ret (p1, s1)" and "p1 \<noteq> 0"
    and "alloc sz2 s1 = ret (p2, s2)" and "p2 \<noteq> 0"
  obtains x1 x2 where "p1 = ptr x1" "p2 = ptr x2" "block_pages x1 \<inter> block_pages x2 = {}"
    "unat sz1 + 16 \<le> 16 * snd x1" "unat sz2 + 16 \<le> 16 * snd x2" "inv s2 (insert x2 (insert x1 al))"
proof -
  obtain x1 where x1: "p1 = ptr x1" "inv s1 (insert x1 al)" "unat sz1 + 16 \<le> 16 * snd x1"
    using alloc_outcome [OF assms(1,2)] assms(4,5) by auto
  obtain x2 where x2: "p2 = ptr x2" "unat sz2 + 16 \<le> 16 * snd x2" "inv s2 (insert x2 (insert x1 al))"
      "\<forall>y\<in>insert x1 al. block_pages x2 \<inter> block_pages y = {}"
    using alloc_outcome [OF x1(2) assms(3)] assms(6,7) by auto
  then have "block_pages x1 \<inter> block_pages x2 = {}" by blast
  with that x1 x2 show ?thesis by blast
qed

end

definition block_ptr :: "block \<Rightarrow> u64" where
  "block_ptr x = unit_addr (fst x + 1)"

definition small_size :: "u64 \<Rightarrow> bool" where
  "small_size sz \<longleftrightarrow> 0 < sz \<and> sz < 4064"

interpretation kheap: heap_source kmalloc kfree heap_inv block_ptr small_size
proof (unfold_locales, goal_cases)
  case (1 s al sz)
  then have sz: "0 < sz" "sz < 4064" by (simp_all add: small_size_def)
  from 1(1) sz show ?case
  proof (cases rule: kmalloc_spec)
    case none
    then show ?thesis by simp
  next
    case (block c t)
    let ?x = "(c, kmalloc_units sz)"
    have "block_ptr ?x \<noteq> 0" using unit_addr_0 [OF block(3)] by (simp add: block_ptr_def)
    moreover have "kmalloc sz s = ret (block_ptr ?x, t)" using block(1) by (simp add: block_ptr_def)
    moreover have "block_pages ?x = {c..<c + kmalloc_units sz}" by (simp add: block_pages_def)
    then have "\<forall>y\<in>al. block_pages ?x \<inter> block_pages y = {}" using block(4) by blast
    ultimately show ?thesis
      using block(2) kmalloc_units_bounds(3) [OF sz] by (intro disjI2 exI [of _ ?x] exI [of _ t]) simp
  qed
next
  case (2 s al x)
  from 2(1) have "heap_inv s al" .
  moreover from 2(2) have "(fst x, snd x) \<in> al" by simp
  ultimately show ?case by (rule kfree_spec) (auto simp: block_ptr_def)
next
  case (3 s al x)
  then show ?case by (auto simp: heap_inv_def dest!: heap_relD(1) heap_coreD(6))
qed

subsection \<open>Runs of the heap\<close>

text \<open>Other parts of the kernel take pages from the page allocator.\<close>

lemma heap_inv_alloc_pages:
  assumes "heap_inv s al" and "0 < n" and "alloc_pages n s = ret (r, t)"
  shows "heap_inv t al"
proof -
  obtain a bs F where inv: "heap_rel s a bs F al" using assms(1) by (auto simp: heap_inv_def)
  note D = heap_relD [OF inv]
  obtain pg h m where t: "t = s\<lparr>pages := pg, free_list := h, nr_free := m\<rparr>"
    using alloc_pages_frame [OF D(3) assms(2,3)] by auto
  have "free_frames t \<subseteq> free_frames s"
  proof (cases r)
    case None
    then show ?thesis using kernel.alloc_None [OF D(3) assms(2)] assms(3) by simp
  next
    case (Some p)
    then show ?thesis using kernel.alloc_Some [OF D(3) assms(2)] assms(3) by auto
  qed
  moreover have "heap_core t a bs al"
    by (rule heap_core_cong [OF D(1)]) (auto simp: t sb_units_def sb_next_def fun_eq_iff)
  moreover have "\<exists>fs. free_rel t fs" by (rule kernel.alloc_inv [OF D(3) assms(2,3)])
  moreover have "vm_ok t" "valid_frame t = valid_frame s" "bigblocks t = 0"
    using D(2,7) by (auto simp: t vm_ok_def valid_frame_def fun_eq_iff)
  ultimately have "heap_rel t a bs F al" using D(4-6) unfolding heap_rel_def by auto
  then show ?thesis by (auto simp: heap_inv_def)
qed

lemma heap_inv_boot:
  assumes "arena s = unit_addr a" and "a + 1 < 2 ^ 60" and "vm_ok s" and "\<exists>fs. free_rel s fs"
    and "\<forall>f\<in>free_frames s. valid_frame s f \<and> f < 0x3FFFF \<and> a + 2 \<le> frame_unit f"
  shows "heap_inv (heap_init s) {}"
proof -
  have same: "\<exists>h32 h64. heap_init s = s\<lparr>heap32 := h32, heap64 := h64, slobfree := arena s, bigblocks := 0\<rparr>"
    unfolding heap_init_def set_units_def set_next_block_def
    by (intro exI [of _ "(heap32 s)(arena s := 1)"] exI [of _ "(heap64 s)(arena s + 8 := arena s)"]) simp
  then obtain h32 h64 where t: "heap_init s = s\<lparr>heap32 := h32, heap64 := h64, slobfree := arena s, bigblocks := 0\<rparr>"
    by blast
  have ring: "slob_rel (heap_init s) [(a, 1)]"
    using assms(1,2) by (simp add: slob_rel_def heap_init_def blocks_simps slob_bound_def)
  then have "heap_core (heap_init s) a [] {}"
    using assms(1) by (simp add: heap_core_def t disjoint_family_on_def)
  moreover have "free_rel (heap_init s) fs = free_rel s fs" for fs by (rule free_rel_cong) (simp_all add: t)
  moreover have "free_frames (heap_init s) = free_frames s" by (rule free_frames_cong) (simp_all add: t)
  moreover have "vm_ok (heap_init s)" "valid_frame (heap_init s) = valid_frame s"
    using assms(3) by (auto simp: t vm_ok_def valid_frame_def fun_eq_iff)
  ultimately have "heap_rel (heap_init s) a [] {} {}" using assms(4,5) by (simp add: heap_rel_def t)
  then show ?thesis by (auto simp: heap_inv_def)
qed

text \<open>One call: of the heap, or of the page allocator by another part of the kernel.\<close>

inductive heap_step :: "'z heap_state_scheme \<times> block set \<Rightarrow> 'z heap_state_scheme \<times> block set \<Rightarrow> bool" where
  alloc: "small_size sz \<Longrightarrow> kmalloc sz s = ret (unit_addr (c + 1), t) \<Longrightarrow> c + 1 < 2 ^ 60 \<Longrightarrow>
    heap_step (s, al) (t, insert (c, kmalloc_units sz) al)"
| refuse: "small_size sz \<Longrightarrow> kmalloc sz s = ret (0, t) \<Longrightarrow> heap_step (s, al) (t, al)"
| release: "(c, n) \<in> al \<Longrightarrow> kfree (unit_addr (c + 1)) s = ret t \<Longrightarrow> heap_step (s, al) (t, al - {(c, n)})"
| pages: "0 < n \<Longrightarrow> alloc_pages n s = ret (r, t) \<Longrightarrow> heap_step (s, al) (t, al)"

inductive_cases heap_stepE: "heap_step (s, al) c"

inductive heap_reach :: "'z heap_state_scheme \<times> block set \<Rightarrow> bool" where
  boot: "arena s = unit_addr a \<Longrightarrow> a + 1 < 2 ^ 60 \<Longrightarrow> vm_ok s \<Longrightarrow> \<exists>fs. free_rel s fs \<Longrightarrow>
    \<forall>f\<in>free_frames s. valid_frame s f \<and> f < 0x3FFFF \<and> a + 2 \<le> frame_unit f \<Longrightarrow>
    heap_reach (heap_init s, {})"
| step: "heap_reach c \<Longrightarrow> heap_step c c' \<Longrightarrow> heap_reach c'"

lemma heap_step_inv:
  assumes "heap_inv s al" and "heap_step (s, al) (t, al')"
  shows "heap_inv t al'"
  using assms(2)
proof cases
  case (alloc sz c)
  then have sz: "0 < sz" "sz < 4064" by (simp_all add: small_size_def)
  from assms(1) sz show ?thesis
  proof (cases rule: kmalloc_spec)
    case none
    then show ?thesis using alloc unit_addr_0 [of "c + 1"] by auto
  next
    case (block d u)
    then have "unit_addr (c + 1) = unit_addr (d + 1)" using alloc by simp
    then have "c = d" using unit_addr_eq [OF \<open>c + 1 < 2 ^ 60\<close> block(3)] by simp
    then show ?thesis using block(1,2) alloc by simp
  qed
next
  case (refuse sz)
  then have sz: "0 < sz" "sz < 4064" by (simp_all add: small_size_def)
  from assms(1) sz show ?thesis
  proof (cases rule: kmalloc_spec)
    case none
    then show ?thesis using refuse assms(1) by simp
  next
    case (block d u)
    then show ?thesis using refuse unit_addr_0 [OF block(3)] by simp
  qed
next
  case (release c n)
  from assms(1) release(2) show ?thesis by (rule kfree_spec) (use release in simp)
next
  case (pages n r)
  then show ?thesis using heap_inv_alloc_pages [OF assms(1)] by blast
qed

lemma heap_reach_inv: "heap_reach (s, al) \<Longrightarrow> heap_inv s al"
proof (induction "(s, al)" arbitrary: s al rule: heap_reach.induct)
  case (boot s a)
  then show ?case using heap_inv_boot by blast
next
  case (step c s al)
  then show ?case using heap_step_inv by (metis surj_pair)
qed

subsection \<open>A concrete heap\<close>

text \<open>A machine of sixteen pages: 4 to 11 are free, \<open>arena\<close> is the first unit of page 0.\<close>

definition small_heap :: heap_state where
  "small_heap = \<lparr>sstatus = SSTATUS_SIE, sie = 0, satp = 0, stvec = 0, sscratch = 0, bytes = (\<lambda>_. 0), console = [],
     pages = (\<lambda>j. if j = 4 then \<lparr>p_ref = 0, p_flags = 2, p_property = 8\<rparr>
                 else if 4 < j \<and> j < 12 then \<lparr>p_ref = 0, p_flags = 0, p_property = 0\<rparr>
                 else cold_page),
     npage = 0x80010, va_pa_offset = PHYSICAL_MEMORY_OFFSET,
     free_list = \<lparr>le_prev = (\<lambda>_. FreeHead)(FreeHead := Link 4), le_next = (\<lambda>_. FreeHead)(FreeHead := Link 4)\<rparr>,
     nr_free = 8, ptes = (\<lambda>_. 0), tlb = (\<lambda>_. None), boot_pgdir_va = 0, boot_pgdir_pa = 0,
     heap32 = (\<lambda>_. 0), heap64 = (\<lambda>_. 0), arena = unit_addr (frame_unit 0), slobfree = 0, bigblocks = 0\<rparr>"

lemma small_heap_free: "free_rel small_heap [(4, 8)]"
  by (auto simp: free_rel_def rep_blocks_def cdll_def list_next_def list_prev_def blocks_simps
      flags_ok_def head_flags_def small_heap_def PageReserved_def PageProperty_def
      test_bit_word_def PG_reserved_def PG_property_def BITS_PER_LONG_def)

lemma small_heap_reach: "heap_reach (heap_init small_heap, {})"
proof (rule heap_reach.boot)
  show "arena small_heap = unit_addr (frame_unit 0)" by (simp add: small_heap_def)
  show "vm_ok small_heap" by (simp add: vm_ok_def small_heap_def)
  show "\<exists>fs. free_rel small_heap fs" using small_heap_free by blast
  show "\<forall>f\<in>free_frames small_heap. valid_frame small_heap f \<and> f < 0x3FFFF \<and> frame_unit 0 + 2 \<le> frame_unit f"
    using free_frames_eq [OF small_heap_free] by (auto simp: valid_frame_def small_heap_def frame_unit_def)
qed (simp add: frame_unit_def)

lemma small_heap_frames: "free_frames (heap_init small_heap) = {4..<12}"
proof -
  have "free_rel (heap_init small_heap) [(4, 8)]"
    using small_heap_free free_rel_cong [of "heap_init small_heap" small_heap]
    by (simp add: heap_init_def set_units_def set_next_block_def)
  then show ?thesis by (simp add: free_frames_eq)
qed

lemma small_heap_ring: "slob_rel (heap_init small_heap) [(frame_unit 0, 1)]"
  by (simp add: slob_rel_def heap_init_def blocks_simps slob_bound_def small_heap_def frame_unit_def)

subsection \<open>Properties\<close>

text \<open>C28. \<open>slob_free\<close> refines the release of the first-fit specification on the ring of free blocks:
  it enters the block at its place in address order, merges it with the neighbours it touches, and
  writes to no cell outside the resulting free blocks.\<close>

theorem slob_free_refines:
  assumes "slob_rel s bs" and "fits_free b n bs" and "fst (hd bs) + snd (hd bs) < b" and "b + n < 2 ^ 60"
    and "sum_list (map snd bs) + n < 2 ^ 31" and "freed_units sz b n s"
  shows "\<exists>t. slob_free (unit_addr b) sz s = ret t \<and> slob_rel t (ff_free b n bs) \<and> heap_same s t \<and>
    same_outside (pages_of (ff_free b n bs)) s t"
  using slob_free_spec [OF assms] by blast

lemma slob_free_refines_witness:
  "\<exists>t. slob_free (frame_kva 4) (ucast PGSIZE) (heap_init small_heap) = ret t \<and>
     slob_rel t [(frame_unit 0, 1), (frame_unit 4, 256)]"
proof -
  have "ff_free (frame_unit 4) 256 [(frame_unit 0, 1)] = [(frame_unit 0, 1), (frame_unit 4, 256)]"
    by (simp add: ff_free_def join_left_def join_right_def frame_unit_def)
  moreover have "fits_free (frame_unit 4) 256 [(frame_unit 0, 1)]"
    by (simp add: fits_free_def frame_unit_def)
  ultimately show ?thesis
    using slob_free_refines [OF small_heap_ring, of "frame_unit 4" 256 "ucast PGSIZE"] freed_page
    by (auto simp: frame_kva_unit frame_unit_def)
qed

lemma slob_alloc_fit:
  assumes "slob_rel s bs" and "snd (hd bs) < n" and "0 < n" and "sz < 4080"
    and "ucast (SLOB_UNITS sz) = (of_nat n :: u32)" and "next_fit n (slobfree s) bs = Some (c, k)"
  shows "\<exists>us vs t. bs = us @ (c, k) # vs \<and> n \<le> k \<and> slob_alloc sz 0 s = ret (unit_addr c, t) \<and>
    slob_rel t (us @ rest_block n c k @ vs) \<and> sb_units t (unit_addr c) = of_nat n \<and>
    slobfree t = unit_addr (fst (last us)) \<and> heap_same s t \<and> same_outside (pages_of bs) s t"
proof -
  obtain flag s1 where sv: "intr_save s = (flag, s1)" by fastforce
  have s1: "slobfree s1 = slobfree s" "slob_rel s1 bs" "sb_units s1 = sb_units s" "sb_next s1 = sb_next s"
    using assms(1) by (subst intr_save_fields [OF sv], simp)+
  have "sz + SLOB_UNIT < PGSIZE"
    using assms(4) by (simp add: word_less_nat_alt SLOB_UNIT_def PGSIZE_def unat_word_ariths)
  then have run: "slob_alloc sz 0 s = slob_loop sz (of_nat n) 0 flag (slobfree s1) (sb_next s1 (slobfree s1)) s1"
    using assms(5) by (simp add: slob_alloc_def sv Let_def)
  obtain us vs t where h: "bs = us @ (c, k) # vs" "n \<le> k"
      "slob_loop sz (of_nat n) 0 flag (slobfree s1) (sb_next s1 (slobfree s1)) s1
        = ret (unit_addr c, intr_restore flag t)"
      "slob_rel t (us @ rest_block n c k @ vs)" "sb_units t (unit_addr c) = of_nat n" "heap_same s1 t"
      "same_outside (pages_of bs) s1 t" "slobfree t = unit_addr (fst (last us))"
    using slob_round_hit [OF s1(2) assms(2,3) _ refl] assms(6) unfolding s1(1) by metis
  note r = heap_same_masked [OF sv h(6)]
  show ?thesis
  proof (intro exI conjI)
    show "slob_alloc sz 0 s = ret (unit_addr c, intr_restore flag t)" using run h(3) by simp
    show "slob_rel (intr_restore flag t) (us @ rest_block n c k @ vs)" using h(4) by (simp add: r(2))
    show "same_outside (pages_of bs) s (intr_restore flag t)"
      using h(7) by (simp add: same_outside_def r(2) s1(3,4))
  qed (use h r in simp_all)
qed

text \<open>C29. \<open>slob_alloc\<close> is next fit: it takes the units off the first block with room that the ring
  has after \<open>slobfree\<close>, writes the number of units into the header, and sets \<open>slobfree\<close> to the
  block before, where the next search starts.\<close>

theorem slob_alloc_next_fit:
  assumes "slob_rel s bs" and "snd (hd bs) < n" and "0 < n" and "sz < 4080"
    and "ucast (SLOB_UNITS sz) = (of_nat n :: u32)" and "next_fit n (slobfree s) bs = Some (c, k)"
  shows "\<exists>us vs t. bs = us @ (c, k) # vs \<and> n \<le> k \<and> slob_alloc sz 0 s = ret (unit_addr c, t) \<and>
    slob_rel t (us @ rest_block n c k @ vs) \<and> sb_units t (unit_addr c) = of_nat n \<and>
    slobfree t = unit_addr (fst (last us)) \<and> heap_same s t \<and> same_outside (pages_of bs) s t"
  by (rule slob_alloc_fit [OF assms])

lemma slob_alloc_next_fit_witness:
  "\<exists>s t :: heap_state. slob_alloc 40 0 s = ret (frame_kva 4, t) \<and>
     slob_rel t [(frame_unit 0, 1), (frame_unit 4 + 3, 253)]"
proof -
  have fits: "fits_free (frame_unit 4) 256 [(frame_unit 0, 1)]" by (simp add: fits_free_def frame_unit_def)
  have ff: "ff_free (frame_unit 4) 256 [(frame_unit 0, 1)] = [(frame_unit 0, 1), (frame_unit 4, 256)]"
    by (simp add: ff_free_def join_left_def join_right_def frame_unit_def)
  have "\<exists>s :: heap_state. slob_rel s [(frame_unit 0, 1), (frame_unit 4, 256)]"
    by (rule slob_free_spec [OF small_heap_ring fits _ _ _ freed_page])
      (use ff in \<open>auto simp: frame_unit_def\<close>)
  then obtain s :: heap_state where s: "slob_rel s [(frame_unit 0, 1), (frame_unit 4, 256)]" by blast
  have "next_fit 3 (slobfree s) [(frame_unit 0, 1), (frame_unit 4, 256)] = Some (frame_unit 4, 256)"
    by (auto simp: next_fit_def ring_from_def frame_unit_def split: list.split)
  from slob_alloc_next_fit [OF s, of 3 40, OF _ _ _ _ this] show ?thesis
    by (fastforce simp: SLOB_UNITS_def SLOB_UNIT_def frame_kva_unit rest_block_def append_eq_Cons_conv
      Cons_eq_append_conv)
qed

text \<open>C26. Whatever calls a booted heap has served, small requests and releases of blocks in use, while
  other parts of the kernel take pages: the units of the pages the heap owns are split between the free
  ring and the blocks in use, no unit is in two of them, and no page of the heap is free as a page.\<close>

theorem heap_reach_partition:
  assumes "heap_reach (s, al)"
  shows "\<exists>a bs F. slob_rel s ((a, 1) # bs) \<and> arena s = unit_addr a \<and>
    pages_of bs \<union> \<Union> (block_pages ` al) = \<Union> (frame_units ` F) \<and>
    pages_of bs \<inter> \<Union> (block_pages ` al) = {} \<and> disjoint_family_on block_pages al \<and>
    F \<inter> free_frames s = {}"
proof -
  obtain a bs F where inv: "heap_rel s a bs F al" using heap_reach_inv [OF assms] by (auto simp: heap_inv_def)
  from heap_relD(4,6) [OF inv] heap_coreD(1,2,4,5) [OF heap_relD(1) [OF inv]] show ?thesis by blast
qed

lemma small_heap_takes:
  obtains c t where "kmalloc 100 (heap_init small_heap) = ret (unit_addr (c + 1), t)"
    "heap_reach (t, {(c, kmalloc_units 100)})" "c + 1 < 2 ^ 60"
proof -
  have sz: "(0 :: u64) < 100" "(100 :: u64) < 4064" by simp_all
  from heap_reach_inv [OF small_heap_reach] sz show ?thesis
  proof (cases rule: kmalloc_spec)
    case none
    then show ?thesis by (simp add: small_heap_frames)
  next
    case (block c t)
    have "heap_step (heap_init small_heap, {}) (t, insert (c, kmalloc_units 100) {})"
      using block by (intro heap_step.alloc) (simp_all add: small_size_def)
    then have "heap_reach (t, {(c, kmalloc_units 100)})" using small_heap_reach by (auto intro: heap_reach.step)
    with block that show ?thesis by blast
  qed
qed

lemma heap_reach_partition_witness:
  "\<exists>(t :: heap_state) c F. heap_reach (t, {(c, 8)}) \<and> {c..<c + 8} \<subseteq> \<Union> (frame_units ` F) \<and>
     F \<inter> free_frames t = {}"
proof -
  obtain c and t :: heap_state where r: "heap_reach (t, {(c, kmalloc_units 100)})"
    by (rule small_heap_takes) blast
  have "kmalloc_units 100 = 8" by (simp add: kmalloc_units_def)
  with heap_reach_partition [OF r] r show ?thesis by (fastforce simp: block_pages_def)
qed

text \<open>C27. A request of 1 to 4063 bytes either gets a block that is large enough and overlaps no block in
  use, and giving that block back restores the blocks of before; or it is refused, and then no page of the
  machine is free.\<close>

theorem kmalloc_kfree_roundtrip:
  assumes "heap_reach (s, al)" and "small_size sz"
  shows "(kmalloc sz s = ret (0, s) \<and> free_frames s = {}) \<or>
    (\<exists>x t u. kmalloc sz s = ret (block_ptr x, t) \<and> block_ptr x \<noteq> 0 \<and> unat sz + 16 \<le> 16 * snd x \<and>
      (\<forall>y\<in>al. block_pages x \<inter> block_pages y = {}) \<and> kfree (block_ptr x) t = ret u \<and> heap_inv u al)"
proof -
  note inv = heap_reach_inv [OF assms(1)]
  have sz: "0 < sz" "sz < 4064" using assms(2) by (simp_all add: small_size_def)
  from inv sz show ?thesis
  proof (cases rule: kmalloc_spec)
    case (block c t)
    let ?x = "(c, kmalloc_units sz)"
    have ptr: "unit_addr (c + 1) = block_ptr ?x" "block_ptr ?x \<noteq> 0"
      using unit_addr_0 [OF block(3)] by (simp_all add: block_ptr_def)
    have pages: "block_pages ?x = {c..<c + kmalloc_units sz}" by (simp add: block_pages_def)
    obtain u where "kfree (block_ptr ?x) t = ret u" "heap_inv u al"
      using kheap.alloc_release [OF inv assms(2), of "block_ptr ?x" t] block(1) ptr by auto
    moreover have "\<forall>y\<in>al. block_pages ?x \<inter> block_pages y = {}" using block(4) unfolding pages by blast
    ultimately show ?thesis
      using block(1) ptr kmalloc_units_bounds(3) [OF sz] by (intro disjI2 exI [of _ ?x]) auto
  qed simp
qed

lemma kmalloc_kfree_roundtrip_witness:
  "\<exists>p (t :: heap_state) u. kmalloc 100 (heap_init small_heap) = ret (p, t) \<and> p \<noteq> 0 \<and> kfree p t = ret u \<and>
     heap_inv u {}"
  using kmalloc_kfree_roundtrip [OF small_heap_reach, of 100] by (auto simp: small_size_def small_heap_frames)

text \<open>Two blocks that \<open>kmalloc\<close> gave out and that are both in use never share a byte.\<close>

theorem kmalloc_disjoint:
  assumes "heap_reach (s, al)" and "small_size sz1" and "small_size sz2"
    and "kmalloc sz1 s = ret (p1, s1)" and "p1 \<noteq> 0" and "kmalloc sz2 s1 = ret (p2, s2)" and "p2 \<noteq> 0"
  shows "\<exists>x1 x2. p1 = block_ptr x1 \<and> p2 = block_ptr x2 \<and> block_pages x1 \<inter> block_pages x2 = {} \<and>
    unat sz1 + 16 \<le> 16 * snd x1 \<and> unat sz2 + 16 \<le> 16 * snd x2 \<and> heap_inv s2 (insert x2 (insert x1 al))"
  using kheap.alloc_alloc_disjoint [OF heap_reach_inv [OF assms(1)] assms(2-7)] by metis

lemma kmalloc_disjoint_witness:
  "\<exists>p1 p2 (s1 :: heap_state) s2. kmalloc 100 (heap_init small_heap) = ret (p1, s1) \<and>
     kmalloc 200 s1 = ret (p2, s2) \<and> (p2 \<noteq> 0 \<longrightarrow> p1 \<noteq> p2)"
proof -
  obtain c t where t: "kmalloc 100 (heap_init small_heap) = ret (unit_addr (c + 1), t)"
      "heap_reach (t, {(c, kmalloc_units 100)})" "c + 1 < 2 ^ 60"
    by (rule small_heap_takes)
  have sz: "small_size 100" "small_size 200" by (simp_all add: small_size_def)
  obtain p2 s2 where p2: "kmalloc 200 t = ret (p2, s2)"
    using kheap.alloc_outcome [OF heap_reach_inv [OF t(2)] sz(2)] by auto
  have "p2 \<noteq> 0 \<longrightarrow> unit_addr (c + 1) \<noteq> p2"
  proof
    assume "p2 \<noteq> 0"
    moreover have "unit_addr (c + 1) \<noteq> 0" using unit_addr_0 [OF t(3)] by simp
    ultimately obtain x1 x2 where x: "unit_addr (c + 1) = block_ptr x1" "p2 = block_ptr x2"
        "block_pages x1 \<inter> block_pages x2 = {}" "heap_inv s2 (insert x2 (insert x1 {}))"
      using kmalloc_disjoint [OF small_heap_reach sz t(1) _ p2] by auto
    obtain a bs F where inv: "heap_rel s2 a bs F {x2, x1}" using x(4) by (auto simp: heap_inv_def)
    note D = heap_coreD [OF heap_relD(1) [OF inv]]
    have mem: "fst x1 \<in> block_pages x1" "fst x2 \<in> block_pages x2"
      using D(6) by (simp_all add: block_pages_def)
    then have "fst x1 \<in> heap_units" "fst x2 \<in> heap_units" using D(3) by auto
    then have "fst x1 + 1 < 2 ^ 60" "fst x2 + 1 < 2 ^ 60" by (simp_all add: heap_units_def frame_unit_def)
    then have "block_ptr x1 = block_ptr x2 \<longleftrightarrow> fst x1 = fst x2" unfolding block_ptr_def by simp
    then show "unit_addr (c + 1) \<noteq> p2" using x(1-3) mem by auto
  qed
  with t(1) p2 show ?thesis by blast
qed

subsection \<open>Sizes that go wrong\<close>

text \<open>C40. The bound that \<open>kmalloc\<close> checks before it calls \<open>slob_alloc\<close> leaves out the header that it adds:
  a request of 4064 to 4079 bytes fails the assertion of \<open>slob_alloc\<close> and stops the kernel.\<close>

theorem kmalloc_gap_panics:
  assumes "4064 \<le> sz" and "sz < 4080"
  shows "kmalloc sz s = panic ''assertion failed: (size + SLOB_UNIT) < PAGE_SIZE''"
proof -
  have "\<not> sz + SLOB_UNIT + SLOB_UNIT < PGSIZE" "sz < PGSIZE - SLOB_UNIT"
    using assms by (auto simp: word_less_nat_alt word_le_nat_alt SLOB_UNIT_def PGSIZE_def unat_word_ariths)
  then show ?thesis by (simp add: kmalloc_def slob_alloc_def)
qed

lemma kmalloc_gap_panics_witness:
  "kmalloc 4064 small_heap = panic ''assertion failed: (size + SLOB_UNIT) < PAGE_SIZE''"
  by (rule kmalloc_gap_panics) simp_all

text \<open>\<open>find_order\<close> rounds down: up to \<open>2 ^ k - 1\<close> bytes more than \<open>2 ^ k\<close> pages hold are given
  \<open>2 ^ k\<close> pages.\<close>

lemma find_order_step: "find_order sz = (if 4096 < sz then Suc (find_order (sz div 2)) else 0)"
  by (rule find_order.simps)

theorem find_order_rounds_down:
  assumes "4096 * 2 ^ k \<le> sz" and "sz < 4097 * 2 ^ k"
  shows "find_order sz = k"
  using assms
proof (induction k arbitrary: sz)
  case 0
  then show ?case by (subst find_order_step) simp
next
  case (Suc k)
  have "4096 * 2 ^ k \<le> sz div 2" "sz div 2 < 4097 * 2 ^ k" using Suc.prems by simp_all
  then have "find_order (sz div 2) = k" by (rule Suc.IH)
  moreover have "(1 :: int) \<le> 2 ^ k" by simp
  then have "4096 < sz" using Suc.prems unfolding power_Suc by linarith
  ultimately show ?case by (subst find_order_step) simp
qed

lemma find_order_rounds_down_witness: "find_order 8193 = 1 \<and> 4096 * 2 ^ 1 < (8193 :: int)"
  using find_order_rounds_down [of 1 8193] by simp

text \<open>\<open>kmalloc\<close> of no bytes takes one unit, and \<open>arena\<close> is one: when it is alone in the ring it is
  given out without being unlinked, and the next such request gets it again.\<close>

theorem kmalloc_zero_shares_arena:
  assumes "slob_rel s [(a, 1)]" and "0 < a"
  shows "\<exists>t u. kmalloc 0 s = ret (unit_addr (a + 1), t) \<and> slob_rel t [(a, 1)] \<and>
    kmalloc 0 t = ret (unit_addr (a + 1), u)"
proof -
  have one: "\<exists>t. kmalloc 0 s = ret (unit_addr (a + 1), t) \<and> slob_rel t [(a, 1)]"
    if rel: "slob_rel s [(a, 1)]" for s :: "'a heap_state_scheme"
  proof -
    let ?p = "unit_addr a"
    have s: "sb_units s ?p = 1" "sb_next s ?p = ?p" "slobfree s = ?p" "a + 1 < 2 ^ 60"
      using rel by (auto simp: slob_rel_def slob_bound_def)
    obtain flag s1 where sv: "intr_save s = (flag, s1)" by fastforce
    have s1: "sb_units s1 ?p = 1" "sb_next s1 ?p = ?p" "slobfree s1 = ?p" "slob_rel s1 [(a, 1)]"
      using s rel by (subst intr_save_fields [OF sv], simp)+
    define t where "t = (set_next_block ?p ?p s1)\<lparr>slobfree := ?p\<rparr>"
    have "slob_take 1 0 0 ?p ?p s1 = (?p, t)" using s1 by (simp add: slob_take_def t_def Let_def)
    then have "slob_loop 16 1 0 flag ?p ?p s1 = ret (?p, intr_restore flag t)"
      using s1 by (subst slob_loop.simps) simp
    moreover have "16 + SLOB_UNIT < PGSIZE" "0 < PGSIZE - SLOB_UNIT" "ucast (SLOB_UNITS 16) = (1 :: u32)"
      by (simp_all add: SLOB_UNIT_def PGSIZE_def SLOB_UNITS_def)
    ultimately have "slob_alloc 16 0 s = ret (?p, intr_restore flag t)"
      by (simp add: slob_alloc_def sv s1)
    moreover have "?p \<noteq> 0" using assms(2) s(4) by simp
    moreover have "?p + 16 = unit_addr (a + 1)" by (simp add: unit_addr_def)
    ultimately have "kmalloc 0 s = ret (unit_addr (a + 1), intr_restore flag t)"
      using \<open>0 < PGSIZE - SLOB_UNIT\<close> by (simp add: kmalloc_def SLOB_UNIT_def)
    moreover have "slob_rel t [(a, 1)]" using s1(1,2,4) by (simp add: slob_rel_def t_def)
    moreover have "intr_restore flag t = t\<lparr>sstatus := sstatus s\<rparr>"
      by (rule intr_restore_saved [OF sv]) (simp add: t_def set_next_block_def)
    ultimately show ?thesis by simp
  qed
  from one [OF assms(1)] one show ?thesis by blast
qed

lemma kmalloc_zero_shares_arena_witness:
  "\<exists>(t :: heap_state) u. kmalloc 0 (heap_init small_heap) = ret (unit_addr (frame_unit 0 + 1), t) \<and>
     kmalloc 0 t = ret (unit_addr (frame_unit 0 + 1), u)"
  using kmalloc_zero_shares_arena [OF small_heap_ring] by (auto simp: frame_unit_def)

end
