(* ===== verification/Devices.thy ===== *)
theory Devices
  imports Proc Printfmt "HOL-Library.Stream"
begin

unbundle bit_operations_syntax

text \<open>
  The kernel and its firmware: libs/sbi.h, kern/driver/clock.c, kern/driver/console.c,
  kern/driver/picirq.c, kern/libs/stdio.c and kern/libs/readline.c. A call of the SBI firmware is
  logged in \<open>sbi_calls\<close>, function code and first argument. The firmware is not part of the program: the
  keys it answers to \<open>SBI_CONSOLE_GETCHAR\<close> are the stream \<open>keys\<close>, 0 or a negative number when no key was
  pressed, and \<open>rdtime\<close> reads \<open>time_csr\<close>.
\<close>

record io_state = kernel_state +
  sbi_calls :: "(u64 \<times> u64) list"
  keys :: "u64 stream"
  time_csr :: u64
  ticks :: u64
  timebase :: u64
  tick_prints :: u64
  is_panic :: bool
  memory_base :: u64
  memory_size :: u64
  boot_hartid :: u64
  boot_dtb :: u64
  line_buf :: u64

subsection \<open>sbi.h\<close>

definition SBI_SET_TIMER :: u64 where "SBI_SET_TIMER = 0"
definition SBI_CONSOLE_PUTCHAR :: u64 where "SBI_CONSOLE_PUTCHAR = 1"
definition SBI_CONSOLE_GETCHAR :: u64 where "SBI_CONSOLE_GETCHAR = 2"
definition SBI_CLEAR_IPI :: u64 where "SBI_CLEAR_IPI = 3"
definition SBI_SEND_IPI :: u64 where "SBI_SEND_IPI = 4"
definition SBI_REMOTE_FENCE_I :: u64 where "SBI_REMOTE_FENCE_I = 5"
definition SBI_REMOTE_SFENCE_VMA :: u64 where "SBI_REMOTE_SFENCE_VMA = 6"
definition SBI_REMOTE_SFENCE_VMA_ASID :: u64 where "SBI_REMOTE_SFENCE_VMA_ASID = 7"
definition SBI_SHUTDOWN :: u64 where "SBI_SHUTDOWN = 8"

definition SBI_CALL_1 :: "u64 \<Rightarrow> u64 \<Rightarrow> 'z io_state_scheme \<Rightarrow> 'z io_state_scheme" where
  "SBI_CALL_1 which arg0 s = s\<lparr>sbi_calls := sbi_calls s @ [(which, arg0)]\<rparr>"

definition SBI_CALL_0 :: "u64 \<Rightarrow> 'z io_state_scheme \<Rightarrow> 'z io_state_scheme" where
  "SBI_CALL_0 which s = SBI_CALL_1 which 0 s"

definition sbi_console_putchar :: "u32 \<Rightarrow> 'z io_state_scheme \<Rightarrow> 'z io_state_scheme" where
  "sbi_console_putchar ch s = SBI_CALL_1 SBI_CONSOLE_PUTCHAR (scast ch) s"

definition sbi_console_getchar :: "'z io_state_scheme \<Rightarrow> u32 \<times> 'z io_state_scheme" where
  "sbi_console_getchar s =
     (ucast (shd (keys s)), (SBI_CALL_0 SBI_CONSOLE_GETCHAR s)\<lparr>keys := stl (keys s)\<rparr>)"

definition sbi_set_timer :: "u64 \<Rightarrow> 'z io_state_scheme \<Rightarrow> 'z io_state_scheme" where
  "sbi_set_timer v s = SBI_CALL_1 SBI_SET_TIMER v s"

definition sbi_shutdown :: "'z io_state_scheme \<Rightarrow> 'z io_state_scheme" where
  "sbi_shutdown s = SBI_CALL_0 SBI_SHUTDOWN s"

definition sbi_clear_ipi :: "'z io_state_scheme \<Rightarrow> 'z io_state_scheme" where
  "sbi_clear_ipi s = SBI_CALL_0 SBI_CLEAR_IPI s"

definition sbi_send_ipi :: "u64 \<Rightarrow> 'z io_state_scheme \<Rightarrow> 'z io_state_scheme" where
  "sbi_send_ipi hart_mask s = SBI_CALL_1 SBI_SEND_IPI hart_mask s"

definition sbi_remote_fence_i :: "u64 \<Rightarrow> 'z io_state_scheme \<Rightarrow> 'z io_state_scheme" where
  "sbi_remote_fence_i hart_mask s = SBI_CALL_1 SBI_REMOTE_FENCE_I hart_mask s"

text \<open>The range and the address space are parameters that the code does not pass on.\<close>

definition sbi_remote_sfence_vma :: "u64 \<Rightarrow> u64 \<Rightarrow> u64 \<Rightarrow> 'z io_state_scheme \<Rightarrow> 'z io_state_scheme" where
  "sbi_remote_sfence_vma hart_mask start sz s = SBI_CALL_1 SBI_REMOTE_SFENCE_VMA hart_mask s"

definition sbi_remote_sfence_vma_asid ::
  "u64 \<Rightarrow> u64 \<Rightarrow> u64 \<Rightarrow> u64 \<Rightarrow> 'z io_state_scheme \<Rightarrow> 'z io_state_scheme" where
  "sbi_remote_sfence_vma_asid hart_mask start sz asid s =
     SBI_CALL_1 SBI_REMOTE_SFENCE_VMA_ASID hart_mask s"

subsection \<open>clock.c and picirq.c\<close>

definition IRQ_S_TIMER :: u64 where "IRQ_S_TIMER = 5"
definition MIP_STIP :: u64 where "MIP_STIP = push_bit (unat IRQ_S_TIMER) 1"

definition get_cycles :: "'z io_state_scheme \<Rightarrow> u64" where
  "get_cycles s = time_csr s"

definition clock_set_next_event :: "'z io_state_scheme \<Rightarrow> 'z io_state_scheme" where
  "clock_set_next_event s = sbi_set_timer (get_cycles s + timebase s) s"

definition clock_init :: "'z io_state_scheme \<Rightarrow> 'z io_state_scheme" where
  "clock_init s =
     (let s = s\<lparr>timebase := 10000000 div 100\<rparr>;
          s = clock_set_next_event s;
          s = s\<lparr>sie := sie s OR MIP_STIP\<rparr>;
          s = s\<lparr>ticks := 0\<rparr>
      in say ''++ setup timer interrupts\<newline>'' [] s)"

definition pic_enable :: "u32 \<Rightarrow> 'z io_state_scheme \<Rightarrow> 'z io_state_scheme" where
  "pic_enable irq s = s"

definition pic_init :: "'z io_state_scheme \<Rightarrow> 'z io_state_scheme" where
  "pic_init s = s"

subsection \<open>console.c\<close>

definition kbd_intr :: "'z io_state_scheme \<Rightarrow> 'z io_state_scheme" where
  "kbd_intr s = s"

definition serial_intr :: "'z io_state_scheme \<Rightarrow> 'z io_state_scheme" where
  "serial_intr s = s"

definition cons_init :: "'z io_state_scheme \<Rightarrow> 'z io_state_scheme" where
  "cons_init s = s"

definition cons_putc :: "u32 \<Rightarrow> 'z io_state_scheme \<Rightarrow> 'z io_state_scheme" where
  "cons_putc c s =
     (let (flag, s) = intr_save s
      in intr_restore flag (sbi_console_putchar (ucast (ucast c :: u8)) s))"

definition cons_getc :: "'z io_state_scheme \<Rightarrow> u32 \<times> 'z io_state_scheme" where
  "cons_getc s =
     (let (flag, s) = intr_save s;
          (c, s) = sbi_console_getchar s
      in (c, intr_restore flag s))"

subsection \<open>stdio.c\<close>

definition cputch :: "u8 \<Rightarrow> u32 \<times> 'z io_state_scheme \<Rightarrow> u32 \<times> 'z io_state_scheme" where
  "cputch c st = (fst st + 1, cons_putc (ucast c) (snd st))"

text \<open>The callback is called for the characters of the output in order.\<close>

definition vcprintf :: "u64 \<Rightarrow> u64 list \<Rightarrow> 'z io_state_scheme \<Rightarrow> (u32 \<times> 'z io_state_scheme) run" where
  "vcprintf fmt ap s = run_bind (vprintfmt (bytes s) fmt ap) (\<lambda>out. ret (fold cputch out (0, s)))"

definition cprintf :: "u64 \<Rightarrow> u64 list \<Rightarrow> 'z io_state_scheme \<Rightarrow> (u32 \<times> 'z io_state_scheme) run" where
  "cprintf fmt args s = vcprintf fmt args s"

definition cputchar :: "u32 \<Rightarrow> 'z io_state_scheme \<Rightarrow> 'z io_state_scheme" where
  "cputchar c s = cons_putc c s"

partial_function (option) getchar :: "'z io_state_scheme \<Rightarrow> (u32 \<times> 'z io_state_scheme) option" where
  "getchar s = (if fst (cons_getc s) = 0 then getchar (snd (cons_getc s)) else Some (cons_getc s))"

declare getchar.simps [code]

subsection \<open>readline.c\<close>

definition BUFSIZE :: int where "BUFSIZE = 1024"

text \<open>The loop with \<open>i\<close> characters in the buffer; comparisons of the \<open>int\<close> \<open>c\<close> are signed.\<close>

partial_function (option) readline_loop :: "nat \<Rightarrow> 'z io_state_scheme \<Rightarrow> (u64 \<times> 'z io_state_scheme) option" where
  "readline_loop i s = Option.bind (getchar s) (\<lambda>r.
     let c = fst r; s = snd r in
     if sint c < 0 then Some (0, s)
     else if 32 \<le> sint c \<and> int i < BUFSIZE - 1
     then readline_loop (i + 1)
            (let s = cputchar c s in s\<lparr>bytes := (bytes s)(line_buf s + of_nat i := ucast c)\<rparr>)
     else if c = 8 \<and> 0 < i then readline_loop (i - 1) (cputchar c s)
     else if c = 10 \<or> c = 13
     then (let s = cputchar c s
           in Some (line_buf s, s\<lparr>bytes := (bytes s)(line_buf s + of_nat i := 0)\<rparr>))
     else readline_loop i s)"

declare readline_loop.simps [code]

text \<open>The prompt is the text of the string, if there is one.\<close>

definition readline :: "string option \<Rightarrow> 'z io_state_scheme \<Rightarrow> (u64 \<times> 'z io_state_scheme) option" where
  "readline prompt s =
     readline_loop 0 (case prompt of None \<Rightarrow> s | Some p \<Rightarrow> say ''%s'' [CStr p] s)"

end
