(* ===== verification/Monitor.thy ===== *)
theory Monitor
  imports Devices
begin

unbundle bit_operations_syntax

text \<open>
  kern/debug: the kernel monitor (kmonitor.c), panic.c and kdebug.c. The literals that the code compares
  strings with lie at the addresses of \<open>mon_addrs\<close>, as do the symbols of the linker.
\<close>

record mon_addrs =
  a_white :: u64
  a_help :: u64
  a_kerninfo :: u64
  a_backtrace :: u64
  a_kern_init :: u64
  a_etext :: u64
  a_edata :: u64
  a_end :: u64

subsection \<open>kdebug.c and panic.c\<close>

definition print_kerninfo :: "mon_addrs \<Rightarrow> 'z io_state_scheme \<Rightarrow> 'z io_state_scheme" where
  "print_kerninfo a s =
     (let sz = sint (a_end a - a_kern_init a + 1023);
          kb = (if 0 \<le> sz then sz div 1024 else - ((- sz) div 1024));
          s = say ''Special kernel symbols:\<newline>'' [] s;
          s = say ''  entry  0x%08x (virtual)\<newline>'' [CNum (a_kern_init a)] s;
          s = say ''  etext  0x%08x (virtual)\<newline>'' [CNum (a_etext a)] s;
          s = say ''  edata  0x%08x (virtual)\<newline>'' [CNum (a_edata a)] s;
          s = say ''  end    0x%08x (virtual)\<newline>'' [CNum (a_end a)] s
      in say ''Kernel executable memory footprint: %dKB\<newline>'' [CNum (of_int kb)] s)"

definition print_stackframe :: "'z io_state_scheme \<Rightarrow> 'z io_state_scheme run" where
  "print_stackframe s = panic ''Not Implemented!''"

text \<open>\<open>__panic\<close> up to its endless loop of calls of \<open>kmonitor\<close>; the first message is printed only once.\<close>

definition panic_enter :: "string \<Rightarrow> u64 \<Rightarrow> string \<Rightarrow> carg list \<Rightarrow> 'z io_state_scheme \<Rightarrow> 'z io_state_scheme" where
  "panic_enter file line fmt args s =
     intr_disable
       (if is_panic s then s
        else let s = s\<lparr>is_panic := True\<rparr>;
                 s = say ''kernel panic at %s:%d:\<newline>    '' [CStr file, CNum line] s;
                 s = say fmt args s
             in say ''\<newline>'' [] s)"

definition kernel_warn :: "string \<Rightarrow> u64 \<Rightarrow> string \<Rightarrow> carg list \<Rightarrow> 'z io_state_scheme \<Rightarrow> 'z io_state_scheme" where
  "kernel_warn file line fmt args s =
     (let s = say ''kernel warning at %s:%d:\<newline>    '' [CStr file, CNum line] s;
          s = say fmt args s
      in say ''\<newline>'' [] s)"

definition is_kernel_panic :: "'z io_state_scheme \<Rightarrow> bool" where
  "is_kernel_panic s = is_panic s"

subsection \<open>Parsing a command line\<close>

definition MAXARGS :: nat where "MAXARGS = 16"

text \<open>White space is overwritten by NUL bytes.\<close>

partial_function (option) skip_white :: "u64 \<Rightarrow> u64 \<Rightarrow> mem \<Rightarrow> (u64 \<times> mem) option" where
  "skip_white ws b m =
     (if m b = 0 then Some (b, m)
      else Option.bind (strchr m ws (m b)) (\<lambda>p.
        if p \<noteq> 0 then skip_white ws (b + 1) (m(b := 0)) else Some (b, m)))"

partial_function (option) skip_arg :: "u64 \<Rightarrow> u64 \<Rightarrow> mem \<Rightarrow> u64 option" where
  "skip_arg ws b m =
     (if m b = 0 then Some b
      else Option.bind (strchr m ws (m b)) (\<lambda>p. if p = 0 then skip_arg ws (b + 1) m else Some b))"

declare skip_white.simps [code] and skip_arg.simps [code]

text \<open>The list holds what is stored through \<open>argv\<close>, one element after the other; the array of \<open>runcmd\<close>
  has room for \<open>MAXARGS\<close> of them. \<open>argc\<close> is its length.\<close>

partial_function (option) parse_loop ::
  "u64 \<Rightarrow> u64 \<Rightarrow> u64 list \<Rightarrow> 'z io_state_scheme \<Rightarrow> (u64 list \<times> 'z io_state_scheme) option" where
  "parse_loop ws b argv s =
     Option.bind (skip_white ws b (bytes s)) (\<lambda>r.
     let b = fst r; s = s\<lparr>bytes := snd r\<rparr> in
     if bytes s b = 0 then Some (argv, s)
     else
       let s = (if length argv = MAXARGS - 1 then say ''Too many arguments (max %d).\<newline>'' [CNum 16] s else s)
       in Option.bind (skip_arg ws b (bytes s)) (\<lambda>e. parse_loop ws e (argv @ [b]) s))"

declare parse_loop.simps [code]

definition parse :: "mon_addrs \<Rightarrow> u64 \<Rightarrow> 'z io_state_scheme \<Rightarrow> (u64 list \<times> 'z io_state_scheme) option" where
  "parse a buf s = parse_loop (a_white a) buf [] s"

subsection \<open>Commands\<close>

datatype mon_func = MonHelp | MonKerninfo | MonBacktrace

definition commands :: "mon_addrs \<Rightarrow> (u64 \<times> string \<times> string \<times> mon_func) list" where
  "commands a =
     [(a_help a, ''help'', ''Display this list of commands.'', MonHelp),
      (a_kerninfo a, ''kerninfo'', ''Display information about the kernel.'', MonKerninfo),
      (a_backtrace a, ''backtrace'', ''Print backtrace of stack frame.'', MonBacktrace)]"

definition mon_help :: "mon_addrs \<Rightarrow> 'z io_state_scheme \<Rightarrow> 'z io_state_scheme" where
  "mon_help a s = fold (\<lambda>(_, nm, desc, _). say ''%s - %s\<newline>'' [CStr nm, CStr desc]) (commands a) s"

definition run_func :: "mon_addrs \<Rightarrow> mon_func \<Rightarrow> 'z io_state_scheme \<Rightarrow> (int \<times> 'z io_state_scheme) run" where
  "run_func a f s =
     (case f of
        MonHelp \<Rightarrow> ret (0, mon_help a s)
      | MonKerninfo \<Rightarrow> ret (0, print_kerninfo a s)
      | MonBacktrace \<Rightarrow> run_bind (print_stackframe s) (\<lambda>s. ret (0, s)))"

text \<open>The search of \<open>runcmd\<close> in the rest \<open>cs\<close> of the table.\<close>

fun find_command :: "(u64 \<times> string \<times> string \<times> mon_func) list \<Rightarrow> mem \<Rightarrow> u64 \<Rightarrow> mon_func option option" where
  "find_command [] m arg = Some None"
| "find_command ((nm, _, _, f) # cs) m arg =
     Option.bind (strcmp m nm arg) (\<lambda>r. if r = 0 then Some (Some f) else find_command cs m arg)"

text \<open>The array \<open>argv\<close> of \<open>runcmd\<close> has \<open>MAXARGS\<close> elements. When \<open>parse\<close> has stored more than that, the stack
  frame of \<open>runcmd\<close> above the array, its return address included, is overwritten, and C gives the run no
  meaning: the model stops with an outcome of its own, which is no panic of the code.\<close>

definition argv_overrun :: "'a run" where "argv_overrun = Some (Inl ''argv overrun'')"

definition runcmd :: "mon_addrs \<Rightarrow> u64 \<Rightarrow> 'z io_state_scheme \<Rightarrow> (int \<times> 'z io_state_scheme) run" where
  "runcmd a buf s =
     run_bind (loop_run (parse a buf s)) (\<lambda>(argv, s).
     if MAXARGS < length argv then argv_overrun
     else case argv of [] \<Rightarrow> ret (0, s)
     | arg # _ \<Rightarrow>
         run_bind (loop_run (find_command (commands a) (bytes s) arg)) (\<lambda>f.
         case f of None \<Rightarrow> ret (0, say (''Unknown command '' @ [CHR 0x27] @ ''%s'' @ [CHR 0x27] @ ''\<newline>'') [CNum arg] s)
         | Some f \<Rightarrow> run_func a f s))"

text \<open>The loop of \<open>kmonitor\<close>.\<close>

partial_function (option) monitor_loop :: "mon_addrs \<Rightarrow> 'z io_state_scheme \<Rightarrow> 'z io_state_scheme run" where
  "monitor_loop a s =
     run_bind (loop_run (readline (Some ''K> '') s)) (\<lambda>r.
       if fst r \<noteq> 0
       then run_bind (runcmd a (fst r) (snd r)) (\<lambda>q.
              if fst q < 0 then ret (snd q) else monitor_loop a (snd q))
       else monitor_loop a (snd r))"

declare monitor_loop.simps [code]

end
