(* ===== verification/Trap.thy ===== *)
theory Trap
  imports Monitor
begin

unbundle bit_operations_syntax

text \<open>
  kern/trap: the handlers of trap.c, \<open>kmonitor\<close> of kern/debug/kmonitor.c, which prints a trap frame, and
  the assembly around them: trapentry.S, the return of switch.S and kern/process/entry.S. The registers and
  the CSRs of the trap machinery are the fields of \<open>trap_state\<close>; a trap frame is the object at its address
  in \<open>tfs\<close>. What the processor does when it takes a trap and at \<open>sret\<close> is that of the RISC-V privileged
  architecture. The build without \<open>DEBUG_GRADE\<close> is modelled. Addresses of instructions are even.
\<close>

subsection \<open>trap.c\<close>

definition TICK_NUM :: u64 where "TICK_NUM = 100"

definition IRQ_U_SOFT :: u64 where "IRQ_U_SOFT = 0"
definition IRQ_S_SOFT :: u64 where "IRQ_S_SOFT = 1"
definition IRQ_H_SOFT :: u64 where "IRQ_H_SOFT = 2"
definition IRQ_M_SOFT :: u64 where "IRQ_M_SOFT = 3"
definition IRQ_U_TIMER :: u64 where "IRQ_U_TIMER = 4"
definition IRQ_H_TIMER :: u64 where "IRQ_H_TIMER = 6"
definition IRQ_M_TIMER :: u64 where "IRQ_M_TIMER = 7"
definition IRQ_U_EXT :: u64 where "IRQ_U_EXT = 8"
definition IRQ_S_EXT :: u64 where "IRQ_S_EXT = 9"
definition IRQ_H_EXT :: u64 where "IRQ_H_EXT = 10"
definition IRQ_M_EXT :: u64 where "IRQ_M_EXT = 11"

definition CAUSE_MISALIGNED_FETCH :: u64 where "CAUSE_MISALIGNED_FETCH = 0x0"
definition CAUSE_FETCH_ACCESS :: u64 where "CAUSE_FETCH_ACCESS = 0x1"
definition CAUSE_ILLEGAL_INSTRUCTION :: u64 where "CAUSE_ILLEGAL_INSTRUCTION = 0x2"
definition CAUSE_BREAKPOINT :: u64 where "CAUSE_BREAKPOINT = 0x3"
definition CAUSE_MISALIGNED_LOAD :: u64 where "CAUSE_MISALIGNED_LOAD = 0x4"
definition CAUSE_LOAD_ACCESS :: u64 where "CAUSE_LOAD_ACCESS = 0x5"
definition CAUSE_MISALIGNED_STORE :: u64 where "CAUSE_MISALIGNED_STORE = 0x6"
definition CAUSE_STORE_ACCESS :: u64 where "CAUSE_STORE_ACCESS = 0x7"
definition CAUSE_USER_ECALL :: u64 where "CAUSE_USER_ECALL = 0x8"
definition CAUSE_SUPERVISOR_ECALL :: u64 where "CAUSE_SUPERVISOR_ECALL = 0x9"
definition CAUSE_HYPERVISOR_ECALL :: u64 where "CAUSE_HYPERVISOR_ECALL = 0xa"
definition CAUSE_MACHINE_ECALL :: u64 where "CAUSE_MACHINE_ECALL = 0xb"
definition CAUSE_FETCH_PAGE_FAULT :: u64 where "CAUSE_FETCH_PAGE_FAULT = 0xc"
definition CAUSE_LOAD_PAGE_FAULT :: u64 where "CAUSE_LOAD_PAGE_FAULT = 0xd"
definition CAUSE_STORE_PAGE_FAULT :: u64 where "CAUSE_STORE_PAGE_FAULT = 0xf"

text \<open>The 16 bits of the instruction are read in little-endian order.\<close>

definition advance_pc :: "u64 \<Rightarrow> mem \<Rightarrow> u64" where
  "advance_pc epc m =
     (let inst = (ucast (m epc) OR push_bit 8 (ucast (m (epc + 1))) :: 16 word)
      in if inst AND 3 = 3 then epc + 4 else epc + 2)"

definition print_ticks :: "'z machine_scheme \<Rightarrow> 'z machine_scheme" where
  "print_ticks s = say ''%d ticks\<newline>'' [CNum TICK_NUM] s"

text \<open>\<open>alltraps\<close> is the address of \<open>__alltraps\<close>.\<close>

definition idt_init :: "u64 \<Rightarrow> 'z machine_scheme \<Rightarrow> 'z machine_scheme" where
  "idt_init alltraps s =
     (let s = s\<lparr>sscratch := 0\<rparr>;
          s = s\<lparr>stvec := alltraps\<rparr>
      in s\<lparr>sstatus := sstatus s OR SSTATUS_SUM\<rparr>)"

definition print_regs :: "(greg \<Rightarrow> u64) \<Rightarrow> 'z machine_scheme \<Rightarrow> 'z machine_scheme" where
  "print_regs g s =
     fold (\<lambda>(fmt, r). say fmt [CNum (g r)])
       [(''  zero     0x%08x\<newline>'', G_zero), (''  ra       0x%08x\<newline>'', G_ra),
        (''  sp       0x%08x\<newline>'', G_sp), (''  gp       0x%08x\<newline>'', G_gp),
        (''  tp       0x%08x\<newline>'', G_tp), (''  t0       0x%08x\<newline>'', G_t0),
        (''  t1       0x%08x\<newline>'', G_t1), (''  t2       0x%08x\<newline>'', G_t2),
        (''  s0       0x%08x\<newline>'', G_s0), (''  s1       0x%08x\<newline>'', G_s1),
        (''  a0       0x%08x\<newline>'', G_a0), (''  a1       0x%08x\<newline>'', G_a1),
        (''  a2       0x%08x\<newline>'', G_a2), (''  a3       0x%08x\<newline>'', G_a3),
        (''  a4       0x%08x\<newline>'', G_a4), (''  a5       0x%08x\<newline>'', G_a5),
        (''  a6       0x%08x\<newline>'', G_a6), (''  a7       0x%08x\<newline>'', G_a7),
        (''  s2       0x%08x\<newline>'', G_s2), (''  s3       0x%08x\<newline>'', G_s3),
        (''  s4       0x%08x\<newline>'', G_s4), (''  s5       0x%08x\<newline>'', G_s5),
        (''  s6       0x%08x\<newline>'', G_s6), (''  s7       0x%08x\<newline>'', G_s7),
        (''  s8       0x%08x\<newline>'', G_s8), (''  s9       0x%08x\<newline>'', G_s9),
        (''  s10      0x%08x\<newline>'', G_s10), (''  s11      0x%08x\<newline>'', G_s11),
        (''  t3       0x%08x\<newline>'', G_t3), (''  t4       0x%08x\<newline>'', G_t4),
        (''  t5       0x%08x\<newline>'', G_t5), (''  t6       0x%08x\<newline>'', G_t6)] s"

definition print_trapframe :: "u64 \<Rightarrow> 'z kernel_state_scheme \<Rightarrow> 'z kernel_state_scheme" where
  "print_trapframe tf s =
     (let s = say ''trapframe at %p\<newline>'' [CNum tf] s;
          s = print_regs (gpr (tfs s tf)) s;
          s = say ''  status   0x%08x\<newline>'' [CNum (tf_status (tfs s tf))] s;
          s = say ''  epc      0x%08x\<newline>'' [CNum (tf_epc (tfs s tf))] s;
          s = say ''  badvaddr 0x%08x\<newline>'' [CNum (tf_badvaddr (tfs s tf))] s
      in say ''  cause    0x%08x\<newline>'' [CNum (tf_cause (tfs s tf))] s)"

text \<open>The shifts are those of the unsigned field.\<close>

definition interrupt_handler :: "u64 \<Rightarrow> 'z io_state_scheme \<Rightarrow> 'z io_state_scheme" where
  "interrupt_handler tf s =
     (let cause = drop_bit 1 (push_bit 1 (tf_cause (tfs s tf))) in
      if cause = IRQ_U_SOFT then say ''User software interrupt\<newline>'' [] s
      else if cause = IRQ_S_SOFT then say ''Supervisor software interrupt\<newline>'' [] s
      else if cause = IRQ_H_SOFT then say ''Hypervisor software interrupt\<newline>'' [] s
      else if cause = IRQ_M_SOFT then say ''Machine software interrupt\<newline>'' [] s
      else if cause = IRQ_U_TIMER then say ''User software interrupt\<newline>'' [] s
      else if cause = IRQ_S_TIMER then
        (let s = clock_set_next_event s;
             s = s\<lparr>ticks := ticks s + 1\<rparr>
         in if ticks s mod TICK_NUM = 0
            then (let s = print_ticks s;
                      s = s\<lparr>tick_prints := tick_prints s + 1\<rparr>
                  in if tick_prints s = 10 then sbi_shutdown s else s)
            else s)
      else if cause = IRQ_H_TIMER then say ''Hypervisor software interrupt\<newline>'' [] s
      else if cause = IRQ_M_TIMER then say ''Machine software interrupt\<newline>'' [] s
      else if cause = IRQ_U_EXT then say ''User software interrupt\<newline>'' [] s
      else if cause = IRQ_S_EXT then say ''Supervisor external interrupt\<newline>'' [] s
      else if cause = IRQ_H_EXT then say ''Hypervisor software interrupt\<newline>'' [] s
      else if cause = IRQ_M_EXT then say ''Machine software interrupt\<newline>'' [] s
      else print_trapframe tf s)"

definition skip_instruction :: "u64 \<Rightarrow> 'z kernel_state_scheme \<Rightarrow> 'z kernel_state_scheme" where
  "skip_instruction tf s =
     s\<lparr>tfs := (tfs s)(tf := (tfs s tf)\<lparr>tf_epc := advance_pc (tf_epc (tfs s tf)) (bytes s)\<rparr>)\<rparr>"

definition exception_handler :: "u64 \<Rightarrow> 'z kernel_state_scheme \<Rightarrow> 'z kernel_state_scheme" where
  "exception_handler tf s =
     (let cause = tf_cause (tfs s tf) in
      if cause = CAUSE_MISALIGNED_FETCH then say ''Instruction address misaligned\<newline>'' [] s
      else if cause = CAUSE_FETCH_ACCESS then say ''Instruction access fault\<newline>'' [] s
      else if cause = CAUSE_ILLEGAL_INSTRUCTION then
        skip_instruction tf (say ''Illegal instruction caught at 0x%08x\<newline>'' [CNum (tf_epc (tfs s tf))] s)
      else if cause = CAUSE_BREAKPOINT then
        skip_instruction tf (say ''Breakpoint caught at 0x%08x\<newline>'' [CNum (tf_epc (tfs s tf))] s)
      else if cause = CAUSE_MISALIGNED_LOAD then say ''Load address misaligned\<newline>'' [] s
      else if cause = CAUSE_LOAD_ACCESS then say ''Load access fault\<newline>'' [] s
      else if cause = CAUSE_MISALIGNED_STORE then say ''AMO address misaligned\<newline>'' [] s
      else if cause = CAUSE_STORE_ACCESS then say ''Store/AMO access fault\<newline>'' [] s
      else if cause = CAUSE_USER_ECALL then say ''Environment call from U-mode\<newline>'' [] s
      else if cause = CAUSE_SUPERVISOR_ECALL then say ''Environment call from S-mode\<newline>'' [] s
      else if cause = CAUSE_HYPERVISOR_ECALL then say ''Environment call from H-mode\<newline>'' [] s
      else if cause = CAUSE_MACHINE_ECALL then say ''Environment call from M-mode\<newline>'' [] s
      else if cause = CAUSE_FETCH_PAGE_FAULT then say ''Instruction page fault\<newline>'' [] s
      else if cause = CAUSE_LOAD_PAGE_FAULT then say ''Load page fault\<newline>'' [] s
      else if cause = CAUSE_STORE_PAGE_FAULT then say ''Store/AMO page fault\<newline>'' [] s
      else print_trapframe tf s)"

definition trap :: "u64 \<Rightarrow> 'z io_state_scheme \<Rightarrow> 'z io_state_scheme" where
  "trap tf s =
     (if sint (tf_cause (tfs s tf)) < 0 then interrupt_handler tf s else exception_handler tf s)"

subsection \<open>kmonitor\<close>

text \<open>The call of \<open>sbi_shutdown\<close> is one that comes back: what is modelled is the C code, on a machine that its
  firmware does not turn off.\<close>

definition kmonitor :: "mon_addrs \<Rightarrow> u64 \<Rightarrow> 'z io_state_scheme \<Rightarrow> 'z io_state_scheme run" where
  "kmonitor a tf s =
     (let s = say ''Welcome to the kernel debug monitor!!\<newline>'' [] s;
          s = say (''Type '' @ [CHR 0x27] @ ''help'' @ [CHR 0x27] @ '' for a list of commands.\<newline>'') [] s;
          s = (if tf \<noteq> 0 then print_trapframe tf s else s);
          s = sbi_shutdown s
      in monitor_loop a s)"

subsection \<open>Registers and the processor\<close>

record trap_state = io_state +
  regs :: "greg \<Rightarrow> u64"
  pc :: u64
  sepc :: u64
  stval :: u64
  scause :: u64
  s_mode :: bool

definition set_reg :: "greg \<Rightarrow> u64 \<Rightarrow> 'z trap_state_scheme \<Rightarrow> 'z trap_state_scheme" where
  "set_reg r v s = s\<lparr>regs := (regs s)(r := v)\<rparr>"

text \<open>The bits of \<open>mask\<close>, set or cleared.\<close>

definition with_bits :: "u64 \<Rightarrow> bool \<Rightarrow> u64 \<Rightarrow> u64" where
  "with_bits m b w = (if b then w OR m else w AND NOT m)"

text \<open>Taking a trap, and \<open>sret\<close>.\<close>

definition take_trap :: "u64 \<Rightarrow> u64 \<Rightarrow> 'z trap_state_scheme \<Rightarrow> 'z trap_state_scheme" where
  "take_trap cause tval s =
     s\<lparr>sepc := pc s, scause := cause, stval := tval,
       sstatus := with_bits SSTATUS_SIE False
         (with_bits SSTATUS_SPIE (intr_on s) (with_bits SSTATUS_SPP (s_mode s) (sstatus s))),
       s_mode := True, pc := stvec s\<rparr>"

definition sret :: "'z trap_state_scheme \<Rightarrow> 'z trap_state_scheme" where
  "sret s =
     s\<lparr>pc := sepc s, s_mode := (sstatus s AND SSTATUS_SPP \<noteq> 0),
       sstatus := with_bits SSTATUS_SIE (sstatus s AND SSTATUS_SPIE \<noteq> 0)
         (with_bits SSTATUS_SPIE True (with_bits SSTATUS_SPP False (sstatus s)))\<rparr>"

subsection \<open>trapentry.S\<close>

text \<open>The stores and loads of one register in the frame at the stack pointer, and the registers
  they go over, in the order of the code: all but \<open>x0\<close> and the stack pointer \<open>x2\<close>.\<close>

definition store_reg :: "greg \<Rightarrow> 'z trap_state_scheme \<Rightarrow> 'z trap_state_scheme" where
  "store_reg r s =
     (let a = regs s G_sp in s\<lparr>tfs := (tfs s)(a := (tfs s a)\<lparr>gpr := (gpr (tfs s a))(r := regs s r)\<rparr>)\<rparr>)"

definition load_reg :: "greg \<Rightarrow> 'z trap_state_scheme \<Rightarrow> 'z trap_state_scheme" where
  "load_reg r s = set_reg r (gpr (tfs s (regs s G_sp)) r) s"

definition frame_regs :: "greg list" where
  "frame_regs = [G_ra, G_gp, G_tp, G_t0, G_t1, G_t2, G_s0, G_s1, G_a0, G_a1, G_a2, G_a3, G_a4, G_a5, G_a6, G_a7,
     G_s2, G_s3, G_s4, G_s5, G_s6, G_s7, G_s8, G_s9, G_s10, G_s11, G_t3, G_t4, G_t5, G_t6]"

definition SAVE_ALL :: "'z trap_state_scheme \<Rightarrow> 'z trap_state_scheme" where
  "SAVE_ALL s =
     (let s = s\<lparr>sscratch := regs s G_sp\<rparr>;
          s = set_reg G_sp (regs s G_sp - sizeof_trapframe) s;
          s = fold store_reg frame_regs s;
          s = set_reg G_s0 (sscratch s) s;
          s = set_reg G_s1 (sstatus s) s;
          s = set_reg G_s2 (sepc s) s;
          s = set_reg G_s3 (stval s) s;
          s = set_reg G_s4 (scause s) s;
          a = regs s G_sp;
          tf = tfs s a
      in s\<lparr>tfs := (tfs s)(a := tf\<lparr>gpr := (gpr tf)(G_sp := regs s G_s0), tf_status := regs s G_s1,
           tf_epc := regs s G_s2, tf_badvaddr := regs s G_s3, tf_cause := regs s G_s4\<rparr>)\<rparr>)"

definition RESTORE_ALL :: "'z trap_state_scheme \<Rightarrow> 'z trap_state_scheme" where
  "RESTORE_ALL s =
     (let s = set_reg G_s1 (tf_status (tfs s (regs s G_sp))) s;
          s = set_reg G_s2 (tf_epc (tfs s (regs s G_sp))) s;
          s = s\<lparr>sstatus := regs s G_s1\<rparr>;
          s = s\<lparr>sepc := regs s G_s2\<rparr>;
          s = fold load_reg frame_regs s
      in load_reg G_sp s)"

definition trapret :: "'z trap_state_scheme \<Rightarrow> 'z trap_state_scheme" where
  "trapret s = sret (RESTORE_ALL s)"

text \<open>\<open>after\<close> is what the compiled \<open>trap\<close> leaves in the registers.\<close>

definition alltraps :: "(greg \<Rightarrow> u64) \<Rightarrow> 'z trap_state_scheme \<Rightarrow> 'z trap_state_scheme" where
  "alltraps after s =
     (let s = SAVE_ALL s;
          s = set_reg G_a0 (regs s G_sp) s;
          s = trap (regs s G_a0) s
      in trapret (s\<lparr>regs := after\<rparr>))"

definition forkrets :: "'z trap_state_scheme \<Rightarrow> 'z trap_state_scheme" where
  "forkrets s = trapret (set_reg G_sp (regs s G_a0) s)"

subsection \<open>The first steps of a thread\<close>

text \<open>The loads of \<open>switch_to\<close> in terms of the whole register file, and its \<open>ret\<close>.\<close>

definition switch_ret :: "'z trap_state_scheme \<Rightarrow> 'z trap_state_scheme" where
  "switch_ret s =
     (let c = cpu s in
      s\<lparr>regs := (regs s)(G_ra := c_ra c, G_sp := c_sp c, G_s0 := c_s0 c, G_s1 := c_s1 c, G_s2 := c_s2 c,
          G_s3 := c_s3 c, G_s4 := c_s4 c, G_s5 := c_s5 c, G_s6 := c_s6 c, G_s7 := c_s7 c, G_s8 := c_s8 c,
          G_s9 := c_s9 c, G_s10 := c_s10 c, G_s11 := c_s11 c),
        pc := c_ra c\<rparr>)"

definition forkret :: "'z trap_state_scheme \<Rightarrow> 'z trap_state_scheme" where
  "forkret s = forkrets (set_reg G_a0 (proc_tf (procs s (current s))) s)"

text \<open>\<open>next\<close> is the address after the \<open>jalr\<close>, where the thread function returns to.\<close>

definition kernel_thread_entry :: "u64 \<Rightarrow> 'z trap_state_scheme \<Rightarrow> 'z trap_state_scheme" where
  "kernel_thread_entry nxt s =
     (let s = set_reg G_a0 (regs s G_s1) s;
          s = s\<lparr>pc := regs s G_s0\<rparr>
      in set_reg G_ra nxt s)"

definition kernel_thread_exit :: "'z trap_state_scheme \<Rightarrow> (int \<times> 'z trap_state_scheme) run" where
  "kernel_thread_exit s = do_exit (sint (ucast (regs s G_a0) :: u32)) s"

text \<open>The name is printed from the buffer of \<open>get_proc_name\<close>.\<close>

definition init_main :: "u64 \<Rightarrow> 'z kernel_state_scheme \<Rightarrow> u32 \<times> 'z kernel_state_scheme" where
  "init_main arg s =
     (let p = pid (procs s (current s));
          s = get_proc_name (current s) s;
          nm = map (\<lambda>c. char_of (unat c)) (takeWhile (\<lambda>c. c \<noteq> 0) (name_buf s));
          s = say (''this initproc, pid = %d, name = '' @ [CHR 0x22] @ ''%s'' @ [CHR 0x22] @ ''\<newline>'')
                [CNum (of_int p), CStr nm] s;
          s = say (''To U: '' @ [CHR 0x22] @ ''%s'' @ [CHR 0x22] @ ''.\<newline>'') [CNum arg] s
      in (0, say (''To U: '' @ [CHR 0x22] @ ''en.., Bye, Bye. :)'' @ [CHR 0x22] @ ''\<newline>'') [] s))"

end
