(* ===== verification/DeviceSpec.thy ===== *)
theory DeviceSpec
  imports Devices ProcSpec
begin

unbundle bit_operations_syntax

text \<open>
  What \<open>readline\<close> leaves in its buffer: the line an editor with 1023 characters and a backspace key makes
  of the keys pressed, as a C string, and nothing outside the buffer.
\<close>

subsection \<open>Console calls\<close>

text \<open>Both mask interrupts around the firmware call.\<close>

interpretation masked_putc: critical_section
  "\<lambda>s. ret ((), sbi_console_putchar (ucast (ucast c :: u8)) s)" "\<lambda>s. ret ((), cons_putc c s)" for c
  by unfold_locales
    (simp_all add: cons_putc_def sbi_console_putchar_def SBI_CALL_1_def case_prod_unfold Let_def)

interpretation masked_getc: critical_section "\<lambda>s. ret (sbi_console_getchar s)" "\<lambda>s. ret (cons_getc s)"
  by unfold_locales
    (simp_all add: cons_getc_def sbi_console_getchar_def SBI_CALL_0_def SBI_CALL_1_def case_prod_unfold Let_def)

lemma cons_putc_eq:
  "cons_putc c s = s\<lparr>sbi_calls := sbi_calls s @ [(SBI_CONSOLE_PUTCHAR, scast (ucast (ucast c :: u8) :: u32))]\<rparr>"
  using masked_putc.transparent [of c s] by (simp add: sbi_console_putchar_def SBI_CALL_1_def)

lemma cons_getc_eq:
  "cons_getc s = (ucast (shd (keys s)),
     s\<lparr>sbi_calls := sbi_calls s @ [(SBI_CONSOLE_GETCHAR, 0)], keys := stl (keys s)\<rparr>)"
  using masked_getc.transparent [of s] by (simp add: sbi_console_getchar_def SBI_CALL_0_def SBI_CALL_1_def)

text \<open>Each key may have been polled for any number of times before it was pressed.\<close>

fun key_presses :: "(nat \<times> u64) list \<Rightarrow> u64 list" where
  "key_presses [] = []"
| "key_presses ((n, k) # ps) = replicate n 0 @ k # key_presses ps"

lemma getchar_polls:
  assumes "keys s = replicate n 0 @- k ## ks" and "(ucast k :: u32) \<noteq> 0"
  shows "getchar s = Some (ucast k, s\<lparr>sbi_calls := sbi_calls s @ replicate (Suc n) (SBI_CONSOLE_GETCHAR, 0), keys := ks\<rparr>)"
  using assms(1)
proof (induction n arbitrary: s)
  case 0
  then show ?case using assms(2) by (subst getchar.simps) (simp add: cons_getc_eq)
next
  case (Suc n)
  let ?t = "snd (cons_getc s)"
  have "keys ?t = replicate n 0 @- k ## ks" using Suc.prems by (simp add: cons_getc_eq)
  from Suc.IH [OF this] show ?case using Suc.prems
    by (subst getchar.simps) (simp add: cons_getc_eq)
qed

subsection \<open>The line editor\<close>

definition edit_key :: "u8 list \<Rightarrow> u64 \<Rightarrow> u8 list" where
  "edit_key line k =
     (if 32 \<le> k \<and> length line < 1023 then line @ [ucast k] else if k = 8 then butlast line else line)"

definition edited :: "(nat \<times> u64) list \<Rightarrow> u8 list \<Rightarrow> u8 list" where
  "edited ps line = foldl edit_key line (map snd ps)"

text \<open>A key that does not end the line; the firmware passes bytes on.\<close>

definition line_key :: "u64 \<Rightarrow> bool" where
  "line_key k \<longleftrightarrow> 0 < k \<and> k < 256 \<and> k \<noteq> 10 \<and> k \<noteq> 13"

definition line_at :: "mem \<Rightarrow> u64 \<Rightarrow> u8 list \<Rightarrow> bool" where
  "line_at m a xs \<longleftrightarrow> (\<forall>j<length xs. m (a + of_nat j) = xs ! j \<and> xs ! j \<noteq> 0)"

lemma cstr_line_at: "cstr m a xs \<longleftrightarrow> line_at m a xs \<and> m (a + of_nat (length xs)) = 0"
proof (induction xs arbitrary: a)
  case (Cons x xs)
  have "line_at m a (x # xs) \<longleftrightarrow> m a = x \<and> x \<noteq> 0 \<and> line_at m (a + 1) xs"
    by (auto simp: line_at_def All_less_Suc2 add.assoc)
  then show ?case using Cons by (simp add: add.assoc)
qed (simp add: line_at_def)

lemma line_at_butlast: "line_at m a xs \<Longrightarrow> line_at m a (butlast xs)"
  by (simp add: line_at_def nth_butlast)

lemma key_int:
  assumes "line_key k \<or> k = 10 \<or> k = 13"
  shows "sint (ucast k :: u32) = uint k" "(ucast k :: u32) \<noteq> 0" "unat k < 256"
    "(ucast k :: u32) = 8 \<longleftrightarrow> k = 8" "(ucast k :: u32) = 10 \<longleftrightarrow> k = 10" "(ucast k :: u32) = 13 \<longleftrightarrow> k = 13"
    "(ucast (ucast k :: u32) :: u8) = ucast k" "32 \<le> k \<longleftrightarrow> 32 \<le> uint k" "(ucast k :: u8) = 0 \<longleftrightarrow> unat k = 0"
proof -
  show lt: "unat k < 256" using assms by (auto simp: line_key_def word_less_nat_alt)
  have u32: "unat (ucast k :: u32) = unat k" using lt by (simp add: unat_ucast_u64_u32)
  have u8: "unat (ucast k :: u8) = unat k" using lt by (simp add: unsigned_ucast_eq take_bit_nat_eq_self)
  have i32: "uint (ucast k :: u32) = uint k" "uint k < 256" using lt by (simp_all only: uint_nat u32)
  show "sint (ucast k :: u32) = uint k"
    unfolding sint_uint i32 by (rule signed_take_bit_int_eq_self)
      (rule order_trans [OF _ unsigned_greater_eq], simp, use i32(2) in simp)
  have eq: "(ucast k :: u32) = w \<longleftrightarrow> unat k = unat w" for w by (simp add: word_unat_eq_iff u32)
  show "(ucast k :: u32) \<noteq> 0" using assms by (auto simp: eq line_key_def word_less_nat_alt)
  show "(ucast k :: u32) = 8 \<longleftrightarrow> k = 8" "(ucast k :: u32) = 10 \<longleftrightarrow> k = 10" "(ucast k :: u32) = 13 \<longleftrightarrow> k = 13"
    unfolding eq by (simp_all add: word_unat_eq_iff)
  have "unat (ucast w :: u8) = unat w mod 256" for w :: u32
    by (simp add: unsigned_ucast_eq take_bit_eq_mod)
  then have "unat (ucast (ucast k :: u32) :: u8) = unat (ucast k :: u32) mod 256" .
  then show "(ucast (ucast k :: u32) :: u8) = ucast k"
    using lt by (simp add: word_unat_eq_iff u32 u8)
  show "32 \<le> k \<longleftrightarrow> 32 \<le> uint k" by (simp add: word_le_def)
  show "(ucast k :: u8) = 0 \<longleftrightarrow> unat k = 0" by (simp add: word_unat_eq_iff u8)
qed

text \<open>One key.\<close>

lemma readline_key:
  assumes "keys s = replicate n 0 @- k ## ks" and k: "line_key k" and line: "line_at (bytes s) (line_buf s) line"
    and len: "length line \<le> 1023"
  obtains t where "readline_loop (length line) s = readline_loop (length (edit_key line k)) t"
    "keys t = ks" "line_at (bytes t) (line_buf t) (edit_key line k)" "line_buf t = line_buf s"
    "\<forall>x. x \<notin> (\<lambda>j. line_buf s + of_nat j) ` {..<1024} \<longrightarrow> bytes t x = bytes s x"
    "length (edit_key line k) \<le> 1023"
proof -
  note ki = key_int [OF disjI1 [OF k]]
  let ?s = "s\<lparr>sbi_calls := sbi_calls s @ replicate (Suc n) (SBI_CONSOLE_GETCHAR, 0), keys := ks\<rparr>"
  have g: "getchar s = Some (ucast k, ?s)" by (rule getchar_polls [OF assms(1) ki(2)])
  have nl: "k \<noteq> 10" "k \<noteq> 13" using k by (auto simp: line_key_def)
  consider (ins) "32 \<le> uint k" "length line < 1023" | (del) "k = 8" "line \<noteq> []"
    | (skip) "\<not> (32 \<le> uint k \<and> length line < 1023)" "k = 8 \<longrightarrow> line = []"
    by blast
  then show ?thesis
  proof cases
    case ins
    let ?t = "(cputchar (ucast k) ?s)\<lparr>bytes := (bytes s)(line_buf s + of_nat (length line) := ucast k)\<rparr>"
    have run: "readline_loop (length line) s = readline_loop (length line + 1) ?t"
      using ins ki by (subst readline_loop.simps) (simp add: g BUFSIZE_def cputchar_def cons_putc_eq Let_def)
    have ek: "edit_key line k = line @ [ucast k]" using ins ki(8) by (simp add: edit_key_def)
    have "(of_nat j :: u64) \<noteq> of_nat (length line)" if "j < length line" for j
      using that len unat_of_nat_u64 [of j] unat_of_nat_u64 [of "length line"] by auto
    then have "line_at (bytes ?t) (line_buf s) (line @ [ucast k])"
      using line k ki(9) by (auto simp: line_at_def nth_append less_Suc_eq line_key_def word_less_nat_alt)
    moreover have "length line \<in> {..<1024}" using ins(2) by simp
    then have "\<forall>x. x \<notin> (\<lambda>j. line_buf s + of_nat j) ` {..<1024} \<longrightarrow> bytes ?t x = bytes s x" by auto
    ultimately show ?thesis using run ek ins(2)
      by (intro that [of ?t]) (simp_all add: cputchar_def cons_putc_eq)
  next
    case del
    have run: "readline_loop (length line) s = readline_loop (length line - 1) (cputchar 8 ?s)"
      using del ki by (subst readline_loop.simps) (simp add: g Let_def)
    have "edit_key line k = butlast line" using del by (simp add: edit_key_def)
    then show ?thesis using run line len line_at_butlast
      by (intro that [of "cputchar 8 ?s"]) (simp_all add: cputchar_def cons_putc_eq)
  next
    case skip
    have run: "readline_loop (length line) s = readline_loop (length line) ?s"
      using skip ki nl by (subst readline_loop.simps) (auto simp: g BUFSIZE_def Let_def)
    have "edit_key line k = line" using skip ki(8) by (auto simp: edit_key_def)
    then show ?thesis using run line len by (intro that [of ?s]) simp_all
  qed
qed

text \<open>What ends the line: a newline or a carriage return, or a negative answer, which is what the firmware
  gives to a poll when no key has been pressed.\<close>

definition newline_key :: "u64 \<Rightarrow> bool" where
  "newline_key k \<longleftrightarrow> k = 10 \<or> k = 13"

definition no_key :: "u64 \<Rightarrow> bool" where
  "no_key k \<longleftrightarrow> sint (ucast k :: u32) < 0"

lemma newline_not_no_key: "newline_key k \<Longrightarrow> \<not> no_key k"
  using key_int(1) [of k] by (auto simp: newline_key_def no_key_def)

lemma readline_loop_spec:
  assumes "keys s = key_presses ps @- replicate n 0 @- nl ## ks" and "\<forall>p\<in>set ps. line_key (snd p)"
    and "newline_key nl \<or> no_key nl" and "line_at (bytes s) (line_buf s) line" and "length line \<le> 1023"
  shows "\<exists>t. readline_loop (length line) s = Some (if newline_key nl then line_buf s else 0, t) \<and>
    (newline_key nl \<longrightarrow> cstr (bytes t) (line_buf s) (edited ps line) \<and> length (edited ps line) \<le> 1023) \<and>
    keys t = ks \<and> (\<forall>x. x \<notin> (\<lambda>j. line_buf s + of_nat j) ` {..<1024} \<longrightarrow> bytes t x = bytes s x)"
  using assms
proof (induction ps arbitrary: s line)
  case Nil
  let ?s = "s\<lparr>sbi_calls := sbi_calls s @ replicate (Suc n) (SBI_CONSOLE_GETCHAR, 0), keys := ks\<rparr>"
  have nz: "(ucast nl :: u32) \<noteq> 0" using Nil.prems(3) key_int(2) [of nl] by (auto simp: newline_key_def no_key_def)
  have "keys s = replicate n 0 @- nl ## ks" using Nil.prems(1) by simp
  then have g: "getchar s = Some (ucast nl, ?s)" using getchar_polls nz by blast
  show ?case
  proof (cases "newline_key nl")
    case False
    then have "sint (ucast nl :: u32) < 0" using Nil.prems(3) by (simp add: no_key_def)
    then have "readline_loop (length line) s = Some (0, ?s)" by (subst readline_loop.simps) (simp add: g Let_def)
    then show ?thesis using False by simp
  next
    case True
    then have nl: "nl = 10 \<or> nl = 13" by (simp add: newline_key_def)
    note ki = key_int [OF disjI2 [OF nl]]
    let ?t = "(cputchar (ucast nl) ?s)\<lparr>bytes := (bytes s)(line_buf s + of_nat (length line) := 0)\<rparr>"
    have "uint nl = 10 \<or> uint nl = 13" using nl by auto
    then have run: "readline_loop (length line) s = Some (line_buf s, ?t)"
      using ki nl by (subst readline_loop.simps) (auto simp: g BUFSIZE_def cputchar_def cons_putc_eq Let_def)
    have "(of_nat j :: u64) \<noteq> of_nat (length line)" if "j < length line" for j
      using that Nil.prems(5) unat_of_nat_u64 [of j] unat_of_nat_u64 [of "length line"] by auto
  then have "cstr (bytes ?t) (line_buf s) line"
      using Nil.prems(4) by (simp add: cstr_line_at line_at_def)
    moreover have "length line \<in> {..<1024}" using Nil.prems(5) by simp
    then have "\<forall>x. x \<notin> (\<lambda>j. line_buf s + of_nat j) ` {..<1024} \<longrightarrow> bytes ?t x = bytes s x" by auto
    ultimately show ?thesis using run Nil.prems(5) True
      by (intro exI [of _ ?t]) (simp add: edited_def cputchar_def cons_putc_eq fun_upd_def)
  qed
next
  case (Cons p ps)
  obtain m k where p: "p = (m, k)" by (cases p)
  have "keys s = replicate m 0 @- k ## (key_presses ps @- replicate n 0 @- nl ## ks)"
    using Cons.prems(1) by (simp add: p)
  moreover have "line_key k" using Cons.prems(2) by (simp add: p)
  ultimately obtain t where t: "readline_loop (length line) s = readline_loop (length (edit_key line k)) t"
      "keys t = key_presses ps @- replicate n 0 @- nl ## ks" "line_at (bytes t) (line_buf t) (edit_key line k)"
      "line_buf t = line_buf s"
      "\<forall>x. x \<notin> (\<lambda>j. line_buf s + of_nat j) ` {..<1024} \<longrightarrow> bytes t x = bytes s x"
      "length (edit_key line k) \<le> 1023"
    using Cons.prems(4,5) by (rule readline_key)
  have "edited (p # ps) line = edited ps (edit_key line k)" by (simp add: edited_def p)
  with Cons.IH [OF t(2) _ Cons.prems(3) t(3,6)] Cons.prems(2) t(1,4,5) show ?case by auto
qed

text \<open>C23. Whatever keys are pressed, with any number of polls that the firmware answers with 0 in between, up
  to the first newline or carriage return: \<open>readline\<close> returns its buffer with the edited line in it as a C
  string of at most 1023 characters. If the firmware gives a negative answer before that, as it does to a
  poll when no key has been pressed, \<open>readline\<close> returns \<open>NULL\<close>. In both cases it writes no byte
  outside the 1024 of the buffer and takes no key after the one it ends with.\<close>

theorem readline_edits_line:
  assumes "keys s = key_presses ps @- replicate n 0 @- nl ## ks" and "\<forall>p\<in>set ps. line_key (snd p)"
    and "newline_key nl \<or> no_key nl"
  shows "\<exists>t. readline prompt s = Some (if newline_key nl then line_buf s else 0, t) \<and>
    (newline_key nl \<longrightarrow> cstr (bytes t) (line_buf s) (edited ps []) \<and> length (edited ps []) \<le> 1023) \<and>
    keys t = ks \<and> (\<forall>x. x \<notin> (\<lambda>j. line_buf s + of_nat j) ` {..<1024} \<longrightarrow> bytes t x = bytes s x)"
proof -
  let ?s = "case prompt of None \<Rightarrow> s | Some p \<Rightarrow> say ''%s'' [CStr p] s"
  have same: "keys ?s = keys s" "bytes ?s = bytes s" "line_buf ?s = line_buf s"
    by (simp_all add: say_def split: option.split)
  have "line_at (bytes ?s) (line_buf ?s) []" by (simp add: line_at_def)
  from readline_loop_spec [of ?s ps n nl ks "[]", OF _ assms(2,3) this] assms(1) show ?thesis
    unfolding readline_def same by simp
qed

definition typing :: "u64 stream \<Rightarrow> io_state" where
  "typing ks = kernel_state.extend three_procs \<lparr>sbi_calls = [], keys = ks, time_csr = 0, ticks = 0, timebase = 0,
     tick_prints = 0, is_panic = False, memory_base = 0, memory_size = 0, boot_hartid = 0, boot_dtb = 0,
     line_buf = 4096\<rparr>"

lemma readline_edits_line_witness:
  "(\<exists>t. readline (Some ''K> '') (typing (key_presses [(2, 104), (0, 105), (1, 8), (0, 97)] @- 13 ## sconst 0))
     = Some (4096, t) \<and> cstr (bytes t) 4096 [104, 97]) \<and>
   (\<exists>t. readline (Some ''K> '') (typing (key_presses [(2, 104), (0, 105), (1, 8), (0, 97)] @- (- 1) ## sconst (- 1)))
     = Some (0, t) \<and> keys t = sconst (- 1))"
proof -
  let ?ps = "[(2, 104), (0, 105), (1, 8), (0, 97)] :: (nat \<times> u64) list"
  let ?s = "\<lambda>nl. typing (key_presses ?ps @- nl)"
  have keys: "keys (?s (nl ## ks)) = key_presses ?ps @- replicate 0 0 @- nl ## ks" for nl ks
    by (simp add: typing_def kernel_state.defs)
  have ps: "\<forall>p\<in>set ?ps. line_key (snd p)" by (simp add: line_key_def)
  have ed: "edited ?ps [] = [104, 97]" by (simp add: edited_def edit_key_def)
  have buf: "line_buf (?s w) = 4096" for w by (simp add: typing_def kernel_state.defs)
  have nl: "newline_key 13" by (simp add: newline_key_def)
  have "(ucast (- 1 :: u64) :: u32) = - 1" by (rule bit_word_eqI) (simp add: bit_unsigned_iff)
  then have no: "no_key (- 1)" by (simp only: no_key_def signed_minus_1)
  then have "\<not> newline_key (- 1)" using newline_not_no_key by blast
  with readline_edits_line [OF keys ps disjI1 [OF nl], of "Some ''K> ''" "sconst 0"]
    readline_edits_line [OF keys ps disjI2 [OF no], of "Some ''K> ''" "sconst (- 1)"] nl
  show ?thesis unfolding buf ed by (simp only: if_True if_False simp_thms) blast
qed

end
