(* ===== verification/MonitorSpec.thy ===== *)
theory MonitorSpec
  imports Monitor DeviceSpec
begin

unbundle bit_operations_syntax

text \<open>
  \<open>parse\<close> splits a line into its words: the pointers it stores point to the words, now strings of their
  own, in order, and it has no other effect on memory than NUL bytes inside the line. The monitor never
  returns to its caller.
\<close>

subsection \<open>Words\<close>

definition is_space :: "u8 \<Rightarrow> bool" where
  "is_space c \<longleftrightarrow> c \<in> {32, 9, 10, 13}"

function split_words :: "u8 list \<Rightarrow> u8 list list" where
  "split_words [] = []"
| "split_words (c # cs) =
     (if is_space c then split_words cs
      else takeWhile (\<lambda>x. \<not> is_space x) (c # cs) # split_words (dropWhile (\<lambda>x. \<not> is_space x) (c # cs)))"
  by pat_completeness auto
termination
  by (relation "measure length") (auto simp: less_Suc_eq_le length_dropWhile_le)

lemma split_words_spaces: "split_words cs = split_words (dropWhile is_space cs)"
  by (induction cs) auto

text \<open>The literal is \<open>WHITESPACE\<close>.\<close>

definition white_lit :: "mem \<Rightarrow> u64 \<Rightarrow> bool" where
  "white_lit m ws \<longleftrightarrow> cstr m ws [32, 9, 10, 13] \<and> ws \<noteq> 0 \<and> unat ws < 2 ^ 64 - 4"

lemma strchr_white:
  assumes "white_lit m ws" and "c \<noteq> 0"
  shows "\<exists>p. strchr m ws c = Some p \<and> (p \<noteq> 0 \<longleftrightarrow> is_space c)"
proof -
  have m: "m ws = 32" "m (ws + 1) = 9" "m (ws + 2) = 10" "m (ws + 3) = 13" "m (ws + 4) = 0" "ws \<noteq> 0"
    using assms(1) by (simp_all add: white_lit_def add.assoc)
  have "ws + k \<noteq> 0" if "unat k \<le> 4" for k
  proof -
    have "unat (ws + k) = unat ws + unat k" using assms(1) that by (subst unat_add_u64) (simp_all add: white_lit_def)
    moreover have "0 < unat ws" using m(6) by (simp add: unat_gt_0)
    ultimately show ?thesis by (metis add_is_0 neq0_conv unsigned_0)
  qed
  then have ne: "ws + 1 \<noteq> 0" "ws + 2 \<noteq> 0" "ws + 3 \<noteq> 0" by simp_all
  have step: "strchr m a c = (if m a = 0 then Some 0 else if m a = c then Some a else strchr m (a + 1) c)" for a
    by (rule strchr.simps)
  have "strchr m (ws + 3) c = Some (if c = 13 then ws + 3 else 0)"
    by (subst step, subst step) (auto simp: m add.assoc)
  then have "strchr m (ws + 2) c = Some (if c = 10 then ws + 2 else if c = 13 then ws + 3 else 0)"
    by (subst step) (auto simp: m add.assoc)
  then have "strchr m (ws + 1) c = Some (if c = 9 then ws + 1 else if c = 10 then ws + 2 else if c = 13 then ws + 3 else 0)"
    by (subst step) (auto simp: m add.assoc)
  then have "strchr m ws c = Some (if c = 32 then ws else if c = 9 then ws + 1 else if c = 10 then ws + 2
      else if c = 13 then ws + 3 else 0)"
    by (subst step) (auto simp: m)
  then show ?thesis using ne m(6) by (auto simp: is_space_def)
qed

subsection \<open>Skipping\<close>

text \<open>The cells of a line of \<open>n\<close> characters, and when the literal is none of them.\<close>

definition cells :: "u64 \<Rightarrow> nat \<Rightarrow> u64 set" where
  "cells b n = (\<lambda>i. b + of_nat i) ` {..<n}"

lemma cells_Suc: "cells b (Suc n) = insert b (cells (b + 1) n)"
proof -
  have "cells b (Suc n) = insert b ((\<lambda>i. b + of_nat (Suc i)) ` {..<n})"
    unfolding cells_def lessThan_Suc_eq_insert_0 by (simp add: image_image)
  also have "(\<lambda>i. b + of_nat (Suc i)) ` {..<n} = cells (b + 1) n"
    unfolding cells_def by (rule image_cong) (simp_all add: add.assoc)
  finally show ?thesis .
qed

lemma cells_add: "cells b (n + k) = cells b n \<union> cells (b + of_nat n) k"
proof (induction n arbitrary: b)
  case (Suc n)
  then show ?case by (simp add: cells_Suc add.assoc)
qed (simp add: cells_def)

lemma cells_0 [simp]: "cells b 0 = {}"
  by (simp add: cells_def)

definition zeroed :: "u64 set \<Rightarrow> mem \<Rightarrow> mem \<Rightarrow> bool" where
  "zeroed A m m' \<longleftrightarrow> (\<forall>x. m' x = m x \<or> x \<in> A \<and> m' x = 0)"

lemma zeroed_refl: "zeroed A m m"
  by (simp add: zeroed_def)

lemma zeroed_trans: "zeroed A m m' \<Longrightarrow> zeroed B m' m'' \<Longrightarrow> A \<subseteq> C \<Longrightarrow> B \<subseteq> C \<Longrightarrow> zeroed C m m''"
  unfolding zeroed_def by (metis subsetD)

lemma zeroed_mono: "zeroed A m m' \<Longrightarrow> A \<subseteq> B \<Longrightarrow> zeroed B m m'"
  unfolding zeroed_def by blast

lemma zeroed_outside: "zeroed A m m' \<Longrightarrow> x \<notin> A \<Longrightarrow> m' x = m x"
  unfolding zeroed_def by blast

lemma cstr_zeroed:
  assumes "zeroed A m m'" and "cells a (Suc (length xs)) \<inter> A = {}"
  shows "cstr m' a xs = cstr m a xs"
proof (rule cstr_cong, intro allI impI)
  fix i assume "i \<le> length xs"
  then have "a + of_nat i \<in> cells a (Suc (length xs))" by (auto simp: cells_def)
  then show "m' (a + of_nat i) = m (a + of_nat i)" using assms by (intro zeroed_outside) auto
qed

lemma white_lit_zeroed:
  assumes "zeroed A m m'" and "cells ws 5 \<inter> A = {}" and "white_lit m ws"
  shows "white_lit m' ws"
proof -
  have "Suc (length [32, 9, 10, 13 :: u8]) = 5" by simp
  then have "cstr m' ws [32, 9, 10, 13] = cstr m ws [32, 9, 10, 13]"
    using assms(2) by (intro cstr_zeroed [OF assms(1)]) (simp only:)
  then show ?thesis using assms(3) unfolding white_lit_def by blast
qed

lemma cells_next: "Suc n < 2 ^ 64 \<Longrightarrow> b \<notin> cells (b + 1) n"
proof
  assume n: "Suc n < 2 ^ 64" and "b \<in> cells (b + 1) n"
  then obtain i where i: "i < n" "b = b + 1 + of_nat i" by (auto simp: cells_def)
  then have "(of_nat (Suc i) :: u64) = 0" by (simp add: add.assoc)
  moreover have "unat (of_nat (Suc i) :: u64) = Suc i" using i(1) n by (intro unat_of_nat_u64) simp
  ultimately show False by simp
qed

lemma skip_white_spec:
  assumes "cstr m b line" and "white_lit m ws" and "cells ws 5 \<inter> cells b (length line) = {}"
    and "length line < 2 ^ 64 - 1"
  defines "n \<equiv> length (takeWhile is_space line)"
  shows "\<exists>m'. skip_white ws b m = Some (b + of_nat n, m') \<and> cstr m' (b + of_nat n) (dropWhile is_space line) \<and>
    zeroed (cells b n) m m' \<and> (0 < n \<longrightarrow> m' b = 0)"
  using assms(1-4) unfolding n_def
proof (induction line arbitrary: b m)
  case Nil
  then show ?case by (subst skip_white.simps) (simp add: zeroed_refl)
next
  case (Cons c cs)
  have c: "m b = c" "c \<noteq> 0" "cstr m (b + 1) cs" using Cons.prems(1) by simp_all
  obtain p where p: "strchr m ws c = Some p" "p \<noteq> 0 \<longleftrightarrow> is_space c"
    using strchr_white [OF Cons.prems(2) c(2)] by blast
  show ?case
  proof (cases "is_space c")
    case True
    let ?m = "m(b := 0)"
    have z: "zeroed {b} m ?m" by (simp add: zeroed_def)
    have nb: "b \<notin> cells (b + 1) (Suc (length cs))"
      using Cons.prems(4) by (intro cells_next) simp
    then have rest: "cstr ?m (b + 1) cs" using cstr_zeroed [OF z, of "b + 1" cs] c(3) by auto
    have away: "cells ws 5 \<inter> {b} = {}" "cells ws 5 \<inter> cells (b + 1) (length cs) = {}"
      using Cons.prems(3) by (auto simp: cells_Suc)
    have lit: "white_lit ?m ws" by (rule white_lit_zeroed [OF z away(1) Cons.prems(2)])
    have short: "length cs < 2 ^ 64 - 1" using Cons.prems(4) by simp
    obtain m' where m': "skip_white ws (b + 1) ?m = Some (b + 1 + of_nat (length (takeWhile is_space cs)), m')"
        "cstr m' (b + 1 + of_nat (length (takeWhile is_space cs))) (dropWhile is_space cs)"
        "zeroed (cells (b + 1) (length (takeWhile is_space cs))) ?m m'"
      using Cons.IH [OF rest lit away(2) short] by blast
    have "m' b = 0" using m'(3) unfolding zeroed_def by (metis fun_upd_same)
    moreover have "zeroed (cells b (Suc (length (takeWhile is_space cs)))) m m'"
      unfolding cells_Suc by (rule zeroed_trans [OF z m'(3)]) auto
    moreover have "skip_white ws b m = skip_white ws (b + 1) ?m"
      using c p True by (subst skip_white.simps) simp
    ultimately show ?thesis using m'(1,2) True by (auto simp: add.assoc)
  next
    case False
    then have "skip_white ws b m = Some (b, m)" using c p by (subst skip_white.simps) simp
    then show ?thesis using False Cons.prems(1) by (simp add: zeroed_refl)
  qed
qed

lemma skip_arg_spec:
  assumes "cstr m b line" and "white_lit m ws"
  defines "n \<equiv> length (takeWhile (\<lambda>x. \<not> is_space x) line)"
  shows "skip_arg ws b m = Some (b + of_nat n) \<and>
    cstr m (b + of_nat n) (dropWhile (\<lambda>x. \<not> is_space x) line)"
  using assms(1,2) unfolding n_def
proof (induction line arbitrary: b)
  case Nil
  then show ?case by (subst skip_arg.simps) simp
next
  case (Cons c cs)
  have c: "m b = c" "c \<noteq> 0" "cstr m (b + 1) cs" using Cons.prems(1) by simp_all
  obtain p where p: "strchr m ws c = Some p" "p \<noteq> 0 \<longleftrightarrow> is_space c"
    using strchr_white [OF Cons.prems(2) c(2)] by blast
  show ?case
  proof (cases "is_space c")
    case True
    then show ?thesis using c p Cons.prems(1) by (subst skip_arg.simps) simp
  next
    case False
    then have "skip_arg ws b m = skip_arg ws (b + 1) m" using c p by (subst skip_arg.simps) simp
    then show ?thesis using Cons.IH [OF c(3) Cons.prems(2)] False by (simp add: add.assoc)
  qed
qed

subsection \<open>parse\<close>

lemma split_words_Cons:
  "line \<noteq> [] \<Longrightarrow> \<not> is_space (hd line) \<Longrightarrow> split_words line =
     takeWhile (\<lambda>x. \<not> is_space x) line # split_words (dropWhile (\<lambda>x. \<not> is_space x) line)"
  by (cases line) simp_all

lemma cstr_split:
  "cstr m a (xs @ ys) \<longleftrightarrow> line_at m a xs \<and> cstr m (a + of_nat (length xs)) ys"
proof (induction xs arbitrary: a)
  case (Cons x xs)
  have "line_at m a (x # xs) \<longleftrightarrow> m a = x \<and> x \<noteq> 0 \<and> line_at m (a + 1) xs"
    by (auto simp: line_at_def All_less_Suc2 add.assoc)
  then show ?case using Cons.IH [of "a + 1"] by (auto simp: add.assoc)
qed (simp add: line_at_def)

unbundle bit_operations_syntax

text \<open>A word stays in memory, ended by the NUL after it, when only the rest of the line is written to.\<close>

lemma cstr_word_kept:
  assumes "cstr m b (w @ rs)" and "zeroed (cells (b + of_nat (length w)) (length rs)) m m'"
    and "m' (b + of_nat (length w)) = 0" and "length w + length rs < 2 ^ 64"
  shows "cstr m' b w"
proof -
  let ?e = "b + of_nat (length w)"
  have "line_at m b w" using assms(1) unfolding cstr_split by blast
  moreover have "m' (b + of_nat j) = m (b + of_nat j)" if j: "j < length w" for j
  proof (rule zeroed_outside [OF assms(2)])
    show "b + of_nat j \<notin> cells ?e (length rs)"
    proof
      assume "b + of_nat j \<in> cells ?e (length rs)"
      then obtain i where i: "i < length rs" "b + of_nat j = b + of_nat (length w + i)"
        by (auto simp: cells_def add.assoc)
      then have "(of_nat j :: u64) = of_nat (length w + i)" by (simp add: add.assoc)
      moreover have "unat (of_nat j :: u64) = j" "unat (of_nat (length w + i) :: u64) = length w + i"
        using j i(1) assms(4) by (intro unat_of_nat_u64; simp)+
      ultimately show False using j by simp
    qed
  qed
  ultimately show ?thesis using assms(3) by (simp add: cstr_line_at line_at_def)
qed

text \<open>The white space at the start of the line, which the code overwrites.\<close>

lemma skip_white_split:
  assumes str: "cstr m b line" and lit: "white_lit m ws" and away: "cells ws 5 \<inter> cells b (Suc (length line)) = {}"
    and len: "length line < 2 ^ 64 - 1"
  defines "rest \<equiv> dropWhile is_space line"
  obtains n m' where "length line = n + length rest" "skip_white ws b m = Some (b + of_nat n, m')"
    "cstr m' (b + of_nat n) rest" "zeroed (cells b n) m m'" "white_lit m' ws"
    "line \<noteq> [] \<Longrightarrow> is_space (hd line) \<Longrightarrow> m' b = 0"
proof -
  define n where "n = length (takeWhile is_space line)"
  have n: "length line = n + length rest"
    unfolding n_def rest_def by (metis length_append takeWhile_dropWhile_id)
  have ws1: "cells ws 5 \<inter> cells b (length line) = {}" using away by (auto simp: cells_def)
  obtain m' where m: "skip_white ws b m = Some (b + of_nat n, m')" "cstr m' (b + of_nat n) rest"
      "zeroed (cells b n) m m'" "0 < n \<longrightarrow> m' b = 0"
    using skip_white_spec [OF str lit ws1 len] unfolding n_def rest_def by blast
  moreover have "white_lit m' ws"
    by (rule white_lit_zeroed [OF m(3) _ lit]) (use ws1 in \<open>auto simp: n cells_add\<close>)
  moreover have "line \<noteq> [] \<Longrightarrow> is_space (hd line) \<Longrightarrow> 0 < n" unfolding n_def by (cases line) simp_all
  ultimately show ?thesis using that n by blast
qed

text \<open>The bytes of the line: its white space, the word \<open>w\<close> and what follows it.\<close>

lemma cells_word:
  fixes b :: u64
  assumes "length line = n + length (w @ rs)"
  defines "e \<equiv> b + of_nat n + of_nat (length w)"
  shows "cells e (length rs) \<subseteq> cells b (length line)" "cells e (Suc (length rs)) \<subseteq> cells b (Suc (length line))"
proof -
  have "length line = n + (length w + length rs)" "Suc (length line) = n + (length w + Suc (length rs))"
    using assms(1) by simp_all
  then show "cells e (length rs) \<subseteq> cells b (length line)" "cells e (Suc (length rs)) \<subseteq> cells b (Suc (length line))"
    unfolding e_def by (simp_all only: cells_add) auto
qed

text \<open>After the word the buffer holds a NUL byte in the end: it ends there, or white space follows.\<close>

lemma word_end_zero:
  assumes "cstr m e (dropWhile (\<lambda>x. \<not> is_space x) rest)" and "zeroed X m m'"
    and "dropWhile (\<lambda>x. \<not> is_space x) rest \<noteq> [] \<longrightarrow> is_space (hd (dropWhile (\<lambda>x. \<not> is_space x) rest)) \<longrightarrow> m' e = 0"
  shows "m' e = 0"
proof (cases "dropWhile (\<lambda>x. \<not> is_space x) rest = []")
  case True
  have "m e = 0" using assms(1) unfolding True by simp
  then show ?thesis using assms(2) unfolding zeroed_def by metis
next
  case False
  then show ?thesis using assms(3) hd_dropWhile [OF False] by blast
qed

lemma parse_loop_spec:
  assumes "cstr (bytes s) b line" and "white_lit (bytes s) ws" and "cells ws 5 \<inter> cells b (Suc (length line)) = {}"
    and "length line < 2 ^ 64 - 1"
  shows "\<exists>as s'. parse_loop ws b argv s = Some (argv @ as, s') \<and> list_all2 (cstr (bytes s')) as (split_words line) \<and>
    zeroed (cells b (length line)) (bytes s) (bytes s') \<and>
    (line \<noteq> [] \<longrightarrow> is_space (hd line) \<longrightarrow> bytes s' b = 0)"
  using assms
proof (induction "length line" arbitrary: line b argv s rule: less_induct)
  case less
  define rest where "rest = dropWhile is_space line"
  obtain n m where len: "length line = n + length rest" and m: "skip_white ws b (bytes s) = Some (b + of_nat n, m)"
      "cstr m (b + of_nat n) rest" "zeroed (cells b n) (bytes s) m" and lit: "white_lit m ws"
      and head: "line \<noteq> [] \<Longrightarrow> is_space (hd line) \<Longrightarrow> m b = 0"
    using skip_white_split [OF less.prems] unfolding rest_def by metis
  let ?b = "b + of_nat n"
  have words: "split_words line = split_words rest" unfolding rest_def by (rule split_words_spaces)
  show ?case
  proof (cases "rest = []")
    case True
    then have "parse_loop ws b argv s = Some (argv, s\<lparr>bytes := m\<rparr>)"
      using m(1,2) by (subst parse_loop.simps) simp
    moreover have "zeroed (cells b (length line)) (bytes s) m"
      by (rule zeroed_mono [OF m(3)]) (simp add: len True)
    ultimately show ?thesis using words True head by (intro exI [of _ "[]"] exI [of _ "s\<lparr>bytes := m\<rparr>"]) simp
  next
    case False
    have nsp: "\<not> is_space (hd rest)" using False unfolding rest_def by (rule hd_dropWhile)
    define w where "w = takeWhile (\<lambda>x. \<not> is_space x) rest"
    define rs where "rs = dropWhile (\<lambda>x. \<not> is_space x) rest"
    let ?e = "?b + of_nat (length w)"
    have wrs: "rest = w @ rs" "w \<noteq> []" "m ?b \<noteq> 0"
      using False nsp m(2) unfolding w_def rs_def by (cases rest; simp)+
    define t where "t = (if length argv = MAXARGS - 1
      then say ''Too many arguments (max %d).\<newline>'' [CNum 16] (s\<lparr>bytes := m\<rparr>) else s\<lparr>bytes := m\<rparr>)"
    have t: "bytes t = m" by (simp add: t_def say_def)
    have arg: "skip_arg ws ?b m = Some ?e" "cstr m ?e rs"
      using skip_arg_spec [OF m(2) lit] by (simp_all add: w_def rs_def)
    have run: "parse_loop ws b argv s = parse_loop ws ?e (argv @ [?b]) t"
      by (subst parse_loop.simps)
        (cases "length argv = MAXARGS - 1"; simp add: t_def Let_def say_def m(1) wrs(3) arg(1))
    note sub = cells_word [OF len [unfolded wrs(1)], of b]
    have "length rs < length line" "length rs < 2 ^ 64 - 1" "length w + length rs < 2 ^ 64"
      using less.prems(4) len wrs(1,2) by simp_all
    moreover have "cells ws 5 \<inter> cells ?e (Suc (length rs)) = {}" using sub(2) less.prems(3) by blast
    ultimately obtain as s' where r: "parse_loop ws ?e (argv @ [?b]) t = Some ((argv @ [?b]) @ as, s')"
        "list_all2 (cstr (bytes s')) as (split_words rs)" "zeroed (cells ?e (length rs)) m (bytes s')"
        "rs \<noteq> [] \<longrightarrow> is_space (hd rs) \<longrightarrow> bytes s' ?e = 0" and "length w + length rs < 2 ^ 64"
      using less.hyps [of rs t ?e "argv @ [?b]"] arg(2) lit unfolding t by blast
    moreover have "bytes s' ?e = 0" using word_end_zero [of m ?e rest] arg(2) r(3,4) unfolding rs_def by blast
    ultimately have "cstr (bytes s') ?b w" using cstr_word_kept [OF m(2) [unfolded wrs(1)] r(3)] by blast
    then have "list_all2 (cstr (bytes s')) (?b # as) (split_words line)"
      using r(2) split_words_Cons [OF False nsp] by (simp add: words w_def [symmetric] rs_def [symmetric])
    moreover have "zeroed (cells b (length line)) (bytes s) (bytes s')"
      by (rule zeroed_trans [OF m(3) r(3)]) (use sub(1) in \<open>auto simp: len cells_add\<close>)
    moreover have "line \<noteq> [] \<longrightarrow> is_space (hd line) \<longrightarrow> bytes s' b = 0"
      using head r(3) unfolding zeroed_def by metis
    ultimately show ?thesis using run r(1) by (intro exI [of _ "?b # as"] exI [of _ s']) simp
  qed
qed

text \<open>C24. \<open>parse\<close> stores one pointer for every word of the line, in order, each to a string that is the
  word; it writes nothing but NUL bytes into the line. It always returns, whatever the number of words:
  nothing keeps that number within the array of the caller.\<close>

theorem parse_splits_words:
  assumes "cstr (bytes s) buf line" and "white_lit (bytes s) (a_white a)"
    and "cells (a_white a) 5 \<inter> cells buf (Suc (length line)) = {}" and "length line < 1024"
  shows "\<exists>argv s'. parse a buf s = Some (argv, s') \<and> length argv = length (split_words line) \<and>
    list_all2 (cstr (bytes s')) argv (split_words line) \<and>
    zeroed (cells buf (length line)) (bytes s) (bytes s')"
proof -
  have "length line < 2 ^ 64 - 1" using assms(4) by simp
  from parse_loop_spec [OF assms(1-3) this, of "[]"] show ?thesis
    unfolding parse_def by (auto dest: list_all2_lengthD)
qed

text \<open>A line of seventeen words and the literal, for an array of sixteen.\<close>

definition seventeen :: "u8 list" where
  "seventeen = concat (replicate 17 [97, 32])"

definition string_at :: "u64 \<Rightarrow> u8 list \<Rightarrow> mem \<Rightarrow> mem" where
  "string_at a xs m = (\<lambda>x. if unat (x - a) < length xs then xs ! unat (x - a)
     else if unat (x - a) = length xs then 0 else m x)"

lemma split_words_seventeen: "split_words (concat (replicate n [97, 32])) = replicate n [97]"
  by (induction n) (simp_all add: is_space_def)

lemma cstr_string_at:
  assumes "\<forall>c\<in>set xs. c \<noteq> 0" and "length xs < 2 ^ 64"
  shows "cstr (string_at a xs m) a xs"
  using assms unat_of_nat_u64 [of "length xs"] unat_of_nat_u64
  by (auto simp: cstr_line_at line_at_def string_at_def)

lemma string_at_outside:
  assumes "x \<notin> cells a (Suc (length xs))"
  shows "string_at a xs m x = m x"
proof -
  have "x = a + of_nat (unat (x - a))" by simp
  then have "\<not> unat (x - a) < Suc (length xs)" using assms unfolding cells_def by blast
  then show ?thesis by (simp add: string_at_def)
qed

lemma cells_apart:
  assumes "unat a + n \<le> unat b" and "unat b + k < 2 ^ 64"
  shows "cells b k \<inter> cells a n = {}"
proof -
  have unat: "unat (c + of_nat i) = unat c + i" if "unat c + i < 2 ^ 64" for c :: u64 and i
  proof -
    have i: "unat (of_nat i :: u64) = i" using that by (intro unat_of_nat_u64) linarith
    show ?thesis using that by (subst unat_add_u64) (simp_all add: i)
  qed
  have "b + of_nat j \<noteq> a + of_nat i" if ij: "i < n" "j < k" for i j
  proof -
    have "unat (b + of_nat j) = unat b + j" "unat (a + of_nat i) = unat a + i"
      using ij assms by (intro unat; linarith)+
    moreover have "unat a + i < unat b + j" using ij assms by linarith
    ultimately show ?thesis by (metis less_irrefl)
  qed
  then show ?thesis by (auto simp: cells_def)
qed

lemma parse_splits_words_witness:
  "\<exists>argv s'. parse \<lparr>a_white = 8192, a_help = 0, a_kerninfo = 0, a_backtrace = 0, a_kern_init = 0, a_etext = 0,
       a_edata = 0, a_end = 0\<rparr> 4096
       ((typing (sconst 0))\<lparr>bytes := string_at 8192 [32, 9, 10, 13] (string_at 4096 seventeen (\<lambda>_. 0))\<rparr>)
     = Some (argv, s') \<and> MAXARGS < length argv"
proof -
  let ?a = "\<lparr>a_white = 8192, a_help = 0, a_kerninfo = 0, a_backtrace = 0, a_kern_init = 0, a_etext = 0,
       a_edata = 0, a_end = 0\<rparr>"
  let ?m = "string_at 4096 seventeen (\<lambda>_. 0)"
  let ?s = "(typing (sconst 0))\<lparr>bytes := string_at 8192 [32, 9, 10, 13] ?m\<rparr>"
  have len: "length seventeen = 34" by (simp add: seventeen_def length_concat sum_list_replicate)
  have disj: "cells 8192 5 \<inter> cells 4096 35 = {}" by (rule cells_apart) simp_all
  have "cstr ?m 4096 seventeen" by (rule cstr_string_at) (simp_all add: len, simp add: seventeen_def)
  moreover have "string_at 8192 [32, 9, 10, 13] ?m x = ?m x" if "x \<in> cells 4096 35" for x
  proof (rule string_at_outside)
    have "Suc (length [32, 9, 10, 13 :: u8]) = 5" by simp
    then show "x \<notin> cells 8192 (Suc (length [32, 9, 10, 13 :: u8]))" using that disj by (simp only:) blast
  qed
  ultimately have buf: "cstr (bytes ?s) 4096 seventeen"
    using cstr_cong [of seventeen "string_at 8192 [32, 9, 10, 13] ?m" 4096 ?m] by (simp add: len cells_def)
  have lit: "white_lit (bytes ?s) (a_white ?a)"
    using cstr_string_at [of "[32, 9, 10, 13]" 8192 ?m] by (simp add: white_lit_def del: cstr.simps)
  have "cells (a_white ?a) 5 \<inter> cells 4096 (Suc (length seventeen)) = {}" using disj by (simp add: len)
  from parse_splits_words [OF buf lit this] obtain argv s' where
    "parse ?a 4096 ?s = Some (argv, s')" "length argv = length (split_words seventeen)"
    by (auto simp: len)
  moreover have "length (split_words seventeen) = 17" by (simp only: seventeen_def split_words_seventeen length_replicate)
  ultimately show ?thesis by (auto simp: MAXARGS_def)
qed

end
