(* ===== verification/HashSpec.thy ===== *)
theory HashSpec
  imports ProcSpec
begin

unbundle bit_operations_syntax

text \<open>
  The hash table of kern/process/proc.c over the identifiers of the processes: every bucket is a
  circular list of the processes with its hash value, \<open>hash_proc\<close> enters a process, and \<open>find_proc\<close>
  finds exactly the processes entered.
\<close>

subsection \<open>Hash values\<close>

lemma hash32_less:
  assumes "bits \<le> 32"
  shows "unat (hash32 v bits) < 2 ^ bits"
proof -
  have "unat (hash32 v bits) = unat (v * 0x9e370001) div 2 ^ (32 - bits)"
    by (simp only: hash32_def unat_drop_bit_eq) (simp only: drop_bit_eq_div)
  also have "\<dots> < 2 ^ bits"
  proof (rule less_mult_imp_div_less)
    have "(2 :: nat) ^ bits * 2 ^ (32 - bits) = 2 ^ 32" using assms by (simp flip: power_add)
    then show "unat (v * 0x9e370001) < 2 ^ bits * 2 ^ (32 - bits)"
      using unat_less_u32 [of "v * 0x9e370001"] by simp
  qed
  finally show ?thesis .
qed

lemma pid_hashfn_less: "unat (pid_hashfn x) < HASH_LIST_SIZE"
  unfolding pid_hashfn_def HASH_LIST_SIZE_def by (rule hash32_less) (simp add: HASH_SHIFT_def)

subsection \<open>Several lists in one link structure\<close>

lemma cdll_add_other:
  assumes "cdll h r xs" and "cdll h q ys" and "set (r # xs) \<inter> set (q # ys) = {}" and "e \<notin> set (q # ys)"
  shows "cdll (list_add r e h) q ys"
proof -
  have "list_next h r \<in> set (r # xs)" using cdll_next_last [of h r "[]" xs] assms(1) by (cases xs) auto
  then have "x \<noteq> r \<and> x \<noteq> e \<and> x \<noteq> list_next h r" if "x \<in> set (q # ys)" for x
    using that assms(3,4) by auto
  then show ?thesis
    using assms(2) cdll_cong [of q ys "list_add r e h" h] by (simp add: list_add_def list_add_after_def link_simps)
qed

lemma cdll_init_other: "cdll h q ys \<Longrightarrow> e \<notin> set (q # ys) \<Longrightarrow> cdll (list_init e h) q ys"
  by (subst cdll_cong [of q ys "list_init e h" h]) (auto simp: link_simps)

subsection \<open>The table\<close>

definition hash_bucket :: "'z kernel_state_scheme \<Rightarrow> u64 list \<Rightarrow> u32 \<Rightarrow> u64 list \<Rightarrow> bool" where
  "hash_bucket s ps b qs \<longleftrightarrow> cdll (hash_list s) (LHead b) (map Link qs) \<and>
     set qs = {p \<in> set ps. pid_hashfn (pid (procs s p)) = b}"

definition hash_inv :: "'z kernel_state_scheme \<Rightarrow> u64 list \<Rightarrow> bool" where
  "hash_inv s ps \<longleftrightarrow> (\<forall>b. unat b < HASH_LIST_SIZE \<longrightarrow> (\<exists>qs. hash_bucket s ps b qs))"

lemma find_proc_loop_spec:
  assumes "npath h le (map Link qs) (LHead b)"
  shows "find_proc_loop h f b pd le = Some (case find (\<lambda>q. f q = pd) qs of None \<Rightarrow> 0 | Some q \<Rightarrow> q)"
  using assms
proof (induction qs arbitrary: le)
  case Nil
  then show ?case by (subst find_proc_loop.simps) simp
next
  case (Cons q qs)
  have next_q: "list_next h le = Link q" "npath h (Link q) (map Link qs) (LHead b)" using Cons.prems by simp_all
  show ?case by (subst find_proc_loop.simps) (simp add: next_q(1) Let_def Cons.IH [OF next_q(2)])
qed

lemma find_proc_spec:
  assumes inv: "hash_inv s ps" and dist: "distinct (map (\<lambda>p. pid (procs s p)) ps)"
  shows "p \<in> set ps \<Longrightarrow> pid (procs s p) = pd \<Longrightarrow> 0 < pd \<Longrightarrow> pd < MAX_PID \<Longrightarrow> find_proc pd s = Some p"
    and "\<forall>p\<in>set ps. pid (procs s p) \<noteq> pd \<Longrightarrow> find_proc pd s = Some 0"
proof -
  let ?f = "\<lambda>p. pid (procs s p)" and ?b = "pid_hashfn pd"
  obtain qs where qs: "hash_bucket s ps ?b qs"
    using inv pid_hashfn_less [of pd] by (auto simp: hash_inv_def)
  have set: "set qs = {p \<in> set ps. pid_hashfn (?f p) = ?b}" using qs by (simp add: hash_bucket_def)
  have loop: "find_proc_loop (hash_list s) ?f ?b pd (LHead ?b) =
      Some (case find (\<lambda>q. ?f q = pd) qs of None \<Rightarrow> 0 | Some q \<Rightarrow> q)"
    using qs cdll_npath by (intro find_proc_loop_spec) (auto simp: hash_bucket_def)
  show "find_proc pd s = Some p"
    if p: "p \<in> set ps" "?f p = pd" and pd: "0 < pd" "pd < MAX_PID"
  proof -
    have "p \<in> set qs" using p by (auto simp: set)
    then have "find (\<lambda>q. ?f q = pd) qs \<noteq> None" using p(2) by (auto simp: find_None_iff)
    then obtain q where q: "find (\<lambda>q. ?f q = pd) qs = Some q" by blast
    then have "q \<in> set qs" "?f q = pd" by (auto simp: find_Some_iff)
    then have "q = p" using dist p unfolding set distinct_map inj_on_def by auto
    then show ?thesis using loop q pd by (simp add: find_proc_def)
  qed
  show "find_proc pd s = Some 0" if "\<forall>p\<in>set ps. ?f p \<noteq> pd"
  proof -
    have "find (\<lambda>q. ?f q = pd) qs = None" using that set by (auto simp: find_None_iff)
    then show ?thesis using loop by (simp add: find_proc_def)
  qed
qed

text \<open>A change that keeps the links and the identifiers of the processes keeps the table.\<close>

lemma hash_inv_cong:
  assumes "\<And>n q ys. cdll (hash_list s) (LHead q) (map Link ys) \<Longrightarrow> set ys \<subseteq> set ps \<Longrightarrow>
      cdll (hash_list t) (LHead q) (map Link ys)"
    and "\<forall>p\<in>set ps. pid (procs t p) = pid (procs s p)" and "hash_inv s ps"
  shows "hash_inv t ps"
  unfolding hash_inv_def
proof (intro allI impI)
  fix b assume "unat (b :: u32) < HASH_LIST_SIZE"
  then obtain qs where qs: "hash_bucket s ps b qs" using assms(3) by (auto simp: hash_inv_def)
  then have "hash_bucket t ps b qs"
    using assms(1) [of b qs] assms(2) by (auto simp: hash_bucket_def)
  then show "\<exists>qs. hash_bucket t ps b qs" by blast
qed

text \<open>Entering a process.\<close>

lemma hash_proc_inv:
  assumes inv: "hash_inv s ps" and p: "p \<notin> set ps"
  shows "hash_inv (hash_proc p s) (p # ps)"
  unfolding hash_inv_def
proof (intro allI impI)
  fix b assume b: "unat (b :: u32) < HASH_LIST_SIZE"
  let ?b = "pid_hashfn (pid (procs s p))" and ?t = "hash_proc p s"
  have t: "procs ?t = procs s" "hash_list ?t = list_add (LHead ?b) (Link p) (hash_list s)"
    by (simp_all add: hash_proc_def)
  obtain qs where qs: "hash_bucket s ps b qs" using inv b by (auto simp: hash_inv_def)
  obtain rs where rs: "hash_bucket s ps ?b rs"
    using inv pid_hashfn_less by (auto simp: hash_inv_def)
  show "\<exists>qs. hash_bucket ?t (p # ps) b qs"
  proof (cases "b = ?b")
    case True
    have "cdll (list_add (LHead ?b) (Link p) (hash_list s)) (LHead ?b) ([] @ Link p # map Link rs)"
      using rs p by (intro cdll_add_after) (auto simp: hash_bucket_def)
    then have "hash_bucket ?t (p # ps) b (p # rs)"
      using rs by (auto simp: hash_bucket_def t True)
    then show ?thesis by blast
  next
    case False
    have "cdll (list_add (LHead ?b) (Link p) (hash_list s)) (LHead b) (map Link qs)"
    proof (rule cdll_add_other)
      show "cdll (hash_list s) (LHead ?b) (map Link rs)" "cdll (hash_list s) (LHead b) (map Link qs)"
        using rs qs by (simp_all add: hash_bucket_def)
    qed (use rs qs p False in \<open>auto simp: hash_bucket_def\<close>)
    then have "hash_bucket ?t (p # ps) b qs" using qs p False by (auto simp: hash_bucket_def t)
    then show ?thesis by blast
  qed
qed

subsection \<open>Start-up\<close>

lemma init_buckets_spec:
  assumes "k \<le> 2 ^ 32" and "unat b < k"
  shows "cdll (init_buckets k h) (LHead b) []"
  using assms
proof (induction k)
  case (Suc k)
  show ?case
  proof (cases "unat b = k")
    case True
    then have "b = of_nat k" by (metis of_nat_unat ucast_id)
    then show ?thesis by (simp add: cdll_init)
  next
    case False
    then have "cdll (init_buckets k h) (LHead b) []" using Suc by simp
    moreover have "unat (of_nat k :: u32) = k" using Suc.prems by (simp add: unsigned_of_nat take_bit_nat_eq_self)
    then have "b \<noteq> of_nat k" using False by auto
    ultimately show ?thesis by (auto intro!: cdll_init_other)
  qed
qed simp

lemma hash_inv_init: "hash_list s = init_buckets HASH_LIST_SIZE h \<Longrightarrow> hash_inv s []"
  using init_buckets_spec [of HASH_LIST_SIZE _ h]
  by (auto simp: hash_inv_def hash_bucket_def HASH_LIST_SIZE_def HASH_SHIFT_def intro!: exI [of _ "[]"])

text \<open>C30. Once processes are entered with \<open>hash_proc\<close>, \<open>find_proc\<close> returns the process with the
  identifier asked for, and the null pointer when none has it or it is out of range; the processes
  found before are still found after another one is entered.\<close>

theorem find_proc_after_hash_proc:
  assumes "hash_inv s ps" and "p \<notin> set ps" and "distinct (map (\<lambda>q. pid (procs s q)) (p # ps))"
    and "\<forall>q\<in>set (p # ps). 0 < pid (procs s q) \<and> pid (procs s q) < MAX_PID"
  shows "(\<forall>q\<in>set (p # ps). find_proc (pid (procs s q)) (hash_proc p s) = Some q) \<and>
    (\<forall>pd. (\<forall>q\<in>set (p # ps). pid (procs s q) \<noteq> pd) \<longrightarrow> find_proc pd (hash_proc p s) = Some 0)"
proof -
  have t: "procs (hash_proc p s) = procs s" by (simp add: hash_proc_def)
  note inv = hash_proc_inv [OF assms(1,2)]
  note find = find_proc_spec [OF inv, unfolded t, OF assms(3)]
  show ?thesis using find assms(4) by blast
qed

lemma find_proc_after_hash_proc_witness:
  "find_proc 2 (hash_proc 2 (three_procs\<lparr>hash_list := init_buckets HASH_LIST_SIZE (hash_list three_procs)\<rparr>)) = Some 2"
proof -
  let ?s = "three_procs\<lparr>hash_list := init_buckets HASH_LIST_SIZE (hash_list three_procs)\<rparr>"
  have "hash_inv ?s []" by (rule hash_inv_init) simp
  from find_proc_after_hash_proc [OF this, of 2] show ?thesis
    by (simp add: three_procs_def MAX_PID_def MAX_PROCESS_def)
qed

end
