(* ===== verification/ForkSpec.thy ===== *)
theory ForkSpec
  imports HashSpec HeapSpec SchedSpec
begin

unbundle bit_operations_syntax

text \<open>
  \<open>do_fork\<close> of kern/process/proc.c on top of the heap, the page allocator, the identifiers, the process
  list and the hash table. \<open>fork_inv s al ps\<close> ties them together: the processes \<open>ps\<close> of the list are blocks
  of the heap, have distinct identifiers, are the ones the hash table finds, and are counted by
  \<open>nr_process\<close>, which counts the idle process too.
\<close>

subsection \<open>What the parts of the state see of each other\<close>

lemma heap_inv_cong:
  assumes "heap_inv s al" and "heap32 t = heap32 s" "heap64 t = heap64 s" "slobfree t = slobfree s"
    "arena t = arena s" "bigblocks t = bigblocks s" "pages t = pages s" "free_list t = free_list s"
    "nr_free t = nr_free s" "npage t = npage s" "va_pa_offset t = va_pa_offset s"
  shows "heap_inv t al"
proof -
  obtain a bs F where inv: "heap_rel s a bs F al" using assms(1) by (auto simp: heap_inv_def)
  have "heap_core t a bs al"
    by (rule heap_core_cong [OF heap_relD(1) [OF inv]]) (auto simp: sb_units_def sb_next_def assms fun_eq_iff)
  moreover have "free_rel t fs = free_rel s fs" for fs by (rule free_rel_cong) (simp_all add: assms)
  moreover have "free_frames t = free_frames s" by (rule free_frames_cong) (simp_all add: assms)
  ultimately have "heap_rel t a bs F al"
    using heap_relD [OF inv] by (simp add: heap_rel_def vm_ok_def valid_frame_def assms)
  then show ?thesis by (auto simp: heap_inv_def)
qed

lemma heap_inv_ptr:
  assumes "heap_inv s al" and "x \<in> al"
  shows "fst x + 1 < 2 ^ 60" "0 < snd x" "block_ptr x \<noteq> 0"
proof -
  obtain a bs F where inv: "heap_rel s a bs F al" using assms(1) by (auto simp: heap_inv_def)
  note D = heap_coreD [OF heap_relD(1) [OF inv]]
  show pos: "0 < snd x" using D(6) [OF assms(2)] by blast
  then have "fst x \<in> \<Union> (block_pages ` al)" using assms(2) by (force simp: block_pages_def)
  then have "fst x \<in> heap_units" using D(3) by blast
  then show lim: "fst x + 1 < 2 ^ 60" by (simp add: heap_units_def frame_unit_def)
  show "block_ptr x \<noteq> 0" unfolding block_ptr_def using unit_addr_0 [OF lim] by simp
qed

lemma heap_inv_frame:
  assumes "heap_inv s al" and "f \<in> free_frames s"
  shows "KADDR (page2pa f) s = ret (frame_kva f)" "valid_frame s f" "vm_ok s"
proof -
  obtain a bs F where inv: "heap_rel s a bs F al" using assms(1) by (auto simp: heap_inv_def)
  show "vm_ok s" "valid_frame s f" using heap_relD(2,5) [OF inv] assms(2) by auto
  then show "KADDR (page2pa f) s = ret (frame_kva f)" by (intro KADDR_frame)
qed

lemma free_room_frames: "free_room k s \<Longrightarrow> 0 < k \<Longrightarrow> free_frames s \<noteq> {}"
  by (force simp: free_room_def free_frames_eq pages_of_def)

lemma free_room_cong:
  "pages t = pages s \<Longrightarrow> free_list t = free_list s \<Longrightarrow> nr_free t = nr_free s \<Longrightarrow> free_room k t = free_room k s"
  using free_rel_cong [of t s] by (simp add: free_room_def)

lemma kmem_same_kernel:
  assumes "kmem_same s t"
  shows "procs t = procs s" "proc_list t = proc_list s" "hash_list t = hash_list s" "current t = current s"
    "idleproc t = idleproc s" "nr_process t = nr_process s" "last_pid t = last_pid s"
    "next_safe t = next_safe s" "tfs t = tfs s" "cpu t = cpu s"
  using assms by (auto simp: kmem_same_def)

lemma pid_inv_cong:
  assumes "pid_inv s ps" and "cdll (proc_list t) ProcHead (map Link ps)"
    and "\<forall>p\<in>set ps. pid (procs t p) = pid (procs s p)" and "last_pid t = last_pid s" "next_safe t = next_safe s"
  shows "pid_inv t ps"
proof -
  have "map (\<lambda>p. pid (procs t p)) ps = map (\<lambda>p. pid (procs s p)) ps" using assms(3) by simp
  then have "distinct (map (\<lambda>p. pid (procs t p)) ps)" using assms(1) by (simp only: pid_inv_def)
  then show ?thesis using assms by (simp add: pid_inv_def fresh_range_def)
qed

subsection \<open>The invariant\<close>

definition fork_inv :: "'z kernel_state_scheme \<Rightarrow> block set \<Rightarrow> u64 list \<Rightarrow> bool" where
  "fork_inv s al ps \<longleftrightarrow> heap_inv s al \<and> pid_inv s ps \<and> hash_inv s ps \<and>
     set ps \<union> {current s} \<subseteq> block_ptr ` al \<and> nr_process s = of_nat (length ps + 1) \<and> length ps < 4096"

lemma fork_invD:
  assumes "fork_inv s al ps"
  shows "heap_inv s al" "pid_inv s ps" "hash_inv s ps" "set ps \<union> {current s} \<subseteq> block_ptr ` al"
    "nr_process s = of_nat (length ps + 1)" "length ps < 4096"
  using assms unfolding fork_inv_def by blast+

text \<open>What forking leaves alone: the control registers, the memory of bytes, the page tables, and the
  variables of the components above the threads.\<close>

definition fork_keep :: "'z kernel_state_scheme \<Rightarrow> 'z kernel_state_scheme \<Rightarrow> bool" where
  "fork_keep s t \<longleftrightarrow> sstatus t = sstatus s \<and> sie t = sie s \<and> satp t = satp s \<and> stvec t = stvec s \<and>
     sscratch t = sscratch s \<and> bytes t = bytes s \<and> ptes t = ptes s \<and> tlb t = tlb s \<and>
     boot_pgdir_va t = boot_pgdir_va s \<and> boot_pgdir_pa t = boot_pgdir_pa s \<and>
     kernel_state.more t = kernel_state.more s"

lemma fork_keep_trans: "fork_keep s t \<Longrightarrow> fork_keep t u \<Longrightarrow> fork_keep s u"
  by (simp add: fork_keep_def)

lemma fork_keep_kmem: "kmem_same s t \<Longrightarrow> fork_keep s t"
  by (auto simp: kmem_same_def fork_keep_def)

lemma fork_keep_upd [simp]: "fork_keep s (upd_proc p g t) \<longleftrightarrow> fork_keep s t" "fork_keep (upd_proc p g s) t \<longleftrightarrow> fork_keep s t"
  by (simp_all add: fork_keep_def upd_proc_def)

text \<open>A change that leaves the heap, the identifiers and the list alone, but for links of entries that
  are not in the list.\<close>

lemma fork_inv_cong:
  assumes "fork_inv s al ps" and "heap_inv t al'" and "set ps \<union> {current s} \<subseteq> block_ptr ` al'"
    and "\<And>q (ys :: u64 list). cdll (hash_list s) (LHead q) (map Link ys) \<Longrightarrow> set ys \<subseteq> set ps \<Longrightarrow>
      cdll (hash_list t) (LHead q) (map Link ys)"
    and "cdll (proc_list s) ProcHead (map Link ps) \<Longrightarrow> cdll (proc_list t) ProcHead (map Link ps)"
    and "\<forall>p\<in>set ps. pid (procs t p) = pid (procs s p)" and "last_pid t = last_pid s"
    and "next_safe t = next_safe s" and "current t = current s" and "nr_process t = nr_process s"
  shows "fork_inv t al' ps"
proof -
  note D = fork_invD [OF assms(1)]
  have "pid_inv t ps" using D(2) assms by (intro pid_inv_cong [OF D(2)]) (auto simp: pid_inv_def)
  moreover have "hash_inv t ps" by (rule hash_inv_cong [OF assms(4,6) D(3)])
  ultimately show ?thesis using D(5,6) assms(2,3,9,10) unfolding fork_inv_def by simp
qed

lemma fork_inv_kmem:
  assumes "fork_inv s al ps" and "heap_inv t al'" and "set ps \<union> {current s} \<subseteq> block_ptr ` al'" and "kmem_same s t"
  shows "fork_inv t al' ps"
  by (rule fork_inv_cong [OF assms(1-3)]) (simp_all add: kmem_same_kernel [OF assms(4)])

subsection \<open>alloc_proc\<close>

lemma upd_proc_fields [simp]:
  "hash_list (upd_proc p g s) = hash_list s" "nr_process (upd_proc p g s) = nr_process s"
  "last_pid (upd_proc p g s) = last_pid s" "next_safe (upd_proc p g s) = next_safe s" "tfs (upd_proc p g s) = tfs s"
  by (simp_all add: upd_proc_def)

definition fresh_proc :: "u64 \<Rightarrow> proc_struct" where
  "fresh_proc pd = \<lparr>state = PROC_UNINIT, pid = -1, runs = 0, kstack = 0, need_resched = False, parent = 0,
     proc_mm = 0, ctx = zero_context, proc_tf = 0, pgdir = pd, proc_flags = 0,
     name = replicate (PROC_NAME_LEN + 1) 0\<rparr>"

definition proc_block :: "nat \<Rightarrow> block" where
  "proc_block c = (c, kmalloc_units sizeof_proc_struct)"

lemma alloc_proc_spec:
  assumes "fork_inv s al ps"
  obtains (none) "alloc_proc s = ret (0, s)" "free_frames s = {}"
  | (proc) c t where "alloc_proc s = ret (block_ptr (proc_block c), t)"
      "fork_inv t (insert (proc_block c) al) ps" "block_ptr (proc_block c) \<notin> block_ptr ` al"
      "procs t = (procs s)(block_ptr (proc_block c) := fresh_proc (boot_pgdir_pa s))"
      "proc_block c \<notin> al" "current t = current s" "boot_pgdir_pa t = boot_pgdir_pa s"
      "free_frames t \<subseteq> free_frames s" "tfs t = tfs s" "idleproc t = idleproc s"
      "\<forall>k>0. free_room (Suc k) s \<longrightarrow> free_room k t" "fork_keep s t" "last_pid t = last_pid s"
proof -
  note D = fork_invD [OF assms]
  have sz: "0 < sizeof_proc_struct" "sizeof_proc_struct < 4064" by (simp_all add: sizeof_proc_struct_def)
  from D(1) sz show ?thesis
  proof (cases rule: kmalloc_spec)
    case none
    then show ?thesis by (intro that(1)) (simp_all add: alloc_proc_def)
  next
    case (block c t)
    let ?x = "proc_block c" and ?p = "block_ptr (proc_block c)"
    have ptr: "unit_addr (c + 1) = ?p" by (simp add: block_ptr_def proc_block_def)
    have inv: "heap_inv t (insert ?x al)" using block(2) by (simp add: proc_block_def)
    have p0: "?p \<noteq> 0" using heap_inv_ptr(3) [OF inv] by simp
    have pages: "block_pages ?x \<inter> \<Union> (block_pages ` al) = {}"
      using block(4) by (simp add: block_pages_def proc_block_def)
    have xal: "?x \<notin> al"
      using pages heap_inv_ptr(2) [OF inv, of ?x] by (force simp: block_pages_def)
    have new: "?p \<noteq> block_ptr y" if y: "y \<in> al" for y
    proof
      assume "?p = block_ptr y"
      then have eq: "c = fst y" using heap_inv_ptr(1) [OF inv, of ?x] heap_inv_ptr(1) [OF inv, of y] y
        unfolding block_ptr_def by (simp add: proc_block_def)
      have "c \<in> block_pages ?x" using heap_inv_ptr(2) [OF inv, of ?x] by (simp add: block_pages_def proc_block_def)
      moreover have "c \<in> block_pages y" using eq heap_inv_ptr(2) [OF inv, of y] y by (simp add: block_pages_def)
      ultimately show False using pages y by blast
    qed
    note same = kmem_same_kernel [OF block(6)] kmem_same_sel [OF block(6)]
    define u where "u = t\<lparr>procs := (procs t)(?p := fresh_proc (boot_pgdir_pa t)),
      proc_list := list_init (Link ?p) (proc_list t), hash_list := list_init (Link ?p) (hash_list t)\<rparr>"
    have run: "alloc_proc s = ret (?p, u)"
      unfolding alloc_proc_def block(1) ptr using p0 by (simp add: u_def fresh_proc_def)
    have out: "?p \<notin> set ps" using D(4) new by blast
    have "heap_inv u (insert ?x al)" by (rule heap_inv_cong [OF inv]) (simp_all add: u_def)
    then have "fork_inv u (insert ?x al) ps"
    proof (rule fork_inv_cong [OF assms])
      show "cdll (hash_list u) (LHead q) (map Link ys)"
        if "cdll (hash_list s) (LHead q) (map Link ys)" "set ys \<subseteq> set ps" for q and ys :: "u64 list"
        using that out by (auto simp: u_def same intro!: cdll_init_other)
      show "cdll (proc_list u) ProcHead (map Link ps)" if "cdll (proc_list s) ProcHead (map Link ps)"
        using that out by (auto simp: u_def same intro!: cdll_init_other)
    qed (use out D(4) in \<open>auto simp: u_def same\<close>)
    moreover have "free_frames u = free_frames t" by (rule free_frames_cong) (simp_all add: u_def)
    moreover have "free_room k u = free_room k t" for k by (rule free_room_cong) (simp_all add: u_def)
    moreover have "?p \<notin> block_ptr ` al" using new by blast
    moreover have "fork_keep s u" using fork_keep_kmem [OF block(6)] by (simp add: u_def fork_keep_def)
    ultimately show ?thesis
      using xal block(5,7) by (intro that(2) [OF run]) (simp_all add: u_def same)
  qed
qed

subsection \<open>The stack\<close>

lemma setup_kstack_spec:
  assumes "fork_inv s al ps"
  obtains (none) "setup_kstack p s = ret (- E_NO_MEM, s)" "\<not> free_room 2 s"
  | (stack) f t where "setup_kstack p s = ret (0, t)" "fork_inv t al ps" "{f, f + 1} \<subseteq> free_frames s"
      "free_frames t = free_frames s - {f, f + 1}"
      "procs t = (procs s)(p := (procs s p)\<lparr>kstack := frame_kva f\<rparr>)" "current t = current s" "tfs t = tfs s"
      "idleproc t = idleproc s" "fork_keep s t" "last_pid t = last_pid s"
proof -
  note D = fork_invD [OF assms]
  have rel: "\<exists>fs. free_rel s fs" using D(1) by (auto simp: heap_inv_def dest: heap_relD(3))
  have two: "0 < KSTACKPAGE" "{f..<f + unat KSTACKPAGE} = {f, f + 1}" for f by (auto simp: KSTACKPAGE_def)
  from rel two(1) show ?thesis
  proof (cases rule: kernel.alloc_cases)
    case refused
    have "\<not> free_room 2 s"
    proof
      assume "free_room 2 s"
      then obtain fs where fs: "free_rel s fs" "\<exists>x\<in>set fs. 2 \<le> snd x" by (auto simp: free_room_def)
      then have "ff_alloc (unat KSTACKPAGE) fs \<noteq> None"
        by (auto simp: ff_alloc_None_iff KSTACKPAGE_def not_less)
      then show False using alloc_pages_spec [OF fs(1) two(1)] refused by auto
    qed
    then show ?thesis using refused by (intro that(1)) (simp add: setup_kstack_def)
  next
    case (granted f t)
    note al = granted(1) and f = granted(3,4) [unfolded two(2)]
    have inv: "heap_inv t al" by (rule heap_inv_alloc_pages [OF D(1) two(1) al])
    have same: "kmem_same s t" by (rule kmem_same_pages [OF alloc_pages_frame [OF rel two(1) al]])
    have "KADDR (page2pa f) t = KADDR (page2pa f) s"
      using kmem_same_sel [OF same] by (simp add: KADDR_def)
    then have "KADDR (page2pa f) t = ret (frame_kva f)" using heap_inv_frame(1) [OF D(1)] f(1) by simp
    then have run: "setup_kstack p s = ret (0, upd_proc p (\<lambda>pr. pr\<lparr>kstack := frame_kva f\<rparr>) t)"
      using al by (simp add: setup_kstack_def page2kva_def)
    let ?u = "upd_proc p (\<lambda>pr. pr\<lparr>kstack := frame_kva f\<rparr>) t"
    have "fork_inv t al ps" by (rule fork_inv_kmem [OF assms inv D(4) same])
    moreover have "heap_inv ?u al" by (rule heap_inv_cong [OF inv]) (simp_all add: upd_proc_def)
    ultimately have "fork_inv ?u al ps"
      by (rule fork_inv_cong) (use D(4) kmem_same_kernel [OF same] in \<open>simp_all add: upd_proc_def\<close>)
    moreover have "free_frames ?u = free_frames t" by (rule free_frames_cong) (simp_all add: upd_proc_def)
    moreover have "fork_keep s ?u" using fork_keep_kmem [OF same] by simp
    ultimately show ?thesis using f kmem_same_kernel [OF same] by (intro that(2) [OF run]) simp_all
  qed
qed

subsection \<open>do_fork\<close>

text \<open>The descriptor of the new thread: a copy of the trap frame lies at the top of its stack, and its
  first switch returns to \<open>forkret\<close> with the stack pointer there.\<close>

definition stack_tf :: "nat \<Rightarrow> u64" where
  "stack_tf f = frame_kva f + KSTACKSIZE - sizeof_trapframe"

definition forked_proc :: "u64 \<Rightarrow> u64 \<Rightarrow> u64 \<Rightarrow> int \<Rightarrow> nat \<Rightarrow> proc_struct" where
  "forked_proc forkret pgd par pd f = (fresh_proc pgd)\<lparr>state := PROC_RUNNABLE, pid := pd, kstack := frame_kva f,
     parent := par, proc_tf := stack_tf f, ctx := zero_context\<lparr>c_ra := forkret, c_sp := stack_tf f\<rparr>\<rparr>"

definition forked_tf :: "trapframe \<Rightarrow> u64 \<Rightarrow> nat \<Rightarrow> trapframe" where
  "forked_tf tf esp f =
     tf\<lparr>gpr := (gpr tf)(G_a0 := 0, G_sp := if esp = 0 then stack_tf f else esp)\<rparr>"

lemma heap_inv_kernel [simp]:
  "heap_inv (upd_proc p g s) al = heap_inv s al" "heap_inv (s\<lparr>tfs := a\<rparr>) al = heap_inv s al"
  "heap_inv (s\<lparr>hash_list := h\<rparr>) al = heap_inv s al" "heap_inv (s\<lparr>proc_list := l\<rparr>) al = heap_inv s al"
  "heap_inv (s\<lparr>nr_process := m\<rparr>) al = heap_inv s al" "heap_inv (s\<lparr>last_pid := x, next_safe := y\<rparr>) al = heap_inv s al"
  by (rule iffI; erule heap_inv_cong; simp add: upd_proc_def)+

lemma free_frames_kernel [simp]:
  "free_frames (upd_proc p g s) = free_frames s" "free_frames (s\<lparr>tfs := a\<rparr>) = free_frames s"
  "free_frames (s\<lparr>hash_list := h\<rparr>) = free_frames s" "free_frames (s\<lparr>proc_list := l\<rparr>) = free_frames s"
  "free_frames (s\<lparr>nr_process := m\<rparr>) = free_frames s"
  "free_frames (s\<lparr>last_pid := x, next_safe := y\<rparr>) = free_frames s"
  by (rule free_frames_cong; simp add: upd_proc_def)+

lemma copy_thread_sel:
  "procs (copy_thread forkret p esp tf s) =
     (procs s)(p := (procs s p)\<lparr>proc_tf := kstack (procs s p) + KSTACKSIZE - sizeof_trapframe,
       ctx := (ctx (procs s p))\<lparr>c_ra := forkret, c_sp := kstack (procs s p) + KSTACKSIZE - sizeof_trapframe\<rparr>\<rparr>)"
  "tfs (copy_thread forkret p esp tf s) = (tfs s)(kstack (procs s p) + KSTACKSIZE - sizeof_trapframe :=
     tf\<lparr>gpr := (gpr tf)(G_a0 := 0, G_sp := if esp = 0 then kstack (procs s p) + KSTACKSIZE - sizeof_trapframe
       else esp)\<rparr>)"
  "heap_inv (copy_thread forkret p esp tf s) al = heap_inv s al"
  "free_frames (copy_thread forkret p esp tf s) = free_frames s"
  "proc_list (copy_thread forkret p esp tf s) = proc_list s" "hash_list (copy_thread forkret p esp tf s) = hash_list s"
  "current (copy_thread forkret p esp tf s) = current s" "idleproc (copy_thread forkret p esp tf s) = idleproc s" "nr_process (copy_thread forkret p esp tf s) = nr_process s"
  "last_pid (copy_thread forkret p esp tf s) = last_pid s" "next_safe (copy_thread forkret p esp tf s) = next_safe s"
  by (simp_all add: copy_thread_def Let_def)

text \<open>The identifier that is given out when the list is empty.\<close>

definition first_pid :: "'z kernel_state_scheme \<Rightarrow> int" where
  "first_pid s = (if MAX_PID \<le> last_pid s + 1 then 1 else last_pid s + 1)"

lemma get_pid_first:
  assumes "cdll (proc_list s) ProcHead []" and "get_pid s = Some (pd, t)"
  shows "pd = first_pid s"
proof -
  have "list_next (proc_list s) ProcHead = ProcHead"
    using cdll_next_last [of "proc_list s" ProcHead "[]" "[]"] assms(1) by simp
  then have "pid_scan (proc_list s) f ProcHead lp safe = Some (lp, safe)" for f lp safe
    by (subst pid_scan.simps) simp
  then show ?thesis using assms(2) by (auto simp: get_pid_def first_pid_def Let_def split: if_splits)
qed

text \<open>The part of \<open>do_fork\<close> that enters the new thread, with interrupts as they were.\<close>

definition fork_enter :: "u64 \<Rightarrow> 'z kernel_state_scheme \<Rightarrow> (int \<times> 'z kernel_state_scheme) run" where
  "fork_enter proc s =
     run_bind (loop_run (get_pid s)) (\<lambda>(pd, s).
       let s = upd_proc proc (\<lambda>p. p\<lparr>pid := pd\<rparr>) s;
           s = hash_proc proc s;
           s = s\<lparr>proc_list := list_add ProcHead (Link proc) (proc_list s)\<rparr>;
           s = s\<lparr>nr_process := nr_process s + 1\<rparr>
       in run_bind (wakeup_proc proc s) (\<lambda>s. ret (pid (procs s proc), s)))"

lemma fork_enter_spec:
  assumes inv: "fork_inv s al ps" and p: "p \<in> block_ptr ` al" "p \<notin> set ps" and st: "state (procs s p) = PROC_UNINIT"
    and len: "length ps + 1 < 4096"
  obtains pd t where "fork_enter p s = ret (pd, t)" "1 \<le> pd" "pd < MAX_PID" "\<forall>q\<in>set ps. pid (procs s q) \<noteq> pd"
    "fork_inv t al (p # ps)" "procs t = (procs s)(p := (procs s p)\<lparr>pid := pd, state := PROC_RUNNABLE\<rparr>)"
    "current t = current s" "free_frames t = free_frames s" "tfs t = tfs s" "idleproc t = idleproc s" "fork_keep s t"
    "ps = [] \<longrightarrow> pd = first_pid s"
proof -
  note D = fork_invD [OF inv]
  have few: "length ps + 1 < nat MAX_PID" using len by (simp add: MAX_PID_def MAX_PROCESS_def)
  obtain pd s' where g: "get_pid s = Some (pd, s')" "1 \<le> pd" "pd < MAX_PID" "\<forall>q\<in>set ps. pid (procs s q) \<noteq> pd"
      "s' = s\<lparr>last_pid := pd, next_safe := next_safe s'\<rparr>"
    using get_pid_spec [OF D(2) few] by blast
  have s': "procs s' = procs s" "proc_list s' = proc_list s" "hash_list s' = hash_list s" "current s' = current s"
    "nr_process s' = nr_process s" "tfs s' = tfs s" "idleproc s' = idleproc s" by (subst g(5), simp)+
  have s'_heap: "heap_inv s' al" "free_frames s' = free_frames s" using D(1) by (subst g(5), simp)+
  define t1 where "t1 = upd_proc p (\<lambda>q. q\<lparr>pid := pd\<rparr>) s'"
  define t2 where "t2 = (hash_proc p t1)\<lparr>proc_list := list_add ProcHead (Link p) (proc_list t1),
    nr_process := nr_process s + 1\<rparr>"
  define t3 where "t3 = upd_proc p (\<lambda>q. q\<lparr>state := PROC_RUNNABLE\<rparr>) t2"
  have sel1: "procs t1 = (procs s)(p := (procs s p)\<lparr>pid := pd\<rparr>)" "proc_list t1 = proc_list s"
    "hash_list t1 = hash_list s" "last_pid t1 = last_pid s'" "next_safe t1 = next_safe s'"
    by (simp_all add: t1_def s')
  have sel2: "procs t2 = procs t1" "hash_list t2 = hash_list (hash_proc p t1)"
    "proc_list t2 = list_add ProcHead (Link p) (proc_list t1)" "last_pid t2 = last_pid s'" "next_safe t2 = next_safe s'"
    "current t2 = current s" "nr_process t2 = nr_process s + 1" "tfs t2 = tfs s" "idleproc t2 = idleproc s"
    by (simp_all add: t2_def hash_proc_def sel1) (simp_all add: t1_def s')
  have heap2: "heap_inv t2 al" "free_frames t2 = free_frames s"
    using s'_heap by (simp_all add: t2_def hash_proc_def t1_def)
  have run: "fork_enter p s = ret (pd, t3)"
    using g(1) st by (simp add: fork_enter_def wakeup_proc_def t3_def t2_def t1_def s' hash_proc_def Let_def)
  have sel3: "procs t3 = (procs s)(p := (procs s p)\<lparr>pid := pd, state := PROC_RUNNABLE\<rparr>)"
    by (simp add: t3_def sel2 sel1)
  have pids: "pid (procs t3 q) = pid (procs t1 q)" for q by (simp add: sel3 sel1)
  have old: "\<forall>q\<in>set ps. pid (procs t1 q) = pid (procs s q)" using p(2) by (auto simp: sel1)
  let ?l = "t1\<lparr>proc_list := list_add ProcHead (Link p) (proc_list t1)\<rparr>"
  have pl: "pid_inv ?l (p # ps)"
    using pids.enter_inv [OF D(2) _ p(2) g(1)] few by (simp add: enter_pid_def t1_def Let_def)
  have "pid_inv t3 (p # ps)"
  proof (rule pid_inv_cong [OF pl])
    show "cdll (proc_list t3) ProcHead (map Link (p # ps))"
      using pl unfolding pid_inv_def by (simp add: t3_def sel2)
    show "\<forall>q\<in>set (p # ps). pid (procs t3 q) = pid (procs ?l q)" by (simp add: pids)
    show "last_pid t3 = last_pid ?l" "next_safe t3 = next_safe ?l" by (simp_all add: t3_def sel2 sel1)
  qed
  moreover have "hash_inv t1 ps" by (rule hash_inv_cong [OF _ old D(3)]) (simp add: sel1)
  then have "hash_inv (hash_proc p t1) (p # ps)" using p(2) by (rule hash_proc_inv)
  then have "hash_inv t3 (p # ps)"
    by (rule hash_inv_cong [rotated 2]) (use pids in \<open>simp_all add: t3_def sel2 hash_proc_def\<close>)
  moreover have "nr_process t3 = of_nat (length (p # ps) + 1)" using D(5) by (simp add: t3_def sel2)
  ultimately have "fork_inv t3 al (p # ps)"
    using D(4) p(1) len heap2 by (simp add: fork_inv_def t3_def sel2)
  moreover have "fork_keep s s'" by (subst g(5)) (simp add: fork_keep_def)
  then have "fork_keep s t3" by (simp add: t3_def t2_def t1_def hash_proc_def fork_keep_def upd_proc_def)
  moreover have "ps = [] \<longrightarrow> pd = first_pid s" using get_pid_first [OF _ g(1)] D(2) by (auto simp: pid_inv_def)
  ultimately show ?thesis
    using that [OF run g(2-4)] sel3 heap2 by (simp add: t3_def sel2)
qed

text \<open>What \<open>do_fork\<close> does, exit by exit.\<close>

definition fork_full :: "'z kernel_state_scheme \<Rightarrow> (int \<times> 'z kernel_state_scheme) run \<Rightarrow> u64 list \<Rightarrow> bool" where
  "fork_full s r ps \<longleftrightarrow> length ps + 1 = 4096 \<and> r = ret (- 5, s)"

definition fork_no_mem ::
  "'z kernel_state_scheme \<Rightarrow> (int \<times> 'z kernel_state_scheme) run \<Rightarrow> block set \<Rightarrow> u64 list \<Rightarrow> bool" where
  "fork_no_mem s r al ps \<longleftrightarrow> \<not> free_room 3 s \<and> (\<exists>t. r = ret (- 4, t) \<and> fork_inv t al ps \<and>
     (\<forall>q\<in>block_ptr ` al. procs t q = procs s q) \<and> tfs t = tfs s \<and> current t = current s \<and> idleproc t = idleproc s)"

definition fork_done :: "u64 \<Rightarrow> u64 \<Rightarrow> trapframe \<Rightarrow> 'z kernel_state_scheme \<Rightarrow>
    (int \<times> 'z kernel_state_scheme) run \<Rightarrow> block set \<Rightarrow> u64 list \<Rightarrow> bool" where
  "fork_done forkret esp tf s r al ps \<longleftrightarrow> (\<exists>pd t c f. let p = block_ptr (proc_block c) in
     r = ret (pd, t) \<and> 1 \<le> pd \<and> pd < MAX_PID \<and> (\<forall>q\<in>set ps. pid (procs s q) \<noteq> pd) \<and>
     (ps = [] \<longrightarrow> pd = first_pid s) \<and> fork_inv t (insert (proc_block c) al) (p # ps) \<and> p \<notin> block_ptr ` al \<and> find_proc pd t = Some p \<and>
     procs t = (procs s)(p := forked_proc forkret (boot_pgdir_pa s) (current s) pd f) \<and>
     tfs t = (tfs s)(stack_tf f := forked_tf tf esp f) \<and> current t = current s \<and>
     idleproc t = idleproc s \<and> fork_keep s t \<and> {f, f + 1} \<subseteq> free_frames s \<and> {f, f + 1} \<inter> free_frames t = {})"

lemma fork_inv_find:
  assumes "fork_inv s al ps" and "p \<in> set ps"
  shows "find_proc (pid (procs s p)) s = Some p"
  using find_proc_spec(1) [OF fork_invD(3) [OF assms(1)], of p] fork_invD(2) [OF assms(1)] assms(2)
  by (auto simp: pid_inv_def)

text \<open>A thread that gets no stack gives its descriptor back.\<close>

lemma free_proc_spec:
  assumes inv: "fork_inv t (insert (proc_block c) al) ps" and new: "proc_block c \<notin> al"
    and cur: "set ps \<union> {current t} \<subseteq> block_ptr ` al"
  obtains u where "kfree (block_ptr (proc_block c)) t = ret u" "fork_inv u al ps" "procs u = procs t"
    "tfs u = tfs t" "current u = current t" "idleproc u = idleproc t"
proof -
  have mem: "(c, kmalloc_units sizeof_proc_struct) \<in> insert (proc_block c) al" by (simp add: proc_block_def)
  have diff: "insert (proc_block c) al - {(c, kmalloc_units sizeof_proc_struct)} = al"
    using new by (auto simp: proc_block_def)
  obtain u where u: "kfree (unit_addr (c + 1)) t = ret u" "heap_inv u al" "kmem_same t u"
    using kfree_spec [OF fork_invD(1) [OF inv] mem] unfolding diff by blast
  have "fork_inv u al ps" by (rule fork_inv_kmem [OF inv u(2) cur u(3)])
  then show ?thesis
    using u(1) kmem_same_kernel [OF u(3)] by (intro that [of u]) (simp_all add: block_ptr_def proc_block_def)
qed

text \<open>One that has a stack is set up and entered.\<close>

lemma fork_enter_copied:
  fixes c :: nat
  defines "p \<equiv> block_ptr (proc_block c)"
  assumes inv: "fork_inv t (insert (proc_block c) al) ps" and new: "p \<notin> set ps"
    and procs: "procs t = f(p := (fresh_proc pgd)\<lparr>parent := par, kstack := frame_kva k\<rparr>)"
    and len: "length ps + 1 < 4096"
  obtains pd u where "fork_enter p (copy_thread forkret p esp tf t) = ret (pd, u)" "1 \<le> pd" "pd < MAX_PID"
    "\<forall>q\<in>set ps. pid (f q) \<noteq> pd" "fork_inv u (insert (proc_block c) al) (p # ps)" "find_proc pd u = Some p"
    "procs u = f(p := forked_proc forkret pgd par pd k)" "tfs u = (tfs t)(stack_tf k := forked_tf tf esp k)"
    "current u = current t" "idleproc u = idleproc t" "free_frames u = free_frames t" "fork_keep t u"
    "ps = [] \<longrightarrow> pd = first_pid t"
proof -
  define t3 where "t3 = copy_thread forkret p esp tf t"
  have sel3: "procs t3 = f(p := (forked_proc forkret pgd par (- 1) k)\<lparr>state := PROC_UNINIT\<rparr>)"
      "tfs t3 = (tfs t)(stack_tf k := forked_tf tf esp k)" "current t3 = current t" "free_frames t3 = free_frames t"
      "idleproc t3 = idleproc t" "first_pid t3 = first_pid t"
    using procs by (simp_all add: t3_def copy_thread_sel forked_proc_def fresh_proc_def stack_tf_def forked_tf_def
        first_pid_def)
  have inv3: "fork_inv t3 (insert (proc_block c) al) ps"
    by (rule fork_inv_cong [OF inv]) (use fork_invD [OF inv] in \<open>simp_all add: t3_def copy_thread_sel\<close>)
  have keep: "fork_keep t t3" by (simp add: t3_def copy_thread_def Let_def) (simp add: fork_keep_def upd_proc_def)
  obtain pd u where u: "fork_enter p t3 = ret (pd, u)" "1 \<le> pd" "pd < MAX_PID"
      "\<forall>q\<in>set ps. pid (procs t3 q) \<noteq> pd" "fork_inv u (insert (proc_block c) al) (p # ps)"
      "procs u = (procs t3)(p := (procs t3 p)\<lparr>pid := pd, state := PROC_RUNNABLE\<rparr>)"
      "current u = current t3" "free_frames u = free_frames t3" "tfs u = tfs t3"
      "idleproc u = idleproc t3" "fork_keep t3 u" "ps = [] \<longrightarrow> pd = first_pid t3"
    by (rule fork_enter_spec [OF inv3 _ new _ len]) (use sel3(1) p_def in auto)
  have procs_u: "procs u = f(p := forked_proc forkret pgd par pd k)"
    by (simp add: u(6) sel3(1) forked_proc_def fresh_proc_def)
  then have found: "find_proc pd u = Some p" using fork_inv_find [OF u(5), of p] by (simp add: forked_proc_def)
  have old: "\<forall>q\<in>set ps. pid (f q) \<noteq> pd"
  proof
    fix q assume q: "q \<in> set ps"
    then have "q \<noteq> p" using new by blast
    then show "pid (f q) \<noteq> pd" using q u(4) by (auto simp: sel3(1))
  qed
  from u(12) have first: "ps = [] \<longrightarrow> pd = first_pid t" by (simp only: sel3(6))
  show ?thesis
    by (rule that [OF u(1)[unfolded t3_def] u(2,3) old u(5) found procs_u _ _ _ _ fork_keep_trans [OF keep u(11)] first])
      (simp_all add: u(7-10) sel3)
qed

text \<open>\<open>do_fork\<close> once the descriptor has been allocated: the stack is missing, or the process is entered.\<close>

lemma do_fork_allocated:
  fixes c
  defines "x \<equiv> proc_block c" and "p \<equiv> block_ptr (proc_block c)"
  assumes inv: "fork_inv s al ps" and mm: "proc_mm (procs s (current s)) = 0" and len: "length ps + 1 < 4096"
    and room: "\<not> MAX_PROCESS \<le> sint (nr_process s)"
    and proc: "alloc_proc s = ret (p, t)" "fork_inv t (insert x al) ps" "p \<notin> block_ptr ` al"
      "procs t = (procs s)(p := fresh_proc (boot_pgdir_pa s))"
      "x \<notin> al" "current t = current s" "boot_pgdir_pa t = boot_pgdir_pa s"
      "free_frames t \<subseteq> free_frames s" "tfs t = tfs s" "idleproc t = idleproc s"
      "\<forall>k>0. free_room (Suc k) s \<longrightarrow> free_room k t" "fork_keep s t" "last_pid t = last_pid s"
  shows "fork_no_mem s (do_fork forkret cf esp tf s) al ps \<or> fork_done forkret esp tf s (do_fork forkret cf esp tf s) al ps"
proof -
  let ?r = "do_fork forkret cf esp tf s"
  note D = fork_invD [OF inv]
  let ?x = "proc_block c" and ?p = "block_ptr (proc_block c)"
  note proc = proc [unfolded x_def p_def]
  have p0: "?p \<noteq> 0" by (rule heap_inv_ptr(3) [OF fork_invD(1) [OF proc(2)]]) simp
  have pps: "?p \<notin> set ps" "?p \<noteq> current s" using proc(3) D(4) by auto
  define t1 where "t1 = upd_proc ?p (\<lambda>q. q\<lparr>parent := current t\<rparr>) t"
  have inv1: "fork_inv t1 (insert ?x al) ps"
    by (rule fork_inv_cong [OF proc(2)]) (use fork_invD [OF proc(2)] in \<open>simp_all add: t1_def\<close>)
  have sel1: "procs t1 = (procs s)(?p := (fresh_proc (boot_pgdir_pa s))\<lparr>parent := current s\<rparr>)"
    "current t1 = current s" "tfs t1 = tfs s" "free_frames t1 = free_frames t" "idleproc t1 = idleproc s"
    using proc(4,6,9,10) by (simp_all add: t1_def)
  from inv1 show ?thesis
  proof (cases rule: setup_kstack_spec [of _ _ _ ?p])
    case none
    have "set ps \<union> {current t1} \<subseteq> block_ptr ` al" using D(4) sel1(2) by simp
    then obtain u where u: "kfree ?p t1 = ret u" "fork_inv u al ps" "procs u = procs t1" "tfs u = tfs t1"
        "current u = current t1" "idleproc u = idleproc t1"
      using free_proc_spec [OF inv1 proc(5)] by metis
    have ne: "- E_NO_MEM \<noteq> 0" "sint (- E_NO_MEM) = - 4" by (simp_all add: E_NO_MEM_def)
    have run: "?r = ret (- 4, u)"
      using room proc(1) none p0 u(1) ne unfolding do_fork_def by (simp add: t1_def [symmetric])
    have "\<forall>q\<in>block_ptr ` al. procs u q = procs s q"
      using proc(3) by (metis fun_upd_other sel1(1) u(3))
    moreover have "free_room 2 t1 = free_room 2 t" by (rule free_room_cong) (simp_all add: t1_def upd_proc_def)
    then have "\<not> free_room 3 s" using none(2) spec [OF proc(11), of 2] by (auto simp: eval_nat_numeral)
    ultimately have "fork_no_mem s ?r al ps" using run u(2,4-6) sel1 by (simp add: fork_no_mem_def)
    then show ?thesis by blast
  next
    case (stack f t2)
    have procs2: "procs t2 = (procs s)(?p := (fresh_proc (boot_pgdir_pa s))\<lparr>parent := current s, kstack := frame_kva f\<rparr>)"
      using stack(5) sel1(1) by simp
    have mm2: "proc_mm (procs t2 (current t2)) = 0" using mm pps(2) stack(6) sel1(2) procs2 by simp
    obtain pd u where u: "fork_enter ?p (copy_thread forkret ?p esp tf t2) = ret (pd, u)" "1 \<le> pd" "pd < MAX_PID"
        "\<forall>q\<in>set ps. pid (procs s q) \<noteq> pd" "fork_inv u (insert ?x al) (?p # ps)" "find_proc pd u = Some ?p"
        "procs u = (procs s)(?p := forked_proc forkret (boot_pgdir_pa s) (current s) pd f)"
        "tfs u = (tfs t2)(stack_tf f := forked_tf tf esp f)" "current u = current t2" "idleproc u = idleproc t2"
        "free_frames u = free_frames t2" "fork_keep t2 u" "ps = [] \<longrightarrow> pd = first_pid t2"
      by (rule fork_enter_copied [OF stack(2) pps(1) procs2 len])
    have run: "?r = ret (pd, u)"
      using room proc(1) stack(1) p0 mm2 u(1)
      by (simp add: do_fork_def copy_mm_def fork_enter_def t1_def [symmetric])
    have "{f, f + 1} \<subseteq> free_frames s" "{f, f + 1} \<inter> free_frames u = {}"
      using stack(3,4) sel1(4) proc(8) u(11) by auto
    moreover have "fork_keep s u"
      using proc(12) stack(9) u(12) fork_keep_trans by (simp add: t1_def) blast
    moreover have "first_pid t2 = first_pid s"
      using proc(13) stack(10) by (simp add: first_pid_def t1_def)
    ultimately have "fork_done forkret esp tf s ?r al ps"
      unfolding fork_done_def Let_def
      using run u(2-10,13) proc(3) sel1 stack(6-8)
      by (intro exI [of _ pd] exI [of _ u] exI [of _ c] exI [of _ f]) simp
    then show ?thesis by blast
  qed
qed

lemma do_fork_outcome:
  assumes inv: "fork_inv s al ps" and mm: "proc_mm (procs s (current s)) = 0"
  shows "fork_full s (do_fork forkret cf esp tf s) ps \<or> fork_no_mem s (do_fork forkret cf esp tf s) al ps \<or>
    fork_done forkret esp tf s (do_fork forkret cf esp tf s) al ps"
proof (cases "length ps + 1 = 4096")
  let ?r = "do_fork forkret cf esp tf s"
  note D = fork_invD [OF inv]
  have nr: "sint (nr_process s) = int (length ps + 1)" unfolding D(5) by (rule sint_of_nat_u32) (use D(6) in simp)
  {
    case True
    then have "?r = ret (- 5, s)" using nr by (simp add: do_fork_def MAX_PROCESS_def E_NO_FREE_PROC_def)
    then show ?thesis using True by (simp add: fork_full_def)
  next
    case False
    then have len: "length ps + 1 < 4096" using D(6) by simp
    then have room: "\<not> MAX_PROCESS \<le> sint (nr_process s)" using nr by (simp add: MAX_PROCESS_def)
    from inv show ?thesis
    proof (cases rule: alloc_proc_spec)
      case none
      then have "?r = ret (- 4, s)" using room by (simp add: do_fork_def E_NO_MEM_def)
      moreover have "\<not> free_room 3 s" using none(2) D(1) free_room_frames by fastforce
      ultimately have "fork_no_mem s ?r al ps" using inv by (simp add: fork_no_mem_def)
      then show ?thesis by blast
    next
      case (proc c t)
      then show ?thesis using do_fork_allocated [OF inv mm len room proc] by blast
    qed
  }
qed

subsection \<open>A concrete machine\<close>

text \<open>The memory of \<open>small_heap\<close>, no processes but the one that is about to become idle.\<close>

definition fork_machine :: kernel_state where
  "fork_machine = three_procs\<lparr>pages := pages small_heap, npage := 0x80010,
     va_pa_offset := PHYSICAL_MEMORY_OFFSET, free_list := free_list small_heap, nr_free := 8,
     arena := unit_addr (frame_unit 0),
     proc_list := \<lparr>le_prev = (\<lambda>n. n), le_next = (\<lambda>n. n)\<rparr>,
     nr_process := 1, last_pid := MAX_PID, next_safe := MAX_PID\<rparr>"

lemma fork_machine_heap:
  "heap_inv (heap_init fork_machine) {}" "free_frames (heap_init fork_machine) = {4..<12}"
  "free_rel (heap_init fork_machine) [(4, 8)]"
proof -
  have free: "free_rel fork_machine [(4, 8)]"
    using small_heap_free by (simp add: free_rel_def fork_machine_def)
  show "heap_inv (heap_init fork_machine) {}"
  proof (rule heap_inv_boot)
    show "arena fork_machine = unit_addr (frame_unit 0)" by (simp add: fork_machine_def)
    show "vm_ok fork_machine" by (simp add: vm_ok_def fork_machine_def)
    show "\<exists>fs. free_rel fork_machine fs" using free by blast
    show "\<forall>f\<in>free_frames fork_machine. valid_frame fork_machine f \<and> f < 0x3FFFF \<and> frame_unit 0 + 2 \<le> frame_unit f"
      using free_frames_eq [OF free] by (auto simp: valid_frame_def fork_machine_def frame_unit_def)
  qed (simp add: frame_unit_def)
  show rel: "free_rel (heap_init fork_machine) [(4, 8)]"
    using free free_rel_cong [of "heap_init fork_machine" fork_machine]
    by (simp add: heap_init_def set_units_def set_next_block_def)
  show "free_frames (heap_init fork_machine) = {4..<12}" by (simp add: free_frames_eq [OF rel])
qed

lemma heap_init_kernel:
  "procs (heap_init s) = procs s" "proc_list (heap_init s) = proc_list s" "hash_list (heap_init s) = hash_list s"
  "nr_process (heap_init s) = nr_process s" "last_pid (heap_init s) = last_pid s"
  "next_safe (heap_init s) = next_safe s"
  by (simp_all add: heap_init_def set_units_def set_next_block_def)

lemma hash_inv_empty:
  assumes "hash_list s = \<lparr>le_prev = (\<lambda>n. n), le_next = (\<lambda>n. n)\<rparr>"
  shows "hash_inv s []"
proof -
  have "hash_bucket s [] b []" for b
    by (simp add: hash_bucket_def assms cdll_def list_next_def list_prev_def)
  then show ?thesis by (auto simp: hash_inv_def)
qed

lemma idle_machine:
  obtains s :: kernel_state and al where "fork_inv s al []" "proc_mm (procs s (current s)) = 0"
    "current s = idleproc s" "free_room 3 s"
proof -
  have sz: "(0 :: u64) < 100" "(100 :: u64) < 4064" by simp_all
  from fork_machine_heap(1) sz show ?thesis
  proof (cases rule: kmalloc_spec)
    case none
    then show ?thesis by (simp add: fork_machine_heap(2))
  next
    case (block c t)
    let ?x = "(c, kmalloc_units 100)"
    define s where "s = t\<lparr>current := block_ptr ?x, idleproc := block_ptr ?x\<rparr>"
    note same = kmem_same_kernel [OF block(6), unfolded heap_init_kernel]
    have "heap_inv s {?x}" by (rule heap_inv_cong [OF block(2)]) (simp_all add: s_def)
    moreover have "pid_inv s []"
      unfolding pid_inv_def s_def
      by (simp add: same) (simp add: fork_machine_def cdll_def list_next_def list_prev_def
          fresh_range_def MAX_PID_def MAX_PROCESS_def)
    moreover have "hash_inv s []"
      by (rule hash_inv_empty) (simp add: s_def same fork_machine_def three_procs_def)
    moreover have "nr_process s = 1" by (simp add: s_def same) (simp add: fork_machine_def)
    moreover have "current s = block_ptr ?x" "idleproc s = block_ptr ?x" by (simp_all add: s_def)
    ultimately have "fork_inv s {?x} []" by (simp add: fork_inv_def)
    moreover have "free_room 4 (heap_init fork_machine)"
      unfolding free_room_def by (rule exI [of _ "[(4, 8)]"]) (simp add: fork_machine_heap(3))
    then have "free_room 3 t" using block(7) by (simp add: eval_nat_numeral)
    then have "free_room 3 s" using free_room_cong [of s t] by (simp add: s_def)
    moreover have "proc_mm (procs s (current s)) = 0"
      by (simp add: s_def same) (simp add: fork_machine_def three_procs_def)
    ultimately show ?thesis by (intro that) (simp_all add: s_def)
  qed
qed

subsection \<open>Properties\<close>

text \<open>C15. \<open>do_fork\<close> never panics and always returns. With 4096 processes it refuses and changes nothing;
  when memory runs out it returns \<open>-E_NO_MEM\<close> with no block, process or identifier lost; otherwise it
  returns a new identifier: the new thread is in the process list and found by its identifier, is
  runnable, has its own stack of two pages that were free, its trap frame on it, and starts at
  \<open>forkret\<close>; all other processes are unchanged.\<close>

theorem do_fork_correct:
  assumes "fork_inv s al ps" and "proc_mm (procs s (current s)) = 0"
  shows "fork_full s (do_fork forkret cf esp tf s) ps \<or> fork_no_mem s (do_fork forkret cf esp tf s) al ps \<or>
    fork_done forkret esp tf s (do_fork forkret cf esp tf s) al ps"
  by (rule do_fork_outcome [OF assms])

lemma do_fork_correct_witness:
  "\<exists>(s :: kernel_state) al. fork_inv s al [] \<and> fork_done 1 0 undefined s (do_fork 1 0 0 undefined s) al []"
proof -
  obtain s :: kernel_state and al where s: "fork_inv s al []" "proc_mm (procs s (current s)) = 0" "free_room 3 s"
    by (rule idle_machine) blast
  from do_fork_correct [OF s(1,2), of 1 0 0 undefined] s(1,3) show ?thesis
    by (auto simp: fork_full_def fork_no_mem_def)
qed

text \<open>No runnable process stands after the current one in the list; for the idle process, which is not in the
  list, this holds always.\<close>

definition none_after :: "'z kernel_state_scheme \<Rightarrow> u64 list \<Rightarrow> bool" where
  "none_after s ps \<longleftrightarrow> (\<forall>q\<in>set (tl (dropWhile (\<lambda>q. q \<noteq> current s) ps)). \<not> is_runnable s q)"

lemma none_after_idle: "current s \<notin> set ps \<Longrightarrow> none_after s ps"
proof -
  assume "current s \<notin> set ps"
  then have e: "dropWhile (\<lambda>q. q \<noteq> current s) ps = []" by (auto simp: dropWhile_eq_Nil_conv)
  show "none_after s ps" unfolding none_after_def e by simp
qed

text \<open>A process entered at the head of the list comes first then.\<close>

lemma none_after_target:
  assumes "distinct (p # ps)" and "none_after s ps" and "is_runnable t p" and "current t = current s"
    and "current s \<noteq> p" and "\<forall>q\<in>set ps. is_runnable t q = is_runnable s q"
  shows "sched_target t (p # ps) = p"
proof (cases "current s \<in> set ps")
  case False
  then have "sched_order (current t) (p # ps) = p # ps" using assms(4,5) by (intro sched_order_notin) simp
  then show ?thesis using assms(3) by (simp add: sched_target_def)
next
  case True
  then obtain xs ys where ps: "ps = xs @ current s # ys" "current s \<notin> set xs" by (meson split_list_first)
  have "sched_order (current s) ((p # xs) @ current s # ys) = ys @ (p # xs) @ [current s]"
    using assms(1) ps(1) by (intro sched_order_split) simp
  moreover have "tl (dropWhile (\<lambda>q. q \<noteq> current s) ps) = ys"
    using ps by (auto simp: dropWhile_append dropWhile_eq_Nil_conv)
  then have "find (is_runnable t) ys = None"
    using assms(2,6) ps(1) by (auto simp: none_after_def find_None_iff)
  ultimately show ?thesis using assms(3,4) by (simp add: sched_target_def ps(1) find_append)
qed

lemma forked_thread_spec:
  assumes inv: "fork_inv s al ps" and mm: "proc_mm (procs s (current s)) = 0" and sinv: "sched_inv s ps"
    and idle: "idleproc s \<in> block_ptr ` al" and after: "none_after s ps"
    and run: "do_fork forkret cf esp tf s = ret (pd, t)" and pd: "0 < pd"
  obtains r u f where "schedule t = ret (r, u)" "current u \<noteq> idleproc s" "pid (procs t (current u)) = pd"
    "cpu u = zero_context\<lparr>c_ra := forkret, c_sp := stack_tf f\<rparr>" "\<not> intr_on u"
    "tfs t (stack_tf f) = forked_tf tf esp f" "runs (procs u (current u)) = 1"
    "tfs u = tfs t" "proc_tf (procs u (current u)) = stack_tf f"
proof -
  have "\<not> fork_full s (ret (pd, t)) ps" "\<not> fork_no_mem s (ret (pd, t)) al ps"
    using pd by (auto simp: fork_full_def fork_no_mem_def)
  then have "fork_done forkret esp tf s (ret (pd, t)) al ps"
    using do_fork_outcome [OF inv mm, of forkret cf esp tf] unfolding run by blast
  then obtain c f where d: "fork_inv t (insert (proc_block c) al) (block_ptr (proc_block c) # ps)"
      "block_ptr (proc_block c) \<notin> block_ptr ` al"
      "procs t = (procs s)(block_ptr (proc_block c) := forked_proc forkret (boot_pgdir_pa s) (current s) pd f)"
      "tfs t = (tfs s)(stack_tf f := forked_tf tf esp f)" "current t = current s" "idleproc t = idleproc s"
    by (auto simp: fork_done_def Let_def)
  let ?p = "block_ptr (proc_block c)"
  have new: "?p \<noteq> idleproc s" "?p \<noteq> current s" "?p \<notin> set ps" using fork_invD(4) [OF inv] idle d(2) by auto
  have sched: "sched_inv t (?p # ps)"
    using fork_invD(2) [OF d(1)] sinv new(1) d(5,6) by (auto simp: sched_inv_def pid_inv_def)
  have "is_runnable t ?p" by (simp add: is_runnable_def d(3) forked_proc_def)
  moreover have "distinct (?p # ps)" by (rule sched_inv_distinct [OF sched])
  moreover have "\<forall>q\<in>set ps. is_runnable t q = is_runnable s q" using new(3) by (auto simp: is_runnable_def d(3))
  ultimately have target: "sched_target t (?p # ps) = ?p"
    by (intro none_after_target [OF _ after]) (use new(2) d(5) in simp_all)
  obtain r u where u: "schedule t = ret (r, u)" "current u = ?p" "runs (procs u ?p) = runs (procs t ?p) + 1"
      "\<not> intr_on u" "cpu u = ctx (procs t ?p)"
    using schedule_effect [OF sched] new(2) d(5) unfolding target by auto
  with schedule_keeps [OF sched u(1)] show ?thesis
    using new(1) d(3,4) by (intro that [of r u f]) (simp_all add: forked_proc_def fresh_proc_def)
qed

text \<open>The thread that the idle process forks runs first: the next \<open>schedule\<close> switches to it, and the
  processor then has its return address at \<open>forkret\<close> and its stack pointer at the trap frame.\<close>

theorem forked_thread_runs_first:
  assumes inv: "fork_inv s al ps" and mm: "proc_mm (procs s (current s)) = 0" and idle: "current s = idleproc s"
    and ips: "idleproc s \<notin> set ps" and run: "do_fork forkret cf esp tf s = ret (pd, t)" and pd: "0 < pd"
  shows "\<exists>r u f. schedule t = ret (r, u) \<and> current u \<noteq> idleproc s \<and> pid (procs t (current u)) = pd \<and>
    cpu u = zero_context\<lparr>c_ra := forkret, c_sp := stack_tf f\<rparr> \<and> \<not> intr_on u \<and>
    tfs t (stack_tf f) = forked_tf tf esp f \<and> runs (procs u (current u)) = 1"
proof -
  have "sched_inv s ps" using fork_invD(2) [OF inv] idle ips by (simp add: sched_inv_def pid_inv_def)
  moreover have "idleproc s \<in> block_ptr ` al" using fork_invD(4) [OF inv] idle by simp
  moreover have "none_after s ps" using idle ips by (intro none_after_idle) simp
  ultimately show ?thesis by (rule forked_thread_spec [OF inv mm _ _ _ run pd]) blast
qed

lemma forked_thread_runs_first_witness:
  "\<exists>(s :: kernel_state) pd t r u. do_fork 1 0 0 undefined s = ret (pd, t) \<and> 0 < pd \<and> schedule t = ret (r, u) \<and>
     pid (procs t (current u)) = pd \<and> c_ra (cpu u) = 1"
proof -
  obtain s :: kernel_state and al where s: "fork_inv s al []" "proc_mm (procs s (current s)) = 0"
      "current s = idleproc s" "free_room 3 s"
    by (rule idle_machine) blast
  have "fork_done 1 0 undefined s (do_fork 1 0 0 undefined s) al []"
    using do_fork_outcome [OF s(1,2), of 1 0 0 undefined] s(4) by (auto simp: fork_full_def fork_no_mem_def)
  then obtain pd t where r: "do_fork 1 0 0 undefined s = ret (pd, t)" "0 < pd"
    by (fastforce simp: fork_done_def Let_def)
  from forked_thread_runs_first [OF s(1-3) _ r] r show ?thesis by fastforce
qed

text \<open>\<open>lsatp\<close> puts the mode bit of the 32-bit Sv32 format into a 64-bit CSR: sign-extended, the mode
  field it writes is 15, a reserved value, whatever the page directory, and never 8, which is Sv39.\<close>

theorem lsatp_mode_reserved: "drop_bit 60 (satp (lsatp pgd s)) = 15"
proof (rule bit_eqI)
  fix n assume "possible_bit TYPE(64 word) n"
  then have n: "n < 64" by simp
  have "bit (SATP32_MODE OR drop_bit 12 pgd) 31"
    by (simp add: SATP32_MODE_def bit_or_iff)
  then have "bit (drop_bit 60 (satp (lsatp pgd s))) n \<longleftrightarrow> n < 4"
    by (simp add: lsatp_def bit_drop_bit_eq bit_signed_iff min_def) 
  moreover have "bit (15 :: u64) n \<longleftrightarrow> n < 4"
  proof -
    have "(15 :: u64) = mask 4" by (simp add: mask_eq_exp_minus_1)
    then show ?thesis using n by (simp only: bit_mask_iff) simp
  qed
  ultimately show "bit (drop_bit 60 (satp (lsatp pgd s))) n \<longleftrightarrow> bit (15 :: u64) n" by simp
qed

end
