(* ===== verification/TrapSpec.thy ===== *)
theory TrapSpec
  imports Trap MonitorSpec ForkSpec
begin

unbundle bit_operations_syntax

text \<open>
  What a trap does to the interrupted code (nothing but to step over an illegal instruction or a
  breakpoint), the count of timer interrupts up to the shutdown, the first instructions of a new thread,
  and the monitor, which never returns.
\<close>

subsection \<open>The outcomes of trap\<close>

lemma fold_say: "\<exists>c. fold (\<lambda>(fmt, r). say fmt [CNum (g r)]) xs s = s\<lparr>console := c\<rparr>"
proof (induction xs arbitrary: s)
  case Nil
  show ?case by (intro exI [of _ "console s"]) simp
next
  case (Cons x xs)
  obtain c where "fold (\<lambda>(fmt, r). say fmt [CNum (g r)]) xs (say (fst x) [CNum (g (snd x))] s) =
      (say (fst x) [CNum (g (snd x))] s)\<lparr>console := c\<rparr>" using Cons.IH by blast
  then show ?case by (intro exI [of _ c], simp add: case_prod_unfold, simp add: say_def)
qed

lemma print_trapframe_console: "\<exists>c. print_trapframe tf s = s\<lparr>console := c\<rparr>"
proof -
  obtain c where "print_regs (gpr (tfs s tf)) (say ''trapframe at %p\<newline>'' [CNum tf] s) =
      (say ''trapframe at %p\<newline>'' [CNum tf] s)\<lparr>console := c\<rparr>"
    using fold_say unfolding print_regs_def by blast
  then show ?thesis by (intro exI) (simp add: print_trapframe_def say_def Let_def)
qed

definition timer_cause :: u64 where "timer_cause = 0x8000000000000005"

definition skips :: "u64 \<Rightarrow> bool" where
  "skips cause \<longleftrightarrow> cause = CAUSE_ILLEGAL_INSTRUCTION \<or> cause = CAUSE_BREAKPOINT"

lemma low_cause: "drop_bit 1 (push_bit 1 w) = (w :: u64) AND NOT (BIT_MASK 63)"
proof (rule bit_word_eqI)
  fix n assume "n < LENGTH(64)"
  then have n: "n < 64" by simp
  have "bit (drop_bit 1 (push_bit 1 w)) n \<longleftrightarrow> bit (push_bit 1 w) (1 + n)"
    by (simp only: bit_drop_bit_eq o_apply)
  also have "\<dots> \<longleftrightarrow> n < 63 \<and> bit w n"
    by (simp only: bit_push_bit_iff) auto
  finally show "bit (drop_bit 1 (push_bit 1 w)) n \<longleftrightarrow> bit (w AND NOT (BIT_MASK 63)) n"
    using n by (auto simp only: bit_and_iff bit_not_iff bit_BIT_MASK) simp_all
qed

lemma timer_cause_iff:
  "sint w < 0 \<and> drop_bit 1 (push_bit 1 w) = IRQ_S_TIMER \<longleftrightarrow> w = timer_cause"
proof
  assume w: "sint w < 0 \<and> drop_bit 1 (push_bit 1 w) = IRQ_S_TIMER"
  then have "bit w 63" using bit_last_iff [of w] by simp
  moreover have "w AND NOT (BIT_MASK 63) = 5" using w by (simp only: low_cause IRQ_S_TIMER_def)
  moreover have "w = (w AND NOT (BIT_MASK 63)) OR BIT_MASK 63" if "bit w 63"
    using that by (intro bit_eqI) (auto simp: bit_or_iff bit_and_iff bit_not_iff bit_BIT_MASK)
  ultimately have "w = 5 OR BIT_MASK 63" by metis
  then show "w = timer_cause" by (simp add: timer_cause_def BIT_MASK_def BITS_PER_LONG_def)
qed (simp add: timer_cause_def IRQ_S_TIMER_def)

text \<open>The three things \<open>trap\<close> can do; only the console changes otherwise.\<close>

definition timer_tick :: "'z io_state_scheme \<Rightarrow> 'z io_state_scheme" where
  "timer_tick s =
     (let s = clock_set_next_event s;
          s = s\<lparr>ticks := ticks s + 1\<rparr>
      in if ticks s mod TICK_NUM = 0
         then (let s = print_ticks s;
                   s = s\<lparr>tick_prints := tick_prints s + 1\<rparr>
               in if tick_prints s = 10 then sbi_shutdown s else s)
         else s)"

definition quiet :: "'z machine_scheme \<Rightarrow> 'z machine_scheme \<Rightarrow> bool" where
  "quiet s t \<longleftrightarrow> (\<exists>c. t = s\<lparr>console := c\<rparr>)"

lemma quiet_intros:
  "quiet s (say fmt args s)" "quiet s (print_trapframe tf s)"
  "(P \<Longrightarrow> quiet s a) \<Longrightarrow> (\<not> P \<Longrightarrow> quiet s b) \<Longrightarrow> quiet s (if P then a else b)"
  using print_trapframe_console [of tf s] by (auto simp: quiet_def say_def)

lemma interrupt_quiet:
  assumes "drop_bit 1 (push_bit 1 (tf_cause (tfs s tf))) \<noteq> IRQ_S_TIMER"
  shows "quiet s (interrupt_handler tf s)"
  unfolding interrupt_handler_def Let_def by (intro quiet_intros) (use assms in blast)+

lemma exception_quiet:
  assumes "\<not> skips (tf_cause (tfs s tf))"
  shows "quiet s (exception_handler tf s)"
  using assms unfolding skips_def exception_handler_def Let_def by (intro quiet_intros) blast+

lemma exception_skips:
  assumes "skips (tf_cause (tfs s tf))"
  shows "\<exists>c. exception_handler tf s = skip_instruction tf (s\<lparr>console := c\<rparr>)"
proof -
  let ?cause = "tf_cause (tfs s tf)"
  have ne: "?cause \<noteq> CAUSE_MISALIGNED_FETCH" "?cause \<noteq> CAUSE_FETCH_ACCESS"
    using assms by (auto simp: skips_def CAUSE_ILLEGAL_INSTRUCTION_def CAUSE_BREAKPOINT_def
        CAUSE_MISALIGNED_FETCH_def CAUSE_FETCH_ACCESS_def)
  show ?thesis
  proof (cases "?cause = CAUSE_ILLEGAL_INSTRUCTION")
    case True
    have "exception_handler tf s =
        skip_instruction tf (say ''Illegal instruction caught at 0x%08x\<newline>'' [CNum (tf_epc (tfs s tf))] s)"
      unfolding exception_handler_def Let_def if_not_P [OF ne(1)] if_not_P [OF ne(2)] if_P [OF True] ..
    then show ?thesis by (auto simp: say_def)
  next
    case False
    then have bp: "?cause = CAUSE_BREAKPOINT" using assms by (simp add: skips_def)
    have "exception_handler tf s =
        skip_instruction tf (say ''Breakpoint caught at 0x%08x\<newline>'' [CNum (tf_epc (tfs s tf))] s)"
      unfolding exception_handler_def Let_def if_not_P [OF ne(1)] if_not_P [OF ne(2)] if_not_P [OF False] if_P [OF bp] ..
    then show ?thesis by (auto simp: say_def)
  qed
qed

lemma trap_cases:
  obtains (timer) "tf_cause (tfs s tf) = timer_cause" "trap tf s = timer_tick s"
  | (skip) c where "skips (tf_cause (tfs s tf))" "trap tf s = skip_instruction tf (s\<lparr>console := c\<rparr>)"
  | (quiet) c where "tf_cause (tfs s tf) \<noteq> timer_cause" "\<not> skips (tf_cause (tfs s tf))"
      "trap tf s = s\<lparr>console := c\<rparr>"
proof (cases "sint (tf_cause (tfs s tf)) < 0")
  case True
  show ?thesis
  proof (cases "drop_bit 1 (push_bit 1 (tf_cause (tfs s tf))) = IRQ_S_TIMER")
    case timer: True
    then have "tf_cause (tfs s tf) = timer_cause" using True timer_cause_iff by blast
    moreover from this have "trap tf s = timer_tick s"
      by (simp add: trap_def interrupt_handler_def timer_tick_def timer_cause_def IRQ_U_SOFT_def IRQ_S_SOFT_def
          IRQ_H_SOFT_def IRQ_M_SOFT_def IRQ_U_TIMER_def IRQ_S_TIMER_def)
    ultimately show ?thesis by (rule that(1))
  next
    case False
    then obtain c where "interrupt_handler tf s = s\<lparr>console := c\<rparr>"
      using interrupt_quiet unfolding quiet_def by blast
    moreover have "tf_cause (tfs s tf) \<noteq> timer_cause" using False timer_cause_iff by blast
    moreover have "\<not> skips (tf_cause (tfs s tf))"
      using True by (auto simp: skips_def CAUSE_ILLEGAL_INSTRUCTION_def CAUSE_BREAKPOINT_def)
    ultimately show ?thesis using True that(3) by (simp add: trap_def)
  qed
next
  case False
  then have t: "trap tf s = exception_handler tf s" "tf_cause (tfs s tf) \<noteq> timer_cause"
    using timer_cause_iff by (simp add: trap_def, blast)
  show ?thesis
  proof (cases "skips (tf_cause (tfs s tf))")
    case True
    then obtain c where "exception_handler tf s = skip_instruction tf (s\<lparr>console := c\<rparr>)"
      using exception_skips by blast
    then show ?thesis using True that(2) t(1) by simp
  next
    case False
    then obtain c where "exception_handler tf s = s\<lparr>console := c\<rparr>"
      using exception_quiet unfolding quiet_def by blast
    then show ?thesis using False that(3) t by simp
  qed
qed

subsection \<open>The shutdown timer\<close>

definition shutdowns :: "'z io_state_scheme \<Rightarrow> nat" where
  "shutdowns s = length (filter (\<lambda>c. fst c = SBI_SHUTDOWN) (sbi_calls s))"

definition timer_events :: "'z io_state_scheme \<Rightarrow> nat" where
  "timer_events s = length (filter (\<lambda>c. fst c = SBI_SET_TIMER) (sbi_calls s))"

text \<open>Executions with traps, counting the timer interrupts: in between the kernel may do anything but
  touch the variables of the handler, shut down or set the timer.\<close>

inductive trap_run :: "'z io_state_scheme \<Rightarrow> nat \<Rightarrow> 'z io_state_scheme \<Rightarrow> bool" for s where
  run_start: "trap_run s 0 s"
| run_work: "trap_run s n t \<Longrightarrow> ticks u = ticks t \<Longrightarrow> tick_prints u = tick_prints t \<Longrightarrow>
    shutdowns u = shutdowns t \<Longrightarrow> timer_events u = timer_events t \<Longrightarrow> trap_run s n u"
| run_trap: "trap_run s n t \<Longrightarrow> trap_run s (if tf_cause (tfs t tf) = timer_cause then Suc n else n) (trap tf t)"

lemma timer_tick_effect:
  "ticks (timer_tick s) = ticks s + 1"
  "timer_events (timer_tick s) = Suc (timer_events s)"
  "tick_prints (timer_tick s) = (if (ticks s + 1) mod 100 = 0 then tick_prints s + 1 else tick_prints s)"
  "shutdowns (timer_tick s) = shutdowns s + (if (ticks s + 1) mod 100 = 0 \<and> tick_prints s + 1 = 10 then 1 else 0)"
  by (simp_all add: timer_tick_def clock_set_next_event_def sbi_set_timer_def sbi_shutdown_def SBI_CALL_0_def
      SBI_CALL_1_def print_ticks_def say_def TICK_NUM_def timer_events_def shutdowns_def SBI_SET_TIMER_def
      SBI_SHUTDOWN_def Let_def)

lemma trap_no_tick:
  assumes "tf_cause (tfs s tf) \<noteq> timer_cause"
  shows "ticks (trap tf s) = ticks s" "tick_prints (trap tf s) = tick_prints s"
    "sbi_calls (trap tf s) = sbi_calls s"
  using assms by (cases rule: trap_cases [of s tf]; simp add: skip_instruction_def)+

text \<open>The tests of the tick counter and of the counter of prints, on the number of ticks.\<close>

lemma tick_words:
  assumes "Suc n < 2 ^ 64"
  shows "(of_nat n + 1 :: u64) mod 100 = 0 \<longleftrightarrow> Suc n mod 100 = 0"
    and "Suc n mod 100 = 0 \<and> of_nat (n div 100) + 1 = (10 :: u64) \<longleftrightarrow> Suc n = 1000"
    and "Suc n div 100 = (if Suc n mod 100 = 0 then Suc (n div 100) else n div 100)"
proof -
  have un: "unat (of_nat n + 1 :: u64) = Suc n" using unat_of_nat_u64 [of "Suc n"] assms by (simp add: add.commute)
  show "(of_nat n + 1 :: u64) mod 100 = 0 \<longleftrightarrow> Suc n mod 100 = 0"
    unfolding word_unat_eq_iff unat_mod un by simp
  show up: "Suc n div 100 = (if Suc n mod 100 = 0 then Suc (n div 100) else n div 100)"
    by (simp add: div_Suc)
  have "unat (of_nat (Suc (n div 100)) :: u64) = Suc (n div 100)" using assms by (intro unat_of_nat_u64) simp
  moreover have "unat (10 :: u64) = 10" by simp
  ultimately have ten: "of_nat (n div 100) + 1 = (10 :: u64) \<longleftrightarrow> Suc (n div 100) = 10"
    by (metis add.commute of_nat_Suc word_unat_eq_iff)
  show "Suc n mod 100 = 0 \<and> of_nat (n div 100) + 1 = (10 :: u64) \<longleftrightarrow> Suc n = 1000"
  proof (cases "Suc n mod 100 = 0")
    case True
    then have "Suc n = Suc (n div 100) * 100" using up div_mult_mod_eq [of "Suc n" 100] by simp
    moreover have "k * 100 = 1000 \<longleftrightarrow> k = 10" for k :: nat by auto
    ultimately have "Suc n = 1000 \<longleftrightarrow> Suc (n div 100) = 10" by (simp only:)
    then show ?thesis using True ten by blast
  qed auto
qed

text \<open>One timer interrupt, with the counters at \<open>n\<close> ticks.\<close>

lemma timer_tick_counts:
  assumes small: "Suc n < 2 ^ 64" and n: "ticks t = of_nat n" "tick_prints t = of_nat (n div 100)"
  shows "ticks (timer_tick t) = of_nat (Suc n)" "tick_prints (timer_tick t) = of_nat (Suc n div 100)"
    "shutdowns (timer_tick t) = shutdowns t + (if Suc n = 1000 then 1 else 0)"
    "timer_events (timer_tick t) = timer_events t + 1"
proof -
  note w = tick_words [OF small]
  note tick = timer_tick_effect [of t, unfolded n w(1,2)]
  show "ticks (timer_tick t) = of_nat (Suc n)" using tick(1) by (simp add: add.commute)
  show "tick_prints (timer_tick t) = of_nat (Suc n div 100)"
  proof (cases "Suc n mod 100 = 0")
    case True
    show ?thesis unfolding tick(3) w(3) if_P [OF True] of_nat_Suc by (rule add.commute)
  next
    case False
    show ?thesis unfolding tick(3) w(3) if_not_P [OF False] ..
  qed
  show "shutdowns (timer_tick t) = shutdowns t + (if Suc n = 1000 then 1 else 0)" unfolding tick(4) w(2) ..
  show "timer_events (timer_tick t) = timer_events t + 1" using tick(2) by simp
qed

lemma trap_run_count:
  assumes "trap_run s n t" and "ticks s = 0" and "tick_prints s = 0" and "n < 2 ^ 64"
  shows "ticks t = of_nat n \<and> tick_prints t = of_nat (n div 100) \<and>
    shutdowns t = shutdowns s + (if 1000 \<le> n then 1 else 0) \<and> timer_events t = timer_events s + n"
  using assms(1,4)
proof (induction rule: trap_run.induct)
  case run_start
  then show ?case using assms(2,3) by simp
next
  case (run_work n t u)
  then show ?case by simp
next
  case (run_trap n t tf)
  show ?case
  proof (cases "tf_cause (tfs t tf) = timer_cause")
    case True
    then have small: "Suc n < 2 ^ 64" using run_trap.prems by simp
    then have IH: "ticks t = of_nat n" "tick_prints t = of_nat (n div 100)"
      "shutdowns t = shutdowns s + (if 1000 \<le> n then 1 else 0)" "timer_events t = timer_events s + n"
      using run_trap.IH by simp_all
    have "trap tf t = timer_tick t" using True by (cases rule: trap_cases [of t tf]) (auto simp: skips_def
          CAUSE_ILLEGAL_INSTRUCTION_def CAUSE_BREAKPOINT_def timer_cause_def)
    then show ?thesis using True timer_tick_counts [OF small IH(1,2)] IH(3,4) by simp
  next
    case False
    then show ?thesis using run_trap trap_no_tick [OF False]
      by (simp add: shutdowns_def timer_events_def)
  qed
qed

text \<open>C19. From a state with the counters at zero, whatever traps are taken and whatever the kernel does in
  between: after \<open>n\<close> timer interrupts, \<open>ticks\<close> is \<open>n\<close>, the next event has been set \<open>n\<close> times, a message has
  been counted at every hundredth, and the machine has been told to shut down exactly once if \<open>n\<close> has
  reached 1000 and not before.\<close>

theorem timer_shutdown_at_1000:
  assumes "trap_run s n t" and "ticks s = 0" and "tick_prints s = 0" and "n < 2 ^ 64"
  shows "ticks t = of_nat n \<and> tick_prints t = of_nat (n div 100) \<and>
    shutdowns t = shutdowns s + (if 1000 \<le> n then 1 else 0) \<and> timer_events t = timer_events s + n"
  by (rule trap_run_count [OF assms])

lemma trap_run_timer:
  assumes "tf_cause (tfs s tf) = timer_cause"
  shows "trap_run s n ((trap tf ^^ n) s) \<and> tf_cause (tfs ((trap tf ^^ n) s) tf) = timer_cause"
proof (induction n)
  case 0
  show ?case using assms run_start by simp
next
  case (Suc n)
  let ?t = "(trap tf ^^ n) s"
  have "trap_run s (Suc n) (trap tf ?t)" using run_trap [of s n ?t tf] Suc by simp
  moreover have "tf_cause (tfs (trap tf ?t) tf) = tf_cause (tfs ?t tf)"
    by (cases rule: trap_cases [of ?t tf])
      (simp_all add: skip_instruction_def timer_tick_def clock_set_next_event_def sbi_set_timer_def
        sbi_shutdown_def SBI_CALL_0_def SBI_CALL_1_def print_ticks_def say_def Let_def)
  ultimately show ?case using Suc by simp
qed

lemma timer_shutdown_at_1000_witness:
  "\<exists>s :: io_state. ticks s = 0 \<and> shutdowns ((trap 0 ^^ 999) s) = 0 \<and> shutdowns ((trap 0 ^^ 1000) s) = 1"
proof -
  define s where "s = (typing (sconst 0))\<lparr>tfs := \<lambda>_. \<lparr>gpr = (\<lambda>_. 0), tf_status = 0, tf_epc = 0,
    tf_badvaddr = 0, tf_cause = timer_cause\<rparr>\<rparr>"
  have s: "tf_cause (tfs s 0) = timer_cause" "ticks s = 0" "tick_prints s = 0" "shutdowns s = 0"
    by (simp_all add: s_def typing_def kernel_state.defs shutdowns_def)
  from timer_shutdown_at_1000 [OF conjunct1 [OF trap_run_timer [OF s(1), of 999]] s(2,3)]
    timer_shutdown_at_1000 [OF conjunct1 [OF trap_run_timer [OF s(1), of 1000]] s(2,3)] s
  show ?thesis by (intro exI [of _ s]) simp
qed

subsection \<open>The interrupted code\<close>

lemma bit_with_bits: "bit (with_bits m b w) i \<longleftrightarrow> i < 64 \<and> (if bit m i then b else bit w i)"
  by (auto simp: with_bits_def bit_or_iff bit_and_iff bit_not_iff dest: bit_imp_le_length)

lemma status_masks:
  "SSTATUS_SIE = BIT_MASK 1" "SSTATUS_SPIE = BIT_MASK 5" "SSTATUS_SPP = BIT_MASK 8"
  by (simp_all add: SSTATUS_SIE_def SSTATUS_SPIE_def SSTATUS_SPP_def BIT_MASK_def BITS_PER_LONG_def)

lemma trap_keeps:
  "regs (trap tf s) = regs s" "sstatus (trap tf s) = sstatus s" "stvec (trap tf s) = stvec s"
  "tfs (trap tf s) = (tfs s)(tf := (tfs s tf)\<lparr>tf_epc :=
     if skips (tf_cause (tfs s tf)) then advance_pc (tf_epc (tfs s tf)) (bytes s) else tf_epc (tfs s tf)\<rparr>)"
proof -
  have notskip: "\<not> skips timer_cause"
    by (simp add: skips_def timer_cause_def CAUSE_ILLEGAL_INSTRUCTION_def CAUSE_BREAKPOINT_def)
  have "regs (timer_tick s) = regs s" "sstatus (timer_tick s) = sstatus s" "stvec (timer_tick s) = stvec s"
    "tfs (timer_tick s) = tfs s"
    by (simp_all add: timer_tick_def clock_set_next_event_def sbi_set_timer_def sbi_shutdown_def SBI_CALL_0_def
        SBI_CALL_1_def print_ticks_def say_def Let_def)
  then show "regs (trap tf s) = regs s" "sstatus (trap tf s) = sstatus s" "stvec (trap tf s) = stvec s"
    "tfs (trap tf s) = (tfs s)(tf := (tfs s tf)\<lparr>tf_epc :=
       if skips (tf_cause (tfs s tf)) then advance_pc (tf_epc (tfs s tf)) (bytes s) else tf_epc (tfs s tf)\<rparr>)"
    using notskip by (cases rule: trap_cases [of s tf]; simp add: skip_instruction_def)+
qed

text \<open>The registers are finitely many, so that what holds of each of them can be checked by evaluation.\<close>

instantiation greg :: enum
begin

definition "enum_greg = [G_zero, G_ra, G_sp, G_gp, G_tp, G_t0, G_t1, G_t2, G_s0, G_s1, G_a0, G_a1, G_a2, G_a3, G_a4,
  G_a5, G_a6, G_a7, G_s2, G_s3, G_s4, G_s5, G_s6, G_s7, G_s8, G_s9, G_s10, G_s11, G_t3, G_t4, G_t5, G_t6]"

definition "enum_all_greg P \<longleftrightarrow> list_all P (enum_class.enum :: greg list)"

definition "enum_ex_greg P \<longleftrightarrow> list_ex P (enum_class.enum :: greg list)"

instance
proof
  show univ: "(UNIV :: greg set) = set enum_class.enum"
    by (auto simp: enum_greg_def intro: greg.exhaust)
  show "distinct (enum_class.enum :: greg list)" by (simp add: enum_greg_def)
  fix P :: "greg \<Rightarrow> bool"
  show "enum_class.enum_all P \<longleftrightarrow> Ball UNIV P" "enum_class.enum_ex P \<longleftrightarrow> Bex UNIV P"
    unfolding univ by (simp_all add: enum_all_greg_def enum_ex_greg_def list_all_iff list_ex_iff)
qed

end

lemma frame_regs_iff: "r \<in> set frame_regs \<longleftrightarrow> r \<noteq> G_zero \<and> r \<noteq> G_sp"
proof -
  have "\<forall>r. r \<in> set frame_regs \<longleftrightarrow> r \<noteq> G_zero \<and> r \<noteq> G_sp" by code_simp
  then show ?thesis by blast
qed

lemma fold_store_reg:
  fixes s :: "'z trap_state_scheme"
  defines "a \<equiv> regs s G_sp"
  shows "fold store_reg rs s =
    s\<lparr>tfs := (tfs s)(a := (tfs s a)\<lparr>gpr := \<lambda>r. if r \<in> set rs then regs s r else gpr (tfs s a) r\<rparr>)\<rparr>"
  unfolding a_def
proof (induction rs arbitrary: s)
  case (Cons x rs)
  have "(\<lambda>r. if r \<in> set rs then regs s r else ((gpr (tfs s (regs s G_sp)))(x := regs s x)) r) =
      (\<lambda>r. if r \<in> set (x # rs) then regs s r else gpr (tfs s (regs s G_sp)) r)" by auto
  moreover have "regs (store_reg x s) = regs s" "tfs (store_reg x s) (regs s G_sp) =
      (tfs s (regs s G_sp))\<lparr>gpr := (gpr (tfs s (regs s G_sp)))(x := regs s x)\<rparr>"
    by (simp_all add: store_reg_def Let_def)
  ultimately have "fold store_reg (x # rs) s = (store_reg x s)\<lparr>tfs := (tfs (store_reg x s))(regs s G_sp :=
      (tfs s (regs s G_sp))\<lparr>gpr := \<lambda>r. if r \<in> set (x # rs) then regs s r else gpr (tfs s (regs s G_sp)) r\<rparr>)\<rparr>"
    by (simp add: Cons.IH fun_upd_def cong: if_cong)
  also have "\<dots> = s\<lparr>tfs := (tfs s)(regs s G_sp := (tfs s (regs s G_sp))
      \<lparr>gpr := \<lambda>r. if r \<in> set (x # rs) then regs s r else gpr (tfs s (regs s G_sp)) r\<rparr>)\<rparr>"
    by (simp add: store_reg_def Let_def)
  finally show ?case .
qed simp

lemma fold_load_reg:
  fixes s :: "'z trap_state_scheme"
  assumes "G_sp \<notin> set rs"
  shows "fold load_reg rs s =
    s\<lparr>regs := \<lambda>r. if r \<in> set rs then gpr (tfs s (regs s G_sp)) r else regs s r\<rparr>"
  using assms
proof (induction rs arbitrary: s)
  case (Cons x rs)
  have "(\<lambda>r. if r \<in> set rs then gpr (tfs s (regs s G_sp)) r else ((regs s)(x := gpr (tfs s (regs s G_sp)) x)) r) =
      (\<lambda>r. if r \<in> set (x # rs) then gpr (tfs s (regs s G_sp)) r else regs s r)" by auto
  moreover have "tfs (load_reg x s) = tfs s" "regs (load_reg x s) = (regs s)(x := gpr (tfs s (regs s G_sp)) x)"
    by (simp_all add: load_reg_def set_reg_def)
  ultimately have "fold load_reg (x # rs) s = (load_reg x s)
      \<lparr>regs := \<lambda>r. if r \<in> set (x # rs) then gpr (tfs s (regs s G_sp)) r else regs s r\<rparr>"
    using Cons.prems by (simp add: Cons.IH cong: if_cong)
  also have "\<dots> = s\<lparr>regs := \<lambda>r. if r \<in> set (x # rs) then gpr (tfs s (regs s G_sp)) r else regs s r\<rparr>"
    by (simp add: load_reg_def set_reg_def)
  finally show ?case .
qed simp

lemma RESTORE_ALL_eq:
  fixes s :: "'z trap_state_scheme"
  defines "tf \<equiv> tfs s (regs s G_sp)"
  shows "RESTORE_ALL s = s\<lparr>sstatus := tf_status tf, sepc := tf_epc tf,
    regs := \<lambda>r. if r = G_zero then regs s r else gpr tf r\<rparr>"
proof -
  have "G_sp \<notin> set frame_regs" by (simp add: frame_regs_iff)
  note fold_load = fold_load_reg [OF this]
  show ?thesis
    by (simp add: RESTORE_ALL_def Let_def fold_load load_reg_def set_reg_def frame_regs_iff tf_def)
      (auto simp: fun_eq_iff tf_def intro!: trap_state.equality)
qed

text \<open>The frame that \<open>SAVE_ALL\<close> builds below the stack pointer.\<close>

lemma SAVE_ALL_effect:
  fixes s :: "'z trap_state_scheme"
  defines "a \<equiv> regs s G_sp - sizeof_trapframe"
  shows "regs (SAVE_ALL s) G_sp = a" "sstatus (SAVE_ALL s) = sstatus s" "stvec (SAVE_ALL s) = stvec s"
    "bytes (SAVE_ALL s) = bytes s"
    "tfs (SAVE_ALL s) = (tfs s)(a := \<lparr>gpr = (regs s)(G_zero := gpr (tfs s a) G_zero), tf_status = sstatus s,
       tf_epc = sepc s, tf_badvaddr = stval s, tf_cause = scause s\<rparr>)"
proof -
  show "regs (SAVE_ALL s) G_sp = a" "sstatus (SAVE_ALL s) = sstatus s" "stvec (SAVE_ALL s) = stvec s"
    "bytes (SAVE_ALL s) = bytes s"
    by (simp_all add: SAVE_ALL_def fold_store_reg set_reg_def a_def Let_def)
  show "tfs (SAVE_ALL s) = (tfs s)(a := \<lparr>gpr = (regs s)(G_zero := gpr (tfs s a) G_zero), tf_status = sstatus s,
       tf_epc = sepc s, tf_badvaddr = stval s, tf_cause = scause s\<rparr>)"
    unfolding SAVE_ALL_def Let_def fold_store_reg
    by (simp add: set_reg_def frame_regs_iff a_def [symmetric], rule arg_cong [where f = "\<lambda>x. (tfs s)(a := x)"],
        rule trapframe.equality; simp add: fun_eq_iff set_reg_def a_def)
qed

text \<open>What returning through a frame does.\<close>

lemma trapret_effect:
  fixes s :: "'z trap_state_scheme"
  defines "tf \<equiv> tfs s (regs s G_sp)"
  shows "r \<noteq> G_zero \<Longrightarrow> regs (trapret s) r = gpr tf r" "pc (trapret s) = tf_epc tf"
    "s_mode (trapret s) \<longleftrightarrow> bit (tf_status tf) 8" "intr_on (trapret s) \<longleftrightarrow> bit (tf_status tf) 5"
    "stvec (trapret s) = stvec s" "tfs (trapret s) = tfs s"
proof -
  show "r \<noteq> G_zero \<Longrightarrow> regs (trapret s) r = gpr tf r" "pc (trapret s) = tf_epc tf"
    "s_mode (trapret s) \<longleftrightarrow> bit (tf_status tf) 8" "stvec (trapret s) = stvec s" "tfs (trapret s) = tfs s"
    by (simp_all add: trapret_def RESTORE_ALL_eq sret_def tf_def Let_def status_masks and_BIT_MASK)
  have "sstatus (trapret s) = with_bits SSTATUS_SIE (tf_status tf AND SSTATUS_SPIE \<noteq> 0)
      (with_bits SSTATUS_SPIE True (with_bits SSTATUS_SPP False (tf_status tf)))"
    by (simp add: trapret_def RESTORE_ALL_eq sret_def tf_def Let_def)
  then show "intr_on (trapret s) \<longleftrightarrow> bit (tf_status tf) 5"
    by (simp add: intr_on_iff bit_with_bits status_masks and_BIT_MASK bit_BIT_MASK)
qed

lemma alltraps_effect:
  fixes s :: "'z trap_state_scheme" and cause tval :: u64
  defines "a \<equiv> regs s G_sp - sizeof_trapframe"
  assumes sp: "after G_sp = a"
  defines "t \<equiv> alltraps after (take_trap cause tval s)"
  shows "(\<forall>r. r \<noteq> G_zero \<longrightarrow> regs t r = regs s r) \<and> s_mode t = s_mode s \<and> intr_on t = intr_on s \<and>
    stvec t = stvec s \<and> pc t = (if skips cause then advance_pc (pc s) (bytes s) else pc s) \<and>
    (\<forall>b. b \<noteq> a \<longrightarrow> tfs t b = tfs s b)"
proof -
  define u where "u = take_trap cause tval s"
  have u: "regs u = regs s" "sepc u = pc s" "scause u = cause" "tfs u = tfs s" "stvec u = stvec s" "bytes u = bytes s"
    "bit (sstatus u) 5 \<longleftrightarrow> intr_on s" "bit (sstatus u) 8 \<longleftrightarrow> s_mode s"
    by (simp_all add: u_def take_trap_def bit_with_bits status_masks bit_BIT_MASK)
  define v where "v = set_reg G_a0 (regs (SAVE_ALL u) G_sp) (SAVE_ALL u)"
  have v: "regs v G_a0 = a" "tfs v = tfs (SAVE_ALL u)" "bytes v = bytes u" "stvec v = stvec u"
    by (simp_all add: v_def set_reg_def SAVE_ALL_effect a_def u(1))
  define w where "w = (trap a v)\<lparr>regs := after\<rparr>"
  have t: "t = trapret w"
    by (simp add: t_def alltraps_def u_def [symmetric] v_def [symmetric] w_def v(1) Let_def)
  have frame: "tfs (SAVE_ALL u) a = \<lparr>gpr = (regs s)(G_zero := gpr (tfs s a) G_zero), tf_status = sstatus u,
       tf_epc = pc s, tf_badvaddr = stval u, tf_cause = cause\<rparr>"
    "b \<noteq> a \<Longrightarrow> tfs (SAVE_ALL u) b = tfs s b" for b
    by (simp_all add: SAVE_ALL_effect u a_def)
  have "tfs w (regs w G_sp) = (tfs (SAVE_ALL u) a)\<lparr>tf_epc := if skips cause then advance_pc (pc s) (bytes s) else pc s\<rparr>"
    by (simp add: w_def sp trap_keeps v u frame(1))
  moreover have "b \<noteq> a \<Longrightarrow> tfs w b = tfs s b" for b by (simp add: w_def trap_keeps v frame(2))
  moreover have "stvec w = stvec s" by (simp add: w_def trap_keeps v u)
  ultimately show ?thesis unfolding t by (simp add: trapret_effect frame(1) u)
qed

text \<open>C16. A trap, of any cause, is not seen by the code it interrupts: when \<open>__alltraps\<close> has saved, handled
  and returned, every register, the privilege mode, the interrupt enable and the program counter are those
  of before, but that the instruction of an illegal instruction or a breakpoint has been stepped over; no
  trap frame but the one below the stack pointer has changed. The compiled handler is only asked to keep
  the stack pointer.\<close>

theorem trap_transparent:
  fixes s :: "'z trap_state_scheme" and cause tval :: u64
  assumes "after G_sp = regs s G_sp - sizeof_trapframe"
  defines "t \<equiv> alltraps after (take_trap cause tval s)"
  shows "(\<forall>r. r \<noteq> G_zero \<longrightarrow> regs t r = regs s r) \<and> s_mode t = s_mode s \<and> intr_on t = intr_on s \<and>
    stvec t = stvec s \<and> pc t = (if skips cause then advance_pc (pc s) (bytes s) else pc s) \<and>
    (\<forall>b. b \<noteq> regs s G_sp - sizeof_trapframe \<longrightarrow> tfs t b = tfs s b)"
  unfolding t_def by (rule alltraps_effect [where after = after, OF assms(1)])

definition running :: trap_state where
  "running = io_state.extend (typing (sconst 0)) \<lparr>regs = (\<lambda>r. if r = G_sp then 8192 else 7), pc = 4096, sepc = 0,
     stval = 0, scause = 0, s_mode = True\<rparr>"

lemma trap_transparent_witness:
  "pc (alltraps (\<lambda>_. 7904) (take_trap CAUSE_BREAKPOINT 0 running)) = 4098 \<and>
   regs (alltraps (\<lambda>_. 7904) (take_trap CAUSE_BREAKPOINT 0 running)) G_s5 = 7"
proof -
  have r: "regs running = (\<lambda>r. if r = G_sp then 8192 else 7)" "pc running = 4096"
    "bytes running 4096 = 0" "bytes running 4097 = 0"
    by (simp_all add: running_def typing_def io_state.defs kernel_state.defs three_procs_def)
  have "(\<lambda>_. 7904 :: u64) G_sp = regs running G_sp - sizeof_trapframe" by (simp add: r sizeof_trapframe_def)
  from trap_transparent [OF this, of CAUSE_BREAKPOINT 0] show ?thesis
    by (simp add: r skips_def advance_pc_def)
qed

subsection \<open>The first instructions of a thread\<close>

lemma kernel_thread_status:
  "bit ((w OR SSTATUS_SPP OR SSTATUS_SPIE) AND NOT SSTATUS_SIE) 8"
  "bit ((w OR SSTATUS_SPP OR SSTATUS_SPIE) AND NOT SSTATUS_SIE) 5"
  by (simp_all add: status_masks bit_or_iff bit_and_iff bit_not_iff bit_BIT_MASK)

lemma forkret_effect:
  fixes u :: "'z trap_state_scheme"
  defines "tf \<equiv> tfs u (proc_tf (procs u (current u)))"
  shows "r \<noteq> G_zero \<Longrightarrow> regs (forkret u) r = gpr tf r" "pc (forkret u) = tf_epc tf"
    "s_mode (forkret u) \<longleftrightarrow> bit (tf_status tf) 8" "intr_on (forkret u) \<longleftrightarrow> bit (tf_status tf) 5"
  by (simp_all add: forkret_def forkrets_def trapret_effect set_reg_def tf_def)

text \<open>C18. A thread that \<open>kernel_thread\<close> creates while no runnable process stands after the current one in the
  list, as when the idle process calls it in \<open>proc_init\<close>, runs its function next: the next
  \<open>schedule\<close> switches to it at \<open>forkret\<close>, which goes through the trap return to \<open>kernel_thread_entry\<close> in
  supervisor mode with interrupts on, and from there to \<open>fn\<close> with \<open>arg\<close> as its argument on its own stack;
  should \<open>fn\<close> return, the kernel panics in \<open>do_exit\<close>. Of the idle process this holds whatever
  is in the list.\<close>

theorem kernel_thread_runs_function:
  fixes s :: "'z trap_state_scheme"
  assumes "fork_inv s al ps" and "proc_mm (procs s (current s)) = 0" and "sched_inv s ps"
    and "idleproc s \<in> block_ptr ` al" and "current s = idleproc s \<or> none_after s ps"
    and "kernel_thread fr entry fn arg cf s = ret (pd, t)" and "0 < pd"
  shows "\<exists>r u. schedule t = ret (r, u) \<and> pid (procs t (current u)) = pd \<and> pc (switch_ret u) = fr \<and>
    (let v = forkret (switch_ret u); w = kernel_thread_entry nxt v in
       pc v = entry \<and> s_mode v \<and> intr_on v \<and> pc w = fn \<and> regs w G_a0 = arg \<and> regs w G_ra = nxt \<and>
       regs w G_sp = proc_tf (procs u (current u)) \<and>
       (\<forall>w' :: 'z trap_state_scheme. kernel_thread_exit w' = panic ''process exit!!.''))"
proof -
  let ?tf = "\<lparr>gpr = (\<lambda>_. 0)(G_s0 := fn, G_s1 := arg),
      tf_status = (sstatus s OR SSTATUS_SPP OR SSTATUS_SPIE) AND NOT SSTATUS_SIE,
      tf_epc = entry, tf_badvaddr = 0, tf_cause = 0\<rparr>"
  have run: "do_fork fr (cf OR CLONE_VM) 0 ?tf s = ret (pd, t)" using assms(6) by (simp add: kernel_thread_def)
  have after: "none_after s ps" using assms(3,5) none_after_idle [of s ps] by (auto simp: sched_inv_def)
  obtain r u f where u: "schedule t = ret (r, u)" "pid (procs t (current u)) = pd"
      "cpu u = zero_context\<lparr>c_ra := fr, c_sp := stack_tf f\<rparr>" "tfs t (stack_tf f) = forked_tf ?tf 0 f"
      "tfs u = tfs t" "proc_tf (procs u (current u)) = stack_tf f"
    by (rule forked_thread_spec [OF assms(1-4) after run assms(7)]) blast
  define x where "x = switch_ret u"
  have x: "procs x = procs u" "current x = current u" "tfs x = tfs t" "pc x = fr"
    by (simp_all add: x_def switch_ret_def Let_def u(3,5))
  define v where "v = forkret x"
  define frame where "frame = forked_tf ?tf 0 f"
  have frame: "gpr frame G_s0 = fn" "gpr frame G_s1 = arg" "gpr frame G_sp = stack_tf f" "tf_epc frame = entry"
    "bit (tf_status frame) 8" "bit (tf_status frame) 5"
    by (simp_all add: frame_def forked_tf_def) (simp_all only: kernel_thread_status)
  have at: "tfs x (proc_tf (procs x (current x))) = frame" unfolding x u(4,6) frame_def ..
  have v: "pc v = entry" "s_mode v" "intr_on v" "regs v G_s0 = fn" "regs v G_s1 = arg" "regs v G_sp = stack_tf f"
    unfolding v_def by (simp_all add: forkret_effect at frame)
  have w: "pc (kernel_thread_entry nxt v) = fn" "regs (kernel_thread_entry nxt v) G_a0 = arg"
    "regs (kernel_thread_entry nxt v) G_ra = nxt" "regs (kernel_thread_entry nxt v) G_sp = stack_tf f"
    using v(4-6) by (simp_all add: kernel_thread_entry_def set_reg_def Let_def)
  show ?thesis using u(1,2) x(4) v(1-3) w
    unfolding Let_def v_def x_def u(6) [symmetric] kernel_thread_exit_def do_exit_def by blast
qed

lemma fork_inv_extend:
  assumes "fork_inv s al ps"
  shows "fork_inv (kernel_state.extend s x) al ps"
proof -
  have "heap_inv (kernel_state.extend s x) al"
    by (rule heap_inv_cong [of s al]) (use assms in \<open>simp_all add: fork_inv_def kernel_state.defs\<close>)
  then show ?thesis
    using assms by (simp add: fork_inv_def pid_inv_def hash_inv_def hash_bucket_def kernel_state.defs)
qed

lemma kernel_thread_runs_function_witness:
  "\<exists>(s :: trap_state) pd t r u. kernel_thread 1 2 3 4 0 s = ret (pd, t) \<and> schedule t = ret (r, u) \<and>
     pc (kernel_thread_entry 6 (forkret (switch_ret u))) = 3 \<and>
     regs (kernel_thread_entry 6 (forkret (switch_ret u))) G_a0 = 4"
proof -
  obtain k :: kernel_state and al where k: "fork_inv k al []" "proc_mm (procs k (current k)) = 0"
      "current k = idleproc k" "free_room 3 k"
    by (rule idle_machine) blast
  define s :: trap_state where "s = kernel_state.extend k (kernel_state.more running)"
  have s: "fork_inv s al []" "proc_mm (procs s (current s)) = 0" "current s = idleproc s" "idleproc s \<notin> set []"
    "free_room 3 s"
    using k fork_inv_extend [OF k(1)] free_room_cong [of s k 3] by (simp_all add: s_def kernel_state.defs)
  let ?r = "kernel_thread 1 2 3 4 0 s"
  obtain tf where tf: "?r = do_fork 1 (0 OR CLONE_VM) 0 tf s" by (simp add: kernel_thread_def)
  have "fork_done 1 0 tf s ?r al []"
    using do_fork_outcome [OF s(1,2), of 1 "0 OR CLONE_VM" 0 tf] s(5)
    unfolding tf by (auto simp: fork_full_def fork_no_mem_def)
  then obtain pd t where r: "?r = ret (pd, t)" "0 < pd" by (fastforce simp: fork_done_def Let_def)
  have inv: "sched_inv s []" using fork_invD(2) [OF s(1)] s(3) by (simp add: sched_inv_def pid_inv_def)
  have idle: "idleproc s \<in> block_ptr ` al" using fork_invD(4) [OF s(1)] s(3) by simp
  from kernel_thread_runs_function [OF s(1,2) inv idle disjI1 [OF s(3)] r, of 6] r(1) show ?thesis unfolding Let_def by blast
qed

subsection \<open>The monitor\<close>

lemma run_bind_Some:
  "run_bind m f = Some y \<longleftrightarrow> (\<exists>e. m = Some (Inl e) \<and> y = Inl e) \<or> (\<exists>a. m = Some (Inr a) \<and> f a = Some y)"
  by (cases m) (auto simp: run_bind_def split: sum.splits)

lemma loop_run_Some: "loop_run m = Some y \<longleftrightarrow> (\<exists>a. m = Some a \<and> y = Inr a)"
  by (auto simp: loop_run_def)

lemma run_func_outcome: "run_func a f u = panic ''Not Implemented!'' \<or> (\<exists>t. run_func a f u = ret (0, t))"
  by (cases f) (auto simp: run_func_def print_stackframe_def panic_def ret_def run_bind_def)

text \<open>What a command makes of a line that \<open>parse\<close> splits into \<open>argv\<close>.\<close>

lemma runcmd_outcome:
  assumes "runcmd a buf s = Some y"
  obtains argv u where "parse a buf s = Some (argv, u)"
    "if MAXARGS < length argv then Some y = argv_overrun
     else Some y = panic ''Not Implemented!'' \<or> (\<exists>t. Some y = ret (0, t))"
proof -
  obtain argv u where p: "parse a buf s = Some (argv, u)"
    using assms unfolding runcmd_def by (auto simp: run_bind_Some loop_run_Some)
  define act where "act arg f = (case f of None \<Rightarrow>
      ret (0, say (''Unknown command '' @ [CHR 0x27] @ ''%s'' @ [CHR 0x27] @ ''\<newline>'') [CNum arg] u)
    | Some f \<Rightarrow> run_func a f u)" for arg f
  have act: "act arg f = panic ''Not Implemented!'' \<or> (\<exists>t. act arg f = ret (0, t))" for arg f
    unfolding act_def by (cases f) (use run_func_outcome in auto)
  have run: "runcmd a buf s = (if MAXARGS < length argv then argv_overrun else case argv of [] \<Rightarrow> ret (0, u)
     | arg # _ \<Rightarrow> run_bind (loop_run (find_command (commands a) (bytes u) arg)) (act arg))"
    unfolding runcmd_def p act_def by (simp add: run_bind_def loop_run_def)
  show ?thesis
  proof (cases "MAXARGS < length argv")
    case True
    then show ?thesis using that [OF p] run assms by simp
  next
    case False
    show ?thesis
    proof (cases argv)
      case Nil
      then show ?thesis using that [OF p] run assms False by auto
    next
      case (Cons arg rest)
      then obtain f where "act arg f = Some y"
        using assms False unfolding run by (auto simp: run_bind_Some loop_run_Some)
      then have "Some y = panic ''Not Implemented!'' \<or> (\<exists>t. Some y = ret (0, t))"
        by (metis act)
      then show ?thesis using that [OF p] False by simp
    qed
  qed
qed

lemma runcmd_overrun:
  "runcmd a buf s = argv_overrun \<longleftrightarrow> (\<exists>argv u. parse a buf s = Some (argv, u) \<and> MAXARGS < length argv)"
proof
  assume "runcmd a buf s = argv_overrun"
  then show "\<exists>argv u. parse a buf s = Some (argv, u) \<and> MAXARGS < length argv"
    by (auto simp: argv_overrun_def panic_def ret_def split: if_splits elim!: runcmd_outcome [of a buf s "Inl ''argv overrun''"])
next
  assume "\<exists>argv u. parse a buf s = Some (argv, u) \<and> MAXARGS < length argv"
  then show "runcmd a buf s = argv_overrun" by (auto simp: runcmd_def run_bind_def loop_run_def)
qed

lemma runcmd_continues: "runcmd a buf s = Some (Inr q) \<Longrightarrow> fst q = 0"
  by (erule runcmd_outcome) (auto simp: argv_overrun_def panic_def ret_def split: if_splits)

lemma runcmd_stops: "runcmd a buf s = Some (Inl e) \<Longrightarrow> e = ''Not Implemented!'' \<or> e = ''argv overrun''"
  by (erule runcmd_outcome) (auto simp: argv_overrun_def panic_def ret_def split: if_splits)

lemma monitor_loop_outcome: "monitor_loop a s = Some y \<Longrightarrow> y = Inl ''Not Implemented!'' \<or> y = Inl ''argv overrun''"
proof (rule monitor_loop.raw_induct [where P = "\<lambda>a s y. y = Inl ''Not Implemented!'' \<or> y = Inl ''argv overrun''"])
  fix loop :: "mon_addrs \<Rightarrow> 'a io_state_scheme \<Rightarrow> 'a io_state_scheme run" and a s y
  assume IH: "\<And>a s y. loop a s = Some y \<Longrightarrow> y = Inl ''Not Implemented!'' \<or> y = Inl ''argv overrun''"
    and run: "run_bind (loop_run (readline (Some ''K> '') s)) (\<lambda>r.
       if fst r \<noteq> 0
       then run_bind (runcmd a (fst r) (snd r)) (\<lambda>q.
              if fst q < 0 then ret (snd q) else loop a (snd q))
       else loop a (snd r)) = Some y"
  from run show "y = Inl ''Not Implemented!'' \<or> y = Inl ''argv overrun''"
    by (auto simp: run_bind_Some loop_run_Some split: if_splits dest: IH runcmd_continues runcmd_stops)
qed

text \<open>C25. Once the call of \<open>sbi_shutdown\<close> that it starts with has come back, the monitor never returns to its
  caller: no command asks it to leave, so it reads commands for ever, or until the command \<open>backtrace\<close>, which
  is not implemented, panics, or until a line has more words than the \<open>MAXARGS\<close> that the array \<open>argv\<close> of
  \<open>runcmd\<close> has room for. On such a line, and on no other, \<open>runcmd\<close> overruns the array, where the model stops.\<close>

theorem kmonitor_never_returns:
  "(kmonitor a tf s = None \<or> kmonitor a tf s = panic ''Not Implemented!'' \<or> kmonitor a tf s = argv_overrun) \<and>
   (\<forall>buf u. runcmd a buf u = argv_overrun \<longleftrightarrow> (\<exists>argv v. parse a buf u = Some (argv, v) \<and> MAXARGS < length argv))"
proof -
  obtain u where "kmonitor a tf s = monitor_loop a u" unfolding kmonitor_def Let_def by blast
  then have "kmonitor a tf s = None \<or> kmonitor a tf s = panic ''Not Implemented!'' \<or> kmonitor a tf s = argv_overrun"
    using monitor_loop_outcome by (cases "monitor_loop a u") (auto simp: panic_def argv_overrun_def)
  then show ?thesis using runcmd_overrun by blast
qed

end
