(* ===== verification/Dtb.thy ===== *)
theory Dtb
  imports Devices
begin

unbundle bit_operations_syntax

text \<open>
  kern/driver/dtb.c: the memory size from the device tree blob that the firmware leaves in memory. Words
  are loaded in little-endian order; the blob is big-endian. The two literals of the search lie at the
  addresses of \<open>dtb_lits\<close>.
\<close>

record dtb_lits =
  l_memory :: u64
  l_reg :: u64

definition get32 :: "mem \<Rightarrow> u64 \<Rightarrow> u32" where
  "get32 m a = ucast (m a) OR push_bit 8 (ucast (m (a + 1))) OR push_bit 16 (ucast (m (a + 2))) OR
     push_bit 24 (ucast (m (a + 3)))"

definition get64 :: "mem \<Rightarrow> u64 \<Rightarrow> u64" where
  "get64 m a = ucast (get32 m a) OR push_bit 32 (ucast (get32 m (a + 4)))"

text \<open>The fields of \<open>struct fdt_header\<close> that are read.\<close>

definition fdt_magic :: "mem \<Rightarrow> u64 \<Rightarrow> u32" where "fdt_magic m h = get32 m h"
definition fdt_off_dt_struct :: "mem \<Rightarrow> u64 \<Rightarrow> u32" where "fdt_off_dt_struct m h = get32 m (h + 8)"
definition fdt_off_dt_strings :: "mem \<Rightarrow> u64 \<Rightarrow> u32" where "fdt_off_dt_strings m h = get32 m (h + 12)"

definition FDT_BEGIN_NODE :: u32 where "FDT_BEGIN_NODE = 1"
definition FDT_END_NODE :: u32 where "FDT_END_NODE = 2"
definition FDT_PROP :: u32 where "FDT_PROP = 3"
definition FDT_NOP :: u32 where "FDT_NOP = 4"
definition FDT_END :: u32 where "FDT_END = 9"

definition fdt32_to_cpu :: "u32 \<Rightarrow> u32" where
  "fdt32_to_cpu x =
     push_bit 24 (x AND 0xff) OR push_bit 16 (drop_bit 8 x AND 0xff) OR
     push_bit 8 (drop_bit 16 x AND 0xff) OR (drop_bit 24 x AND 0xff)"

definition fdt64_to_cpu :: "u64 \<Rightarrow> u64" where
  "fdt64_to_cpu x =
     push_bit 32 (ucast (fdt32_to_cpu (ucast (x AND 0xffffffff)))) OR
     ucast (fdt32_to_cpu (ucast (drop_bit 32 x)))"

text \<open>The loop of \<open>extract_memory_info\<close> at \<open>p\<close>; the result is \<open>None\<close> for -1.\<close>

partial_function (option) extract_loop ::
  "dtb_lits \<Rightarrow> mem \<Rightarrow> u64 \<Rightarrow> u64 \<Rightarrow> bool \<Rightarrow> (u64 \<times> u64) option option" where
  "extract_loop l m strings_base p in_memory_node =
     (let token = fdt32_to_cpu (get32 m p);
          p = p + 4
      in if token = FDT_BEGIN_NODE then
           Option.bind (strlen m p) (\<lambda>len.
             let name_len = (ucast len :: u32) in
             extract_loop l m strings_base ((p + scast name_len + 4) AND NOT 3)
               (in_memory_node \<or> strncmp m p (l_memory l) 6 = 0))
         else if token = FDT_END_NODE then extract_loop l m strings_base p False
         else if token = FDT_PROP then
           (let prop_len = fdt32_to_cpu (get32 m p);
                prop_nameoff = fdt32_to_cpu (get32 m (p + 4));
                prop_name = strings_base + ucast prop_nameoff;
                p = p + 8
            in Option.bind (if in_memory_node then map_option (\<lambda>r. r = 0) (strcmp m prop_name (l_reg l)) else Some False)
                 (\<lambda>reg. if reg \<and> 16 \<le> prop_len
                   then Some (Some (fdt64_to_cpu (get64 m p), fdt64_to_cpu (get64 m (p + 8))))
                   else extract_loop l m strings_base ((p + ucast prop_len + 3) AND NOT 3) in_memory_node))
         else if token = FDT_NOP then extract_loop l m strings_base p in_memory_node
         else Some None)"

declare extract_loop.simps [code]

definition extract_memory_info :: "dtb_lits \<Rightarrow> mem \<Rightarrow> u64 \<Rightarrow> (u64 \<times> u64) option option" where
  "extract_memory_info l m dtb_vaddr =
     (let struct_offset = fdt32_to_cpu (fdt_off_dt_struct m dtb_vaddr);
          strings_offset = fdt32_to_cpu (fdt_off_dt_strings m dtb_vaddr)
      in extract_loop l m (dtb_vaddr + ucast strings_offset) (dtb_vaddr + ucast struct_offset) False)"

definition dtb_init :: "dtb_lits \<Rightarrow> 'z io_state_scheme \<Rightarrow> 'z io_state_scheme option" where
  "dtb_init l s =
     (let s = say ''DTB Init\<newline>'' [] s;
          s = say ''HartID: %ld\<newline>'' [CNum (boot_hartid s)] s;
          s = say ''DTB Address: 0x%lx\<newline>'' [CNum (boot_dtb s)] s
      in if boot_dtb s = 0 then Some (say ''Error: DTB address is null\<newline>'' [] s)
         else
           let dtb_vaddr = boot_dtb s + PHYSICAL_MEMORY_OFFSET;
               magic = fdt32_to_cpu (fdt_magic (bytes s) dtb_vaddr)
           in if magic \<noteq> 0xd00dfeed
              then Some (say ''Error: Invalid DTB magic number: 0x%x\<newline>'' [CNum (ucast magic)] s)
              else Option.bind (extract_memory_info l (bytes s) dtb_vaddr) (\<lambda>r.
                let s = (case r of
                      Some (mem_base, mem_size) \<Rightarrow>
                        (let s = say ''Physical Memory from DTB:\<newline>'' [] s;
                             s = say ''  Base: 0x%016lx\<newline>'' [CNum mem_base] s;
                             s = say ''  Size: 0x%016lx (%ld MB)\<newline>'' [CNum mem_size, CNum (mem_size div (1024 * 1024))] s;
                             s = say ''  End:  0x%016lx\<newline>'' [CNum (mem_base + mem_size - 1)] s
                         in s\<lparr>memory_base := mem_base, memory_size := mem_size\<rparr>)
                    | None \<Rightarrow> say ''Warning: Could not extract memory info from DTB\<newline>'' [] s)
                in Some (say ''DTB init completed\<newline>'' [] s)))"

definition get_memory_base :: "'z io_state_scheme \<Rightarrow> u64" where
  "get_memory_base s = memory_base s"

definition get_memory_size :: "'z io_state_scheme \<Rightarrow> u64" where
  "get_memory_size s = memory_size s"

subsection \<open>Big-endian words\<close>

definition be32 :: "u8 \<Rightarrow> u8 \<Rightarrow> u8 \<Rightarrow> u8 \<Rightarrow> u32" where
  "be32 a b c d = push_bit 24 (ucast a) OR push_bit 16 (ucast b) OR push_bit 8 (ucast c) OR ucast d"

lemma bit_byte: "bit (w :: u8) n \<Longrightarrow> n < 8"
  using bit_imp_le_length [of w n] by simp

lemma bit_u32: "bit (w :: u32) n \<Longrightarrow> n < 32"
  using bit_imp_le_length [of w n] by simp

lemma and_0xff: "(x :: u32) AND 0xff = take_bit 8 x"
proof -
  have "(0xff :: u32) = mask 8" by (simp add: mask_eq_exp_minus_1)
  then show ?thesis by (simp only: take_bit_eq_mask)
qed

lemma byte_at: "8 \<le> n \<Longrightarrow> \<not> bit (w :: u8) n"
  using bit_byte [of w n] by linarith

lemma byte_width: "(n < 32 \<and> bit w n) = bit (w :: u8) n"
  using bit_byte [of w n] by auto

lemma bit_get32:
  "bit (get32 m a) n \<longleftrightarrow> (if n < 8 then bit (m a) n else if n < 16 then bit (m (a + 1)) (n - 8)
     else if n < 24 then bit (m (a + 2)) (n - 16) else n < 32 \<and> bit (m (a + 3)) (n - 24))"
  by (simp add: get32_def bit_or_iff bit_push_bit_iff bit_ucast_iff byte_at byte_width)

lemma bit_be32:
  "bit (be32 a b c d) n \<longleftrightarrow> (if n < 8 then bit d n else if n < 16 then bit c (n - 8)
     else if n < 24 then bit b (n - 16) else n < 32 \<and> bit a (n - 24))"
  by (simp add: be32_def bit_or_iff bit_push_bit_iff bit_ucast_iff byte_at byte_width)

lemma byte_of_word:
  assumes "n < (32 :: nat)"
  obtains j where "j < 8" "n = j" | j where "j < 8" "n = 8 + j" | j where "j < 8" "n = 16 + j"
  | j where "j < 8" "n = 24 + j"
  using that(1) [of n] that(2) [of "n - 8"] that(3) [of "n - 16"] that(4) [of "n - 24"] assms
  by (cases "n < 8"; cases "n < 16"; cases "n < 24") simp_all

lemma bit_fdt32:
  assumes "j < 8"
  shows "bit (fdt32_to_cpu x) j = bit x (24 + j)" "bit (fdt32_to_cpu x) (8 + j) = bit x (16 + j)"
    "bit (fdt32_to_cpu x) (16 + j) = bit x (8 + j)" "bit (fdt32_to_cpu x) (24 + j) = bit x j"
  unfolding fdt32_to_cpu_def and_0xff using assms
  by (simp_all add: bit_or_iff bit_push_bit_iff bit_drop_bit_eq bit_take_bit_iff)

lemma fdt32_get32: "fdt32_to_cpu (get32 m a) = be32 (m a) (m (a + 1)) (m (a + 2)) (m (a + 3))"
proof (rule bit_word_eqI)
  fix n assume "n < LENGTH(32)"
  then have n: "n < 32" by simp
  then show "bit (fdt32_to_cpu (get32 m a)) n \<longleftrightarrow> bit (be32 (m a) (m (a + 1)) (m (a + 2)) (m (a + 3))) n"
    by (cases rule: byte_of_word [OF n]) (simp_all add: bit_fdt32 bit_get32 bit_be32)
qed

end
