(* ===== verification/DtbSpec.thy ===== *)
theory DtbSpec
  imports Dtb MonitorSpec
begin

unbundle bit_operations_syntax

text \<open>
  A device tree blob is written down as a list of items; in memory it is the bytes of \<open>tree_bytes\<close>. On
  such a blob \<open>extract_memory_info\<close> returns, and finds the first \<open>reg\<close> property of at least 16 bytes of a
  memory node, as \<open>memory_reg\<close> does on the list.
\<close>

subsection \<open>Blobs\<close>

datatype fdt_item = FBegin "u8 list" | FEnd | FProp u32 "u8 list" | FNop

definition be32_bytes :: "u32 \<Rightarrow> u8 list" where
  "be32_bytes w = [ucast (drop_bit 24 w), ucast (drop_bit 16 w), ucast (drop_bit 8 w), ucast w]"

definition pad4 :: "u8 list \<Rightarrow> u8 list" where
  "pad4 xs = xs @ replicate ((length xs + 3) div 4 * 4 - length xs) 0"

fun item_bytes :: "fdt_item \<Rightarrow> u8 list" where
  "item_bytes (FBegin nm) = be32_bytes FDT_BEGIN_NODE @ pad4 (nm @ [0])"
| "item_bytes FEnd = be32_bytes FDT_END_NODE"
| "item_bytes (FProp off d) = be32_bytes FDT_PROP @ be32_bytes (of_nat (length d)) @ be32_bytes off @ pad4 d"
| "item_bytes FNop = be32_bytes FDT_NOP"

fun tree_bytes :: "fdt_item list \<Rightarrow> u8 list" where
  "tree_bytes [] = be32_bytes FDT_END"
| "tree_bytes (x # xs) = item_bytes x @ tree_bytes xs"

text \<open>The strings \<open>memory\<close> and \<open>reg\<close>.\<close>

definition memory_name :: "u8 list" where "memory_name = [109, 101, 109, 111, 114, 121]"
definition reg_name :: "u8 list" where "reg_name = [114, 101, 103]"

definition be64_list :: "u8 list \<Rightarrow> u64" where
  "be64_list xs = push_bit 32 (ucast (be32 (xs ! 0) (xs ! 1) (xs ! 2) (xs ! 3))) OR
     ucast (be32 (xs ! 4) (xs ! 5) (xs ! 6) (xs ! 7))"

fun memory_reg :: "(u32 \<Rightarrow> u8 list) \<Rightarrow> bool \<Rightarrow> fdt_item list \<Rightarrow> (u64 \<times> u64) option" where
  "memory_reg strs b [] = None"
| "memory_reg strs b (FBegin nm # xs) = memory_reg strs (b \<or> take 6 nm = memory_name) xs"
| "memory_reg strs b (FEnd # xs) = memory_reg strs False xs"
| "memory_reg strs b (FProp off d # xs) =
     (if b \<and> strs off = reg_name \<and> 16 \<le> length d then Some (be64_list d, be64_list (drop 8 d))
      else memory_reg strs b xs)"
| "memory_reg strs b (FNop # xs) = memory_reg strs b xs"

subsection \<open>Memory\<close>

definition mem_at :: "mem \<Rightarrow> u64 \<Rightarrow> u8 list \<Rightarrow> bool" where
  "mem_at m a xs \<longleftrightarrow> (\<forall>i<length xs. m (a + of_nat i) = xs ! i)"

lemma mem_at_Nil [simp]: "mem_at m a []"
  by (simp add: mem_at_def)

lemma mem_at_Cons [simp]: "mem_at m a (x # xs) \<longleftrightarrow> m a = x \<and> mem_at m (a + 1) xs"
  by (auto simp: mem_at_def All_less_Suc2 add.assoc)

lemma mem_at_append [simp]:
  "mem_at m a (xs @ ys) \<longleftrightarrow> mem_at m a xs \<and> mem_at m (a + of_nat (length xs)) ys"
  by (induction xs arbitrary: a) (auto simp: add.assoc)

lemma mem_at_cstr: "mem_at m a (xs @ [0]) \<Longrightarrow> \<forall>c\<in>set xs. c \<noteq> 0 \<Longrightarrow> cstr m a xs"
  by (induction xs arbitrary: a) auto

lemma mem_at_nth: "mem_at m a xs \<Longrightarrow> i < length xs \<Longrightarrow> m (a + of_nat i) = xs ! i"
  by (simp add: mem_at_def)

lemma be32_be32_bytes: "be32 (ucast (drop_bit 24 w)) (ucast (drop_bit 16 w)) (ucast (drop_bit 8 w)) (ucast w) = w"
proof (rule bit_word_eqI)
  fix n assume "n < LENGTH(32)"
  then have n: "n < 32" by simp
  then show "bit (be32 (ucast (drop_bit 24 w)) (ucast (drop_bit 16 w)) (ucast (drop_bit 8 w)) (ucast w)) n = bit w n"
    by (cases rule: byte_of_word [OF n]) (simp_all add: bit_be32 bit_ucast_iff bit_drop_bit_eq)
qed

lemma fdt32_at: "mem_at m a (be32_bytes w) \<Longrightarrow> fdt32_to_cpu (get32 m a) = w"
  by (simp add: fdt32_get32 be32_bytes_def add.assoc be32_be32_bytes)

lemma length_be32_bytes [simp]: "length (be32_bytes w) = 4"
  by (simp add: be32_bytes_def)

lemma length_pad4: "length (pad4 xs) = (length xs + 3) div 4 * 4"
  by (simp add: pad4_def)

lemma and_0xffffffff: "(x :: u64) AND 0xffffffff = take_bit 32 x"
proof -
  have "(0xffffffff :: u64) = mask 32" by (simp add: mask_eq_exp_minus_1)
  then show ?thesis by (simp only: take_bit_eq_mask)
qed

lemma fdt64_get64: "fdt64_to_cpu (get64 m a) =
    push_bit 32 (ucast (fdt32_to_cpu (get32 m a))) OR ucast (fdt32_to_cpu (get32 m (a + 4)))"
proof -
  have "ucast (take_bit 32 (get64 m a)) = get32 m a" "ucast (drop_bit 32 (get64 m a)) = get32 m (a + 4)"
    by (auto intro!: bit_word_eqI simp: get64_def bit_ucast_iff bit_take_bit_iff bit_drop_bit_eq bit_or_iff
        bit_push_bit_iff dest: bit_u32)
  then show ?thesis by (simp only: fdt64_to_cpu_def and_0xffffffff)
qed

lemma fdt64_at:
  assumes "mem_at m a xs" and "8 \<le> length xs"
  shows "fdt64_to_cpu (get64 m a) = be64_list xs"
proof -
  have n: "m (a + of_nat i) = xs ! i" if "i < 8" for i using assms that by (simp add: mem_at_def)
  show ?thesis using n [of 0] n [of 1] n [of 2] n [of 3] n [of 4] n [of 5] n [of 6] n [of 7]
    by (simp add: fdt64_get64 fdt32_get32 be64_list_def add.assoc)
qed

text \<open>Rounding up to words of an aligned address.\<close>

lemma Suc_Suc_minus_2: "2 \<le> n \<Longrightarrow> Suc (Suc (n - 2)) = n" "\<not> n < 2 \<Longrightarrow> Suc (Suc (n - 2)) = n"
  by simp_all

lemma and_not_3: "(x :: u64) AND NOT 3 = push_bit 2 (drop_bit 2 x)"
proof -
  have "(3 :: u64) = mask 2" by (simp add: mask_eq_exp_minus_1)
  moreover have "x AND NOT (mask 2) = push_bit 2 (drop_bit 2 x)"
    by (intro bit_word_eqI) (simp only: bit_and_iff bit_not_iff bit_mask_iff bit_push_bit_iff bit_drop_bit_eq
        o_apply, auto simp: Suc_Suc_minus_2)
  ultimately show ?thesis by (simp only:)
qed

lemma unat_and_not_3: "unat ((x :: u64) AND NOT 3) = unat x div 4 * 4"
proof -
  have "take_bit 64 (unat x) = unat x" using unsigned_less [of x] by (intro take_bit_nat_eq_self) simp
  then have "unat (push_bit 2 (drop_bit 2 x)) = take_bit 64 (unat x div 4 * 4)"
    unfolding unsigned_push_bit_eq unsigned_drop_bit_eq
    by (simp add: push_bit_eq_mult [where 'a = nat] drop_bit_eq_div [where 'a = nat])
  also have "\<dots> = unat x div 4 * 4"
  proof (rule take_bit_nat_eq_self)
    have "unat x div 4 * 4 \<le> unat x" by simp
    also have "unat x < 2 ^ 64" using unsigned_less [of x] by simp
    finally show "unat x div 4 * 4 < 2 ^ 64" .
  qed
  finally show ?thesis unfolding and_not_3 .
qed

lemma align4:
  fixes p :: u64
  assumes "4 dvd unat p" and "unat p + k < 2 ^ 64"
  shows "(p + of_nat k) AND NOT 3 = p + of_nat (k div 4 * 4)"
proof -
  have k: "unat (of_nat k :: u64) = k" using assms(2) by (intro unat_of_nat_u64) simp
  have "k div 4 * 4 \<le> k" by simp
  then have k4: "unat (of_nat (k div 4 * 4) :: u64) = k div 4 * 4" using assms(2) by (intro unat_of_nat_u64) simp
  have sum: "unat (p + of_nat k) = unat p + k"
    using unat_add_u64 [of p "of_nat k"] assms(2) unfolding k by blast
  have sum4: "unat (p + of_nat (k div 4 * 4)) = unat p + k div 4 * 4"
    using unat_add_u64 [of p "of_nat (k div 4 * 4)"] assms(2) \<open>k div 4 * 4 \<le> k\<close> unfolding k4 by linarith
  have "unat ((p + of_nat k) AND NOT 3) = (unat p + k) div 4 * 4"
    unfolding unat_and_not_3 sum ..
  also have "\<dots> = unat p + k div 4 * 4" using assms(1) by (auto elim!: dvdE)
  finally show ?thesis using sum4 by (simp add: word_unat_eq_iff)
qed

subsection \<open>The search\<close>

lemma strncmp_loop_prefix:
  assumes "cstr m a xs" and "cstr m b ys" and "n \<le> length ys"
  shows "strncmp_loop n m a b = 0 \<longleftrightarrow> take n xs = take n ys"
  using assms
proof (induction n arbitrary: a b xs ys)
  case (Suc n)
  then obtain y zs where ys: "ys = y # zs" by (cases ys) auto
  show ?case
  proof (cases xs)
    case Nil
    then show ?thesis using Suc.prems ys by (simp add: byte_diff_0)
  next
    case (Cons x ws)
    then show ?thesis using Suc.IH [of "a + 1" ws "b + 1" zs] Suc.prems ys by (auto simp: byte_diff_0)
  qed
qed simp

lemma strlen_cstr: "cstr m a xs \<Longrightarrow> strlen m a = Some (of_nat (length xs))"
  by (simp add: strlen_def strlen_loop_cstr)

definition fdt_lits :: "dtb_lits \<Rightarrow> mem \<Rightarrow> bool" where
  "fdt_lits l m \<longleftrightarrow> cstr m (l_memory l) memory_name \<and> cstr m (l_reg l) reg_name"

definition item_ok :: "mem \<Rightarrow> u64 \<Rightarrow> (u32 \<Rightarrow> u8 list) \<Rightarrow> fdt_item \<Rightarrow> bool" where
  "item_ok m sb strs x \<longleftrightarrow> (case x of FBegin nm \<Rightarrow> \<forall>c\<in>set nm. c \<noteq> 0
     | FProp off d \<Rightarrow> cstr m (sb + ucast off) (strs off) | _ \<Rightarrow> True)"

lemma unat_of_nat_u32: "n < 2 ^ 32 \<Longrightarrow> unat (of_nat n :: u32) = n"
  by (simp add: unsigned_of_nat take_bit_nat_eq_self)

lemma int_of_len: "n < 2 ^ 31 \<Longrightarrow> (scast (ucast (of_nat n :: u64) :: u32) :: u64) = of_nat n"
proof -
  assume n: "n < 2 ^ 31"
  have "unat (ucast (of_nat n :: u64) :: u32) = n" using n by (simp add: unat_ucast_u64_u32 unat_of_nat_u64)
  then have w: "(ucast (of_nat n :: u64) :: u32) = of_nat n" 
    using n by (simp add: word_unat_eq_iff unat_of_nat_u32)
  have "sint (of_nat n :: u32) = int n" using n by (simp add: signed_of_nat signed_take_bit_int_eq_self)
  then show "(scast (ucast (of_nat n :: u64) :: u32) :: u64) = of_nat n"
    unfolding w by (simp add: scast_eq)
qed

lemma length_tree_bytes: "4 \<le> length (tree_bytes xs)"
proof (induction xs)
  case (Cons x xs)
  then show ?case by simp
qed simp

lemma div4_up: "(k :: nat) \<le> k div 4 * 4 + 3"
  by linarith

lemma div4_plus: "((n :: nat) + 8) div 4 = Suc ((4 + n) div 4)" "(n + 15) div 4 = Suc (Suc (Suc ((n + 3) div 4)))"
  by simp_all

unbundle bit_operations_syntax

text \<open>The step of the loop at the start of a node and at a property.\<close>

lemma extract_loop_node:
  assumes at: "mem_at m p (item_bytes x)" and ok: "item_ok m sb strs x" and al: "4 dvd unat p"
    and fits: "unat p + length (item_bytes x) + 4 < 2 ^ 64" "length (item_bytes x) + 4 < 2 ^ 31" and lits: "fdt_lits l m"
    and X: "x = FBegin nm"
  shows "extract_loop l m sb p b =
    extract_loop l m sb (p + of_nat (length (item_bytes x))) (b \<or> take 6 nm = memory_name)"
proof -
  let ?n = "length (item_bytes x)"
  have tok: "fdt32_to_cpu (get32 m p) = FDT_BEGIN_NODE" and "mem_at m (p + 4) (pad4 (nm @ [0]))"
    using at X by (simp_all add: fdt32_at)
  then have "mem_at m (p + 4) (nm @ [0])" unfolding pad4_def by simp
  moreover have "\<forall>c\<in>set nm. c \<noteq> 0" using ok X by (simp add: item_ok_def)
  ultimately have nm: "cstr m (p + 4) nm" by (rule mem_at_cstr)
  have len: "length nm < 2 ^ 31" "unat p + (length nm + 8) < 2 ^ 64"
    using fits X div4_up [of "length nm + 8"] div4_up [of "length nm + 4"]
    by (auto simp: length_pad4)
  have "(p + 4 + of_nat (length nm) + 4) AND NOT 3 = (p + of_nat (length nm + 8)) AND NOT 3"
    by (simp add: ac_simps)
  also have "\<dots> = p + of_nat ((length nm + 8) div 4 * 4)" by (rule align4 [OF al len(2)])
  also have "(length nm + 8) div 4 * 4 = ?n" unfolding X by (simp add: length_pad4 div4_plus)
  finally have nxt: "(p + 4 + of_nat (length nm) + 4) AND NOT 3 = p + of_nat ?n" .
  have "strncmp m (p + 4) (l_memory l) 6 = 0 \<longleftrightarrow> take 6 nm = memory_name"
    using strncmp_loop_prefix [OF nm, of "l_memory l" memory_name 6] lits
    by (simp add: strncmp_def fdt_lits_def memory_name_def)
  then show ?thesis
    using tok nm len(1) nxt by (subst extract_loop.simps) (simp add: strlen_cstr int_of_len Let_def)
qed

lemma extract_loop_prop:
  assumes at: "mem_at m p (item_bytes x)" and ok: "item_ok m sb strs x" and al: "4 dvd unat p"
    and fits: "unat p + length (item_bytes x) + 4 < 2 ^ 64" "length (item_bytes x) + 4 < 2 ^ 31" and lits: "fdt_lits l m"
    and X: "x = FProp off d"
  shows "extract_loop l m sb p b = (if b \<and> strs off = reg_name \<and> 16 \<le> length d
    then Some (Some (be64_list d, be64_list (drop 8 d)))
    else extract_loop l m sb (p + of_nat (length (item_bytes x))) b)"
proof -
  let ?n = "length (item_bytes x)"
  have tok: "fdt32_to_cpu (get32 m p) = FDT_PROP" and plen: "fdt32_to_cpu (get32 m (p + 4)) = of_nat (length d)"
    and poff: "fdt32_to_cpu (get32 m (p + 4 + 4)) = off" and "mem_at m (p + 12) (pad4 d)"
    using at X by (simp_all add: fdt32_at add.assoc)
  then have d: "mem_at m (p + 12) d" unfolding pad4_def by simp
  have len: "length d < 2 ^ 31" "unat p + (length d + 15) < 2 ^ 64"
    using fits X div4_up [of "length d + 15"] div4_up [of "length d + 3"]
    by (auto simp: length_pad4)
  have ulen: "unat (of_nat (length d) :: u32) = length d" using len(1) by (simp add: unat_of_nat_u32)
  have "unat (of_nat (length d) :: u64) = length d" using len(1) by (intro unat_of_nat_u64) simp
  then have ul: "(ucast (of_nat (length d) :: u32) :: u64) = of_nat (length d)"
    using ulen unat_ucast_u32_u64 [of "of_nat (length d)"] by (metis word_unat_eq_iff)
  have "(p + 12 + ucast (of_nat (length d) :: u32) + 3) AND NOT 3 = (p + of_nat (length d + 15)) AND NOT 3"
    unfolding ul by (simp add: ac_simps)
  also have "\<dots> = p + of_nat ((length d + 15) div 4 * 4)" by (rule align4 [OF al len(2)])
  also have "(length d + 15) div 4 * 4 = ?n" unfolding X by (simp add: length_pad4 div4_plus)
  finally have nxt: "(p + 12 + ucast (of_nat (length d) :: u32) + 3) AND NOT 3 = p + of_nat ?n" .
  have nm: "cstr m (sb + ucast off) (strs off)" using ok X by (simp add: item_ok_def)
  obtain r where r: "strcmp m (sb + ucast off) (l_reg l) = Some r" "r = 0 \<longleftrightarrow> strs off = reg_name"
    using strcmp_0 [OF nm, of "l_reg l" reg_name] lits by (auto simp: fdt_lits_def)
  have big: "16 \<le> (of_nat (length d) :: u32) \<longleftrightarrow> 16 \<le> length d" using ulen by (simp add: word_le_nat_alt)
  have ne: "FDT_PROP \<noteq> FDT_BEGIN_NODE" "FDT_PROP \<noteq> FDT_END_NODE"
    by (simp_all add: FDT_BEGIN_NODE_def FDT_END_NODE_def FDT_PROP_def)
  have regs: "fdt64_to_cpu (get64 m (p + 12)) = be64_list d" "fdt64_to_cpu (get64 m (p + 20)) = be64_list (drop 8 d)"
    if "16 \<le> length d"
  proof -
    have "mem_at m (p + 12) (take 8 d @ drop 8 d)" using d by simp
    then have "mem_at m (p + 20) (drop 8 d)" unfolding mem_at_append using that by (simp add: min_def add.assoc)
    then show "fdt64_to_cpu (get64 m (p + 12)) = be64_list d"
      "fdt64_to_cpu (get64 m (p + 20)) = be64_list (drop 8 d)"
      using that d by (auto intro!: fdt64_at)
  qed
  have nxt': "(p + (15 + ucast (of_nat (length d) :: u32))) AND - 4 = p + of_nat ?n"
    and poff': "fdt32_to_cpu (get32 m (p + 8)) = off"
    using nxt poff by (simp_all add: add.assoc)
  show ?thesis
    using r(2) by (subst extract_loop.simps)
      (simp add: Let_def tok ne plen poff' r(1) big nxt' regs add.assoc cong: if_cong)
qed

lemma extract_loop_spec:
  assumes "mem_at m p (tree_bytes xs)" and "4 dvd unat p" and "unat p + length (tree_bytes xs) < 2 ^ 64"
    and "length (tree_bytes xs) < 2 ^ 31" and "\<forall>x\<in>set xs. item_ok m sb strs x" and "fdt_lits l m"
  shows "extract_loop l m sb p b = Some (memory_reg strs b xs)"
  using assms
proof (induction xs arbitrary: p b)
  case Nil
  then have "fdt32_to_cpu (get32 m p) = FDT_END" by (simp add: fdt32_at)
  then show ?case
    by (subst extract_loop.simps)
      (simp add: FDT_END_def FDT_BEGIN_NODE_def FDT_END_NODE_def FDT_PROP_def FDT_NOP_def)
next
  case (Cons x xs)
  let ?n = "length (item_bytes x)"
  have item: "mem_at m p (item_bytes x)" and rest: "mem_at m (p + of_nat ?n) (tree_bytes xs)"
    using Cons.prems(1) by simp_all
  have n4: "4 dvd ?n" by (cases x) (simp_all add: length_pad4)
  have n: "unat (of_nat ?n :: u64) = ?n" using Cons.prems(4) by (intro unat_of_nat_u64) simp
  have up: "unat (p + of_nat ?n) = unat p + ?n"
    using unat_add_u64 [of p "of_nat ?n"] Cons.prems(3) unfolding n by simp
  have IH: "extract_loop l m sb (p + of_nat ?n) b' = Some (memory_reg strs b' xs)" for b'
    by (rule Cons.IH) (use Cons.prems rest n4 up in simp_all)
  have ok: "item_ok m sb strs x" and fits: "unat p + ?n + 4 < 2 ^ 64" "?n + 4 < 2 ^ 31"
    using Cons.prems(3-5) length_tree_bytes [of xs] by simp_all
  show ?case
  proof (cases x)
    case FEnd
    then have "fdt32_to_cpu (get32 m p) = FDT_END_NODE" using item by (simp add: fdt32_at)
    then have "extract_loop l m sb p b = extract_loop l m sb (p + 4) False"
      by (subst extract_loop.simps) (simp add: FDT_BEGIN_NODE_def FDT_END_NODE_def)
    then show ?thesis using IH FEnd by simp
  next
    case FNop
    then have "fdt32_to_cpu (get32 m p) = FDT_NOP" using item by (simp add: fdt32_at)
    then have "extract_loop l m sb p b = extract_loop l m sb (p + 4) b"
      by (subst extract_loop.simps) (simp add: FDT_BEGIN_NODE_def FDT_END_NODE_def FDT_NOP_def FDT_PROP_def)
    then show ?thesis using IH FNop by simp
  next
    case (FBegin nm)
    then show ?thesis using IH extract_loop_node [OF item ok Cons.prems(2) fits Cons.prems(6)] by simp
  next
    case (FProp off d)
    then show ?thesis using IH extract_loop_prop [OF item ok Cons.prems(2) fits Cons.prems(6)] by simp
  qed
qed

subsection \<open>dtb_init\<close>

definition fdt_blob :: "dtb_lits \<Rightarrow> mem \<Rightarrow> u64 \<Rightarrow> (u32 \<Rightarrow> u8 list) \<Rightarrow> fdt_item list \<Rightarrow> bool" where
  "fdt_blob l m h strs xs \<longleftrightarrow> fdt_lits l m \<and>
     (\<exists>st strings. let p = h + ucast st in
        mem_at m h (be32_bytes 0xd00dfeed) \<and> mem_at m (h + 8) (be32_bytes st) \<and>
        mem_at m (h + 12) (be32_bytes strings) \<and> mem_at m p (tree_bytes xs) \<and> 4 dvd unat p \<and>
        unat p + length (tree_bytes xs) < 2 ^ 64 \<and> length (tree_bytes xs) < 2 ^ 31 \<and>
        (\<forall>x\<in>set xs. item_ok m (h + ucast strings) strs x))"

lemma extract_memory_info_spec:
  assumes "fdt_blob l m h strs xs"
  shows "extract_memory_info l m h = Some (memory_reg strs False xs)" "fdt32_to_cpu (fdt_magic m h) = 0xd00dfeed"
proof -
  obtain st strings where blob: "mem_at m h (be32_bytes 0xd00dfeed)"
      "mem_at m (h + 8) (be32_bytes st)" "mem_at m (h + 12) (be32_bytes strings)"
      "mem_at m (h + ucast st) (tree_bytes xs)" "4 dvd unat (h + ucast st)"
      "unat (h + ucast st) + length (tree_bytes xs) < 2 ^ 64" "length (tree_bytes xs) < 2 ^ 31"
      "\<forall>x\<in>set xs. item_ok m (h + ucast strings) strs x" "fdt_lits l m"
    using assms unfolding fdt_blob_def Let_def by blast
  show "extract_memory_info l m h = Some (memory_reg strs False xs)"
    unfolding extract_memory_info_def fdt_off_dt_struct_def fdt_off_dt_strings_def Let_def
      fdt32_at [OF blob(2)] fdt32_at [OF blob(3)]
    by (rule extract_loop_spec [OF blob(4-9)])
  show "fdt32_to_cpu (fdt_magic m h) = 0xd00dfeed"
    unfolding fdt_magic_def by (rule fdt32_at [OF blob(1)])
qed

lemma dtb_init_spec:
  assumes "boot_dtb s \<noteq> 0" and "fdt_blob l (bytes s) (boot_dtb s + PHYSICAL_MEMORY_OFFSET) strs xs"
  obtains c where "dtb_init l s = Some (s\<lparr>console := c,
    memory_base := case_option (memory_base s) fst (memory_reg strs False xs),
    memory_size := case_option (memory_size s) snd (memory_reg strs False xs)\<rparr>)"
  using assms(1) extract_memory_info_spec [OF assms(2)]
  by (intro that [of "console (the (dtb_init l s))"])
    (cases "memory_reg strs False xs"; auto simp: dtb_init_def Let_def say_def)

text \<open>C22. When the firmware has left a device tree blob, \<open>dtb_init\<close> returns, and the base and the size of
  memory are afterwards the first two cells of the first \<open>reg\<close> property, of at least 16 bytes, of a memory
  node; without one they stay as they were.\<close>

theorem dtb_init_finds_memory:
  assumes "boot_dtb s \<noteq> 0" and "fdt_blob l (bytes s) (boot_dtb s + PHYSICAL_MEMORY_OFFSET) strs xs"
  shows "\<exists>t. dtb_init l s = Some t \<and>
    (get_memory_base t, get_memory_size t) =
      (case memory_reg strs False xs of Some r \<Rightarrow> r | None \<Rightarrow> (memory_base s, memory_size s))"
proof -
  obtain c where "dtb_init l s = Some (s\<lparr>console := c,
      memory_base := case_option (memory_base s) fst (memory_reg strs False xs),
      memory_size := case_option (memory_size s) snd (memory_reg strs False xs)\<rparr>)"
    by (rule dtb_init_spec [OF assms])
  then show ?thesis by (auto simp: get_memory_base_def get_memory_size_def split: option.split)
qed

definition board_tree :: "fdt_item list" where
  "board_tree = [FBegin [], FBegin (memory_name @ [64, 56]), FNop,
     FProp 0 [0, 0, 0, 0, 0x80, 0, 0, 0, 0, 0, 0, 0, 8, 0, 0, 0], FEnd, FEnd]"

text \<open>Header, tree, the string \<open>reg\<close> at 84 and the string \<open>memory\<close> at 88.\<close>

definition board_blob :: "u8 list" where
  "board_blob = be32_bytes 0xd00dfeed @ be32_bytes 95 @ be32_bytes 16 @ be32_bytes 84 @ tree_bytes board_tree @
     reg_name @ [0] @ memory_name @ [0]"

definition booted :: io_state where
  "booted = (typing (sconst 0))\<lparr>boot_dtb := 0x82200000,
     bytes := \<lambda>x. let i = unat (x - (0x82200000 + PHYSICAL_MEMORY_OFFSET))
       in if i < length board_blob then board_blob ! i else 0\<rparr>"

lemma board_blob_bytes: "mem_at (bytes booted) (0x82200000 + PHYSICAL_MEMORY_OFFSET) board_blob"
proof -
  have "length board_blob = 95"
    by (simp add: board_blob_def board_tree_def pad4_def memory_name_def reg_name_def)
  then show ?thesis by (simp add: mem_at_def booted_def unat_of_nat_u64)
qed

abbreviation board_dtb :: u64 where "board_dtb \<equiv> 0x82200000 + PHYSICAL_MEMORY_OFFSET"

definition board_lits :: dtb_lits where
  "board_lits = \<lparr>l_memory = board_dtb + 88, l_reg = board_dtb + 84\<rparr>"

lemma board_fdt:
  assumes "mem_at m board_dtb board_blob"
  shows "fdt_blob board_lits m board_dtb (\<lambda>_. reg_name) board_tree"
proof -
  have len: "length (tree_bytes board_tree) = 68"
    by (simp add: board_tree_def pad4_def memory_name_def)
  have parts: "mem_at m board_dtb (be32_bytes 0xd00dfeed)" "mem_at m (board_dtb + 8) (be32_bytes 16)"
    "mem_at m (board_dtb + 12) (be32_bytes 84)" "mem_at m (board_dtb + 16) (tree_bytes board_tree)"
    "mem_at m (board_dtb + 84) (reg_name @ [0])" "mem_at m (board_dtb + 88) (memory_name @ [0])"
    using assms unfolding board_blob_def mem_at_append
    by (simp_all add: len add.assoc reg_name_def)
  have "\<forall>c\<in>set reg_name. c \<noteq> 0" "\<forall>c\<in>set memory_name. c \<noteq> 0"
    by (simp_all add: reg_name_def memory_name_def)
  then have lits: "cstr m (board_dtb + 84) reg_name" "cstr m (board_dtb + 88) memory_name"
    using mem_at_cstr parts(5,6) by blast+
  have h: "unat (board_dtb + 16) = unat board_dtb + 16" "4 dvd unat (board_dtb + 16)" "unat (board_dtb + 16) + 68 < 2 ^ 64"
    by (simp_all add: PHYSICAL_MEMORY_OFFSET_def)
  have items: "\<forall>x\<in>set board_tree. item_ok m (board_dtb + ucast (84 :: u32)) (\<lambda>_. reg_name) x"
    using lits(1) by (simp add: board_tree_def item_ok_def memory_name_def)
  show ?thesis
    unfolding fdt_blob_def Let_def
    by (rule conjI, use lits in \<open>simp add: fdt_lits_def board_lits_def\<close>, rule exI [of _ 16], rule exI [of _ 84])
      (use parts h items in \<open>simp add: len\<close>)
qed

lemma board_memory: "memory_reg (\<lambda>_. reg_name) False board_tree = Some (0x80000000, 0x8000000)"
  by (simp add: board_tree_def memory_name_def be64_list_def be32_def)

lemma dtb_init_finds_memory_witness:
  "\<exists>t. dtb_init board_lits booted = Some t \<and> get_memory_base t = 0x80000000 \<and> get_memory_size t = 0x8000000"
proof -
  have boot: "boot_dtb booted = 0x82200000" by (simp add: booted_def)
  moreover have "boot_dtb booted \<noteq> 0" by (simp add: boot)
  ultimately obtain t where "dtb_init board_lits booted = Some t" "(get_memory_base t, get_memory_size t) =
      (case memory_reg (\<lambda>_. reg_name) False board_tree of Some r \<Rightarrow> r | None \<Rightarrow> (memory_base booted, memory_size booted))"
    using dtb_init_finds_memory [of booted board_lits "\<lambda>_. reg_name" board_tree] board_fdt [OF board_blob_bytes] by auto
  then show ?thesis using board_memory by auto
qed

end
