(* ===== verification/VmmCheck.thy ===== *)
theory VmmCheck
  imports Vmm
begin

unbundle bit_operations_syntax

text \<open>
  The self-test of kern/mm/vmm.c, \<open>vmm_init\<close>, and the functions that print areas. The counters of the
  loops are small \<open>int\<close> values, of which the list of a loop gives the sequence.
\<close>

definition print_vma :: "u64 \<Rightarrow> u64 \<Rightarrow> 'z vma_state_scheme \<Rightarrow> 'z vma_state_scheme" where
  "print_vma nm vma s =
     (let v = vmas s vma;
          s = say ''-- %s print_vma --\<newline>'' [CNum nm] s;
          s = say ''   mm_struct: %p\<newline>'' [CNum (vm_mm v)] s;
          s = say ''   vm_start,vm_end: %x,%x\<newline>'' [CNum (vm_start v), CNum (vm_end v)] s;
          s = say ''   vm_flags: %x\<newline>'' [CNum (ucast (vm_flags v))] s
      in say ''   list_entry_t: %p\<newline>'' [CNum (vma + 32)] s)"

text \<open>The loop of \<open>print_mm\<close> for \<open>n\<close> more areas after the entry \<open>le\<close>.\<close>

fun print_mm_loop :: "nat \<Rightarrow> u64 \<Rightarrow> vnode \<Rightarrow> 'z vma_state_scheme \<Rightarrow> 'z vma_state_scheme" where
  "print_mm_loop 0 nm le s = s"
| "print_mm_loop (Suc n) nm le s =
     (let le = list_next (mmap_links s) le
      in print_mm_loop n nm le (print_vma nm (le2vma le) s))"

definition print_mm :: "u64 \<Rightarrow> u64 \<Rightarrow> 'z vma_state_scheme \<Rightarrow> 'z vma_state_scheme" where
  "print_mm nm mm s =
     (let s = say ''-- %s print_mm --\<newline>'' [CNum nm] s;
          s = say ''   mmap_list: %p\<newline>'' [CNum mm] s;
          s = say ''   map_count: %d\<newline>'' [CNum (scast (map_count (mms s mm)))] s
      in print_mm_loop (nat (sint (map_count (mms s mm)))) nm (LHead mm) s)"

subsection \<open>check_vma_struct\<close>

text \<open>Both loops that insert areas, over their values of \<open>i\<close>.\<close>

fun check_insert :: "u64 list \<Rightarrow> u64 \<Rightarrow> 'z vma_state_scheme \<Rightarrow> 'z vma_state_scheme run" where
  "check_insert [] mm s = ret s"
| "check_insert (i # is) mm s =
     run_bind (vma_create (i * 5) (i * 5 + 2) 0 s) (\<lambda>(vma, s).
     c_assert (vma \<noteq> 0) ''vma != NULL''
       (run_bind (insert_vma_struct mm vma s) (\<lambda>s. check_insert is mm s)))"

fun check_order :: "u64 list \<Rightarrow> u64 \<Rightarrow> vnode \<Rightarrow> 'z vma_state_scheme \<Rightarrow> 'z vma_state_scheme run" where
  "check_order [] mm le s = ret s"
| "check_order (i # is) mm le s =
     c_assert (le \<noteq> LHead mm) ''le != &(mm->mmap_list)''
       (let mmap = vmas s (le2vma le)
        in c_assert (vm_start mmap = i * 5 \<and> vm_end mmap = i * 5 + 2)
             ''mmap->vm_start == i * 5 && mmap->vm_end == i * 5 + 2''
             (check_order is mm (list_next (mmap_links s) le) s))"

fun check_finds :: "u64 list \<Rightarrow> u64 \<Rightarrow> 'z vma_state_scheme \<Rightarrow> 'z vma_state_scheme run" where
  "check_finds [] mm s = ret s"
| "check_finds (i # is) mm s =
     run_bind (find_vma mm i s) (\<lambda>(vma1, s). c_assert (vma1 \<noteq> 0) ''vma1 != NULL''
     (run_bind (find_vma mm (i + 1) s) (\<lambda>(vma2, s). c_assert (vma2 \<noteq> 0) ''vma2 != NULL''
     (run_bind (find_vma mm (i + 2) s) (\<lambda>(vma3, s). c_assert (vma3 = 0) ''vma3 == NULL''
     (run_bind (find_vma mm (i + 3) s) (\<lambda>(vma4, s). c_assert (vma4 = 0) ''vma4 == NULL''
     (run_bind (find_vma mm (i + 4) s) (\<lambda>(vma5, s). c_assert (vma5 = 0) ''vma5 == NULL''
     (c_assert (vm_start (vmas s vma1) = i \<and> vm_end (vmas s vma1) = i + 2)
        ''vma1->vm_start == i && vma1->vm_end == i + 2''
     (c_assert (vm_start (vmas s vma2) = i \<and> vm_end (vmas s vma2) = i + 2)
        ''vma2->vm_start == i && vma2->vm_end == i + 2''
     (check_finds is mm s))))))))))))"

fun check_below :: "u64 list \<Rightarrow> u64 \<Rightarrow> 'z vma_state_scheme \<Rightarrow> 'z vma_state_scheme run" where
  "check_below [] mm s = ret s"
| "check_below (i # is) mm s =
     run_bind (find_vma mm i s) (\<lambda>(vma, s).
     let s = (if vma \<noteq> 0 then say ''vma_below_5: i %x, start %x, end %x\<newline>''
                [CNum i, CNum (vm_start (vmas s vma)), CNum (vm_end (vmas s vma))] s else s)
     in c_assert (vma = 0) ''vma_below_5 == NULL'' (check_below is mm s))"

definition check_vma_struct :: "'z vma_state_scheme \<Rightarrow> 'z vma_state_scheme run" where
  "check_vma_struct s =
     run_bind (mm_create s) (\<lambda>(mm, s).
     c_assert (mm \<noteq> 0) ''mm != NULL''
     (run_bind (check_insert (map of_nat (rev [1..<11])) mm s) (\<lambda>s.
      run_bind (check_insert (map of_nat [11..<101]) mm s) (\<lambda>s.
      run_bind (check_order (map of_nat [1..<101]) mm (list_next (mmap_links s) (LHead mm)) s) (\<lambda>s.
      run_bind (check_finds (map (\<lambda>i. of_nat (5 * i)) [1..<101]) mm s) (\<lambda>s.
      run_bind (check_below [4, 3, 2, 1, 0] mm s) (\<lambda>s.
      run_bind (mm_destroy mm s) (\<lambda>s.
      ret (say ''check_vma_struct() succeeded!\<newline>'' [] s)))))))))"

definition check_vmm :: "'z vma_state_scheme \<Rightarrow> 'z vma_state_scheme run" where
  "check_vmm s = run_bind (check_vma_struct s) (\<lambda>s. ret (say ''check_vmm() succeeded.\<newline>'' [] s))"

definition vmm_init :: "'z vma_state_scheme \<Rightarrow> 'z vma_state_scheme run" where
  "vmm_init s = check_vmm s"

end
