(* ===== verification/VmmSpec.thy ===== *)
theory VmmSpec
  imports VmmCheck ForkSpec
begin

unbundle bit_operations_syntax

text \<open>
  An address space over its life on the heap: \<open>mm_owned s al b bs\<close> says that the block \<open>b\<close> is a memory
  descriptor, that the blocks \<open>bs\<close> are its areas in order, and that the heap has these and the blocks \<open>al\<close>
  of others in use. Creating, entering areas, looking up and destroying are described on it; the self-test
  of kern/mm/vmm.c then passes and leaves the heap with the blocks \<open>al\<close>.
\<close>

subsection \<open>A new block of the heap\<close>

lemma kmalloc_fresh:
  assumes inv: "heap_inv s al" and sz: "0 < sz" "sz < 4064" and room: "free_room (Suc k) s" "0 < k"
  obtains x t where "kmalloc sz s = ret (block_ptr x, t)" "heap_inv t (insert x al)" "x \<notin> al"
    "block_ptr x \<notin> block_ptr ` al" "block_ptr x \<noteq> 0" "kmem_same s t" "free_room k t"
  using inv sz
proof (cases rule: kmalloc_spec)
  case none
  then show ?thesis using free_room_frames [OF room(1)] by simp
next
  case (block c t)
  let ?x = "(c, kmalloc_units sz)"
  have ptr: "unit_addr (c + 1) = block_ptr ?x" by (simp add: block_ptr_def)
  have pages: "block_pages ?x \<inter> \<Union> (block_pages ` al) = {}" using block(4) by (simp add: block_pages_def)
  have inside: "fst y \<in> block_pages y" if "y \<in> insert ?x al" for y
    using heap_inv_ptr(2) [OF block(2) that] by (simp add: block_pages_def)
  have new: "block_ptr ?x \<noteq> block_ptr y" if y: "y \<in> al" for y
  proof
    assume "block_ptr ?x = block_ptr y"
    then have "c = fst y" using heap_inv_ptr(1) [OF block(2), of ?x] heap_inv_ptr(1) [OF block(2), of y] y
      unfolding block_ptr_def by simp
    then show False using pages inside [of ?x] inside [of y] y by auto
  qed
  have "block_ptr ?x \<notin> block_ptr ` al" using new by blast
  moreover have "?x \<notin> al" using new by blast
  moreover have "free_room k t" using block(7) room by blast
  moreover have "block_ptr ?x \<noteq> 0" using heap_inv_ptr(3) [OF block(2), of ?x] by blast
  ultimately show ?thesis using that block(1,2,6) unfolding ptr by blast
qed

lemma block_ptr_inj:
  assumes "heap_inv s al" and "x \<in> al" and "y \<in> al" and "block_ptr x = block_ptr y" shows "fst x = fst y"
  using heap_inv_ptr(1) [OF assms(1,2)] heap_inv_ptr(1) [OF assms(1,3)] assms(4) by (simp add: block_ptr_def)

subsection \<open>Address spaces on the heap\<close>

text \<open>What the operations of an address space leave alone.\<close>

definition vmm_same :: "'z vma_state_scheme \<Rightarrow> 'z vma_state_scheme \<Rightarrow> bool" where
  "vmm_same s t \<longleftrightarrow> sstatus t = sstatus s \<and> sie t = sie s \<and> satp t = satp s \<and> stvec t = stvec s \<and>
     sscratch t = sscratch s \<and> bytes t = bytes s \<and> npage t = npage s \<and> va_pa_offset t = va_pa_offset s \<and>
     ptes t = ptes s \<and> tlb t = tlb s \<and> boot_pgdir_va t = boot_pgdir_va s \<and> boot_pgdir_pa t = boot_pgdir_pa s \<and>
     arena t = arena s \<and> bigblocks t = bigblocks s \<and> vma_state.more t = vma_state.more s"

lemma vmm_same_refl: "vmm_same s s"
  by (simp add: vmm_same_def)

lemma vmm_same_trans: "vmm_same s t \<Longrightarrow> vmm_same t u \<Longrightarrow> vmm_same s u"
  by (simp add: vmm_same_def)

lemma vmm_same_kmem: "kmem_same s t \<Longrightarrow> vmm_same s t"
  by (auto simp: kmem_same_def vmm_same_def)

definition mm_owned :: "'z vma_state_scheme \<Rightarrow> block set \<Rightarrow> block \<Rightarrow> block list \<Rightarrow> bool" where
  "mm_owned s al b bs \<longleftrightarrow> heap_inv s (al \<union> set (b # bs)) \<and> mm_rel s (block_ptr b) (map block_ptr bs) \<and>
     distinct (b # bs) \<and> set (b # bs) \<inter> al = {}"

definition areas :: "'z vma_state_scheme \<Rightarrow> block list \<Rightarrow> (u64 \<times> u64) list" where
  "areas s bs = map (\<lambda>x. (vm_start (vmas s (block_ptr x)), vm_end (vmas s (block_ptr x)))) bs"

lemma kmem_same_vmm:
  assumes "kmem_same s t"
  shows "vmas t = vmas s" "mms t = mms s" "mmap_links t = mmap_links s"
  using assms by (auto simp: kmem_same_def)

lemma mm_rel_cong:
  assumes "mm_rel s mm vs" and "\<forall>w\<in>set vs. vmas t w = vmas s w" and "mmap_links t = mmap_links s"
    and "mmap_cache (mms t mm) = mmap_cache (mms s mm) \<or> mmap_cache (mms t mm) \<in> set vs"
  shows "mm_rel t mm vs"
proof -
  have "vmas_ok (vmas t) vs"
    using assms(1,2) unfolding mm_rel_def vmas_ok_def
    by (auto elim!: sorted_wrt_mono_rel [rotated])
  then show ?thesis using assms(1,3,4) by (auto simp: mm_rel_def)
qed

lemma mm_create_spec:
  assumes "heap_inv s al" and "free_room (Suc k) s" and "0 < k"
  obtains b t where "mm_create s = ret (block_ptr b, t)" "block_ptr b \<noteq> 0" "mm_owned t al b []" "free_room k t"
    "vmm_same s t"
proof -
  have sz: "0 < sizeof_mm_struct" "sizeof_mm_struct < 4064" by (simp_all add: sizeof_mm_struct_def)
  obtain b t where b: "kmalloc sizeof_mm_struct s = ret (block_ptr b, t)" "heap_inv t (insert b al)" "b \<notin> al"
      "block_ptr b \<noteq> 0" "free_room k t" "kmem_same s t"
    using kmalloc_fresh [OF assms(1) sz assms(2,3)] by metis
  define u where "u = t\<lparr>mmap_links := list_init (LHead (block_ptr b)) (mmap_links t),
    mms := (mms t)(block_ptr b := \<lparr>mmap_cache = 0, mm_pgdir = 0, map_count = 0, sm_priv = 0\<rparr>)\<rparr>"
  have "heap_inv u (insert b al)" by (rule heap_inv_cong [OF b(2)]) (simp_all add: u_def)
  moreover have "mm_rel u (block_ptr b) []" using b(4) by (simp add: mm_rel_def u_def vmas_ok_def cdll_init)
  ultimately have "mm_owned u al b []" using b(3) by (simp add: mm_owned_def insert_commute)
  moreover have "mm_create s = ret (block_ptr b, u)" using b(1,4) by (simp add: mm_create_def u_def)
  moreover have "free_room k u" using b(5) free_room_cong [of u t k] by (simp add: u_def)
  moreover have "vmm_same s u" using vmm_same_kmem [OF b(6)] by (simp add: vmm_same_def u_def)
  ultimately show ?thesis using b(4) that by blast
qed

lemma areas_Cons: "areas s (x # xs) = (vm_start (vmas s (block_ptr x)), vm_end (vmas s (block_ptr x))) # areas s xs"
  by (simp add: areas_def)

lemma areas_append [simp]: "areas s (xs @ ys) = areas s xs @ areas s ys"
  by (simp add: areas_def)

text \<open>Creating and entering an area that meets no other.\<close>

lemma vma_enter_spec:
  assumes own: "mm_owned s al b bs" and room: "free_room (Suc k) s" "0 < k" and st: "st < en"
    and apart: "\<forall>(a, e)\<in>set (areas s bs). e \<le> st \<or> en \<le> a"
  obtains x t u ls rs where "vma_create st en fl s = ret (block_ptr x, t)" "block_ptr x \<noteq> 0"
    "insert_vma_struct (block_ptr b) (block_ptr x) t = ret u" "mm_owned u al b (ls @ x # rs)" "bs = ls @ rs"
    "areas u (ls @ x # rs) = areas s ls @ (st, en) # areas s rs" "free_room k u" "vmm_same s u"
proof -
  let ?al = "al \<union> set (b # bs)"
  have inv: "heap_inv s ?al" and rel: "mm_rel s (block_ptr b) (map block_ptr bs)" using own by (simp_all add: mm_owned_def)
  have sz: "0 < sizeof_vma_struct" "sizeof_vma_struct < 4064" by (simp_all add: sizeof_vma_struct_def)
  obtain x t where x: "kmalloc sizeof_vma_struct s = ret (block_ptr x, t)" "heap_inv t (insert x ?al)" "x \<notin> ?al"
      "block_ptr x \<notin> block_ptr ` ?al" "block_ptr x \<noteq> 0" "kmem_same s t" "free_room k t"
    using kmalloc_fresh [OF inv sz room] by metis
  note same = kmem_same_vmm [OF x(6)]
  let ?p = "block_ptr x"
  define v where "v = t\<lparr>vmas := (vmas t)(?p := (vmas t ?p)\<lparr>vm_start := st, vm_end := en, vm_flags := fl\<rparr>)\<rparr>"
  have create: "vma_create st en fl s = ret (?p, v)" using x(1,5) by (simp add: vma_create_def v_def)
  have other: "vmas v (block_ptr y) = vmas s (block_ptr y)" if y: "y \<in> set bs" for y
  proof -
    have "block_ptr y \<noteq> ?p" using x(4) y by (metis UnCI image_eqI set_subset_Cons subsetD)
    then show ?thesis by (simp add: v_def same)
  qed
  have notin: "?p \<notin> set (map block_ptr bs)" using x(4) by auto
  have relv: "mm_rel v (block_ptr b) (map block_ptr bs)"
    by (rule mm_rel_cong [OF rel]) (use other in \<open>auto simp: v_def same\<close>)
  have dis: "\<forall>w\<in>set (map block_ptr bs). vma_disjoint (vmas v w) (vmas v ?p)"
  proof
    fix w assume "w \<in> set (map block_ptr bs)"
    then obtain y where y: "y \<in> set bs" "w = block_ptr y" by auto
    then have "vm_end (vmas s w) \<le> st \<or> en \<le> vm_start (vmas s w)" using apart by (auto simp: areas_def)
    moreover have "vm_start (vmas v ?p) = st" "vm_end (vmas v ?p) = en" by (simp_all add: v_def)
    ultimately show "vma_disjoint (vmas v w) (vmas v ?p)"
      unfolding y(2) other [OF y(1)] by (simp add: vma_disjoint_def)
  qed
  have nonempty: "vm_start (vmas v ?p) < vm_end (vmas v ?p)" using st by (simp add: v_def)
  obtain u vl vr l m where ins: "insert_vma_struct (block_ptr b) ?p v = ret u" "map block_ptr bs = vl @ vr"
      "mm_rel u (block_ptr b) (vl @ ?p # vr)" "u = v\<lparr>vmas := (vmas v)(?p := (vmas v ?p)\<lparr>vm_mm := block_ptr b\<rparr>),
        mmap_links := l, mms := m\<rparr>"
    using insert_vma_struct_spec [OF relv x(5) notin] unfolding if_P [OF conjI [OF nonempty dis]] by blast
  obtain ls rs where bs: "bs = ls @ rs" "vl = map block_ptr ls" "vr = map block_ptr rs"
    using ins(2) by (metis map_eq_append_conv)
  have "heap_inv u (insert x ?al)" by (rule heap_inv_cong [OF x(2)]) (simp_all add: ins(4) v_def)
  moreover have "insert x ?al = al \<union> set (b # ls @ x # rs)" by (auto simp: bs(1))
  ultimately have "mm_owned u al b (ls @ x # rs)"
    using ins(3) own x(3) by (auto simp: mm_owned_def bs)
  moreover have "areas u (ls @ x # rs) = areas s ls @ (st, en) # areas s rs"
  proof -
    have "vmas u (block_ptr y) = vmas s (block_ptr y)" if y: "y \<in> set bs" for y
    proof -
      have "block_ptr y \<noteq> ?p" using y notin by (metis image_eqI list.set_map)
      then show ?thesis using other [OF y] by (simp add: ins(4))
    qed
    then have "areas u ls = areas s ls" "areas u rs = areas s rs" by (simp_all add: areas_def bs(1))
    then show ?thesis by (simp add: areas_Cons) (simp add: ins(4) v_def)
  qed
  moreover have "free_room k u" using x(7) free_room_cong [of u t k] by (simp add: ins(4) v_def)
  moreover have "vmm_same s u" using vmm_same_kmem [OF x(6)] by (simp add: vmm_same_def ins(4) v_def)
  ultimately show ?thesis using that create x(5) ins(1) bs(1) by blast
qed

subsection \<open>Looking up\<close>

lemma find_vma_keeps: "find_vma mm a s = ret (v, t) \<Longrightarrow> \<exists>m. t = s\<lparr>mms := m\<rparr>"
proof -
  assume run: "find_vma mm a s = ret (v, t)"
  have upd: "\<exists>m. (if w \<noteq> 0 then s\<lparr>mms := (mms s)(mm := (mms s mm)\<lparr>mmap_cache := w\<rparr>)\<rparr> else s) = s\<lparr>mms := m\<rparr>" for w
    by (cases "w = 0") (auto intro: exI [of _ "mms s"])
  show ?thesis
  proof (cases "mm = 0")
    case True
    then show ?thesis using run by (auto simp: find_vma_def ret_def intro: exI [of _ "mms s"])
  next
    case False
    then obtain w where "ret (w, if w \<noteq> 0 then s\<lparr>mms := (mms s)(mm := (mms s mm)\<lparr>mmap_cache := w\<rparr>)\<rparr> else s) = ret (v, t)"
      using run unfolding find_vma_def Let_def if_not_P [OF False] run_bind_eq_ret by blast
    then show ?thesis using upd [of w] by (simp only: ret_def option.inject sum.inject prod.inject) metis
  qed
qed

lemma find_vma_owned:
  assumes own: "mm_owned s al b bs"
  obtains v t where "find_vma (block_ptr b) a s = ret (v, t)" "mm_owned t al b bs" "vmas t = vmas s"
    "areas t bs = areas s bs" "\<And>k. free_room k t = free_room k s" "vmm_same s t"
    "if v = 0 then \<forall>(st, en)\<in>set (areas s bs). \<not> (st \<le> a \<and> a < en)
     else (vm_start (vmas s v), vm_end (vmas s v)) \<in> set (areas s bs) \<and> vm_start (vmas s v) \<le> a \<and> a < vm_end (vmas s v)"
proof -
  obtain v t where v: "find_vma (block_ptr b) a s = ret (v, t)" "mm_rel t (block_ptr b) (map block_ptr bs)"
      "vmas t = vmas s" "if v = 0 then \<forall>w\<in>set (map block_ptr bs). \<not> vma_has (vmas s w) a
        else v \<in> set (map block_ptr bs) \<and> vma_has (vmas s v) a"
    using find_vma_spec own unfolding mm_owned_def by blast
  obtain m where t: "t = s\<lparr>mms := m\<rparr>" using find_vma_keeps [OF v(1)] by blast
  have "heap_inv s (al \<union> set (b # bs))" using own unfolding mm_owned_def by blast
  then have "heap_inv t (al \<union> set (b # bs))" by (rule heap_inv_cong) (simp_all add: t)
  then have "mm_owned t al b bs" using own v(2) unfolding mm_owned_def by blast
  moreover have "areas t bs = areas s bs" by (simp add: areas_def v(3))
  moreover have "free_room k t = free_room k s" for k by (rule free_room_cong) (simp_all add: t)
  moreover have "vmm_same s t" by (simp add: vmm_same_def t)
  moreover have "if v = 0 then \<forall>(st, en)\<in>set (areas s bs). \<not> (st \<le> a \<and> a < en)
     else (vm_start (vmas s v), vm_end (vmas s v)) \<in> set (areas s bs) \<and> vm_start (vmas s v) \<le> a \<and> a < vm_end (vmas s v)"
    using v(4) by (auto simp: areas_def vma_has_def split: if_splits)
  ultimately show ?thesis using that v(1,3) by blast
qed

subsection \<open>Destroying\<close>

lemma heap_same_free_room: "heap_same s t \<Longrightarrow> free_room k t = free_room k s"
  by (rule free_room_cong) (auto simp: heap_same_def)

lemma mm_destroy_loop_spec:
  assumes "heap_inv s (al \<union> set (b # bs))" and "cdll (mmap_links s) (LHead (block_ptr b)) (map (Link \<circ> block_ptr) bs)"
    and "distinct (b # bs)" and "set (b # bs) \<inter> al = {}"
  obtains t where "mm_destroy_loop (block_ptr b) s = ret t" "heap_inv t (insert b al)" "\<And>k. free_room k t = free_room k s"
    "vmm_same s t"
  using assms
proof (induction bs arbitrary: s thesis)
  case Nil
  have "list_next (mmap_links s) (LHead (block_ptr b)) = LHead (block_ptr b)"
    using cdll_next_last [of "mmap_links s" "LHead (block_ptr b)" "[]" "[]"] Nil.prems(3) by simp
  then have "mm_destroy_loop (block_ptr b) s = ret s" by (subst mm_destroy_loop.simps) simp
  then show ?case by (rule Nil.prems(1)) (use Nil.prems(2) vmm_same_refl in simp_all)
next
  case (Cons x bs)
  let ?h = "mmap_links s" and ?r = "LHead (block_ptr b) :: vnode"
  have first: "list_next ?h ?r = Link (block_ptr x)"
    using cdll_next_last [of ?h ?r "[]" "map (Link \<circ> block_ptr) (x # bs)"] Cons.prems(3)
    by (simp add: o_def)
  define s1 where "s1 = s\<lparr>mmap_links := list_del (Link (block_ptr x)) ?h\<rparr>"
  have "heap_inv s1 (al \<union> set (b # x # bs))"
    by (rule heap_inv_cong [OF Cons.prems(2)]) (simp_all add: s1_def)
  moreover obtain c n where x: "x = (c, n)" by (cases x)
  moreover have "(c, n) \<in> al \<union> set (b # x # bs)" by (simp add: x)
  ultimately obtain t where t: "kfree (unit_addr (c + 1)) s1 = ret t" "heap_inv t (al \<union> set (b # x # bs) - {(c, n)})"
      "heap_same s1 t" "kmem_same s1 t"
    by (metis kfree_spec)
  have ptr: "unit_addr (c + 1) = block_ptr x" by (simp add: x block_ptr_def)
  have run: "mm_destroy_loop (block_ptr b) s = mm_destroy_loop (block_ptr b) t"
    using first t(1)[unfolded ptr] by (subst mm_destroy_loop.simps) (simp add: s1_def)
  have "al \<union> set (b # x # bs) - {(c, n)} = al \<union> set (b # bs)" using Cons.prems(4,5) x by auto
  then have "heap_inv t (al \<union> set (b # bs))" using t(2) by simp
  moreover have "cdll (mmap_links t) ?r (map (Link \<circ> block_ptr) bs)"
    using cdll_del [of ?h ?r "[]"] Cons.prems(3) kmem_same_vmm(3) [OF t(4)]
    by (simp add: s1_def o_def)
  moreover have "distinct (b # bs)" "set (b # bs) \<inter> al = {}" using Cons.prems(4,5) by auto
  ultimately obtain u where "mm_destroy_loop (block_ptr b) t = ret u" "heap_inv u (insert b al)"
      "\<And>k. free_room k u = free_room k t" "vmm_same t u"
    using Cons.IH [of t] by blast
  moreover have "free_room k t = free_room k s" for k
    using heap_same_free_room [OF t(3)] free_room_cong [of s1 s k] by (simp add: s1_def)
  moreover have "vmm_same s t" using vmm_same_kmem [OF t(4)] by (simp add: vmm_same_def s1_def)
  ultimately show ?case
    by (intro Cons.prems(1) [of u]) (auto simp: run intro: vmm_same_trans [of s t])
qed

lemma mm_destroy_spec:
  assumes "mm_owned s al b bs"
  obtains t where "mm_destroy (block_ptr b) s = ret t" "heap_inv t al" "\<And>k. free_room k t = free_room k s" "vmm_same s t"
proof -
  have cd: "cdll (mmap_links s) (LHead (block_ptr b)) (map (Link \<circ> block_ptr) bs)"
    using assms by (simp add: mm_owned_def mm_rel_def)
  obtain t where t: "mm_destroy_loop (block_ptr b) s = ret t" "heap_inv t (insert b al)" "\<And>k. free_room k t = free_room k s"
      "vmm_same s t"
    using mm_destroy_loop_spec [OF _ cd] assms unfolding mm_owned_def by metis
  obtain c n where b: "b = (c, n)" by (cases b)
  have ptr: "unit_addr (c + 1) = block_ptr b" by (simp add: b block_ptr_def)
  obtain u where u: "kfree (unit_addr (c + 1)) t = ret u" "heap_inv u (insert b al - {(c, n)})" "heap_same t u" "kmem_same t u"
    using kfree_spec [OF t(2), of c n] b by blast
  have "insert b al - {(c, n)} = al" using assms b by (auto simp: mm_owned_def)
  moreover have "free_room k u = free_room k s" for k using heap_same_free_room [OF u(3)] t(3) by simp
  moreover have "vmm_same s u" by (rule vmm_same_trans [OF t(4) vmm_same_kmem [OF u(4)]])
  ultimately show ?thesis using that t(1) u(1,2) ptr by (simp add: mm_destroy_def)
qed

subsection \<open>The self-test\<close>

definition area :: "nat \<Rightarrow> u64 \<times> u64" where
  "area i = (of_nat (5 * i), of_nat (5 * i + 2))"

lemma unat_small: "n < 1000 \<Longrightarrow> unat (of_nat n :: u64) = n"
  by (rule unat_of_nat_u64) simp

lemma area_apart: "i \<noteq> j \<Longrightarrow> i \<le> 100 \<Longrightarrow> j \<le> 100 \<Longrightarrow> snd (area i) \<le> fst (area j) \<or> snd (area j) \<le> fst (area i)"
  unfolding area_def word_le_nat_alt by (simp only: fst_conv snd_conv, subst (1 2 3 4) unat_small) auto

lemma area_nonempty: "i \<le> 100 \<Longrightarrow> fst (area i) < snd (area i)"
  unfolding area_def word_less_nat_alt by (simp only: fst_conv snd_conv, subst (1 2) unat_small) auto

lemma area_inj: "i \<le> 100 \<Longrightarrow> j \<le> 100 \<Longrightarrow> area i = area j \<Longrightarrow> i = j"
  using area_apart [of i j] area_nonempty [of i] area_nonempty [of j] by force

lemma in_area:
  assumes "i \<le> 100" and "a < 600"
  shows "fst (area i) \<le> of_nat a \<and> of_nat a < snd (area i) \<longleftrightarrow> 5 * i \<le> a \<and> a < 5 * i + 2"
proof -
  have "unat (of_nat a :: u64) = a" "unat (of_nat (5 * i) :: u64) = 5 * i" "unat (of_nat (5 * i + 2) :: u64) = 5 * i + 2"
    using assms by (intro unat_small; simp)+
  then show ?thesis unfolding area_def word_le_nat_alt word_less_nat_alt fst_conv snd_conv by simp
qed

lemma check_insert_spec:
  assumes "mm_owned s al b bs" and "free_room (length is + Suc k) s" and "set (areas s bs) = area ` I"
    and "distinct is" and "set is \<inter> I = {}" and "set is \<union> I \<subseteq> {..100}"
  obtains t bs' where "check_insert (map of_nat is) (block_ptr b) s = ret t" "mm_owned t al b bs'"
    "free_room (Suc k) t" "set (areas t bs') = area ` (set is \<union> I)" "vmm_same s t"
  using assms
proof (induction "is" arbitrary: s bs I thesis)
  case Nil
  show ?case by (rule Nil.prems(1) [of s bs]) (use Nil.prems vmm_same_refl in simp_all)
next
  case (Cons i "is")
  let ?st = "of_nat i * 5 :: u64"
  have arith: "?st = fst (area i)" "?st + 2 = snd (area i)" by (simp_all add: area_def mult.commute)
  have i: "i \<le> 100" "i \<notin> I" using Cons.prems by auto
  have room: "free_room (Suc (length is + Suc k)) s" "0 < length is + Suc k" using Cons.prems(3) by simp_all
  have "?st < ?st + 2" unfolding arith(2) unfolding arith(1) by (rule area_nonempty [OF i(1)])
  moreover have "\<forall>(a, e)\<in>set (areas s bs). e \<le> ?st \<or> ?st + 2 \<le> a"
  proof
    fix p assume "p \<in> set (areas s bs)"
    then obtain j where j: "p = area j" "j \<in> I" using Cons.prems(4) by auto
    then have "snd (area j) \<le> fst (area i) \<or> snd (area i) \<le> fst (area j)"
      using area_apart [of j i] i Cons.prems(7) by auto
    then show "case p of (a, e) \<Rightarrow> e \<le> ?st \<or> ?st + 2 \<le> a"
      unfolding arith(2) unfolding arith(1) j(1) case_prod_unfold .
  qed
  ultimately obtain x t u ls rs where x: "vma_create ?st (?st + 2) 0 s = ret (block_ptr x, t)" "block_ptr x \<noteq> 0"
      "insert_vma_struct (block_ptr b) (block_ptr x) t = ret u" "mm_owned u al b (ls @ x # rs)" "bs = ls @ rs"
      "areas u (ls @ x # rs) = areas s ls @ (?st, ?st + 2) # areas s rs" "free_room (length is + Suc k) u" "vmm_same s u"
    using vma_enter_spec [OF Cons.prems(2) room] by metis
  have "(?st, ?st + 2) = area i" unfolding arith(2) unfolding arith(1) by simp
  then have "set (areas u (ls @ x # rs)) = area ` insert i I"
    using Cons.prems(4) unfolding x(5,6) by auto
  moreover have "set is \<inter> insert i I = {}" "set is \<union> insert i I \<subseteq> {..100}" "distinct is"
    using Cons.prems(5-7) by auto
  ultimately obtain v bs' where v: "check_insert (map of_nat is) (block_ptr b) u = ret v" "mm_owned v al b bs'"
      "free_room (Suc k) v" "set (areas v bs') = area ` (set is \<union> insert i I)" "vmm_same u v"
    using Cons.IH [OF _ x(4,7)] by metis
  have "check_insert (map of_nat (i # is)) (block_ptr b) s = ret v" using x(1-3) v(1) by simp
  then show ?case using Cons.prems(1) v(2-4) vmm_same_trans [OF x(8) v(5)] by simp
qed

text \<open>The areas of a full test lie in the list in the order of their numbers.\<close>

lemma areas_sorted:
  assumes "mm_owned s al b bs" and "set (areas s bs) = area ` set [1..<101]"
  shows "areas s bs = map area [1..<101]"
proof -
  let ?key = "\<lambda>p :: u64 \<times> u64. unat (fst p)"
  have key: "?key (area i) = 5 * i" if "i \<le> 100" for i
    unfolding area_def fst_conv by (rule unat_small) (use that in simp)
  have "sorted_wrt (\<lambda>p q. fst p < fst q) (areas s bs)"
  proof -
    have ok: "vmas_ok (vmas s) (map block_ptr bs)" using assms(1) by (simp add: mm_owned_def mm_rel_def)
    then have "sorted_wrt (\<lambda>x y. vm_end (vmas s (block_ptr x)) \<le> vm_start (vmas s (block_ptr y))) bs"
      by (simp add: vmas_ok_def sorted_wrt_map)
    moreover have "\<forall>x\<in>set bs. vm_start (vmas s (block_ptr x)) < vm_end (vmas s (block_ptr x))"
      using ok by (simp add: vmas_ok_def)
    ultimately have "sorted_wrt (\<lambda>x y. vm_start (vmas s (block_ptr x)) < vm_start (vmas s (block_ptr y))) bs"
      by (auto elim!: sorted_wrt_mono_rel [rotated] intro: order_less_le_trans)
    then show ?thesis by (simp add: areas_def sorted_wrt_map)
  qed
  then have "sorted_wrt (<) (map ?key (areas s bs))" by (simp add: sorted_wrt_map word_less_nat_alt)
  moreover have "sorted_wrt (<) (map (\<lambda>i. 5 * i) [1..<101 :: nat])"
    unfolding sorted_wrt_map by (rule sorted_wrt_mono_rel [OF _ sorted_wrt_upt]) simp
  moreover have "set (map ?key (areas s bs)) = set (map (\<lambda>i. 5 * i) [1..<101 :: nat])"
    using assms(2) key by (auto simp: image_image intro!: image_cong)
  ultimately have keys: "map ?key (areas s bs) = map (\<lambda>i. 5 * i) [1..<101]"
    using strict_sorted_equal by metis
  have "areas s bs = map (\<lambda>p. area (?key p div 5)) (areas s bs)"
  proof (rule map_idI [symmetric])
    fix p assume "p \<in> set (areas s bs)"
    then obtain i where "p = area i" "i \<le> 100" using assms(2) by auto
    then show "area (?key p div 5) = p" using key by simp
  qed
  also have "\<dots> = map (\<lambda>n. area (n div 5)) (map ?key (areas s bs))" by simp
  also have "\<dots> = map area [1..<101]" unfolding keys map_map by (rule map_cong) simp_all
  finally show ?thesis .
qed

lemma check_order_spec:
  assumes "areas s bs = map area ns" and "npath (mmap_links s) le (map (\<lambda>x. Link (block_ptr x)) bs) (LHead mm)"
  shows "check_order (map of_nat ns) mm (list_next (mmap_links s) le) s = ret s"
  using assms
proof (induction ns arbitrary: le bs)
  case (Cons n ns)
  then obtain x bs' where bs: "bs = x # bs'" by (cases bs) (auto simp: areas_def)
  then have x: "list_next (mmap_links s) le = Link (block_ptr x)"
      "npath (mmap_links s) (Link (block_ptr x)) (map (\<lambda>x. Link (block_ptr x)) bs') (LHead mm)"
      "vm_start (vmas s (block_ptr x)) = of_nat n * 5" "vm_end (vmas s (block_ptr x)) = of_nat n * 5 + 2"
      "areas s bs' = map area ns"
    using Cons.prems by (simp_all add: areas_Cons area_def mult.commute)
  from Cons.IH [OF x(5,2)] show ?case by (simp add: x(1,3,4))
qed simp

text \<open>Looking up changes nothing but the caches of the address spaces.\<close>

definition look_same :: "'z vma_state_scheme \<Rightarrow> 'z vma_state_scheme \<Rightarrow> bool" where
  "look_same s t \<longleftrightarrow> vmas t = vmas s \<and> vmm_same s t \<and> (\<forall>k. free_room k t = free_room k s)"

lemma look_same_refl: "look_same s s"
  by (simp add: look_same_def vmm_same_refl)

lemma look_same_trans: "look_same s t \<Longrightarrow> look_same t u \<Longrightarrow> look_same s u"
  by (auto simp: look_same_def intro: vmm_same_trans)

lemma look_same_vmas: "look_same s t \<Longrightarrow> vmas t = vmas s"
  by (simp add: look_same_def)

definition full_mm :: "'z vma_state_scheme \<Rightarrow> block set \<Rightarrow> block \<Rightarrow> block list \<Rightarrow> bool" where
  "full_mm s al b bs \<longleftrightarrow> mm_owned s al b bs \<and> areas s bs = map area [1..<101]"

lemma find_full:
  assumes "full_mm s al b bs" and "a < 600"
  obtains v t where "find_vma (block_ptr b) (of_nat a) s = ret (v, t)" "full_mm t al b bs" "look_same s t"
    "if 5 \<le> a \<and> a < 505 \<and> a mod 5 < 2
     then v \<noteq> 0 \<and> vm_start (vmas s v) = of_nat (5 * (a div 5)) \<and> vm_end (vmas s v) = of_nat (5 * (a div 5) + 2)
     else v = 0"
proof -
  obtain v t where v: "find_vma (block_ptr b) (of_nat a) s = ret (v, t)" "mm_owned t al b bs" "vmas t = vmas s"
      "areas t bs = areas s bs" "\<And>k. free_room k t = free_room k s" "vmm_same s t"
      "if v = 0 then \<forall>(st, en)\<in>set (areas s bs). \<not> (st \<le> of_nat a \<and> of_nat a < en)
       else (vm_start (vmas s v), vm_end (vmas s v)) \<in> set (areas s bs) \<and> vm_start (vmas s v) \<le> of_nat a \<and> of_nat a < vm_end (vmas s v)"
    using find_vma_owned [of s al b bs "of_nat a"] assms(1) unfolding full_mm_def by blast
  have set_areas: "set (areas s bs) = area ` {1..100}" using assms(1) by (auto simp: full_mm_def)
  have hit: "fst (area i) \<le> of_nat a \<and> of_nat a < snd (area i) \<longleftrightarrow> i = a div 5 \<and> a mod 5 < 2" if "i \<le> 100" for i
  proof -
    have "5 * i \<le> 5 * q + r \<and> 5 * q + r < 5 * i + 2 \<longleftrightarrow> i = q \<and> r < 2" if "r < 5" for q r :: nat
      using that by (cases i q rule: linorder_cases) linarith+
    from this [of "a mod 5" "a div 5"] show ?thesis unfolding in_area [OF that assms(2)] by simp
  qed
  have "if 5 \<le> a \<and> a < 505 \<and> a mod 5 < 2
     then v \<noteq> 0 \<and> vm_start (vmas s v) = of_nat (5 * (a div 5)) \<and> vm_end (vmas s v) = of_nat (5 * (a div 5) + 2)
     else v = 0"
  proof (cases "v = 0")
    case True
    then have "\<not> (i = a div 5 \<and> a mod 5 < 2)" if "1 \<le> i" "i \<le> 100" for i
      using v(7) hit [OF that(2)] that unfolding if_P [OF True] set_areas by (auto simp: case_prod_unfold)
    from this [of "a div 5"] have "\<not> (5 \<le> a \<and> a < 505 \<and> a mod 5 < 2)" by auto
    then show ?thesis using True by simp
  next
    case False
    then obtain i where i: "(vm_start (vmas s v), vm_end (vmas s v)) = area i" "1 \<le> i" "i \<le> 100"
        "vm_start (vmas s v) \<le> of_nat a \<and> of_nat a < vm_end (vmas s v)"
      using v(7) unfolding if_not_P [OF False] set_areas by auto
    then have se: "vm_start (vmas s v) = fst (area i)" "vm_end (vmas s v) = snd (area i)" by (metis fst_conv, metis snd_conv)
    then have "i = a div 5" "a mod 5 < 2" using i(4) hit [OF i(3)] by auto
    moreover from this i(2,3) have "5 \<le> a" "a < 505" by auto
    ultimately show ?thesis using False se by (simp add: area_def)
  qed
  moreover have "full_mm t al b bs" using v(2,4) assms(1) by (simp add: full_mm_def)
  moreover have "look_same s t" using v(3,5,6) by (simp add: look_same_def)
  ultimately show ?thesis using that v(1) by blast
qed

lemma find_full_hit:
  assumes "full_mm s al b bs" and "1 \<le> n" "n \<le> 100" "k < 2"
  obtains v t where "find_vma (block_ptr b) (of_nat (5 * n + k)) s = ret (v, t)" "full_mm t al b bs" "look_same s t"
    "v \<noteq> 0" "vm_start (vmas s v) = of_nat (5 * n)" "vm_end (vmas s v) = of_nat (5 * n + 2)"
proof -
  have cond: "5 \<le> 5 * n + k \<and> 5 * n + k < 505 \<and> (5 * n + k) mod 5 < 2" "(5 * n + k) div 5 = n" "5 * n + k < 600"
    using assms(2-4) by auto
  show ?thesis using find_full [OF assms(1) cond(3)] that unfolding if_P [OF cond(1)] cond(2) by metis
qed

lemma find_full_miss:
  assumes "full_mm s al b bs" and "a < 600" and "a < 5 \<or> 2 \<le> a mod 5"
  obtains t where "find_vma (block_ptr b) (of_nat a) s = ret (0, t)" "full_mm t al b bs" "look_same s t"
proof -
  have cond: "\<not> (5 \<le> a \<and> a < 505 \<and> a mod 5 < 2)" using assms(3) by auto
  show ?thesis using find_full [OF assms(1,2)] that unfolding if_not_P [OF cond] by metis
qed

lemma check_finds_spec:
  assumes "full_mm s al b bs" and "set ns \<subseteq> {1..100}"
  obtains t where "check_finds (map (\<lambda>i. of_nat (5 * i)) ns) (block_ptr b) s = ret t" "full_mm t al b bs" "look_same s t"
  using assms
proof (induction ns arbitrary: s thesis)
  case (Cons n ns)
  let ?a = "5 * n" and ?mm = "block_ptr b"
  have n: "1 \<le> n" "n \<le> 100" using Cons.prems(3) by auto
  obtain v1 s1 where s1: "find_vma ?mm (of_nat (?a + 0)) s = ret (v1, s1)" "full_mm s1 al b bs" "look_same s s1" "v1 \<noteq> 0"
      "vm_start (vmas s v1) = of_nat ?a" "vm_end (vmas s v1) = of_nat (?a + 2)"
    using find_full_hit [OF Cons.prems(2) n, of 0] by auto
  obtain v2 s2 where s2: "find_vma ?mm (of_nat (?a + 1)) s1 = ret (v2, s2)" "full_mm s2 al b bs" "look_same s1 s2"
      "v2 \<noteq> 0" "vm_start (vmas s1 v2) = of_nat ?a" "vm_end (vmas s1 v2) = of_nat (?a + 2)"
    using find_full_hit [OF s1(2) n, of 1] by auto
  have miss: "?a + k < 600 \<and> 2 \<le> (?a + k) mod 5" if "2 \<le> k" "k < 5" for k using that n by auto
  obtain s3 where s3: "find_vma ?mm (of_nat (?a + 2)) s2 = ret (0, s3)" "full_mm s3 al b bs" "look_same s2 s3"
    using find_full_miss [OF s2(2), of "?a + 2"] miss [of 2] by auto
  obtain s4 where s4: "find_vma ?mm (of_nat (?a + 3)) s3 = ret (0, s4)" "full_mm s4 al b bs" "look_same s3 s4"
    using find_full_miss [OF s3(2), of "?a + 3"] miss [of 3] by auto
  obtain s5 where s5: "find_vma ?mm (of_nat (?a + 4)) s4 = ret (0, s5)" "full_mm s5 al b bs" "look_same s4 s5"
    using find_full_miss [OF s4(2), of "?a + 4"] miss [of 4] by auto
  obtain t where t: "check_finds (map (\<lambda>i. of_nat (5 * i)) ns) ?mm s5 = ret t" "full_mm t al b bs" "look_same s5 t"
    using Cons.IH [OF _ s5(2)] Cons.prems(3) by auto
  have plus: "of_nat (?a + k) = (of_nat ?a + of_nat k :: u64)" for k by simp
  have "check_finds (map (\<lambda>i. of_nat (5 * i)) (n # ns)) ?mm s = ret t"
    using s1(1,4-6) s2(1,4-6) s3(1) s4(1) s5(1) t(1) look_same_vmas [OF s1(3)] look_same_vmas [OF s2(3)]
      look_same_vmas [OF s3(3)] look_same_vmas [OF s4(3)] look_same_vmas [OF s5(3)]
    unfolding plus by simp
  moreover have "look_same s t"
    using s1(3) s2(3) s3(3) s4(3) s5(3) t(3) look_same_trans by blast
  ultimately show ?case using Cons.prems(1) t(2) by blast
qed (use look_same_refl in auto)

lemma check_below_spec:
  assumes "full_mm s al b bs" and "\<forall>n\<in>set ns. n < 5"
  obtains t where "check_below (map of_nat ns) (block_ptr b) s = ret t" "full_mm t al b bs" "look_same s t"
  using assms
proof (induction ns arbitrary: s thesis)
  case (Cons n ns)
  obtain u where u: "find_vma (block_ptr b) (of_nat n) s = ret (0, u)" "full_mm u al b bs" "look_same s u"
    using find_full_miss [OF Cons.prems(2), of n] Cons.prems(3) by auto
  obtain t where "check_below (map of_nat ns) (block_ptr b) u = ret t" "full_mm t al b bs" "look_same u t"
    using Cons.IH [OF _ u(2)] Cons.prems(3) by auto
  then show ?case using Cons.prems(1) [of t] u(1) look_same_trans [OF u(3)] by simp
qed (use look_same_refl in auto)

lemma vmm_init_spec:
  assumes "heap_inv s al" and "free_room (103 + k) s"
  obtains t where "vmm_init s = ret t" "heap_inv t al" "free_room (Suc (Suc k)) t" "vmm_same s t"
proof -
  have "free_room (Suc (102 + k)) s" using assms(2) by simp
  then obtain b s1 where s1: "mm_create s = ret (block_ptr b, s1)" "block_ptr b \<noteq> 0" "mm_owned s1 al b []" "free_room (102 + k) s1" "vmm_same s s1"
    using mm_create_spec [OF assms(1), of "102 + k"] by auto
  have none: "set (areas s1 []) = area ` {}" by (simp add: areas_def)
  have room1: "free_room (length (rev [1..<11]) + Suc (91 + k)) s1" using s1(4) by simp
  have first: "distinct (rev [1..<11 :: nat])" "set (rev [1..<11 :: nat]) \<inter> {} = {}"
    "set (rev [1..<11 :: nat]) \<union> {} \<subseteq> {..100}" by auto
  obtain s2 bs where s2: "check_insert (map of_nat (rev [1..<11])) (block_ptr b) s1 = ret s2"
      "mm_owned s2 al b bs" "free_room (Suc (91 + k)) s2" "set (areas s2 bs) = area ` (set (rev [1..<11]) \<union> {})" "vmm_same s1 s2"
    by (rule check_insert_spec [OF s1(3) room1 none first]) blast
  have "length [11..<101] + Suc (Suc k) = Suc (91 + k)" by simp
  then have room2: "free_room (length [11..<101] + Suc (Suc k)) s2" using s2(3) by (simp only:)
  have second: "distinct [11..<101 :: nat]" "set [11..<101 :: nat] \<inter> (set (rev [1..<11]) \<union> {}) = {}"
    "set [11..<101 :: nat] \<union> (set (rev [1..<11]) \<union> {}) \<subseteq> {..100}" by auto
  obtain s3 bs3 where s3: "check_insert (map of_nat [11..<101]) (block_ptr b) s2 = ret s3"
      "mm_owned s3 al b bs3" "free_room (Suc (Suc k)) s3" "vmm_same s2 s3" "set (areas s3 bs3) = area ` (set [11..<101] \<union> (set (rev [1..<11]) \<union> {}))"
    by (rule check_insert_spec [OF s2(2) room2 s2(4) second]) blast
  have "set [11..<101] \<union> (set (rev [1..<11]) \<union> {}) = set [1..<101 :: nat]" unfolding set_rev set_upt by auto
  then have areas3: "areas s3 bs3 = map area [1..<101]" using areas_sorted [OF s3(2)] s3(5) by simp
  then have full: "full_mm s3 al b bs3" using s3(2) by (simp add: full_mm_def)
  have "npath (mmap_links s3) (LHead (block_ptr b)) (map (\<lambda>x. Link (block_ptr x)) bs3) (LHead (block_ptr b))"
    using s3(2) by (auto simp: mm_owned_def mm_rel_def o_def dest: cdll_npath)
  then have order: "check_order (map of_nat [1..<101]) (block_ptr b)
      (list_next (mmap_links s3) (LHead (block_ptr b))) s3 = ret s3"
    by (rule check_order_spec [OF areas3])
  obtain s4 where s4: "check_finds (map (\<lambda>i. of_nat (5 * i)) [1..<101]) (block_ptr b) s3 = ret s4" "full_mm s4 al b bs3" "look_same s3 s4"
    by (rule check_finds_spec [OF full, of "[1..<101]"]) (unfold set_upt, auto)
  obtain s5 where s5: "check_below (map of_nat [4, 3, 2, 1, 0]) (block_ptr b) s4 = ret s5" "full_mm s5 al b bs3" "look_same s4 s5"
    by (rule check_below_spec [OF s4(2), of "[4, 3, 2, 1, 0]"]) auto
  obtain s6 where s6: "mm_destroy (block_ptr b) s5 = ret s6" "heap_inv s6 al" "\<And>k. free_room k s6 = free_room k s5" "vmm_same s5 s6"
    using mm_destroy_spec s5(2) unfolding full_mm_def by blast
  define t where "t = say ''check_vmm() succeeded.\<newline>'' [] (say ''check_vma_struct() succeeded!\<newline>'' [] s6)"
  have "vmm_init s = ret t"
    unfolding vmm_init_def check_vmm_def check_vma_struct_def t_def
    using s1(1,2) s2(1) s3(1) order s4(1) s5(1) s6(1) by simp
  moreover have "heap_inv t al" by (rule heap_inv_cong [OF s6(2)]) (simp_all add: t_def say_def)
  moreover have "free_room (Suc (Suc k)) t"
    using s3(3) s4(3) s5(3) s6(3) free_room_cong [of t s6 "Suc (Suc k)"] by (simp add: look_same_def t_def say_def)
  moreover have "vmm_same s t"
  proof -
    have "vmm_same s3 s4" "vmm_same s4 s5" "vmm_same s6 t"
      using s4(3) s5(3) by (simp_all add: look_same_def) (simp add: vmm_same_def t_def say_def)
    then show ?thesis using s1(5) s2(5) s3(4) s6(4) vmm_same_trans by blast
  qed
  ultimately show ?thesis by (rule that)
qed

text \<open>C36. The self-test of the address spaces, which \<open>vmm_init\<close> runs at boot, passes from every well-formed
  heap with 103 free pages in a row: it creates an address space, enters a hundred areas out of order,
  finds them in order, looks every address up and destroys the space; no assertion fails, no loop goes on
  for ever, and the blocks of the heap in use are afterwards the ones of before.\<close>

theorem vmm_init_passes:
  assumes "heap_inv s al" and "free_room 103 s"
  shows "\<exists>t. vmm_init s = ret t \<and> heap_inv t al"
  by (rule vmm_init_spec [OF assms(1), of 0]) (use assms(2) in auto)

definition big_machine :: vma_state where
  "big_machine = two_vmas\<lparr>pages := \<lambda>j. if j = 4 then \<lparr>p_ref = 0, p_flags = 2, p_property = 128\<rparr>
                 else if 4 < j \<and> j < 132 then \<lparr>p_ref = 0, p_flags = 0, p_property = 0\<rparr>
                 else cold_page,
     npage := 0x80090, va_pa_offset := PHYSICAL_MEMORY_OFFSET,
     free_list := \<lparr>le_prev = (\<lambda>_. FreeHead)(FreeHead := Link 4), le_next = (\<lambda>_. FreeHead)(FreeHead := Link 4)\<rparr>,
     nr_free := 128, arena := unit_addr (frame_unit 0)\<rparr>"

lemma vmm_init_passes_witness:
  "\<exists>t. vmm_init (heap_init big_machine) = ret t \<and> heap_inv t {}"
proof -
  have free: "free_rel big_machine [(4, 128)]"
    by (auto simp: free_rel_def rep_blocks_def cdll_def list_next_def list_prev_def blocks_simps
      flags_ok_def head_flags_def big_machine_def PageReserved_def PageProperty_def
      test_bit_word_def PG_reserved_def PG_property_def BITS_PER_LONG_def)
  have inv: "heap_inv (heap_init big_machine) {}"
  proof (rule heap_inv_boot)
    show "arena big_machine = unit_addr (frame_unit 0)" by (simp add: big_machine_def)
    show "vm_ok big_machine" by (simp add: vm_ok_def big_machine_def)
    show "\<exists>fs. free_rel big_machine fs" using free by blast
    show "\<forall>f\<in>free_frames big_machine. valid_frame big_machine f \<and> f < 0x3FFFF \<and> frame_unit 0 + 2 \<le> frame_unit f"
      using free_frames_eq [OF free] by (auto simp: valid_frame_def big_machine_def frame_unit_def)
  qed (simp add: frame_unit_def)
  have "free_rel (heap_init big_machine) [(4, 128)]"
    using free free_rel_cong [of "heap_init big_machine" big_machine]
    by (simp add: heap_init_def set_units_def set_next_block_def)
  then have "free_room 103 (heap_init big_machine)" unfolding free_room_def by (intro exI [of _ "[(4, 128)]"]) simp
  then show ?thesis by (rule vmm_init_passes [OF inv])
qed

end
