(* ===== verification/Init.thy ===== *)
theory Init
  imports PmmInit Dtb Monitor VmmCheck Trap
begin

unbundle bit_operations_syntax

text \<open>
  The start of the kernel: kern/init/entry.S, from the first instruction to the jump to \<open>kern_init\<close>, and
  \<open>kern_init\<close> of kern/init/init.c, which calls the initialisation of every component in turn and ends in
  the loop of the idle process.
\<close>

subsection \<open>entry.S\<close>

text \<open>\<open>lui rd, %hi(a)\<close> loads the upper twenty bits of a 32-bit value, sign-extended, and \<open>%lo(a)\<close> are the
  lower twelve bits, sign-extended too.\<close>

definition lui_hi :: "u64 \<Rightarrow> u64" where
  "lui_hi a = scast (ucast ((a + 0x800) AND NOT 0xFFF) :: u32)"

definition addr_lo :: "u64 \<Rightarrow> u64" where
  "addr_lo a = scast (ucast a :: 12 word)"

record entry_addrs =
  e_page_table :: u64
  e_bootstacktop :: u64
  e_kern_init :: u64

text \<open>The entries of the page table in the data section of the kernel.\<close>

definition boot_page_table_sv39 :: "u64 list" where
  "boot_page_table_sv39 = replicate 511 0 @ [push_bit 10 0x80000 OR 0xcf]"

text \<open>The firmware passes the number of the hart in \<open>a0\<close> and the address of the device tree in \<open>a1\<close>. The
  two stores go to the physical addresses of the variables, as the \<open>la\<close> is relative to the program counter.\<close>

definition kern_entry :: "entry_addrs \<Rightarrow> 'z trap_state_scheme \<Rightarrow> 'z trap_state_scheme" where
  "kern_entry a s =
     (let s = s\<lparr>boot_hartid := regs s G_a0\<rparr>;
          s = s\<lparr>boot_dtb := regs s G_a1\<rparr>;
          s = set_reg G_t0 (lui_hi (e_page_table a)) s;
          s = set_reg G_t1 (0xffffffffc0000000 - 0x80000000) s;
          s = set_reg G_t0 (regs s G_t0 - regs s G_t1) s;
          s = set_reg G_t0 (drop_bit 12 (regs s G_t0)) s;
          s = set_reg G_t1 (push_bit 60 8) s;
          s = set_reg G_t0 (regs s G_t0 OR regs s G_t1) s;
          s = s\<lparr>satp := regs s G_t0\<rparr>;
          s = flush_tlb s;
          s = set_reg G_sp (lui_hi (e_bootstacktop a)) s;
          s = set_reg G_t0 (lui_hi (e_kern_init a)) s;
          s = set_reg G_t0 (regs s G_t0 + addr_lo (e_kern_init a)) s
      in s\<lparr>pc := regs s G_t0\<rparr>)"

subsection \<open>init.c\<close>

text \<open>The section from \<open>edata\<close> to \<open>end\<close> holds the variables without an initial value or with the value
  0. The list heads among them are not read before their own initialisation and are left out here.\<close>

definition clear_bss :: "u64 \<Rightarrow> u64 \<Rightarrow> 'z io_state_scheme \<Rightarrow> 'z io_state_scheme" where
  "clear_bss edata kend s =
     s\<lparr>bytes := memset edata 0 (kend - edata) (bytes s), npage := 0, va_pa_offset := 0, nr_free := 0,
       boot_pgdir_va := 0, boot_pgdir_pa := 0, bigblocks := 0, idleproc := 0, initproc := 0, current := 0,
       nr_process := 0, ticks := 0, timebase := 0, tick_prints := 0, is_panic := False, memory_base := 0,
       memory_size := 0\<rparr>"

text \<open>The addresses the linker gives to the symbols and literals of the program.\<close>

record init_addrs =
  i_mon :: mon_addrs
  i_dtb :: dtb_lits
  i_proc :: proc_addrs
  i_alltraps :: u64
  i_page_table :: u64
  i_str :: u64

text \<open>\<open>kern_init\<close> up to the call of \<open>cpu_idle\<close>.\<close>

definition kern_init :: "init_addrs \<Rightarrow> 'z io_state_scheme \<Rightarrow> 'z io_state_scheme run" where
  "kern_init a s =
     (let s = clear_bss (a_edata (i_mon a)) (a_end (i_mon a)) s in
      run_bind (loop_run (dtb_init (i_dtb a) s)) (\<lambda>s.
      let s = cons_init s;
          s = say ''%s\<newline>\<newline>'' [CStr ''(THU.CST) os is loading ...''] s;
          s = print_kerninfo (i_mon a) s in
      run_bind (pmm_init (a_end (i_mon a)) (i_page_table a) (get_memory_base s) (get_memory_size s) (i_str a) s) (\<lambda>s.
      let s = pic_init s;
          s = idt_init (i_alltraps a) s in
      run_bind (vmm_init s) (\<lambda>s.
      run_bind (proc_init (i_proc a) s) (\<lambda>s.
      let s = clock_init s in
      ret (intr_enable s))))))"

end
