(* ===== verification/PmmBoot.thy ===== *)
theory PmmBoot
  imports PmmCheck
begin

unbundle bit_operations_syntax

text \<open>
  The self-test of the page allocator on any machine: a table whose first index is a variable describes the
  pages the test touches, so that the test can be evaluated with the number of the first free page and the
  size of the free block left open.
\<close>

subsection \<open>Tables with an offset\<close>

definition tabo :: "nat \<Rightarrow> 'a list \<Rightarrow> (nat \<Rightarrow> 'a) \<Rightarrow> nat \<Rightarrow> 'a" where
  "tabo b xs d i = (if b \<le> i \<and> i < b + length xs then xs ! (i - b) else d i)"

lemma tabo_upd:
  "0 < length xs \<Longrightarrow> (tabo b xs d)(b := v) = tabo b (xs[0 := v]) d"
  "k < length xs \<Longrightarrow> (tabo b xs d)(b + k := v) = tabo b (xs[k := v]) d"
  "Suc 0 < length xs \<Longrightarrow> (tabo b xs d)(Suc b := v) = tabo b (xs[Suc 0 := v]) d"
  by (auto simp: tabo_def fun_eq_iff nth_list_update)

lemma tabo_app:
  "0 < length xs \<Longrightarrow> tabo b xs d b = xs ! 0"
  "k < length xs \<Longrightarrow> tabo b xs d (b + k) = xs ! k"
  "Suc 0 < length xs \<Longrightarrow> tabo b xs d (Suc b) = xs ! Suc 0"
  by (simp_all add: tabo_def)

lemma tabo_self: "tabo b (map f [b..<b + k]) f = f"
  by (auto simp: tabo_def fun_eq_iff)

definition tabno :: "nat \<Rightarrow> 'a \<Rightarrow> 'a list \<Rightarrow> (nat \<Rightarrow> 'a) \<Rightarrow> pnode \<Rightarrow> 'a" where
  "tabno b r xs d n = (case n of LHead _ \<Rightarrow> r | Link i \<Rightarrow> tabo b xs d i)"

lemma tabno_upd:
  "(tabno b r xs d)(LHead u := v) = tabno b v xs d"
  "(tabno b r xs d)(Link i := v) = (\<lambda>n. case n of LHead _ \<Rightarrow> r | Link j \<Rightarrow> ((tabo b xs d)(i := v)) j)"
  by (auto simp: tabno_def fun_eq_iff split: lnode.splits)

lemma tabno_fold: "(\<lambda>n. case n of LHead _ \<Rightarrow> r | Link j \<Rightarrow> tabo b xs d j) = tabno b r xs d"
  by (simp add: tabno_def fun_eq_iff)

lemma tabno_app: "tabno b r xs d (LHead u) = r" "tabno b r xs d (Link i) = tabo b xs d i"
  by (simp_all add: tabno_def)

lemmas tabo_eval = tabo_upd tabo_app tabno_upd tabno_fold tabno_app

lemma ucast_of_int_u32: "(ucast (of_int k :: u64) :: u32) = of_int k"
  by (rule bit_word_eqI) (simp add: bit_ucast_iff bit_of_int_iff)

lemma ucast_diff: "(ucast (a - y :: u64) :: u32) = ucast a - ucast y"
proof -
  have "(ucast (word_of_int (uint a - uint y) :: u64) :: u32) = word_of_int (uint a - uint y)"
    by (rule ucast_of_int_u32)
  moreover have "a - y = word_of_int (uint a - uint y)" by (simp only: of_int_diff word_of_int_uint)
  moreover have "(ucast a :: u32) = word_of_int (uint a)" "(ucast y :: u32) = word_of_int (uint y)"
    by (rule ucast_eq)+
  ultimately show ?thesis by (simp only: of_int_diff)
qed

lemma ucast_up_down: "(ucast (ucast (x :: u32) :: u64) :: u32) = x"
  by (rule bit_word_eqI) (simp add: bit_ucast_iff)

lemma ucast_ucast_minus: "(ucast (ucast (x :: u32) - y :: u64) :: u32) = x - ucast y"
  by (simp only: ucast_diff ucast_up_down)

lemma Suc_offset: "Suc (Suc i) = i + 2" "Suc (i + numeral k) = i + numeral (k + num.One)"
    "numeral k + i = i + numeral k"
  by simp_all

lemmas word_size_eval = ucast_ucast_minus ucast_up_down

subsection \<open>The test on a block of any size\<close>

text \<open>A free block as \<open>page_init\<close> leaves it: no flag but that of the first page, no reference.\<close>

definition fresh_block :: "'z pmm_state_scheme \<Rightarrow> nat \<Rightarrow> nat \<Rightarrow> bool" where
  "fresh_block s b n \<longleftrightarrow> free_rel s [(b, n)] \<and> p_flags (pages s b) = 2 \<and>
     (\<forall>j\<in>{b<..<b + n}. p_flags (pages s j) = 0)"

text \<open>The state during the test: the first six pages of the block \<open>b\<close> and the links between them.\<close>

definition bst :: "nat \<Rightarrow> page list \<Rightarrow> pnode \<Rightarrow> pnode list \<Rightarrow> pnode \<Rightarrow> pnode list \<Rightarrow> u32 \<Rightarrow>
    (nat \<Rightarrow> page) \<Rightarrow> (nat \<Rightarrow> pnode) \<Rightarrow> (nat \<Rightarrow> pnode) \<Rightarrow> 'z pmm_state_scheme \<Rightarrow> 'z pmm_state_scheme" where
  "bst b ps pr prs nx nxs nr pg hp hn s =
     s\<lparr>pages := tabo b ps pg, free_list := \<lparr>le_prev = tabno b pr prs hp, le_next = tabno b nx nxs hn\<rparr>, nr_free := nr\<rparr>"

abbreviation fpg :: "u32 \<Rightarrow> page" where "fpg q \<equiv> \<lparr>p_ref = 0, p_flags = 0, p_property = q\<rparr>"

text \<open>The block as the first six entries of the tables show it.\<close>

abbreviation whole :: "nat \<Rightarrow> u32 \<Rightarrow> u32 list \<Rightarrow> pnode list \<Rightarrow> pnode list \<Rightarrow> (nat \<Rightarrow> page) \<Rightarrow>
    (nat \<Rightarrow> pnode) \<Rightarrow> (nat \<Rightarrow> pnode) \<Rightarrow> 'z pmm_state_scheme \<Rightarrow> 'z pmm_state_scheme" where
  "whole b M qs xs ys pg hp hn s \<equiv>
     bst b (\<lparr>p_ref = 0, p_flags = 2, p_property = 6 + M\<rparr> # map fpg qs) (Link b) (FreeHead # xs)
       (Link b) (FreeHead # ys) (6 + M) pg hp hn s"

definition room6 :: "u32 \<Rightarrow> bool" where
  "room6 M \<longleftrightarrow> unat M + 6 < 2 ^ 31"

lemma room6:
  assumes "room6 M"
  shows "unat (6 + M) = unat M + 6" "unat (5 + M) = unat M + 5" "unat (4 + M) = unat M + 4"
    "unat (3 + M) = unat M + 3" "unat (2 + M) = unat M + 2" "unat (1 + M) = unat M + 1"
  using assms by (simp_all add: room6_def unat_add_u32)

lemma basic_check_run:
  assumes "sstatus s AND 2 = 0" and "room6 M"
    and "page2pa b < npage s * PGSIZE" "page2pa (b + 1) < npage s * PGSIZE" "page2pa (b + 2) < npage s * PGSIZE"
  shows "basic_check (whole b M [q1, q2, q3, q4, q5] [x1, x2, x3, x4, x5] [y1, y2, y3, y4, y5] pg hp hn s) =
    ret (whole b M [1, 1, 3 + M, q4, q5] [Link b, Link b, Link b, x4, x5]
      [Link (b + 3), Link (b + 3), FreeHead, y4, y5] pg hp hn s)"
  using assms(1,3-) room6 [OF assms(2)] by (simp add: bst_def basic_check_def
      check_eval run_eval tabo_eval word_size_eval Suc_offset del: add_2_eq_Suc add_2_eq_Suc' cong: eval_congs)

lemma check_splits_run:
  assumes "sstatus s AND 2 = 0" and "room6 M"
  shows "check_splits (whole b M [q1, q2, q3, q4, q5] [x1, x2, x3, x4, x5] [y1, y2, y3, y4, y5] pg hp hn s) =
    ret (whole b M [1, 3, q3, 1, 1 + M] [Link b, Link b, x3, Link (b + 2), Link b]
      [Link (b + 2), FreeHead, y3, FreeHead, FreeHead] pg hp hn s)"
  using assms(1) room6 [OF assms(2)] by (simp add: bst_def check_splits_def
      check_eval run_eval tabo_eval word_size_eval Suc_offset del: add_2_eq_Suc add_2_eq_Suc' cong: eval_congs)

lemma counts_run:
  "count_up (pages (whole b M qs xs ys pg hp hn s)) (free_list (whole b M qs xs ys pg hp hn s)) FreeHead (0, 0) =
     ret (1, 6 + M)"
  "count_down (pages (whole b M qs xs ys pg hp hn s)) (free_list (whole b M qs xs ys pg hp hn s)) FreeHead (1, 6 + M) =
     ret (0, 0)"
  by (simp_all add: bst_def check_eval run_eval tabo_eval)

lemma scast_small: "unat (w :: u32) < 2 ^ 31 \<Longrightarrow> (scast w :: u64) = ucast w"
proof -
  assume "unat w < 2 ^ 31"
  then have high: "\<not> bit w n" if "31 \<le> n" for n by (rule small_word_bit) (use that in simp)
  then have "bit w (min 31 n) = bit w n" for n by (cases "n < 31") (simp_all add: min_def)
  then show ?thesis using high
    by (intro bit_word_eqI) (auto simp: bit_ucast_iff bit_signed_iff)
qed

lemma default_check_run:
  assumes "sstatus s AND 2 = 0" and "room6 M"
    and "page2pa b < npage s * PGSIZE" "page2pa (b + 1) < npage s * PGSIZE" "page2pa (b + 2) < npage s * PGSIZE"
  shows "default_check (whole b M [q1, q2, q3, q4, q5] [x1, x2, x3, x4, x5] [y1, y2, y3, y4, y5] pg hp hn s) =
    ret (whole b M [1, 3, 3 + M, 1, 1 + M] [Link b, Link b, Link b, Link (b + 2), Link b]
      [Link (b + 2), FreeHead, FreeHead, FreeHead, FreeHead] pg hp hn s)"
proof -
  have "(scast (6 + M) :: u64) = ucast (6 + M)"
    using room6(1) [OF assms(2)] assms(2) by (intro scast_small) (simp add: room6_def)
  moreover have "nr_free_pages (whole b M qs xs ys pg hp hn s) = (ucast (6 + M), whole b M qs xs ys pg hp hn s)" for qs xs ys
    using assms(1) by (simp add: bst_def run_eval)
  ultimately show ?thesis
    by (simp only: default_check_def counts_run basic_check_run [OF assms] check_splits_run [OF assms(1,2)]
        run_bind_ret prod.case snd_conv c_assert_simps refl simp_thms)
qed

text \<open>Every state with such a block has this form.\<close>

lemma fresh_blockD:
  assumes "fresh_block s b n" and "6 \<le> n" and "n < 2 ^ 31"
  obtains M qs xs ys where "room6 M" "n = unat M + 6" "length qs = 5" "length xs = 5" "length ys = 5"
    "s = whole b M qs xs ys (pages s) (\<lambda>j. le_prev (free_list s) (Link j)) (\<lambda>j. le_next (free_list s) (Link j)) s"
proof -
  define M :: u32 where "M = of_nat (n - 6)"
  have M: "unat M = n - 6" using assms(2,3) by (simp add: M_def unsigned_of_nat take_bit_nat_eq_self del: of_nat_diff)
  then have room: "room6 M" using assms(2,3) by (simp add: room6_def)
  have rel: "rep_blocks (pages s) (free_list s) [(b, n)]" and nr: "unat (nr_free s) = n"
    using assms(1) by (simp_all add: fresh_block_def free_rel_def)
  have l: "le_next (free_list s) FreeHead = Link b" "le_next (free_list s) (Link b) = FreeHead"
      "le_prev (free_list s) FreeHead = Link b" "le_prev (free_list s) (Link b) = FreeHead"
    using rel by (auto simp: rep_blocks_def cdll_def list_next_def list_prev_def)
  have size: "w = 6 + M" if "unat w = n" for w :: u32
    using that M room6(1) [OF room] assms(2) by (simp add: word_unat_eq_iff)
  have ref: "p_ref (pages s j) = 0" if "b \<le> j" "j < b + n" for j
    using rel that by (auto simp: rep_blocks_def flags_ok_def head_flags_def)
  have "unat (p_property (pages s b)) = n" using rel by (simp add: rep_blocks_def)
  then have head: "pages s b = \<lparr>p_ref = 0, p_flags = 2, p_property = 6 + M\<rparr>"
    using ref [of b] assms(1,2) size [of "p_property (pages s b)"] by (simp add: fresh_block_def)
  have rest: "pages s j = fpg (p_property (pages s j))" if "b < j" "j < b + n" for j
    using ref [of j] assms(1) that by (simp add: fresh_block_def)
  have five: "[b..<b + 6] = b # [Suc b..<b + 6]" by (simp add: upt_conv_Cons)
  define qs where "qs = map (\<lambda>j. p_property (pages s j)) [Suc b..<b + 6]"
  define xs where "xs = map (\<lambda>j. le_prev (free_list s) (Link j)) [Suc b..<b + 6]"
  define ys where "ys = map (\<lambda>j. le_next (free_list s) (Link j)) [Suc b..<b + 6]"
  have "map fpg qs = map (pages s) [Suc b..<b + 6]"
    unfolding qs_def map_map using rest assms(2) by (intro map_cong) auto
  then have pg: "pages s = tabo b (\<lparr>p_ref = 0, p_flags = 2, p_property = 6 + M\<rparr> # map fpg qs) (pages s)"
    using tabo_self [of b "pages s" 6] head unfolding five by simp
  have t: "f = tabno b (f FreeHead) (f (Link b) # map (\<lambda>j. f (Link j)) [Suc b..<b + 6]) (\<lambda>j. f (Link j))" for f :: "pnode \<Rightarrow> pnode"
  proof
    fix x show "f x = tabno b (f FreeHead) (f (Link b) # map (\<lambda>j. f (Link j)) [Suc b..<b + 6]) (\<lambda>j. f (Link j)) x"
      using tabo_self [of b "\<lambda>j. f (Link j)" 6, unfolded five] by (cases x) (simp_all add: tabno_app)
  qed
  have "free_list s = \<lparr>le_prev = tabno b (Link b) (FreeHead # xs) (\<lambda>j. le_prev (free_list s) (Link j)),
      le_next = tabno b (Link b) (FreeHead # ys) (\<lambda>j. le_next (free_list s) (Link j))\<rparr>"
    using t [of "le_prev (free_list s)"] t [of "le_next (free_list s)"] l
    unfolding xs_def [symmetric] ys_def [symmetric] by (cases "free_list s") simp
  then have "s = whole b M qs xs ys (pages s) (\<lambda>j. le_prev (free_list s) (Link j)) (\<lambda>j. le_next (free_list s) (Link j)) s"
    unfolding bst_def using pg size [OF nr] by simp
  then show ?thesis using room M assms(2) by (intro that [of M qs xs ys]) (simp_all add: qs_def xs_def ys_def)
qed

lemma whole_fresh:
  assumes "room6 M" and "length qs = 5" and "\<forall>j. b + 6 \<le> j \<longrightarrow> j < b + (unat M + 6) \<longrightarrow> p_flags (pg j) = 0 \<and> p_ref (pg j) = 0"
  shows "fresh_block (whole b M qs xs ys pg hp hn s) b (unat M + 6)"
proof -
  let ?t = "whole b M qs xs ys pg hp hn s"
  have other: "p_flags (pages ?t j) = 0 \<and> p_ref (pages ?t j) = 0" if "b < j" "j < b + (unat M + 6)" for j
  proof (cases "j < b + 6")
    case True
    define k where "k = j - Suc b"
    have "j = Suc b + k" "k < 5" using True that(1) by (simp_all add: k_def)
    then show ?thesis using assms(2) by (simp add: bst_def tabo_def)
  next
    case False
    then show ?thesis using assms(2,3) that by (simp add: bst_def tabo_def)
  qed
  have head: "pages ?t b = \<lparr>p_ref = 0, p_flags = 2, p_property = 6 + M\<rparr>" by (simp add: bst_def tabo_app)
  have "cdll (free_list ?t) FreeHead [Link b]"
    by (simp add: bst_def cdll_def list_next_def list_prev_def tabno_app tabo_app)
  moreover have "flags_ok (pages ?t) [(b, unat M + 6)]"
    unfolding flags_ok_def
  proof
    fix j assume "j \<in> pages_of [(b, unat M + 6)]"
    then have j: "b \<le> j" "j < b + (unat M + 6)" by simp_all
    show "head_flags (pages ?t j) (j \<in> fst ` set [(b, unat M + 6)])"
    proof (cases "j = b")
      case True
      then show ?thesis
        by (simp add: head head_flags_def PageReserved_def PageProperty_def test_bit_word_def PG_reserved_def
            PG_property_def BITS_PER_LONG_def)
    next
      case False
      then show ?thesis using other [of j] j
        by (simp add: head_flags_def PageReserved_def PageProperty_def test_bit_word_def PG_reserved_def
            PG_property_def BITS_PER_LONG_def)
    qed
  qed
  ultimately have "free_rel ?t [(b, unat M + 6)]"
    using room6(1) [OF assms(1)] head
    by (simp add: free_rel_def rep_blocks_def wf_blocks_Cons) (simp add: bst_def)
  then show ?thesis using other head by (simp add: fresh_block_def)
qed

text \<open>The test passes and the block is fresh again.\<close>

lemma default_check_spec:
  assumes "\<not> intr_on s" and fresh: "fresh_block s b n" and n: "6 \<le> n" "n < 2 ^ 31"
    and ok: "page2pa b < npage s * PGSIZE" "page2pa (b + 1) < npage s * PGSIZE" "page2pa (b + 2) < npage s * PGSIZE"
  obtains pg h where "default_check s = ret (s\<lparr>pages := pg, free_list := h\<rparr>)"
    "fresh_block (s\<lparr>pages := pg, free_list := h\<rparr>) b n" "\<forall>j. j \<notin> {b..<b + n} \<longrightarrow> pg j = pages s j"
proof -
  let ?hp = "\<lambda>j. le_prev (free_list s) (Link j)" and ?hn = "\<lambda>j. le_next (free_list s) (Link j)"
  obtain M qs xs ys where M: "room6 M" "n = unat M + 6" and len: "length qs = 5" "length xs = 5" "length ys = 5"
      and s: "s = whole b M qs xs ys (pages s) ?hp ?hn s"
    using fresh_blockD [OF fresh n] .
  have five: "\<exists>a b c d e. zs = [a, b, c, d, e]" if "length zs = 5" for zs :: "'b list"
    using that by (auto simp: length_Suc_conv eval_nat_numeral)
  obtain q1 q2 q3 q4 q5 x1 x2 x3 x4 x5 y1 y2 y3 y4 y5 where
    l: "qs = [q1, q2, q3, q4, q5]" "xs = [x1, x2, x3, x4, x5]" "ys = [y1, y2, y3, y4, y5]"
    using five [OF len(1)] five [OF len(2)] five [OF len(3)] by blast
  have "sstatus s AND 2 = 0" using assms(1) by (simp add: intr_on_def SSTATUS_SIE_def)
  note run = default_check_run [OF this M(1) ok]
  let ?qs = "[1, 3, 3 + M, 1, 1 + M]" and ?xs = "[Link b, Link b, Link b, Link (b + 2), Link b]"
    and ?ys = "[Link (b + 2), FreeHead, FreeHead, FreeHead, FreeHead]"
  let ?t = "whole b M ?qs ?xs ?ys (pages s) ?hp ?hn s"
  have "default_check s = ret ?t" by (subst s) (simp only: l run)
  moreover have "nr_free s = 6 + M" using arg_cong [OF s, of nr_free] by (simp add: bst_def)
  then have "?t = s\<lparr>pages := pages ?t, free_list := free_list ?t\<rparr>" by (simp add: bst_def)
  moreover have "fresh_block ?t b n"
    unfolding M(2)
  proof (rule whole_fresh [OF M(1)])
    have "free_rel s [(b, n)]" using fresh by (simp add: fresh_block_def)
    then have "p_ref (pages s j) = 0" if "b \<le> j" "j < b + n" for j
      using that by (auto simp: free_rel_def rep_blocks_def flags_ok_def head_flags_def)
    then show "\<forall>j. b + 6 \<le> j \<longrightarrow> j < b + (unat M + 6) \<longrightarrow> p_flags (pages s j) = 0 \<and> p_ref (pages s j) = 0"
      using fresh M(2) by (simp add: fresh_block_def)
  qed simp
  moreover have "\<forall>j. j \<notin> {b..<b + n} \<longrightarrow> pages ?t j = pages s j"
    using n(1) by (auto simp: bst_def tabo_def)
  ultimately show ?thesis using that [of "free_list ?t" "pages ?t"] by metis
qed

end
