(* ===== verification/PgdirSpec.thy ===== *)
theory PgdirSpec
  imports PmmInit PmmBoot
begin

unbundle bit_operations_syntax

text \<open>
  The self-tests of the page tables that \<open>pmm_init\<close> runs, on any machine whose free memory is one block:
  every state of the tests is described by the free blocks, the reference counts of the pages in use and the
  entries of the two tables the tests create.
\<close>

subsection \<open>The pages in use\<close>

text \<open>A state of the tests that started in \<open>s0\<close> with the root table in frame \<open>r\<close>: the free blocks are \<open>bs\<close>
  and \<open>al\<close> gives the reference counts of the pages in use.\<close>

definition vm_frame :: "'z vm_state_scheme \<Rightarrow> 'z vm_state_scheme \<Rightarrow> bool" where
  "vm_frame s0 s \<longleftrightarrow> sstatus s = sstatus s0 \<and> sie s = sie s0 \<and> satp s = satp s0 \<and> stvec s = stvec s0 \<and>
     sscratch s = sscratch s0 \<and> bytes s = bytes s0 \<and> console s = console s0 \<and> npage s = npage s0 \<and>
     va_pa_offset s = va_pa_offset s0 \<and> boot_pgdir_va s = boot_pgdir_va s0 \<and> boot_pgdir_pa s = boot_pgdir_pa s0 \<and>
     vm_state.more s = vm_state.more s0"

lemma vm_frame_eq:
  "vm_frame s0 s \<Longrightarrow>
   s = s0\<lparr>pages := pages s, free_list := free_list s, nr_free := nr_free s, ptes := ptes s, tlb := tlb s\<rparr>"
  by (simp add: vm_frame_def)

definition pgst :: "nat \<Rightarrow> 'z vm_state_scheme \<Rightarrow> 'z vm_state_scheme \<Rightarrow> block list \<Rightarrow> (nat \<Rightarrow> u32 option) \<Rightarrow> bool" where
  "pgst r s0 s bs al \<longleftrightarrow>
     vm_frame s0 s \<and>
     free_rel s bs \<and> vm_ok s0 \<and>
     (\<forall>p c. al p = Some c \<longrightarrow> page_clear (pages s p) \<and> page_ref p s = c \<and> p \<notin> pages_of bs \<and> valid_frame s0 p) \<and>
     (\<forall>p\<in>pages_of bs. valid_frame s0 p) \<and>
     r < 0x40000 \<and> al r = None \<and> r \<notin> pages_of bs \<and>
     (\<forall>k<512. k \<noteq> 0 \<longrightarrow> ptes s (cell r k) = ptes s0 (cell r k))"

lemma pgstD:
  assumes "pgst r s0 s bs al"
  shows "free_rel s bs" "vm_ok s" "npage s = npage s0" "va_pa_offset s = va_pa_offset s0"
    "boot_pgdir_va s = boot_pgdir_va s0" "valid_frame s = valid_frame s0" "sstatus s = sstatus s0"
    "r < 0x40000" "al r = None" "r \<notin> pages_of bs"
    "al p = Some c \<Longrightarrow> page_clear (pages s p)" "al p = Some c \<Longrightarrow> page_ref p s = c"
    "al p = Some c \<Longrightarrow> p \<notin> pages_of bs" "al p = Some c \<Longrightarrow> valid_frame s0 p" "al p = Some c \<Longrightarrow> p < 0x40000"
    "al p = Some c \<Longrightarrow> p \<noteq> r" "p \<in> pages_of bs \<Longrightarrow> valid_frame s0 p" "vm_ok s0"
    "vm_frame s0 s"
    "k < 512 \<Longrightarrow> k \<noteq> 0 \<Longrightarrow> ptes s (cell r k) = ptes s0 (cell r k)"
proof -
  have fr: "vm_frame s0 s" using assms unfolding pgst_def by blast
  show ok: "vm_ok s0" using assms unfolding pgst_def by blast
  show "vm_frame s0 s"
    "k < 512 \<Longrightarrow> k \<noteq> 0 \<Longrightarrow> ptes s (cell r k) = ptes s0 (cell r k)"
    using assms unfolding pgst_def by blast+
  show "free_rel s bs" "r < 0x40000" "al r = None" "r \<notin> pages_of bs" using assms unfolding pgst_def by blast+
  show "vm_ok s" using ok fr by (simp add: vm_frame_def vm_ok_def)
  show "npage s = npage s0" "va_pa_offset s = va_pa_offset s0" "boot_pgdir_va s = boot_pgdir_va s0"
    "sstatus s = sstatus s0" "valid_frame s = valid_frame s0"
    using fr by (simp_all add: vm_frame_def valid_frame_def fun_eq_iff)
  show "al p = Some c \<Longrightarrow> page_clear (pages s p)" "al p = Some c \<Longrightarrow> page_ref p s = c"
    "al p = Some c \<Longrightarrow> p \<notin> pages_of bs" "al p = Some c \<Longrightarrow> valid_frame s0 p" "p \<in> pages_of bs \<Longrightarrow> valid_frame s0 p"
    using assms unfolding pgst_def by blast+
  then show "al p = Some c \<Longrightarrow> p < 0x40000" using valid_bound ok by blast
  show "al p = Some c \<Longrightarrow> p \<noteq> r" using \<open>al r = None\<close> by auto
qed

lemma pgst_alloc:
  assumes st: "pgst r s0 s ((f, n) # bs) al" and n: "1 < n"
  obtains s' where "alloc_page s = ret (Some f, s')" "pgst r s0 s' ((f + 1, n - 1) # bs) (al(f \<mapsto> 0))"
    "ptes s' = ptes s" "tlb s' = tlb s"
proof -
  note D = pgstD [OF st]
  have a: "ff_alloc (unat (1 :: u64)) ((f, n) # bs) = Some (f, (f + 1, n - 1) # bs)" using n by simp
  let ?t = "take_block f 1 s"
  have run: "alloc_page s = ret (Some f, ?t)"
    using alloc_pages_spec [OF D(1), of 1] a by (simp add: alloc_page_def)
  have rel: "free_rel ?t ((f + 1, n - 1) # bs)" "\<forall>j\<in>{f..<f + unat (1 :: u64)}. page_idle (pages ?t j)"
    using default_alloc_pages_Some [OF D(1) _ a] by simp_all
  have idle: "page_idle (pages ?t f)" using rel(2) by simp
  have other: "pages ?t j = pages s j" if "j \<notin> pages_of ((f, n) # bs)" for j
    using take_block_other [OF D(1) _ a that] by simp
  have f: "f \<in> pages_of ((f, n) # bs)" "f \<noteq> r" "f \<notin> pages_of ((f + 1, n - 1) # bs)"
  proof -
    show "f \<in> pages_of ((f, n) # bs)" using n by simp
    then show "f \<noteq> r" using D(10) by blast
    have "wf_blocks ((f, n) # bs)" using D(1) by (simp add: free_rel_def rep_blocks_def)
    then have "\<forall>y\<in>set bs. f + n \<le> fst y" "wf_blocks bs" by (simp_all add: wf_blocks_Cons)
    then show "f \<notin> pages_of ((f + 1, n - 1) # bs)" using n by (fastforce simp: pages_of_def)
  qed
  have sub: "pages_of ((f + 1, n - 1) # bs) \<subseteq> pages_of ((f, n) # bs)" using n by auto
  obtain pg h m where t: "?t = s\<lparr>pages := pg, free_list := h, nr_free := m\<rparr>" using take_block_frame by blast
  have fr: "vm_frame s0 ?t"
    using D(19) by (simp add: t vm_frame_def)
  have "pgst r s0 ?t ((f + 1, n - 1) # bs) (al(f \<mapsto> 0))"
    unfolding pgst_def
  proof (intro conjI allI impI ballI)
    fix p c assume p: "(al(f \<mapsto> 0)) p = Some c"
    have "p = f \<or> p \<noteq> f \<and> al p = Some c" using p by (simp split: if_splits)
    then show "page_clear (pages ?t p)" "page_ref p ?t = c" "p \<notin> pages_of ((f + 1, n - 1) # bs)" "valid_frame s0 p"
      using idle f p other D(11-14,17) sub by (auto simp: page_idle_def page_ref_def)
  next
    fix p assume "p \<in> pages_of ((f + 1, n - 1) # bs)"
    then show "valid_frame s0 p" using sub D(17) by blast
  next
    fix k :: u64 assume "k < 512" "k \<noteq> 0"
    then show "ptes ?t (cell r k) = ptes s0 (cell r k)" using D(20) unfolding t by simp
  next
    show "r \<notin> pages_of ((f + 1, n - 1) # bs)" using D(10) sub by blast
    show "(al(f \<mapsto> 0)) r = None" using D(9) f(2) by simp
  qed (rule fr rel(1) D(18) D(8))+
  then show ?thesis using run t by (intro that [of ?t]) simp_all
qed

lemma pgst_ref:
  assumes st: "pgst r s0 s bs al" and p: "al p = Some c"
  shows "pgst r s0 (set_page_ref p v s) bs (al(p \<mapsto> v))"
proof -
  note D = pgstD [OF st]
  have fr: "vm_frame s0 (set_page_ref p v s)"
    using D(19) by (simp add: set_page_ref_def vm_frame_def)
  have pg: "pages (set_page_ref p v s) j = (if j = p then (pages s p)\<lparr>p_ref := v\<rparr> else pages s j)" for j
    by (simp add: set_page_ref_def)
  have pt: "ptes (set_page_ref p v s) = ptes s" by (simp add: set_page_ref_def)
  have rel: "free_rel (set_page_ref p v s) bs" by (rule set_page_ref_rel [OF D(1,13)]) (rule p)
  show ?thesis
    unfolding pgst_def
  proof (intro conjI allI impI ballI)
    fix q c' assume "(al(p \<mapsto> v)) q = Some c'"
    then have "q = p \<and> c' = v \<or> q \<noteq> p \<and> al q = Some c'" by (simp split: if_splits)
    then show "page_clear (pages (set_page_ref p v s) q)" "page_ref q (set_page_ref p v s) = c'"
      "q \<notin> pages_of bs" "valid_frame s0 q"
      using D(11-14) p by (auto simp: pg page_ref_def page_clear_def)
  next
    fix k :: u64 assume "k < 512" "k \<noteq> 0"
    then show "ptes (set_page_ref p v s) (cell r k) = ptes s0 (cell r k)" using D(20) unfolding pt by simp
  next
    show "(al(p \<mapsto> v)) r = None" using D(9) D(16) [OF p] by simp
  qed (rule fr rel D(17,18,8,10) | assumption)+
qed

text \<open>Writing a cell that is no entry of the root but the first, and dropping cached translations.\<close>

lemma pgst_ptes:
  assumes st: "pgst r s0 s bs al" and "\<forall>k<512. k \<noteq> 0 \<longrightarrow> pt (cell r k) = ptes s (cell r k)"
  shows "pgst r s0 (s\<lparr>ptes := pt, tlb := tb\<rparr>) bs al"
proof -
  let ?t = "s\<lparr>ptes := pt, tlb := tb\<rparr>"
  have fr: "vm_frame s0 ?t"
    using pgstD(19) [OF st] by (simp add: vm_frame_def)
  have "free_rel ?t bs = free_rel s bs" by (rule free_rel_cong) simp_all
  moreover have "page_ref p ?t = page_ref p s" for p by (simp add: page_ref_def)
  ultimately show ?thesis using st fr assms(2) unfolding pgst_def by auto
qed

lemma pgst_free:
  assumes st: "pgst r s0 s bs al" and p: "al p = Some c" and "insert_ok p bs" and "sum_list (map snd bs) + 1 < 2 ^ 32"
  obtains s' where "free_page p s = ret s'" "pgst r s0 s' (ff_free p 1 bs) (al(p := None))"
    "ptes s' = ptes s" "tlb s' = tlb s"
proof -
  note D = pgstD [OF st]
  have one: "{p..<p + unat (1 :: u64)} = {p}" by auto
  have fits: "fits_free p (unat (1 :: u64)) bs" using D(13) [OF p] by (simp add: fits_free_def)
  obtain s' where s': "free_pages p 1 s = ret s'" "free_rel s' (ff_free p (unat (1 :: u64)) bs)"
    by (rule free_pages_spec [OF D(1) _ fits _ assms(3)]) (use D(11) [OF p] assms(4) one in simp_all)
  obtain pg h m where t: "s' = s\<lparr>pages := pg, free_list := h, nr_free := m\<rparr>" using free_pages_frame [OF s'(1)] by blast
  have fr: "vm_frame s0 s'"
    using D(19) by (simp add: t vm_frame_def)
  have "wf_blocks bs" using D(1) by (simp add: free_rel_def rep_blocks_def)
  then have pages: "pages_of (ff_free p 1 bs) = insert p (pages_of bs)"
    using ff_free_pages [of p 1 bs] fits by auto
  have keep: "page_clear (pages s' q)" "page_ref q s' = page_ref q s" if "al q = Some d" "q \<noteq> p" for q d
    using free_pages_clear [OF s'(1) D(11) [OF that(1)] that(2)] free_pages_ref [OF s'(1), of q] that(2)
    by (simp_all add: page_ref_def)
  have "pgst r s0 s' (ff_free p 1 bs) (al(p := None))"
    unfolding pgst_def
  proof (intro conjI allI impI ballI)
    fix q d assume "(al(p := None)) q = Some d"
    then have q: "q \<noteq> p" "al q = Some d" by (auto split: if_splits)
    show "page_clear (pages s' q)" "page_ref q s' = d" "valid_frame s0 q"
      using keep [OF q(2,1)] D(12) [OF q(2)] D(14) [OF q(2)] by simp_all
    show "q \<notin> pages_of (ff_free p 1 bs)" using D(13) [OF q(2)] q(1) unfolding pages by blast
  next
    fix q assume "q \<in> pages_of (ff_free p 1 bs)"
    then show "valid_frame s0 q" using D(14) [OF p] D(17) unfolding pages by blast
  next
    fix k :: u64 assume "k < 512" "k \<noteq> 0"
    then show "ptes s' (cell r k) = ptes s0 (cell r k)" using D(20) unfolding t by simp
  next
    show "free_rel s' (ff_free p 1 bs)" using s'(2) by simp
    show "(al(p := None)) r = None" using D(9) by simp
    show "r \<notin> pages_of (ff_free p 1 bs)" using D(10) D(16) [OF p] unfolding pages by blast
  qed (rule fr D(18,8))+
  then show ?thesis using s'(1) t by (intro that [of s']) (simp_all add: free_page_def)
qed

subsection \<open>The two tables of the tests\<close>

text \<open>Entry 0 of the root is the table in frame \<open>d\<close>, whose entry 0 is the table in frame \<open>t\<close>, whose first
  two entries are given by \<open>v\<close>.\<close>

definition two_tables :: "nat \<Rightarrow> nat \<Rightarrow> nat \<Rightarrow> (u64 \<Rightarrow> u64) \<Rightarrow> (u64 \<Rightarrow> u64) \<Rightarrow> bool" where
  "two_tables r d t v m \<longleftrightarrow> r < 0x40000 \<and> d < 0x40000 \<and> t < 0x40000 \<and> r \<noteq> d \<and> r \<noteq> t \<and> d \<noteq> t \<and>
     m (cell r 0) = table_pte d \<and> m (cell d 0) = table_pte t \<and> m (cell t 0) = v 0 \<and> m (cell t 1) = v 1"

text \<open>Addresses of the first two pages.\<close>

definition low_page :: "u64 \<Rightarrow> u64 \<Rightarrow> bool" where
  "low_page la i \<longleftrightarrow> PDX1 la = 0 \<and> PDX0 la = 0 \<and> PTX la = i \<and> (i = 0 \<or> i = 1)"

lemma two_tables_set:
  assumes "two_tables r d t v m" and "i = 0 \<or> i = 1"
  shows "two_tables r d t (v(i := w)) (m(cell t i := w))"
  using assms by (auto simp: two_tables_def cell_inj)

lemma two_tables_root:
  assumes "two_tables r d t v m" and "k < 512" and "i = 0 \<or> i = 1"
  shows "(m(cell t i := w)) (cell r k) = m (cell r k)"
  using assms by (auto simp: two_tables_def cell_inj)

lemma get_pte_tables:
  assumes "two_tables r d t v (ptes s)" and "vm_ok s" and "valid_frame s d" "valid_frame s t" and "low_page la i"
  shows "get_pte (frame_kva r) la c s = ret (cell t i, s)" "cell t i \<noteq> 0" "ptes s (cell t i) = v i"
proof -
  have known: "get_pte_level (cell r 0) c s = ret (True, s)" "get_pte_level (cell d 0) c s = ret (True, s)"
    using assms(1) table_pte_valid by (simp_all add: two_tables_def get_pte_level_def)
  have "KADDR (PDE_ADDR (ptes s (cell r 0))) s = ret (frame_kva d)" "KADDR (PDE_ADDR (ptes s (cell d 0))) s = ret (frame_kva t)"
    using assms(1-4) by (simp_all add: two_tables_def PDE_ADDR_table_pte KADDR_frame)
  then show "get_pte (frame_kva r) la c s = ret (cell t i, s)"
    using known assms(5) by (simp add: get_pte_def low_page_def)
  show "cell t i \<noteq> 0" by (rule cell_neq_0) (use assms(1,5) in \<open>auto simp: two_tables_def low_page_def\<close>)
  show "ptes s (cell t i) = v i" using assms(1,5) by (auto simp: two_tables_def low_page_def)
qed

lemma get_pte_none:
  assumes "ptes s (cell r 0) = 0" and "low_page la i"
  shows "get_pte (frame_kva r) la False s = ret (0, s)"
  using assms by (simp add: get_pte_def get_pte_level_def low_page_def)

text \<open>Creating one table.\<close>

lemma get_pte_level_creates:
  assumes st: "pgst r s0 s ((f, n) # bs) al" and n: "1 < n" and g: "ptes s (cell g 0) = 0" "g < 0x40000" "f \<noteq> g"
  obtains s' where "get_pte_level (cell g 0) True s = ret (True, s')" "pgst r s0 s' ((f + 1, n - 1) # bs) (al(f \<mapsto> 1))"
    "ptes s' = (clear_table (frame_kva f) (ptes s))(cell g 0 := table_pte f)"
proof -
  obtain s1 where s1: "alloc_page s = ret (Some f, s1)" "pgst r s0 s1 ((f + 1, n - 1) # bs) (al(f \<mapsto> 0))"
      "ptes s1 = ptes s"
    by (rule pgst_alloc [OF st n])
  let ?s2 = "set_page_ref f 1 s1" and ?m = "(clear_table (frame_kva f) (ptes s))(cell g 0 := table_pte f)"
  have s2: "pgst r s0 ?s2 ((f + 1, n - 1) # bs) (al(f \<mapsto> 1))"
    using pgst_ref [OF s1(2), of f 0 1] by simp
  note D = pgstD [OF s2]
  have f: "f < 0x40000" "valid_frame s0 f" using D(14,15) [of f 1] by simp_all
  have "f \<noteq> r" using D(16) [of f 1] by simp
  then have root: "\<forall>k<512. k \<noteq> 0 \<longrightarrow> ?m (cell r k) = ptes ?s2 (cell r k)"
    using f(1) D(8) g by (auto simp: cell_inj clear_table_cell s1(3) set_page_ref_def)
  let ?s3 = "set_pte (cell g 0) (table_pte f) (?s2\<lparr>ptes := clear_table (frame_kva f) (ptes s)\<rparr>)"
  have "?s3 = ?s2\<lparr>ptes := ?m, tlb := tlb ?s2\<rparr>" by (simp add: set_pte_def)
  then have st': "pgst r s0 ?s3 ((f + 1, n - 1) # bs) (al(f \<mapsto> 1))" by (simp only:) (rule pgst_ptes [OF s2 root])
  have "KADDR (page2pa f) ?s2 = ret (frame_kva f)"
    by (rule KADDR_frame) (use D(2,6) f(2) in simp_all)
  moreover have "ptes ?s2 = ptes s" by (simp add: s1(3) set_page_ref_def)
  ultimately have "get_pte_level (cell g 0) True s = ret (True, ?s3)"
    using s1(1) g(1) by (simp add: get_pte_level_def table_pte_def Let_def)
  then show ?thesis using st' by (intro that [of ?s3]) (simp_all add: set_pte_def)
qed

lemma get_pte_creates:
  assumes st: "pgst r s0 s ((f, n) # bs) al" and n: "2 < n" and root: "ptes s (cell r 0) = 0" and la: "low_page la i"
  obtains s' where "get_pte (frame_kva r) la True s = ret (cell (f + 1) i, s')"
    "pgst r s0 s' ((f + 2, n - 2) # bs) (al(f \<mapsto> 1, f + 1 \<mapsto> 1))" "two_tables r f (f + 1) (\<lambda>_. 0) (ptes s')"
proof -
  note D = pgstD [OF st]
  have ff: "f \<in> pages_of ((f, n) # bs)" "f + 1 \<in> pages_of ((f, n) # bs)" using n by simp_all
  have fr: "f \<noteq> r" "f + 1 \<noteq> r" using D(10) ff by blast+
  have vf: "valid_frame s0 f" "valid_frame s0 (f + 1)" using D(17) ff by blast+
  have b: "f < 0x40000" "f + 1 < 0x40000" using valid_bound [OF vf(1)] valid_bound [OF vf(2)] D(18) by simp_all
  obtain s1 where s1: "get_pte_level (cell r 0) True s = ret (True, s1)"
      "pgst r s0 s1 ((f + 1, n - 1) # bs) (al(f \<mapsto> 1))"
      "ptes s1 = (clear_table (frame_kva f) (ptes s))(cell r 0 := table_pte f)"
    by (rule get_pte_level_creates [OF st _ root D(8)]) (use n fr in simp_all)
  have "ptes s1 (cell f 0) = 0" using s1(3) b fr D(8) by (simp add: cell_inj clear_table_cell)
  moreover have "1 < n - 1" using n by simp
  ultimately obtain s2 where s2: "get_pte_level (cell f 0) True s1 = ret (True, s2)"
      "pgst r s0 s2 ((f + 1 + 1, n - 1 - 1) # bs) (al(f \<mapsto> 1, f + 1 \<mapsto> 1))"
      "ptes s2 = (clear_table (frame_kva (f + 1)) (ptes s1))(cell f 0 := table_pte (f + 1))"
    using get_pte_level_creates [OF s1(2), of f] b by auto
  have tables: "two_tables r f (f + 1) (\<lambda>_. 0) (ptes s2)"
    using b fr D(8) by (simp add: two_tables_def s2(3) s1(3) cell_inj clear_table_cell)
  have k1: "KADDR (PDE_ADDR (ptes s1 (cell r 0))) s1 = ret (frame_kva f)"
    using KADDR_frame [of s1 f] pgstD(2,6) [OF s1(2)] vf(1) b by (simp add: s1(3) PDE_ADDR_table_pte)
  have k2: "KADDR (PDE_ADDR (ptes s2 (cell f 0))) s2 = ret (frame_kva (f + 1))"
    using KADDR_frame [of s2 "f + 1"] pgstD(2,6) [OF s2(2)] vf(2) b by (simp add: s2(3) PDE_ADDR_table_pte)
  have "get_pte (frame_kva r) la True s = ret (cell (f + 1) i, s2)"
    using s1(1) s2(1) k1 k2 la by (simp add: get_pte_def low_page_def)
  then show ?thesis using s2(2) tables by (intro that [of s2]) (simp_all add: numeral_2_eq_2)
qed

text \<open>Storing an entry and dropping the cached translation.\<close>

lemma pgst_store:
  assumes st: "pgst r s0 s bs al" and tt: "two_tables r d t v (ptes s)" and i: "i = 0 \<or> i = 1"
  shows "pgst r s0 (tlb_invalidate pd la (set_pte (cell t i) w s)) bs al"
    "two_tables r d t (v(i := w)) (ptes (tlb_invalidate pd la (set_pte (cell t i) w s)))"
proof -
  let ?u = "tlb_invalidate pd la (set_pte (cell t i) w s)"
  have u: "?u = s\<lparr>ptes := (ptes s)(cell t i := w), tlb := tlb ?u\<rparr>"
    by (simp add: tlb_invalidate_def set_pte_def)
  show "pgst r s0 ?u bs al"
    by (subst u, rule pgst_ptes [OF st]) (use two_tables_root [OF tt _ i] in simp)
  show "two_tables r d t (v(i := w)) (ptes ?u)" by (subst u) (simp add: two_tables_set [OF tt i])
qed

text \<open>An entry made by the tests names a page in use.\<close>

lemma entry_page:
  assumes st: "pgst r s0 s bs al" and "al q = Some c" and "unat perm < 2 ^ 10"
  shows "pte2page (pte_create (page2ppn q) perm) s = ret q" "pte_create (page2ppn q) perm AND PTE_V \<noteq> 0"
proof -
  note D = pgstD [OF st]
  have "leaf s (pte_create (page2ppn q) perm) q"
    using D(2,6,14) assms(2,3) by (intro leaf_pte_create) simp_all
  then show "pte2page (pte_create (page2ppn q) perm) s = ret q" by (rule pte2page_leaf) (rule D(2))
  show "pte_create (page2ppn q) perm AND PTE_V \<noteq> 0" by (rule pte_create_valid)
qed

lemma pgst_unmap:
  assumes st: "pgst r s0 s bs al" and tt: "two_tables r d t v (ptes s)" and i: "i = 0 \<or> i = 1"
    and v: "v i = pte_create (page2ppn q) perm" "unat perm < 2 ^ 10" and q: "al q = Some c"
    and last: "c = 1 \<longrightarrow> insert_ok q bs \<and> sum_list (map snd bs) + 1 < 2 ^ 32"
  obtains s' where "page_remove_pte pd la (cell t i) s = ret s'"
    "pgst r s0 s' (if c = 1 then ff_free q 1 bs else bs) (if c = 1 then al(q := None) else al(q \<mapsto> c - 1))"
    "two_tables r d t (v(i := 0)) (ptes s')"
proof -
  have e: "ptes s (cell t i) = v i" using tt i by (auto simp: two_tables_def)
  note ep = entry_page [OF st q v(2)]
  let ?s1 = "page_ref_dec q s"
  have s1: "pgst r s0 ?s1 bs (al(q \<mapsto> c - 1))"
    unfolding page_ref_dec_def pgstD(12) [OF st q] by (rule pgst_ref [OF st q])
  have ref: "page_ref q ?s1 = c - 1" using pgstD(12) [OF s1] by simp
  obtain s2 where s2: "(if page_ref q ?s1 = 0 then free_page q ?s1 else ret ?s1) = ret s2"
      "pgst r s0 s2 (if c = 1 then ff_free q 1 bs else bs) (if c = 1 then al(q := None) else al(q \<mapsto> c - 1))"
      "ptes s2 = ptes s"
  proof (cases "c = 1")
    case True
    obtain s2 where "free_page q ?s1 = ret s2" "pgst r s0 s2 (ff_free q 1 bs) ((al(q \<mapsto> c - 1))(q := None))" "ptes s2 = ptes ?s1"
      by (rule pgst_free [OF s1, of q]) (use True last in simp_all)
    then show ?thesis using True ref by (intro that [of s2]) (simp_all add: page_ref_dec_def set_page_ref_def)
  next
    case False
    then show ?thesis using ref s1 by (intro that [of ?s1]) (simp_all add: page_ref_dec_def set_page_ref_def)
  qed
  have tt2: "two_tables r d t v (ptes s2)" using tt s2(3) by simp
  have run: "page_remove_pte pd la (cell t i) s = ret (tlb_invalidate pd la (set_pte (cell t i) 0 s2))"
    using e v(1) ep s2(1) by (simp add: page_remove_pte_def Let_def)
  show ?thesis by (rule that [OF run pgst_store [OF s2(2) tt2 i]])
qed

lemma page_insert_new:
  assumes get: "get_pte (frame_kva r) la True s = ret (cell t i, s1)" and st: "pgst r s0 s1 bs al"
    and tt: "two_tables r d t v (ptes s1)" and la: "low_page la i" and "v i = 0" and p: "al p = Some c"
  obtains s' where "page_insert (frame_kva r) p la perm s = ret (0, s')" "pgst r s0 s' bs (al(p \<mapsto> c + 1))"
    "two_tables r d t (v(i := pte_create (page2ppn p) (ucast PTE_V OR perm))) (ptes s')"
proof -
  have i: "i = 0 \<or> i = 1" using la by (simp add: low_page_def)
  let ?s2 = "page_ref_inc p s1"
  have s2: "pgst r s0 ?s2 bs (al(p \<mapsto> c + 1))"
    unfolding page_ref_inc_def pgstD(12) [OF st p] by (rule pgst_ref [OF st p])
  have pt: "ptes ?s2 = ptes s1" by (simp add: page_ref_inc_def set_page_ref_def)
  have e: "ptes s1 (cell t i) = 0" "cell t i \<noteq> 0"
    using tt i assms(5) cell_neq_0 [of t i] by (auto simp: two_tables_def)
  have tt2: "two_tables r d t v (ptes ?s2)" using tt pt by simp
  have "page_insert (frame_kva r) p la perm s =
      ret (0, tlb_invalidate (frame_kva r) la (set_pte (cell t i) (pte_create (page2ppn p) (ucast PTE_V OR perm)) ?s2))"
    using get e pt by (simp add: page_insert_def Let_def)
  then show ?thesis using pgst_store [OF s2 tt2 i] by (intro that) simp_all
qed

lemma page_insert_replaces:
  assumes st: "pgst r s0 s bs al" and tt: "two_tables r d t v (ptes s)" and dt: "valid_frame s0 d" "valid_frame s0 t"
    and la: "low_page la i" and v: "v i = pte_create (page2ppn q) pq" "unat pq < 2 ^ 10"
    and p: "al p = Some c" and q: "al q = Some 1" "q \<noteq> p"
    and last: "insert_ok q bs" "sum_list (map snd bs) + 1 < 2 ^ 32"
  obtains s' where "page_insert (frame_kva r) p la perm s = ret (0, s')"
    "pgst r s0 s' (ff_free q 1 bs) (al(p \<mapsto> c + 1, q := None))"
    "two_tables r d t (v(i := pte_create (page2ppn p) (ucast PTE_V OR perm))) (ptes s')"
proof -
  have i: "i = 0 \<or> i = 1" using la by (simp add: low_page_def)
  note g = get_pte_tables [OF tt pgstD(2) [OF st] _ _ la, unfolded pgstD(6) [OF st], OF dt]
  let ?s2 = "page_ref_inc p s"
  have s2: "pgst r s0 ?s2 bs (al(p \<mapsto> c + 1))"
    unfolding page_ref_inc_def pgstD(12) [OF st p] by (rule pgst_ref [OF st p])
  have pt: "ptes ?s2 = ptes s" by (simp add: page_ref_inc_def set_page_ref_def)
  have tt2: "two_tables r d t v (ptes ?s2)" using tt pt by simp
  have q2: "(al(p \<mapsto> c + 1)) q = Some 1" using q by simp
  obtain s3 where s3: "page_remove_pte (frame_kva r) la (cell t i) ?s2 = ret s3"
      "pgst r s0 s3 (ff_free q 1 bs) ((al(p \<mapsto> c + 1))(q := None))" "two_tables r d t (v(i := 0)) (ptes s3)"
    by (rule pgst_unmap [OF s2 tt2 i v q2]) (use last in simp_all)
  note ep = entry_page [OF s2 q2 v(2)]
  have "page_insert (frame_kva r) p la perm s =
      ret (0, tlb_invalidate (frame_kva r) la (set_pte (cell t i) (pte_create (page2ppn p) (ucast PTE_V OR perm)) s3))"
    using g pt ep v(1) q(2) s3(1) by (simp add: page_insert_def Let_def)
  then show ?thesis using pgst_store [OF s3(2,3) i] by (intro that) simp_all
qed

lemma page_remove_tables:
  assumes st: "pgst r s0 s bs al" and tt: "two_tables r d t v (ptes s)" and dt: "valid_frame s0 d" "valid_frame s0 t"
    and la: "low_page la i" and v: "v i = pte_create (page2ppn q) pq" "unat pq < 2 ^ 10" and q: "al q = Some c"
    and last: "c = 1 \<longrightarrow> insert_ok q bs \<and> sum_list (map snd bs) + 1 < 2 ^ 32"
  obtains s' where "page_remove (frame_kva r) la s = ret s'"
    "pgst r s0 s' (if c = 1 then ff_free q 1 bs else bs) (if c = 1 then al(q := None) else al(q \<mapsto> c - 1))"
    "two_tables r d t (v(i := 0)) (ptes s')"
proof -
  have i: "i = 0 \<or> i = 1" using la by (simp add: low_page_def)
  note g = get_pte_tables [OF tt pgstD(2) [OF st] _ _ la, unfolded pgstD(6) [OF st], OF dt]
  obtain s' where "page_remove_pte (frame_kva r) la (cell t i) s = ret s'"
      "pgst r s0 s' (if c = 1 then ff_free q 1 bs else bs) (if c = 1 then al(q := None) else al(q \<mapsto> c - 1))"
      "two_tables r d t (v(i := 0)) (ptes s')"
    using pgst_unmap [OF st tt i v q last] .
  then show ?thesis using g by (intro that [of s']) (simp_all add: page_remove_def)
qed

subsection \<open>check_pgdir\<close>

lemma cell_0: "cell f 0 = frame_kva f"
  by (simp add: pte_at_def)

lemma pgst_free_ref: "pgst r s0 s bs al \<Longrightarrow> p \<in> pages_of bs \<Longrightarrow> page_ref p s = 0"
  by (frule pgstD(1)) (auto simp: free_rel_def rep_blocks_def flags_ok_def head_flags_def page_ref_def)

lemma low_pages: "low_page 0 0" "low_page PGSIZE 1"
  by (simp_all add: low_page_def PGSIZE_def PDX1_def PDX0_def PTX_def)

lemma frame_kva_offset: "f < 0x40000 \<Longrightarrow> PGOFF (frame_kva f) = 0"
proof -
  assume "f < 0x40000"
  then have "unat (frame_kva f) mod 4096 = 0" using unat_cell [of f 0] by (simp add: cell_0)
  then have "frame_kva f mod 4096 = 0" by (simp add: word_unat_eq_iff unat_mod)
  moreover have "(2 :: u64) ^ 12 = 4096" by simp
  ultimately have "take_bit 12 (frame_kva f) = 0" by (simp only: take_bit_eq_mod)
  then show ?thesis by (simp only: PGOFF_def mask_12 take_bit_eq_mask)
qed

lemma pte_create_test:
  assumes "unat (perm :: u32) < 2 ^ 10" and "w AND 0x3FF = w"
  shows "pte_create ppn perm AND w = (PTE_V OR ucast perm) AND w"
proof -
  have "pte_create ppn perm AND w = pte_create ppn perm AND (w AND 0x3FF)" using assms(2) by simp
  also have "\<dots> = (pte_create ppn perm AND 0x3FF) AND w" by (simp only: ac_simps)
  finally show ?thesis by (simp only: pte_create_flags [OF assms(1)])
qed

abbreviation plain_pte :: "nat \<Rightarrow> u64" where
  "plain_pte p \<equiv> pte_create (page2ppn p) (ucast PTE_V OR 0)"

lemma check_pgdir_first_spec:
  assumes st: "pgst r s0 s [(f, n)] Map.empty" and n: "6 < n" and root: "ptes s (cell r 0) = 0"
    and pd: "boot_pgdir_va s0 = frame_kva r"
  obtains s' where "check_pgdir_first s = ret (f, s')"
    "pgst r s0 s' [(f + 3, n - 3)] [f \<mapsto> 1, f + 1 \<mapsto> 1, f + 2 \<mapsto> 1]"
    "two_tables r (f + 1) (f + 2) ((\<lambda>_. 0)(0 := plain_pte f)) (ptes s')"
proof -
  note D = pgstD [OF st]
  have np: "npage s \<le> KERNTOP div PGSIZE"
    using D(2) by (simp add: vm_ok_def word_le_nat_alt KERNTOP_def KERNBASE_def KMEMSIZE_def PGSIZE_def)
  have pg: "frame_kva r \<noteq> 0" "PGOFF (frame_kva r) = 0"
    using cell_neq_0 [of r 0] D(8) by (simp_all add: cell_0 frame_kva_offset)
  have none: "get_page (frame_kva r) 0 s = ret (None, 0, s)"
    using get_pte_none [OF root low_pages(1)] by (simp add: get_page_def)
  obtain s1 where s1: "alloc_page s = ret (Some f, s1)" "pgst r s0 s1 [(f + 1, n - 1)] [f \<mapsto> 0]" "ptes s1 = ptes s"
    by (rule pgst_alloc [OF st]) (use n in simp_all)
  obtain s2 where s2: "get_pte (frame_kva r) 0 True s1 = ret (cell (f + 1 + 1) 0, s2)"
      "pgst r s0 s2 [(f + 1 + 2, n - 1 - 2)] ([f \<mapsto> 0](f + 1 \<mapsto> 1, f + 1 + 1 \<mapsto> 1))"
      "two_tables r (f + 1) (f + 1 + 1) (\<lambda>_. 0) (ptes s2)"
    by (rule get_pte_creates [OF s1(2) _ _ low_pages(1)]) (use n root s1(3) in simp_all)
  obtain s3 where s3: "page_insert (frame_kva r) f 0 0 s1 = ret (0, s3)"
      "pgst r s0 s3 [(f + 1 + 2, n - 1 - 2)] ([f \<mapsto> 0](f + 1 \<mapsto> 1, f + 1 + 1 \<mapsto> 1, f \<mapsto> 0 + 1))"
      "two_tables r (f + 1) (f + 1 + 1) ((\<lambda>_. 0)(0 := plain_pte f)) (ptes s3)"
    by (rule page_insert_new [OF s2 low_pages(1), of f 0 0]) simp_all
  have eq: "[(f + 1 + 2, n - 1 - 2)] = [(f + 3, n - 3)]" "f + 1 + 1 = f + 2"
    "[f \<mapsto> 0](f + 1 \<mapsto> 1, f + 2 \<mapsto> 1, f \<mapsto> 0 + 1) = [f \<mapsto> 1 :: u32, f + 1 \<mapsto> 1, f + 2 \<mapsto> 1]"
    by (auto simp: fun_eq_iff)
  note s3' = s3(2,3) [unfolded eq]
  note D3 = pgstD [OF s3'(1)]
  have al: "[f \<mapsto> 1 :: u32, f + 1 \<mapsto> 1, f + 2 \<mapsto> 1] f = Some 1" by simp
  have v: "valid_frame s3 (f + 1)" "valid_frame s3 (f + 2)"
    unfolding D3(6) by (rule D3(14) [of _ 1], simp)+
  note g0 = get_pte_tables [OF s3'(2) D3(2) v low_pages(1)]
  note g1 = get_pte_tables [OF s3'(2) D3(2) v low_pages(2)]
  have ep: "pte2page (plain_pte f) s3 = ret f"
    by (rule entry_page [OF s3'(1) al]) (simp add: PTE_V_def)
  have k: "KADDR (PDE_ADDR (ptes s3 (frame_kva r))) s3 = ret (frame_kva (f + 1))"
    "KADDR (PDE_ADDR (ptes s3 (frame_kva (f + 1)))) s3 = ret (frame_kva (f + 2))"
    using s3'(2) KADDR_frame [OF v(1) D3(2)] KADDR_frame [OF v(2) D3(2)]
    by (simp_all add: two_tables_def cell_0 PDE_ADDR_table_pte)
  have c1: "cell (f + 2) 1 = frame_kva (f + 2) + 8" by (simp add: pte_at_def)
  have "check_pgdir_first s = ret (f, s3)"
    using np pg none s1(1) s3(1) g0 g1(1) ep k c1 D3(12) [OF al] D(5) pd
    by (simp add: check_pgdir_first_def Let_def page_or_null_def insert_there_def pte_there_def)
  then show ?thesis using s3' by (rule that)
qed

abbreviation user_pte :: "nat \<Rightarrow> u64" where
  "user_pte p \<equiv> pte_create (page2ppn p) (ucast PTE_V OR ucast (PTE_U OR PTE_W))"

lemma perm_bounds: "unat (ucast PTE_V OR 0 :: u32) < 2 ^ 10" "unat (ucast PTE_V OR ucast (PTE_U OR PTE_W) :: u32) < 2 ^ 10"
  by (simp_all add: PTE_V_def PTE_U_def PTE_W_def)

lemma entry_bits:
  "user_pte p AND PTE_U \<noteq> 0" "user_pte p AND PTE_W \<noteq> 0" "plain_pte p AND PTE_U = 0" "table_pte p AND PTE_U \<noteq> 0"
proof -
  have b: "unat (ucast (PTE_U OR PTE_V) :: u32) < 2 ^ 10" by (simp add: PTE_V_def PTE_U_def)
  show "user_pte p AND PTE_U \<noteq> 0" "user_pte p AND PTE_W \<noteq> 0" "plain_pte p AND PTE_U = 0" "table_pte p AND PTE_U \<noteq> 0"
    unfolding table_pte_def
    by (subst pte_create_test [OF perm_bounds(1)] pte_create_test [OF perm_bounds(2)] pte_create_test [OF b];
        simp add: PTE_V_def PTE_U_def PTE_W_def)+
qed

lemma ff_free_front: "ff_free f 1 ((f + 1, n) # bs) = (f, n + 1) # bs"
  "f + 1 < g \<Longrightarrow> ff_free f 1 ((g, n) # bs) = (f, 1) # (g, n) # bs"
  "ff_free (f + 2) 1 [(f, 1), (f + 3, n)] = [(f, 1), (f + 2, n + 1)]"
  "ff_free (f + 1) 1 [(f, 1), (f + 2, n)] = [(f, n + 2)]"
  by (simp_all add: ff_free_def join_left_def join_right_def Let_def)

lemma table_page:
  assumes "pgst r s0 s bs al" and "valid_frame s0 d"
  shows "pde2page (table_pte d) s = ret d"
proof -
  have "d < 0x40000" using valid_bound [OF assms(2)] pgstD(18) [OF assms(1)] by simp
  then show ?thesis using pa2page_page2pa [of d s] assms(2) pgstD(2,3) [OF assms(1)]
    by (simp add: pde2page_def PDE_ADDR_table_pte valid_frame_def vm_ok_def)
qed

lemma check_pgdir_second_spec:
  assumes st: "pgst r s0 s [(f + 3, n - 3)] [f \<mapsto> 1, f + 1 \<mapsto> 1, f + 2 \<mapsto> 1]"
    and tt: "two_tables r (f + 1) (f + 2) ((\<lambda>_. 0)(0 := plain_pte f)) (ptes s)"
    and n: "6 < n" "n < 2 ^ 31" and pd: "boot_pgdir_va s0 = frame_kva r"
  obtains s' where "check_pgdir_second f s = ret s'"
    "pgst r s0 s' [(f, 1), (f + 3, n - 3)] [f + 1 \<mapsto> 1, f + 2 \<mapsto> 1]"
    "two_tables r (f + 1) (f + 2) (\<lambda>_. 0) (ptes s')"
proof -
  note D = pgstD [OF st]
  have dt: "valid_frame s0 (f + 1)" "valid_frame s0 (f + 2)" using D(14) [of "f + 1" 1] D(14) [of "f + 2" 1] by simp_all
  obtain s1 where s1: "alloc_page s = ret (Some (f + 3), s1)"
      "pgst r s0 s1 [(f + 3 + 1, n - 3 - 1)] ([f \<mapsto> 1, f + 1 \<mapsto> 1, f + 2 \<mapsto> 1](f + 3 \<mapsto> 0))" "ptes s1 = ptes s"
    by (rule pgst_alloc [OF st]) (use n in simp_all)
  have tt1: "two_tables r (f + 1) (f + 2) ((\<lambda>_. 0)(0 := plain_pte f)) (ptes s1)" using tt s1(3) by simp
  note g = get_pte_tables [OF tt1 pgstD(2) [OF s1(2)], unfolded pgstD(6) [OF s1(2)], OF dt]
  obtain s2 where s2: "page_insert (frame_kva r) (f + 3) PGSIZE (ucast (PTE_U OR PTE_W)) s1 = ret (0, s2)"
      "pgst r s0 s2 [(f + 3 + 1, n - 3 - 1)] ([f \<mapsto> 1, f + 1 \<mapsto> 1, f + 2 \<mapsto> 1, f + 3 \<mapsto> 0](f + 3 \<mapsto> 0 + 1))"
      "two_tables r (f + 1) (f + 2) ((\<lambda>_. 0)(0 := plain_pte f, 1 := user_pte (f + 3))) (ptes s2)"
    by (rule page_insert_new [OF g(1) [OF low_pages(2)] s1(2) tt1 low_pages(2), of "f + 3" 0]) simp_all
  note al2 = pgstD(12) [OF s2(2)]
  note g2 = get_pte_tables [OF s2(3) pgstD(2) [OF s2(2)], unfolded pgstD(6) [OF s2(2)], OF dt low_pages(2)]
  obtain s3 where s3: "page_insert (frame_kva r) f PGSIZE 0 s2 = ret (0, s3)"
      "pgst r s0 s3 (ff_free (f + 3) 1 [(f + 3 + 1, n - 3 - 1)])
        ([f \<mapsto> 1, f + 1 \<mapsto> 1, f + 2 \<mapsto> 1, f + 3 \<mapsto> 0 + 1](f \<mapsto> 1 + 1, f + 3 := None))"
      "two_tables r (f + 1) (f + 2) ((\<lambda>_. 0)(0 := plain_pte f, 1 := plain_pte f)) (ptes s3)"
    by (rule page_insert_replaces [OF s2(2,3) dt low_pages(2) _ perm_bounds(2), of "f + 3" f 1 0])
      (use n in \<open>simp_all add: insert_ok_def\<close>)
  have eq3: "ff_free (f + 3) 1 [(f + 3 + 1, n - 3 - 1)] = [(f + 3, n - 3)]"
      "[f \<mapsto> 1, f + 1 \<mapsto> 1, f + 2 \<mapsto> 1, f + 3 \<mapsto> 0 + 1](f \<mapsto> 1 + 1, f + 3 := None) = [f \<mapsto> 2 :: u32, f + 1 \<mapsto> 1, f + 2 \<mapsto> 1]"
    using n ff_free_front(1) [of "f + 3" "n - 3 - 1" "[]"] by (auto simp: fun_eq_iff)
  note s3' = s3(1) s3(2) [unfolded eq3] s3(3)
  note al3 = pgstD(12) [OF s3'(2)]
  have free3: "page_ref (f + 3) s3 = 0" by (rule pgst_free_ref [OF s3'(2)]) (use n in simp)
  note g3 = get_pte_tables [OF s3'(3) pgstD(2) [OF s3'(2)], unfolded pgstD(6) [OF s3'(2)], OF dt low_pages(2)]
  have ep: "pte2page (plain_pte f) s3 = ret f" by (rule entry_page [OF s3'(2) _ perm_bounds(1)]) simp
  obtain s4 where s4: "page_remove (frame_kva r) 0 s3 = ret s4"
      "pgst r s0 s4 [(f + 3, n - 3)] ([f \<mapsto> 2, f + 1 \<mapsto> 1, f + 2 \<mapsto> 1](f \<mapsto> 2 - 1))"
      "two_tables r (f + 1) (f + 2) ((\<lambda>_. 0)(0 := plain_pte f, 1 := plain_pte f, 0 := 0)) (ptes s4)"
    by (rule page_remove_tables [OF s3'(2,3) dt low_pages(1) _ perm_bounds(1), of f 2]) simp_all
  note al4 = pgstD(12) [OF s4(2)]
  have free4: "page_ref (f + 3) s4 = 0" by (rule pgst_free_ref [OF s4(2)]) (use n in simp)
  obtain s5 where s5: "page_remove (frame_kva r) PGSIZE s4 = ret s5"
      "pgst r s0 s5 (ff_free f 1 [(f + 3, n - 3)]) ([f \<mapsto> 2, f + 1 \<mapsto> 1, f + 2 \<mapsto> 1, f \<mapsto> 2 - 1](f := None))"
      "two_tables r (f + 1) (f + 2) ((\<lambda>_. 0)(0 := plain_pte f, 1 := plain_pte f, 0 := 0, 1 := 0)) (ptes s5)"
    by (rule page_remove_tables [OF s4(2,3) dt low_pages(2) _ perm_bounds(1), of f 1])
      (use n in \<open>simp_all add: insert_ok_def\<close>)
  have eq5: "ff_free f 1 [(f + 3, n - 3)] = [(f, 1), (f + 3, n - 3)]"
      "[f \<mapsto> 2 :: u32, f + 1 \<mapsto> 1, f + 2 \<mapsto> 1, f \<mapsto> 2 - 1](f := None) = [f + 1 \<mapsto> 1, f + 2 \<mapsto> 1]"
      "((\<lambda>_. 0)(0 := plain_pte f, 1 := plain_pte f, 0 := 0, 1 := 0)) = (\<lambda>_ :: u64. 0 :: u64)"
    using ff_free_front(2) [of f "f + 3" "n - 3" "[]"] by (auto simp: fun_eq_iff)
  note s5' = s5(1) s5(2,3) [unfolded eq5]
  have free5: "page_ref f s5 = 0" "page_ref (f + 3) s5 = 0"
    by (rule pgst_free_ref [OF s5'(2)]; use n in simp)+
  have d5: "pde2page (ptes s5 (frame_kva r)) s5 = ret (f + 1)"
    using table_page [OF s5'(2) dt(1)] s5'(3) by (simp add: two_tables_def cell_0)
  have ref5: "page_ref (f + 1) s5 = 1" by (rule pgstD(12) [OF s5'(2)]) simp
  have root2: "ptes s2 (frame_kva r) = table_pte (f + 1)" using s2(3) by (simp add: two_tables_def cell_0)
  have "check_pgdir_second f s = ret s5"
    using s1(1) s2(1) g2 s3'(1) g3 ep s4(1) s5'(1) d5 ref5 free3 free4 free5 root2 al2 al3 al4 D(5) pd entry_bits
    by (simp add: check_pgdir_second_def Let_def page_or_null_def insert_there_def pte_there_def)
  then show ?thesis using s5'(2,3) by (rule that)
qed

lemma give_tables_back:
  assumes st: "pgst r s0 s [(f, 1), (f + 3, n - 3)] [f + 1 \<mapsto> c, f + 2 \<mapsto> d]"
    and tt: "two_tables r (f + 1) (f + 2) v (ptes s)" and n: "6 < n" "n < 2 ^ 31"
  obtains s1 s2 u where "pde2page (ptes s (frame_kva r)) s = ret (f + 1)" "page2kva (f + 1) s = ret (frame_kva (f + 1))"
    "pde2page (ptes s (frame_kva (f + 1))) s = ret (f + 2)" "free_page (f + 2) s = ret s1"
    "pde2page (ptes s1 (frame_kva r)) s1 = ret (f + 1)" "free_page (f + 1) s1 = ret s2"
    "u = flush_tlb (set_pte (frame_kva r) 0 s2)" "pgst r s0 u [(f, n)] Map.empty" "ptes u (cell r 0) = 0"
proof -
  have dt: "valid_frame s0 (f + 1)" "valid_frame s0 (f + 2)"
    using pgstD(14) [OF st, of "f + 1"] pgstD(14) [OF st, of "f + 2"] by simp_all
  have e: "ptes s (frame_kva r) = table_pte (f + 1)" "ptes s (frame_kva (f + 1)) = table_pte (f + 2)"
    using tt by (simp_all add: two_tables_def cell_0)
  obtain s1 where s1: "free_page (f + 2) s = ret s1"
      "pgst r s0 s1 (ff_free (f + 2) 1 [(f, 1), (f + 3, n - 3)]) ([f + 1 \<mapsto> c, f + 2 \<mapsto> d](f + 2 := None))" "ptes s1 = ptes s"
    by (rule pgst_free [OF st, of "f + 2" d]) (use n in \<open>simp_all add: insert_ok_def\<close>)
  have eq1: "ff_free (f + 2) 1 [(f, 1), (f + 3, n - 3)] = [(f, 1), (f + 2, n - 2)]"
      "[f + 1 \<mapsto> c, f + 2 \<mapsto> d](f + 2 := None) = [f + 1 \<mapsto> c]"
    using n ff_free_front(3) [of f "n - 3"] by (auto simp: fun_eq_iff)
  note s1' = s1(2) [unfolded eq1]
  obtain s2 where s2: "free_page (f + 1) s1 = ret s2"
      "pgst r s0 s2 (ff_free (f + 1) 1 [(f, 1), (f + 2, n - 2)]) ([f + 1 \<mapsto> c](f + 1 := None))" "ptes s2 = ptes s1"
    by (rule pgst_free [OF s1', of "f + 1" c]) (use n in \<open>simp_all add: insert_ok_def\<close>)
  have eq2: "ff_free (f + 1) 1 [(f, 1), (f + 2, n - 2)] = [(f, n)]" "[f + 1 \<mapsto> c](f + 1 := None) = Map.empty"
    using n ff_free_front(4) [of f "n - 2"] by (auto simp: fun_eq_iff)
  note s2' = s2(2) [unfolded eq2]
  let ?u = "flush_tlb (set_pte (frame_kva r) 0 s2)"
  have u: "?u = s2\<lparr>ptes := (ptes s2)(cell r 0 := 0), tlb := (\<lambda>_. None)\<rparr>"
    by (simp add: flush_tlb_def set_pte_def cell_0)
  have "pgst r s0 ?u [(f, n)] Map.empty"
    unfolding u by (rule pgst_ptes [OF s2']) (use pgstD(8) [OF st] in \<open>simp add: cell_inj\<close>)
  moreover have "ptes ?u (cell r 0) = 0" by (simp add: u)
  moreover have "page2kva (f + 1) s = ret (frame_kva (f + 1))"
    unfolding page2kva_def by (rule KADDR_frame) (use dt pgstD(2,6) [OF st] in simp_all)
  ultimately show ?thesis
    using that [OF _ _ _ s1(1) _ s2(1) refl] e table_page [OF st dt(1)] table_page [OF st dt(2)] table_page [OF s1' dt(1)] s1(3)
    by simp
qed

lemma nr_free_pages_run: "nr_free_pages s = (ucast (nr_free s), s)"
proof -
  obtain flag s1 where sv: "intr_save s = (flag, s1)" by fastforce
  have "intr_restore flag s1 = s1\<lparr>sstatus := sstatus s\<rparr>" by (rule intr_restore_saved [OF sv]) simp
  also have "\<dots> = s" by (subst intr_save_fields [OF sv]) simp
  finally have "intr_restore flag s1 = s" .
  moreover have "nr_free s1 = nr_free s" by (subst intr_save_fields [OF sv]) simp
  ultimately show ?thesis by (simp add: pages_calls sv default_nr_free_pages_def)
qed

lemma pgst_start:
  assumes "free_rel s [(f, n)]" and "vm_ok s" and "\<forall>p\<in>{f..<f + n}. valid_frame s p" and "r < 0x40000" "r \<notin> {f..<f + n}"
  shows "pgst r s s [(f, n)] Map.empty"
  using assms by (simp add: pgst_def vm_frame_def)

lemma pgst_count: "pgst r s0 s bs al \<Longrightarrow> pgst r s0' s' bs al' \<Longrightarrow> nr_free s = nr_free s'"
  by (drule pgstD(1), drule pgstD(1)) (simp add: free_rel_def word_unat_eq_iff)

text \<open>The test of the page tables passes and leaves the free block and the root table as they were.\<close>

lemma check_pgdir_spec:
  assumes st: "pgst r s s [(f, n)] Map.empty" and n: "6 < n" "n < 2 ^ 31" and root: "ptes s (cell r 0) = 0"
    and pd: "boot_pgdir_va s = frame_kva r"
  obtains u where "check_pgdir s = ret (say ''check_pgdir() succeeded!'' [] u)" "pgst r s u [(f, n)] Map.empty"
    "ptes u (cell r 0) = 0"
proof -
  obtain s1 where s1: "check_pgdir_first s = ret (f, s1)"
      "pgst r s s1 [(f + 3, n - 3)] [f \<mapsto> 1, f + 1 \<mapsto> 1, f + 2 \<mapsto> 1]"
      "two_tables r (f + 1) (f + 2) ((\<lambda>_. 0)(0 := plain_pte f)) (ptes s1)"
    by (rule check_pgdir_first_spec [OF st n(1) root pd])
  obtain s2 where s2: "check_pgdir_second f s1 = ret s2" "pgst r s s2 [(f, 1), (f + 3, n - 3)] [f + 1 \<mapsto> 1, f + 2 \<mapsto> 1]"
      "two_tables r (f + 1) (f + 2) (\<lambda>_. 0) (ptes s2)"
    by (rule check_pgdir_second_spec [OF s1(2,3) n pd])
  obtain s3 s4 u where u: "pde2page (ptes s2 (frame_kva r)) s2 = ret (f + 1)" "page2kva (f + 1) s2 = ret (frame_kva (f + 1))"
    "pde2page (ptes s2 (frame_kva (f + 1))) s2 = ret (f + 2)" "free_page (f + 2) s2 = ret s3"
    "pde2page (ptes s3 (frame_kva r)) s3 = ret (f + 1)" "free_page (f + 1) s3 = ret s4"
    "u = flush_tlb (set_pte (frame_kva r) 0 s4)" "pgst r s u [(f, n)] Map.empty" "ptes u (cell r 0) = 0"
    by (rule give_tables_back [OF s2(2,3) n])
  have "check_pgdir_cleanup s2 = ret u"
    using u(1-6) pd pgstD(5) [OF s2(2)] by (simp add: check_pgdir_cleanup_def Let_def u(7))
  moreover have "nr_free u = nr_free s" by (rule pgst_count [OF u(8) st])
  ultimately have "check_pgdir s = ret (say ''check_pgdir() succeeded!'' [] u)"
    using s1(1) s2(1) by (simp add: check_pgdir_def nr_free_pages_run)
  then show ?thesis using u(8,9) by (rule that)
qed

subsection \<open>check_boot_pgdir\<close>

lemma strcpy_loop_cstr:
  assumes "cstr m src xs" and "\<forall>i\<le>length xs. \<forall>j\<le>length xs. dst + of_nat i \<noteq> src + of_nat j"
    and "length xs < 2 ^ 63"
  shows "\<exists>m'. strcpy_loop dst src m = Some m' \<and> cstr m' dst xs \<and>
    (\<forall>a. (\<forall>i\<le>length xs. a \<noteq> dst + of_nat i) \<longrightarrow> m' a = m a)"
  using assms
proof (induction xs arbitrary: src dst m)
  case Nil
  then have "m src = 0" by simp
  then have "strcpy_loop dst src m = Some (m(dst := 0))"
    by (subst strcpy_loop.simps) (simp add: Let_def)
  then show ?case by simp
next
  case (Cons x xs)
  let ?m = "m(dst := x)"
  have x: "m src = x" "x \<noteq> 0" "cstr m (src + 1) xs" using Cons.prems(1) by simp_all
  have apart: "dst \<noteq> src + of_nat j" if "j \<le> length (x # xs)" for j
    using Cons.prems(2) [rule_format, of 0 j] that by simp
  have tail: "cstr ?m (src + 1) xs"
  proof (subst cstr_cong [where m = m])
    have "?m (src + 1 + of_nat i) = m (src + 1 + of_nat i)" if "i \<le> length xs" for i
      using apart [of "Suc i"] that by (simp add: add.assoc) 
    then show "\<forall>i\<le>length xs. ?m (src + 1 + of_nat i) = m (src + 1 + of_nat i)" by blast
  qed (rule x(3))
  have shifted: "dst + 1 + of_nat i \<noteq> src + 1 + of_nat j" if "i \<le> length xs" "j \<le> length xs" for i j
    using Cons.prems(2) [rule_format, of "Suc i" "Suc j"] that by (simp add: add.assoc)
  have "length xs < 2 ^ 63" using Cons.prems(3) by simp
  with Cons.IH [OF tail] shifted obtain m' where m': "strcpy_loop (dst + 1) (src + 1) ?m = Some m'" "cstr m' (dst + 1) xs"
      "\<forall>a. (\<forall>i\<le>length xs. a \<noteq> dst + 1 + of_nat i) \<longrightarrow> m' a = ?m a"
    by blast
  have "dst \<noteq> dst + 1 + of_nat i" if "i \<le> length xs" for i
  proof
    assume "dst = dst + 1 + of_nat i"
    then have "of_nat (Suc i) = (0 :: u64)" by (simp add: add.assoc)
    moreover have "Suc i < 2 ^ 64" using that Cons.prems(3) by simp
    ultimately show False by (metis unat_of_nat_u64 nat.distinct(1) unat_0)
  qed
  then have "m' dst = x" using m'(3) by simp
  moreover have "strcpy_loop dst src m = Some m'"
    using x m'(1) by (subst strcpy_loop.simps) (simp add: Let_def)
  moreover have "m' a = m a" if out: "\<forall>i\<le>length (x # xs). a \<noteq> dst + of_nat i" for a
  proof -
    have "a \<noteq> dst" using out [rule_format, of 0] by simp
    moreover have "a \<noteq> dst + 1 + of_nat i" if "i \<le> length xs" for i
      using out [rule_format, of "Suc i"] that by (simp add: add.assoc)
    ultimately show ?thesis using m'(3) by simp
  qed
  ultimately show ?case using m'(2) x(2) by auto
qed

lemma table_no_leaf: "\<not> is_leaf (table_pte d)" "PTE_ADDR (table_pte d) = PDE_ADDR (table_pte d)"
proof -
  have "table_pte d AND (PTE_R OR PTE_W OR PTE_X) = 0"
    unfolding table_pte_def
    by (subst pte_create_test) (simp_all add: PTE_V_def PTE_U_def PTE_R_def PTE_W_def PTE_X_def)
  then show "\<not> is_leaf (table_pte d)" by (simp add: is_leaf_def)
  show "PTE_ADDR (table_pte d) = PDE_ADDR (table_pte d)" by (simp add: PDE_ADDR_def)
qed

lemma page2pa_aligned: "page2pa p AND mask 12 = 0"
  unfolding page2pa_def by (rule bit_word_eqI) (simp add: bit_simps)

text \<open>An address the tests map is translated to the byte of the page.\<close>

lemma user_ptr_tables:
  assumes st: "pgst r s0 s bs al" and tt: "two_tables r d t v (ptes s)" and pa: "boot_pgdir_pa s0 = page2pa r"
    and la: "low_page la i" "(scast (ucast la :: 39 word) :: u64) = la"
    and p: "al p = Some c" and v: "v i = pte_create (page2ppn p) perm" "unat perm < 2 ^ 10" "is_leaf (v i)"
  shows "user_ptr la s = ret (frame_kva p + PGOFF la)"
proof -
  note D = pgstD [OF st]
  have ok: "va_pa_offset s = PHYSICAL_MEMORY_OFFSET" "boot_pgdir_pa s = page2pa r"
    using D(2,19) pa by (simp_all add: vm_ok_def vm_frame_def)
  have at: "page2pa f + 8 * k + PHYSICAL_MEMORY_OFFSET = cell f k" for f k
    by (simp add: pte_at_def frame_kva_def)
  have e: "ptes s (cell r 0) = table_pte d" "ptes s (cell d 0) = table_pte t" "ptes s (cell t i) = v i"
      "d < 0x40000" "t < 0x40000"
    using tt la(1) by (auto simp: two_tables_def low_page_def)
  have a: "PTE_ADDR (v i) = page2pa p" "v i AND PTE_V \<noteq> 0"
    using PTE_ADDR_leaf [OF D(15) [OF p] v(2)] v(1) pte_create_valid by simp_all
  let ?e = "\<lambda>pa. ptes s (pa + va_pa_offset s)"
  have idx: "PDX1 la = 0" "PDX0 la = 0" "PTX la = i" using la(1) by (simp_all add: low_page_def)
  have q: "?e (boot_pgdir_pa s + 8 * PDX1 la) = table_pte d" "?e (PTE_ADDR (table_pte d) + 8 * PDX0 la) = table_pte t"
      "?e (PTE_ADDR (table_pte t) + 8 * PTX la) = v i"
    unfolding ok idx table_no_leaf(2) PDE_ADDR_table_pte [OF e(4)] PDE_ADDR_table_pte [OF e(5)] at by (rule e)+
  have nv: "(table_pte f AND PTE_V = 0) = False" "is_leaf (table_pte f) = False" for f
    using table_pte_valid table_no_leaf(1) by simp_all
  have "sv39 ?e (boot_pgdir_pa s) la = leaf_pa 12 (v i) la"
    unfolding sv39_def Let_def q nv using la(2) a(2) v(3) by simp
  also have "\<dots> = Some (page2pa p + (la AND mask 12))"
    unfolding leaf_pa_def a(1) page2pa_aligned by simp
  finally have "user_ptr la s = ret (page2pa p + (la AND mask 12) + va_pa_offset s)"
    unfolding user_ptr_def by (simp only: option.case)
  then show ?thesis by (simp only: ok frame_kva_def PGOFF_def mask_12 ac_simps)
qed

abbreviation rw_pte :: "nat \<Rightarrow> u64" where
  "rw_pte p \<equiv> pte_create (page2ppn p) (ucast PTE_V OR ucast (PTE_W OR PTE_R))"

lemma rw_pte: "unat (ucast PTE_V OR ucast (PTE_W OR PTE_R) :: u32) < 2 ^ 10" "is_leaf (rw_pte p)"
proof -
  show b: "unat (ucast PTE_V OR ucast (PTE_W OR PTE_R) :: u32) < 2 ^ 10"
    by (simp add: PTE_V_def PTE_W_def PTE_R_def)
  show "is_leaf (rw_pte p)"
    unfolding is_leaf_def by (subst pte_create_test [OF b]) (simp_all add: PTE_V_def PTE_W_def PTE_R_def PTE_X_def)
qed

lemma string_pages:
  "low_page 0x100 0" "low_page (0x100 + PGSIZE) 1" "PGOFF 0x100 = 0x100" "PGOFF (0x100 + PGSIZE) = 0x100"
  "(scast (ucast (0x100 :: u64) :: 39 word) :: u64) = 0x100"
  "(scast (ucast (0x100 + PGSIZE :: u64) :: 39 word) :: u64) = 0x100 + PGSIZE"
  by (simp_all add: low_page_def PGSIZE_def PDX1_def PDX0_def PTX_def PGOFF_def)

lemma pgst_bytes:
  assumes st: "pgst r s0 s bs al"
  shows "pgst r (s0\<lparr>bytes := m\<rparr>) (s\<lparr>bytes := m\<rparr>) bs al"
proof -
  have "free_rel (s\<lparr>bytes := m\<rparr>) bs = free_rel s bs" by (rule free_rel_cong) simp_all
  then show ?thesis
    using st by (simp add: pgst_def vm_frame_def vm_ok_def valid_frame_def page_ref_def)
qed

lemma user_ptr_bytes: "user_ptr la (s\<lparr>bytes := m\<rparr>) = user_ptr la s"
  by (simp add: user_ptr_def split: option.split)

lemma check_boot_strings_spec:
  assumes x: "user_ptr 0x100 s = ret (frame_kva p + 0x100)" "user_ptr (0x100 + PGSIZE) s = ret (frame_kva p + 0x100)"
    and kva: "\<And>m. page2kva p (s\<lparr>bytes := m\<rparr>) = ret (frame_kva p)"
    and lit: "cstr (bytes s) str xs" "length xs < 0x800" "unat str + length xs < unat (frame_kva p)" and p: "p < 0x40000"
  obtains m where "check_boot_strings str p s = ret (s\<lparr>bytes := m\<rparr>)"
    "\<forall>a. unat a < unat (frame_kva p) \<longrightarrow> m a = bytes s a"
proof -
  let ?x = "frame_kva p + 0x100"
  have fk: "unat (frame_kva p) = 0xFFFFFFFFC0000000 + 4096 * p" using unat_cell [OF p, of 0] by (simp add: cell_0)
  have ux: "unat (?x + of_nat i) = unat (frame_kva p) + 0x100 + i" if "i \<le> length xs" for i
  proof -
    have i: "unat (of_nat i :: u64) = i" using that lit(2) by (simp add: unat_of_nat_u64)
    have "unat (frame_kva p + 0x100) = unat (frame_kva p) + 0x100" by (subst unat_add_u64) (use fk p in simp_all)
    then show ?thesis by (subst unat_add_u64) (use i fk p that lit(2) in simp_all)
  qed
  have us: "unat (str + of_nat j) = unat str + j" if "j \<le> length xs" for j
  proof -
    have j: "unat (of_nat j :: u64) = j" using that lit(2) by (simp add: unat_of_nat_u64)
    have "unat str + j < 2 ^ 64" using lit(3) that fk p by simp
    then show ?thesis by (subst unat_add_u64) (simp_all only: j)
  qed
  have "?x + of_nat i \<noteq> str + of_nat j" if "i \<le> length xs" "j \<le> length xs" for i j
  proof
    assume "?x + of_nat i = str + of_nat j"
    then have "unat (?x + of_nat i) = unat (str + of_nat j)" by simp
    then show False unfolding ux [OF that(1)] us [OF that(2)] using lit(3) that by simp
  qed
  moreover have "length xs < 2 ^ 63" using lit(2) by simp
  ultimately obtain m where m: "strcpy_loop ?x str (bytes s) = Some m" "cstr m ?x xs"
      "\<forall>a. (\<forall>i\<le>length xs. a \<noteq> ?x + of_nat i) \<longrightarrow> m a = bytes s a"
    using strcpy_loop_cstr [OF lit(1)] by blast
  let ?m = "m(?x := 0)"
  have "strlen ?m ?x = Some 0" unfolding strlen_def by (subst strlen_loop.simps) simp
  then have "check_boot_strings str p s = ret (s\<lparr>bytes := ?m\<rparr>)"
    using x kva m(1) strcmp_same [OF m(2,2)] by (simp add: check_boot_strings_def user_ptr_bytes strcpy_def)
  moreover have "?m a = bytes s a" if "unat a < unat (frame_kva p)" for a
  proof -
    have "a \<noteq> ?x + of_nat i" if "i \<le> length xs" for i
      using ux [OF that] \<open>unat a < _\<close> by auto
    moreover from this [of 0] have "a \<noteq> ?x" by simp
    ultimately show ?thesis using m(3) by simp
  qed
  ultimately show ?thesis using that by blast
qed

lemma check_boot_pgdir_spec:
  assumes st: "pgst r s s [(f, n)] Map.empty" and n: "6 < n" "n < 2 ^ 31" and root: "ptes s (cell r 0) = 0"
    and pd: "boot_pgdir_va s = frame_kva r" "boot_pgdir_pa s = page2pa r"
    and lit: "cstr (bytes s) str xs" "length xs < 0x800" "unat str + length xs < unat (frame_kva f)"
  obtains m u where "check_boot_pgdir str s = ret (say ''check_boot_pgdir() succeeded!'' [] u)"
    "pgst r (s\<lparr>bytes := m\<rparr>) u [(f, n)] Map.empty" "ptes u (cell r 0) = 0"
    "\<forall>a. unat a < unat (frame_kva f) \<longrightarrow> m a = bytes s a"
proof -
  obtain s1 where s1: "alloc_page s = ret (Some f, s1)" "pgst r s s1 [(f + 1, n - 1)] [f \<mapsto> 0]" "ptes s1 = ptes s"
    by (rule pgst_alloc [OF st]) (use n in simp_all)
  obtain s2 where s2: "get_pte (frame_kva r) 0x100 True s1 = ret (cell (f + 1 + 1) 0, s2)"
      "pgst r s s2 [(f + 1 + 2, n - 1 - 2)] ([f \<mapsto> 0](f + 1 \<mapsto> 1, f + 1 + 1 \<mapsto> 1))"
      "two_tables r (f + 1) (f + 1 + 1) (\<lambda>_. 0) (ptes s2)"
    by (rule get_pte_creates [OF s1(2) _ _ string_pages(1)]) (use n root s1(3) in simp_all)
  obtain s3 where s3: "page_insert (frame_kva r) f 0x100 (ucast (PTE_W OR PTE_R)) s1 = ret (0, s3)"
      "pgst r s s3 [(f + 1 + 2, n - 1 - 2)] ([f \<mapsto> 0](f + 1 \<mapsto> 1, f + 1 + 1 \<mapsto> 1, f \<mapsto> 0 + 1))"
      "two_tables r (f + 1) (f + 1 + 1) ((\<lambda>_. 0)(0 := rw_pte f)) (ptes s3)"
    by (rule page_insert_new [OF s2 string_pages(1), of f 0]) simp_all
  have dt: "valid_frame s (f + 1)" "valid_frame s (f + 1 + 1)"
    using pgstD(14) [OF s3(2), of "f + 1"] pgstD(14) [OF s3(2), of "f + 1 + 1"] by simp_all
  note g = get_pte_tables [OF s3(3) pgstD(2) [OF s3(2)], unfolded pgstD(6) [OF s3(2)], OF dt string_pages(2)]
  obtain s4 where s4: "page_insert (frame_kva r) f (0x100 + PGSIZE) (ucast (PTE_W OR PTE_R)) s3 = ret (0, s4)"
      "pgst r s s4 [(f + 1 + 2, n - 1 - 2)] ([f \<mapsto> 0](f + 1 \<mapsto> 1, f + 1 + 1 \<mapsto> 1, f \<mapsto> 0 + 1, f \<mapsto> 0 + 1 + 1))"
      "two_tables r (f + 1) (f + 1 + 1) ((\<lambda>_. 0)(0 := rw_pte f, 1 := rw_pte f)) (ptes s4)"
    by (rule page_insert_new [OF g(1) s3(2,3) string_pages(2), of f "0 + 1"]) simp_all
  have eq: "[(f + 1 + 2, n - 1 - 2)] = [(f + 3, n - 3)]" "f + 1 + 1 = f + 2"
    "[f \<mapsto> 0](f + 1 \<mapsto> 1, f + 2 \<mapsto> 1, f \<mapsto> 0 + 1, f \<mapsto> 0 + 1 + 1) = [f \<mapsto> 2 :: u32, f + 1 \<mapsto> 1, f + 2 \<mapsto> 1]"
    by (auto simp: fun_eq_iff)
  note s4' = s4(1) s4(2,3) [unfolded eq]
  have al3: "page_ref f s3 = 1" using pgstD(12) [OF s3(2), of f] by simp
  have al4: "page_ref f s4 = 2" using pgstD(12) [OF s4'(2), of f] by simp
  have pf: "[f \<mapsto> 2 :: u32, f + 1 \<mapsto> 1, f + 2 \<mapsto> 1] f = Some 2" by simp
  have f: "valid_frame s f" "f < 0x40000" using pgstD(14,15) [OF s4'(2) pf] by blast+
  have x0: "user_ptr 0x100 s4 = ret (frame_kva f + 0x100)"
    using user_ptr_tables [OF s4'(2,3) pd(2) string_pages(1,5) pf _ rw_pte(1)] rw_pte(2) string_pages(3) by simp
  have x1: "user_ptr (0x100 + PGSIZE) s4 = ret (frame_kva f + 0x100)"
    using user_ptr_tables [OF s4'(2,3) pd(2) string_pages(2,6) pf _ rw_pte(1)] rw_pte(2) string_pages(4) by simp
  have kva: "page2kva f (s4\<lparr>bytes := m\<rparr>) = ret (frame_kva f)" for m
    unfolding page2kva_def
    by (rule KADDR_frame) (use f(1) pgstD(2,6) [OF pgst_bytes [OF s4'(2), of m]] in \<open>simp_all add: valid_frame_def\<close>)
  have by4: "bytes s4 = bytes s" using pgstD(19) [OF s4'(2)] by (simp add: vm_frame_def)
  obtain m where m: "check_boot_strings str f s4 = ret (s4\<lparr>bytes := m\<rparr>)"
      "\<forall>a. unat a < unat (frame_kva f) \<longrightarrow> m a = bytes s4 a"
    by (rule check_boot_strings_spec [OF x0 x1 kva _ lit(2,3) f(2)]) (use lit(1) by4 in simp_all)
  let ?s5 = "s4\<lparr>bytes := m\<rparr>" and ?s0 = "s\<lparr>bytes := m\<rparr>"
  have s5: "pgst r ?s0 ?s5 [(f + 3, n - 3)] [f \<mapsto> 2, f + 1 \<mapsto> 1, f + 2 \<mapsto> 1]" by (rule pgst_bytes [OF s4'(2)])
  obtain s6 where s6: "free_page f ?s5 = ret s6"
      "pgst r ?s0 s6 (ff_free f 1 [(f + 3, n - 3)]) ([f \<mapsto> 2, f + 1 \<mapsto> 1, f + 2 \<mapsto> 1](f := None))" "ptes s6 = ptes ?s5"
    by (rule pgst_free [OF s5, of f 2]) (use n in \<open>simp_all add: insert_ok_def\<close>)
  have eq6: "ff_free f 1 [(f + 3, n - 3)] = [(f, 1), (f + 3, n - 3)]"
      "[f \<mapsto> 2 :: u32, f + 1 \<mapsto> 1, f + 2 \<mapsto> 1](f := None) = [f + 1 \<mapsto> 1, f + 2 \<mapsto> 1]"
    using ff_free_front(2) [of f "f + 3" "n - 3" "[]"] by (auto simp: fun_eq_iff)
  note s6' = s6(2) [unfolded eq6]
  have tt6: "two_tables r (f + 1) (f + 2) ((\<lambda>_. 0)(0 := rw_pte f, 1 := rw_pte f)) (ptes s6)"
    using s4'(3) s6(3) by simp
  obtain s7 s8 u where u: "pde2page (ptes s6 (frame_kva r)) s6 = ret (f + 1)" "page2kva (f + 1) s6 = ret (frame_kva (f + 1))"
    "pde2page (ptes s6 (frame_kva (f + 1))) s6 = ret (f + 2)" "free_page (f + 2) s6 = ret s7"
    "pde2page (ptes s7 (frame_kva r)) s7 = ret (f + 1)" "free_page (f + 1) s7 = ret s8"
    "u = flush_tlb (set_pte (frame_kva r) 0 s8)" "pgst r ?s0 u [(f, n)] Map.empty" "ptes u (cell r 0) = 0"
    by (rule give_tables_back [OF s6' tt6 n])
  have same: "npage s6 = npage ?s5" "va_pa_offset s6 = va_pa_offset ?s5"
    using pgstD(3,4) [OF s6'] pgstD(3,4) [OF s5] by simp_all
  have e5: "pde2page (ptes ?s5 (frame_kva r)) ?s5 = ret (f + 1)" "page2kva (f + 1) ?s5 = ret (frame_kva (f + 1))"
    using u(1,2) s6(3) same by (simp_all add: pde2page_def pa2page_def page2kva_def KADDR_def split: if_splits)
  have "boot_pgdir_loop (ucast (ROUNDDOWN KERNBASE PGSIZE)) s = ret s"
    by (rule boot_pgdir_loop_empty) (use pgstD(2) [OF st] in \<open>simp add: vm_ok_def word_le_nat_alt unat_word_ariths PGSIZE_def KERNBASE_def\<close>)
  moreover have "nr_free u = nr_free s" by (rule pgst_count [OF u(8) st])
  ultimately have "check_boot_pgdir str s = ret (say ''check_boot_pgdir() succeeded!'' [] u)"
    using s1(1) s3(1) s4(1) al3 al4 m(1) e5 s6(1) u(3-6) pd(1) root
    by (simp add: check_boot_pgdir_def nr_free_pages_run Let_def page_or_null_def insert_there_def u(7) cell_0)
  then show ?thesis using that [OF _ u(8,9)] m(2) by4 by simp
qed

subsection \<open>pmm_init\<close>

lemma page2pa_in_memory:
  assumes "valid_frame s p" and "vm_ok s"
  shows "page2pa p < npage s * PGSIZE"
proof -
  have "unat (page2pa p) = 4096 * (p + 0x80000)"
    using valid_bound [OF assms] unfolding page2pa_eq by (subst unat_of_nat_u64) simp_all
  moreover have "unat (npage s * PGSIZE) = unat (npage s) * 4096"
    using assms(2) by (simp add: vm_ok_def unat_word_ariths PGSIZE_def)
  ultimately show ?thesis using assms(1) by (simp add: valid_frame_def word_less_nat_alt)
qed

lemma PADDR_frame:
  assumes "va_pa_offset s = PHYSICAL_MEMORY_OFFSET" and "0x200 \<le> r" "r < 0x40000"
  shows "PADDR (frame_kva r) s = ret (page2pa r)"
proof -
  have "KERNBASE \<le> frame_kva r"
    using unat_cell [of r 0] assms(2,3) by (simp add: cell_0 word_le_nat_alt KERNBASE_def)
  then have "PADDR (frame_kva r) s = ret (frame_kva r - PHYSICAL_MEMORY_OFFSET)" by (rule PADDR_kernel [OF assms(1)])
  then show ?thesis by (simp add: frame_kva_def)
qed

text \<open>What \<open>pmm_init\<close> changes.\<close>

definition pmm_frame :: "'z vm_state_scheme \<Rightarrow> 'z vm_state_scheme \<Rightarrow> bool" where
  "pmm_frame s u \<longleftrightarrow> u = s\<lparr>console := console u, pages := pages u, npage := npage u, va_pa_offset := va_pa_offset u,
     free_list := free_list u, nr_free := nr_free u, bytes := bytes u, ptes := ptes u, tlb := tlb u,
     boot_pgdir_va := boot_pgdir_va u, boot_pgdir_pa := boot_pgdir_pa u\<rparr>"

unbundle bit_operations_syntax

text \<open>Up to the test of the allocator.\<close>

lemma pmm_init_pages:
  fixes s :: "'z vm_state_scheme"
  assumes kend: "unat kend = k + 0xFFFFFFFF40000000" and k: "0x80200000 \<le> k"
    and mend: "unat mem_begin + unat mem_size = mend" "mem_size \<noteq> 0" "mend \<le> 0xC0000000"
    and room: "first_free_frame k mend + 6 < boot_frames mend" and off: "\<not> intr_on s"
  obtains s1 t where "page_init kend mem_begin mem_size (init_pmm_manager s) = ret s1" "default_check s1 = ret t"
    "fresh_block t (first_free_frame k mend) (boot_frames mend - first_free_frame k mend)"
    "unat (npage t) = mend div 4096" "va_pa_offset t = PHYSICAL_MEMORY_OFFSET"
    "\<exists>pg h m c. t = s\<lparr>console := c, pages := pg, npage := npage t, va_pa_offset := PHYSICAL_MEMORY_OFFSET, free_list := h,
        nr_free := m\<rparr>"
proof -
  let ?f = "first_free_frame k mend" and ?N = "boot_frames mend"
  have room': "?f < ?N" using room by simp
  have N: "?N \<le> 0x40000" using mend(3) by (simp add: boot_frames_def)
  obtain s1 where s1: "page_init kend mem_begin mem_size (init_pmm_manager s) = ret s1" "free_rel s1 [(?f, ?N - ?f)]"
      "unat (npage s1) = mend div 4096" "va_pa_offset s1 = PHYSICAL_MEMORY_OFFSET" "p_flags (pages s1 ?f) = 2"
      "\<forall>j\<in>{?f<..<?N}. p_flags (pages s1 j) = 0"
      "\<exists>pg h m c. s1 = s\<lparr>console := c, pages := pg, npage := npage s1, va_pa_offset := PHYSICAL_MEMORY_OFFSET, free_list := h,
        nr_free := m\<rparr>"
    using page_init_spec [OF kend k mend room', of s] by blast
  obtain pg h m c where f1: "s1 = s\<lparr>console := c, pages := pg, npage := npage s1, va_pa_offset := PHYSICAL_MEMORY_OFFSET,
      free_list := h, nr_free := m\<rparr>" using s1(7) by blast
  have ok: "vm_ok s1" using s1(3,4) mend(3) by (simp add: vm_ok_def)
  have valid: "valid_frame s1 p" if "p < ?N" for p using s1(3) that by (simp add: valid_frame_def boot_frames_def)
  have same: "sstatus s1 = sstatus s" "ptes s1 = ptes s" "bytes s1 = bytes s" by (subst f1, simp)+
  have fresh: "fresh_block s1 ?f (?N - ?f)" using s1(2,5,6) room' by (simp add: fresh_block_def)
  have n: "6 < ?N - ?f" "?N - ?f < 2 ^ 31" using room N by simp_all
  have "\<not> intr_on s1" using off by (simp add: intr_on_def same(1))
  then obtain pg2 h2 where s2: "default_check s1 = ret (s1\<lparr>pages := pg2, free_list := h2\<rparr>)"
      "fresh_block (s1\<lparr>pages := pg2, free_list := h2\<rparr>) ?f (?N - ?f)"
    by (rule default_check_spec [OF _ fresh]) (use n room valid page2pa_in_memory [OF _ ok] in simp_all)
  show ?thesis
  proof (rule that [OF s1(1) s2])
    let ?t = "s1\<lparr>pages := pg2, free_list := h2\<rparr>"
    show "unat (npage ?t) = mend div 4096" "va_pa_offset ?t = PHYSICAL_MEMORY_OFFSET" using s1(3,4) by simp_all
    show "\<exists>pg h m c. ?t = s\<lparr>console := c, pages := pg, npage := npage ?t, va_pa_offset := PHYSICAL_MEMORY_OFFSET,
        free_list := h, nr_free := m\<rparr>"
      by (subst f1, intro exI [of _ pg2] exI [of _ h2] exI [of _ m] exI [of _ c]) simp
  qed
qed

lemma pmm_frame_iff:
  "pmm_frame s u \<longleftrightarrow> sstatus u = sstatus s \<and> sie u = sie s \<and> satp u = satp s \<and> stvec u = stvec s \<and>
     sscratch u = sscratch s \<and> vm_state.more u = vm_state.more s"
  by (cases s; cases u) (auto simp: pmm_frame_def)

text \<open>The two tests of the page tables give back every page, clear the root entry they used and write
  to no byte below the free pages.\<close>

lemma pgdir_checks:
  assumes st: "pgst r s s [(f, n)] Map.empty" and n: "6 < n" "n < 2 ^ 31" and root: "ptes s (cell r 0) = 0"
    and pd: "boot_pgdir_va s = frame_kva r" "boot_pgdir_pa s = page2pa r"
    and lit: "cstr (bytes s) str xs" "length xs < 0x800" "unat str + length xs < unat (frame_kva f)"
  obtains t u where "check_pgdir s = ret t" "check_boot_pgdir str t = ret u" "free_rel u [(f, n)]" "pmm_frame s u"
    "npage u = npage s" "va_pa_offset u = va_pa_offset s" "boot_pgdir_va u = boot_pgdir_va s"
    "boot_pgdir_pa u = boot_pgdir_pa s" "\<forall>i<512. ptes u (cell r i) = ptes s (cell r i)"
    "\<forall>a. unat a < unat (frame_kva f) \<longrightarrow> bytes u a = bytes s a"
proof -
  note D = pgstD [OF st]
  obtain u4 where u4: "check_pgdir s = ret (say ''check_pgdir() succeeded!'' [] u4)"
      "pgst r s u4 [(f, n)] Map.empty" "ptes u4 (cell r 0) = 0"
    by (rule check_pgdir_spec [OF st n root pd(1)])
  let ?s5 = "say ''check_pgdir() succeeded!'' [] u4"
  note D4 = pgstD [OF u4(2)]
  have fr4: "vm_frame s u4" by (rule D4(19))
  have rel5: "free_rel ?s5 [(f, n)]" using D4(1) free_rel_cong [of ?s5 u4] by (simp add: say_def)
  have st5: "pgst r ?s5 ?s5 [(f, n)] Map.empty"
    by (rule pgst_start [OF rel5])
      (use D4(2,3,6,8,10,17) in \<open>auto simp: say_def vm_ok_def valid_frame_def pages_of_def\<close>)
  have by5: "bytes ?s5 = bytes s" using fr4 by (simp add: vm_frame_def say_def)
  obtain m6 u6 where u6: "check_boot_pgdir str ?s5 = ret (say ''check_boot_pgdir() succeeded!'' [] u6)"
      "pgst r (?s5\<lparr>bytes := m6\<rparr>) u6 [(f, n)] Map.empty" "ptes u6 (cell r 0) = 0"
      "\<forall>a. unat a < unat (frame_kva f) \<longrightarrow> m6 a = bytes ?s5 a"
    by (rule check_boot_pgdir_spec [OF st5 n _ _ _ _ lit(2,3)])
      (use u4(3) fr4 lit(1) by5 pd in \<open>simp_all add: vm_frame_def say_def\<close>)
  let ?u = "say ''check_boot_pgdir() succeeded!'' [] u6"
  note D6 = pgstD [OF u6(2)]
  have fr6: "vm_frame (?s5\<lparr>bytes := m6\<rparr>) u6" by (rule D6(19))
  show ?thesis
  proof (rule that [OF u4(1) u6(1)])
    show "free_rel ?u [(f, n)]" using D6(1) free_rel_cong [of ?u u6] by (simp add: say_def)
    show "pmm_frame s ?u"
      using fr6 fr4 by (simp add: pmm_frame_iff vm_frame_def say_def)
    show "\<forall>i<512. ptes ?u (cell r i) = ptes s (cell r i)"
    proof (intro allI impI)
      fix i :: u64 assume "i < 512"
      then show "ptes ?u (cell r i) = ptes s (cell r i)"
        using u6(3) root D6(20) [of i] D4(20) [of i] by (cases "i = 0") (simp_all add: say_def)
    qed
    show "\<forall>a. unat a < unat (frame_kva f) \<longrightarrow> bytes ?u a = bytes s a"
      using u6(4) by5 fr6 by (simp add: vm_frame_def say_def)
  qed (use fr6 fr4 in \<open>simp_all add: vm_frame_def say_def\<close>)
qed

lemma pmm_init_spec:
  assumes kend: "unat kend = k + 0xFFFFFFFF40000000" and k: "0x80200000 \<le> k"
    and mend: "unat mem_begin + unat mem_size = mend" "mem_size \<noteq> 0" "mend \<le> 0xC0000000"
    and room: "first_free_frame k mend + 6 < boot_frames mend"
    and off: "\<not> intr_on s" and root: "0x200 \<le> r" "r < first_free_frame k mend" "ptes s (cell r 0) = 0"
    and lit: "cstr (bytes s) str xs" "length xs < 0x800"
      "unat str + length xs < unat (frame_kva (first_free_frame k mend))"
  obtains u where "pmm_init kend (frame_kva r) mem_begin mem_size str s = ret u" "pmm_frame s u"
    "free_rel u [(first_free_frame k mend, boot_frames mend - first_free_frame k mend)]"
    "unat (npage u) = mend div 4096" "vm_ok u"
    "\<forall>p\<in>{first_free_frame k mend..<boot_frames mend}. valid_frame u p"
    "boot_pgdir_va u = frame_kva r" "boot_pgdir_pa u = page2pa r"
    "\<forall>i<512. ptes u (cell r i) = ptes s (cell r i)"
    "\<forall>a. unat a < unat (frame_kva (first_free_frame k mend)) \<longrightarrow> bytes u a = bytes s a"
proof -
  let ?f = "first_free_frame k mend" and ?N = "boot_frames mend"
  have room': "?f < ?N" using room by simp
  have N: "?N \<le> 0x40000" using mend(3) by (simp add: boot_frames_def)
  obtain s1 t where s1: "page_init kend mem_begin mem_size (init_pmm_manager s) = ret s1" "default_check s1 = ret t"
      "fresh_block t ?f (?N - ?f)" "unat (npage t) = mend div 4096" "va_pa_offset t = PHYSICAL_MEMORY_OFFSET"
      "\<exists>pg h m c. t = s\<lparr>console := c, pages := pg, npage := npage t, va_pa_offset := PHYSICAL_MEMORY_OFFSET, free_list := h,
        nr_free := m\<rparr>"
    by (rule pmm_init_pages [OF kend k mend room off])
  obtain pg h m c where f1: "t = s\<lparr>console := c, pages := pg, npage := npage t, va_pa_offset := PHYSICAL_MEMORY_OFFSET,
      free_list := h, nr_free := m\<rparr>" using s1(6) by blast
  have ok: "vm_ok t" using s1(4,5) mend(3) by (simp add: vm_ok_def)
  have valid: "valid_frame t p" if "p < ?N" for p using s1(4) that by (simp add: valid_frame_def boot_frames_def)
  have same: "ptes t = ptes s" "bytes t = bytes s" by (subst f1, simp)+
  have n: "6 < ?N - ?f" "?N - ?f < 2 ^ 31" using room N by simp_all
  define s3 where "s3 = (say ''check_alloc_page() succeeded!'' [] t)
      \<lparr>boot_pgdir_va := frame_kva r, boot_pgdir_pa := page2pa r\<rparr>"
  have rel3: "free_rel s3 [(?f, ?N - ?f)]"
    using s1(3) free_rel_cong [of s3 t] by (simp add: s3_def say_def fresh_block_def)
  have st3: "pgst r s3 s3 [(?f, ?N - ?f)] Map.empty"
    by (rule pgst_start [OF rel3]) (use ok valid root(2) room' N in \<open>simp_all add: s3_def say_def vm_ok_def valid_frame_def\<close>)
  obtain v u where u: "check_pgdir s3 = ret v" "check_boot_pgdir str v = ret u" "free_rel u [(?f, ?N - ?f)]" "pmm_frame s3 u"
      "npage u = npage s3" "va_pa_offset u = va_pa_offset s3" "boot_pgdir_va u = boot_pgdir_va s3"
      "boot_pgdir_pa u = boot_pgdir_pa s3" "\<forall>i<512. ptes u (cell r i) = ptes s3 (cell r i)"
      "\<forall>a. unat a < unat (frame_kva ?f) \<longrightarrow> bytes u a = bytes s3 a"
    by (rule pgdir_checks [OF st3 n _ _ _ _ lit(2,3)]) (use root(3) lit(1) same in \<open>simp_all add: s3_def say_def\<close>)
  have pad: "PADDR (frame_kva r) ((say ''check_alloc_page() succeeded!'' [] t)
      \<lparr>boot_pgdir_va := frame_kva r\<rparr>) = ret (page2pa r)"
    by (rule PADDR_frame) (use s1(5) root(1,2) room' N in \<open>simp_all add: say_def\<close>)
  have run: "pmm_init kend (frame_kva r) mem_begin mem_size str s = ret (kmalloc_init u)"
    using s1(1,2) pad u(1,2) by (simp add: pmm_init_def check_alloc_page_def s3_def [symmetric] Let_def)
  have pf: "pmm_frame s (kmalloc_init u)"
    using u(4) unfolding s3_def by (subst (asm) f1) (simp add: pmm_frame_iff say_def kmalloc_init_def)
  have sel: "npage (kmalloc_init u) = npage t" "va_pa_offset (kmalloc_init u) = va_pa_offset t"
    "boot_pgdir_va (kmalloc_init u) = frame_kva r" "boot_pgdir_pa (kmalloc_init u) = page2pa r"
    "ptes (kmalloc_init u) = ptes u" "bytes (kmalloc_init u) = bytes u" "ptes s3 = ptes s" "bytes s3 = bytes s"
    using u(5-8) same by (simp_all add: kmalloc_init_def say_def s3_def)
  show ?thesis
  proof (rule that [OF run pf])
    show "free_rel (kmalloc_init u) [(?f, ?N - ?f)]"
      using u(3) free_rel_cong [of "kmalloc_init u" u] by (simp add: kmalloc_init_def say_def)
    show "unat (npage (kmalloc_init u)) = mend div 4096" "vm_ok (kmalloc_init u)"
      "\<forall>p\<in>{?f..<?N}. valid_frame (kmalloc_init u) p"
      using s1(4) ok valid sel(1,2) by (simp_all add: vm_ok_def valid_frame_def)
  qed (use u(9,10) in \<open>simp_all add: sel\<close>)
qed

end
