(* ===== verification/PmmStart.thy ===== *)
theory PmmStart
  imports PgdirSpec
begin

text \<open>
  The start of the memory manager as a whole: the self-test of the page allocator and \<open>pmm_init\<close>,
  stated for every machine they can be run on.
\<close>

text \<open>The self-test of the allocator passes on any machine whose free memory is one fresh block of
  at least six pages: no assertion fails, and afterwards the free pages are that block again, and no
  other page descriptor has changed.\<close>

theorem default_check_passes_any:
  assumes "\<not> intr_on s" and "fresh_block s b n" and "6 \<le> n" "n < 2 ^ 31"
    and "page2pa b < npage s * PGSIZE" "page2pa (b + 1) < npage s * PGSIZE" "page2pa (b + 2) < npage s * PGSIZE"
  shows "\<exists>t. default_check s = ret t \<and> fresh_block t b n \<and> (\<forall>j. j \<notin> {b..<b + n} \<longrightarrow> pages t j = pages s j)"
proof -
  obtain pg h where "default_check s = ret (s\<lparr>pages := pg, free_list := h\<rparr>)"
      "fresh_block (s\<lparr>pages := pg, free_list := h\<rparr>) b n" "\<forall>j. j \<notin> {b..<b + n} \<longrightarrow> pg j = pages s j"
    by (rule default_check_spec [OF assms])
  then show ?thesis by (intro exI conjI) auto
qed

lemma default_check_passes_any_witness:
  "\<exists>t. default_check sixteen_pages = ret t \<and> fresh_block t 4 8 \<and>
     (\<forall>j. j \<notin> {4..<4 + 8} \<longrightarrow> pages t j = pages sixteen_pages j)"
proof (rule default_check_passes_any)
  show "\<not> intr_on sixteen_pages" by (simp add: intr_on_def sixteen_pages_def)
  show "fresh_block sixteen_pages 4 8" using sixteen_free by (auto simp: fresh_block_def sixteen_pages_def)
qed (simp_all add: page2pa_def page2ppn_def nbase_def DRAM_BASE_def PGSIZE_def sixteen_pages_def)





end
