(* ===== verification/ProcInitSpec.thy ===== *)
theory ProcInitSpec
  imports VmmSpec
begin

unbundle bit_operations_syntax

text \<open>
  \<open>proc_init\<close> of kern/process/proc.c on a kernel that has just set up its memory: the idle process becomes
  the running process, and the first fork gives the process 1, which waits to run \<open>init_main\<close>.
\<close>

lemma init_buckets_cdll:
  assumes "n \<le> 2 ^ 32" and "unat b < n"
  shows "cdll (init_buckets n h) (LHead b) []"
  using assms
proof (induction n)
  case (Suc n)
  show ?case
  proof (cases "b = of_nat n")
    case True
    then show ?thesis by (simp add: cdll_init)
  next
    case False
    have "unat b \<noteq> n"
    proof
      assume "unat b = n"
      then have "b = of_nat n" by auto
      then show False using False by simp
    qed
    then have "cdll (init_buckets n h) (LHead b) []" using Suc by simp
    then show ?thesis using False by (simp add: cdll_init_other)
  qed
qed simp

lemma init_buckets_hash_inv:
  assumes "hash_list s = init_buckets HASH_LIST_SIZE h"
  shows "hash_inv s []"
  unfolding hash_inv_def
proof (intro allI impI)
  fix b :: u32 assume "unat b < HASH_LIST_SIZE"
  then have "cdll (hash_list s) (LHead b) []"
    unfolding assms by (rule init_buckets_cdll [rotated]) (simp add: HASH_LIST_SIZE_def HASH_SHIFT_def)
  then have "hash_bucket s [] b []" by (simp add: hash_bucket_def)
  then show "\<exists>qs. hash_bucket s [] b qs" by blast
qed

text \<open>What \<open>proc_init\<close> leaves alone.\<close>

definition boot_keep :: "'z kernel_state_scheme \<Rightarrow> 'z kernel_state_scheme \<Rightarrow> bool" where
  "boot_keep s t \<longleftrightarrow> sstatus t = sstatus s \<and> sie t = sie s \<and> satp t = satp s \<and> stvec t = stvec s \<and>
     sscratch t = sscratch s \<and> ptes t = ptes s \<and> tlb t = tlb s \<and> boot_pgdir_va t = boot_pgdir_va s \<and>
     boot_pgdir_pa t = boot_pgdir_pa s \<and> kernel_state.more t = kernel_state.more s"

lemma boot_keep_trans: "boot_keep s t \<Longrightarrow> boot_keep t u \<Longrightarrow> boot_keep s u"
  by (simp add: boot_keep_def)

lemma boot_keep_fork: "fork_keep s t \<Longrightarrow> boot_keep s t"
  by (simp add: fork_keep_def boot_keep_def)

text \<open>A buffer from the heap, set to zero.\<close>

lemma zeroed_buffer:
  assumes "heap_inv s al" and "0 < sz" "sz < 4064" and "free_room (Suc k) s" "0 < k"
  obtains y t u where "kmalloc sz s = ret (block_ptr y, t)" "zero_block (block_ptr y) sz t = ret u"
    "heap_inv u (insert y al)" "y \<notin> al" "free_room k u" "procs u = procs s" "proc_list u = proc_list s"
    "hash_list u = hash_list s" "current u = current s" "idleproc u = idleproc s" "nr_process u = nr_process s"
    "last_pid u = last_pid s" "next_safe u = next_safe s" "boot_keep s u" "procs t = procs s"
proof -
  obtain y t where y: "kmalloc sz s = ret (block_ptr y, t)" "heap_inv t (insert y al)" "y \<notin> al"
      "block_ptr y \<noteq> 0" "free_room k t" "kmem_same s t"
    using kmalloc_fresh [OF assms] by metis
  let ?u = "t\<lparr>bytes := memset (block_ptr y) 0 sz (bytes t)\<rparr>"
  have inv: "heap_inv ?u (insert y al)" by (rule heap_inv_cong [OF y(2)]) simp_all
  have room: "free_room k ?u" using y(5) free_room_cong [of ?u t k] by simp
  have keep: "boot_keep s ?u" using boot_keep_fork [OF fork_keep_kmem [OF y(6)]] by (simp add: boot_keep_def)
  show ?thesis
    by (rule that [of y t ?u]) (use y(1,3,4) inv room keep in \<open>simp_all add: zero_block_def kmem_same_kernel [OF y(6)]\<close>)
qed

text \<open>The descriptor of the idle process.\<close>

definition idle_proc :: "u64 \<Rightarrow> u64 \<Rightarrow> u8 list \<Rightarrow> proc_struct" where
  "idle_proc pgd stack nm = (fresh_proc pgd)\<lparr>pid := 0, state := PROC_RUNNABLE, kstack := stack,
     need_resched := True, name := nm\<rparr>"

definition kthread_tf :: "u64 \<Rightarrow> u64 \<Rightarrow> u64 \<Rightarrow> u64 \<Rightarrow> trapframe" where
  "kthread_tf ss entry fn arg = \<lparr>gpr = (\<lambda>_. 0)(G_s0 := fn, G_s1 := arg),
     tf_status = (ss OR SSTATUS_SPP OR SSTATUS_SPIE) AND NOT SSTATUS_SIE, tf_epc = entry, tf_badvaddr = 0, tf_cause = 0\<rparr>"

lemma kernel_thread_fork:
  "kernel_thread forkret entry fn arg cf s = do_fork forkret (cf OR CLONE_VM) 0 (kthread_tf (sstatus s) entry fn arg) s"
  by (simp add: kernel_thread_def kthread_tf_def)

lemma idle_setup:
  assumes inv: "heap_inv s al" and room: "free_room 6 s"
  obtains x t where "alloc_proc (s\<lparr>proc_list := list_init ProcHead (proc_list s),
      hash_list := init_buckets HASH_LIST_SIZE (hash_list s)\<rparr>) = ret (block_ptr x, t)"
    "block_ptr x \<noteq> 0" "heap_inv t (insert x al)" "free_room 5 t"
    "procs t = (procs s)(block_ptr x := fresh_proc (boot_pgdir_pa s))" "cdll (proc_list t) ProcHead []" "hash_inv t []"
    "nr_process t = nr_process s" "last_pid t = last_pid s" "next_safe t = next_safe s" "boot_keep s t"
proof -
  let ?s = "s\<lparr>proc_list := list_init ProcHead (proc_list s), hash_list := init_buckets HASH_LIST_SIZE (hash_list s)\<rparr>"
  have inv0: "heap_inv ?s al" by (rule heap_inv_cong [OF inv]) simp_all
  have room0: "free_room (Suc 5) ?s" using room free_room_cong [of ?s s] by (simp add: eval_nat_numeral)
  have sz: "0 < sizeof_proc_struct" "sizeof_proc_struct < 4064" by (simp_all add: sizeof_proc_struct_def)
  obtain x u where x: "kmalloc sizeof_proc_struct ?s = ret (block_ptr x, u)" "heap_inv u (insert x al)"
      "block_ptr x \<noteq> 0" "free_room 5 u" "kmem_same ?s u"
    using kmalloc_fresh [OF inv0 sz room0] by (metis zero_less_numeral)
  let ?p = "block_ptr x"
  define t where "t = u\<lparr>procs := (procs u)(?p := fresh_proc (boot_pgdir_pa u)),
    proc_list := list_init (Link ?p) (proc_list u), hash_list := list_init (Link ?p) (hash_list u)\<rparr>"
  note same = kmem_same_kernel [OF x(5)]
  have keep: "boot_keep ?s u" by (rule boot_keep_fork [OF fork_keep_kmem [OF x(5)]])
  have run: "alloc_proc ?s = ret (?p, t)" unfolding alloc_proc_def x(1) using x(3) by (simp add: t_def fresh_proc_def)
  have "heap_inv t (insert x al)" by (rule heap_inv_cong [OF x(2)]) (simp_all add: t_def)
  moreover have "free_room 5 t" using x(4) free_room_cong [of t u 5] by (simp add: t_def)
  moreover have "cdll (proc_list t) ProcHead []" by (simp add: t_def same cdll_init_other cdll_init)
  moreover have "hash_inv u []" by (rule init_buckets_hash_inv [of _ "hash_list s"]) (simp add: same)
  then have "hash_inv t []" by (rule hash_inv_cong [rotated 2]) (simp_all add: t_def cdll_init_other)
  moreover have "procs t = (procs s)(?p := fresh_proc (boot_pgdir_pa s))" using keep by (simp add: t_def same boot_keep_def)
  moreover have "boot_keep s t" using keep by (simp add: boot_keep_def t_def)
  ultimately show ?thesis using run x(3) by (intro that [of x t]) (simp_all add: t_def same)
qed

lemma upd_proc_frame [simp]:
  "boot_keep s (upd_proc p g t) \<longleftrightarrow> boot_keep s t" "boot_keep (upd_proc p g s) t \<longleftrightarrow> boot_keep s t"
  "free_room k (upd_proc p g s) \<longleftrightarrow> free_room k s"
  by (simp_all add: boot_keep_def upd_proc_def) (rule free_room_cong; simp)

text \<open>What \<open>proc_init\<close> has set up: the idle process runs, and the process 1 waits in the list.\<close>

definition procs_started ::
  "proc_addrs \<Rightarrow> 'z kernel_state_scheme \<Rightarrow> 'z kernel_state_scheme \<Rightarrow> block set \<Rightarrow> bool" where
  "procs_started a s t al \<longleftrightarrow> (\<exists>al' nm f. al \<subseteq> al' \<and> fork_inv t al' [initproc t] \<and> current t = idleproc t \<and>
     idleproc t \<noteq> initproc t \<and> procs t (idleproc t) = idle_proc (boot_pgdir_pa s) (a_bootstack a) nm \<and>
     procs t (initproc t) = (forked_proc (a_forkret a) (boot_pgdir_pa s) (idleproc t) 1 f)
       \<lparr>name := read_bytes (bytes t) (a_init_name a) PROC_NAME_LEN @ [0]\<rparr> \<and>
     tfs t (stack_tf f) = forked_tf (kthread_tf (sstatus s) (a_entry a) (a_init_main a) (a_hello a)) 0 f \<and>
     boot_keep s t)"

lemma fork_doneE:
  assumes "fork_done forkret esp tf s r al ps"
  obtains pd t c f where "r = ret (pd, t)" "1 \<le> pd" "ps = [] \<longrightarrow> pd = first_pid s"
    "fork_inv t (insert (proc_block c) al) (block_ptr (proc_block c) # ps)" "block_ptr (proc_block c) \<notin> block_ptr ` al"
    "find_proc pd t = Some (block_ptr (proc_block c))"
    "procs t = (procs s)(block_ptr (proc_block c) := forked_proc forkret (boot_pgdir_pa s) (current s) pd f)"
    "tfs t = (tfs s)(stack_tf f := forked_tf tf esp f)" "current t = current s" "idleproc t = idleproc s" "fork_keep s t"
  using assms unfolding fork_done_def Let_def by (elim exE conjE) (rule that, assumption+)

unbundle bit_operations_syntax

text \<open>The second half of \<open>proc_init\<close>, from \<open>kernel_thread\<close> on, with the idle process running.\<close>

definition proc_init_thread :: "proc_addrs \<Rightarrow> 'z kernel_state_scheme \<Rightarrow> 'z kernel_state_scheme run" where
  "proc_init_thread a s =
     run_bind (kernel_thread (a_forkret a) (a_entry a) (a_init_main a) (a_hello a) 0 s) (\<lambda>(pd, s).
     if pd \<le> 0 then panic ''create init_main failed.''
     else run_bind (loop_run (find_proc pd s)) (\<lambda>init.
       if init = 0 then None else
       let s = s\<lparr>initproc := init\<rparr>;
           s = set_proc_name init (a_init_name a) s in
       c_assert (idleproc s \<noteq> 0 \<and> pid (procs s (idleproc s)) = 0) ''idleproc != NULL && idleproc->pid == 0'' (
       c_assert (initproc s \<noteq> 0 \<and> pid (procs s (initproc s)) = 1) ''initproc != NULL && initproc->pid == 1'' (
       ret s))))"

lemma proc_init_idle:
  assumes inv: "heap_inv s al" and room: "free_room 6 s" and nr: "nr_process s = 0"
    and ids: "last_pid s = MAX_PID" "next_safe s = MAX_PID"
  obtains t x nm al' f where "proc_init a s = proc_init_thread a t" "fork_inv t al' []" "free_room 3 t"
    "block_ptr x \<noteq> 0" "x \<in> al'" "procs t = f(block_ptr x := idle_proc (boot_pgdir_pa s) (a_bootstack a) nm)"
    "current t = block_ptr x" "idleproc t = block_ptr x" "last_pid t = MAX_PID" "al \<subseteq> al'" "boot_keep s t"
proof -
  obtain x s1 where s1: "alloc_proc (s\<lparr>proc_list := list_init ProcHead (proc_list s),
      hash_list := init_buckets HASH_LIST_SIZE (hash_list s)\<rparr>) = ret (block_ptr x, s1)"
    "block_ptr x \<noteq> 0" "heap_inv s1 (insert x al)" "free_room 5 s1"
    "procs s1 = (procs s)(block_ptr x := fresh_proc (boot_pgdir_pa s))" "cdll (proc_list s1) ProcHead []" "hash_inv s1 []"
    "nr_process s1 = nr_process s" "last_pid s1 = last_pid s" "next_safe s1 = next_safe s" "boot_keep s s1"
    using idle_setup [OF inv room] by blast
  let ?p = "block_ptr x" and ?al1 = "insert x al"
  define s2 where "s2 = s1\<lparr>idleproc := ?p\<rparr>"
  have inv2: "heap_inv s2 ?al1" by (rule heap_inv_cong [OF s1(3)]) (simp_all add: s2_def)
  have room2: "free_room (Suc 4) s2" using s1(4) free_room_cong [of s2 s1] by (simp add: s2_def eval_nat_numeral)
  have sz: "0 < sizeof_context" "sizeof_context < 4064" "0 < (of_nat PROC_NAME_LEN :: u64)" "(of_nat PROC_NAME_LEN :: u64) < 4064"
    by (simp_all add: sizeof_context_def PROC_NAME_LEN_def)
  obtain y u3 s3 where s3: "kmalloc sizeof_context s2 = ret (block_ptr y, u3)" "zero_block (block_ptr y) sizeof_context u3 = ret s3"
      "heap_inv s3 (insert y ?al1)" "free_room 4 s3" "procs s3 = procs s2" "proc_list s3 = proc_list s2"
      "hash_list s3 = hash_list s2" "idleproc s3 = idleproc s2" "nr_process s3 = nr_process s2"
      "last_pid s3 = last_pid s2" "next_safe s3 = next_safe s2" "boot_keep s2 s3"
    using zeroed_buffer [OF inv2 sz(1,2) room2] by (metis zero_less_numeral)
  have room3: "free_room (Suc 3) s3" using s3(4) by (simp add: eval_nat_numeral)
  obtain z u4 s4 where s4: "kmalloc (of_nat PROC_NAME_LEN) s3 = ret (block_ptr z, u4)"
      "zero_block (block_ptr z) (of_nat PROC_NAME_LEN) u4 = ret s4"
      "heap_inv s4 (insert z (insert y ?al1))" "free_room 3 s4" "procs s4 = procs s3" "proc_list s4 = proc_list s3"
      "hash_list s4 = hash_list s3" "idleproc s4 = idleproc s3" "nr_process s4 = nr_process s3"
      "last_pid s4 = last_pid s3" "next_safe s4 = next_safe s3" "boot_keep s3 s4"
    using zeroed_buffer [OF s3(3) sz(3,4) room3] by (metis zero_less_numeral)
  let ?al = "insert z (insert y ?al1)"
  have keep4: "boot_keep s s4" using s1(11) s3(12) s4(12) by (simp add: boot_keep_def s2_def)
  have procs4: "procs s4 ?p = fresh_proc (boot_pgdir_pa s4)" using keep4 by (simp add: s4(5) s3(5) s2_def s1(5) boot_keep_def)
  define s5 where "s5 = say ''alloc_proc() correct!\<newline>'' [] s4"
  define nm where "nm = read_bytes (bytes s4) (a_idle_name a) PROC_NAME_LEN @ [0]"
  define s6 where "s6 = s5\<lparr>procs := (procs s4)(?p := idle_proc (boot_pgdir_pa s4) (a_bootstack a) nm),
    nr_process := nr_process s5 + 1, current := ?p\<rparr>"
  have correct: "idle_correct ?p (ctx (procs s3 ?p) \<noteq> zero_context)
      (take PROC_NAME_LEN (name (procs s4 ?p)) \<noteq> replicate PROC_NAME_LEN 0) s4"
    using procs4 by (simp add: idle_correct_def s4(5) fresh_proc_def Let_def PROC_NAME_LEN_def eval_nat_numeral)
  have s6_sel: "procs s6 = (procs s4)(?p := idle_proc (boot_pgdir_pa s4) (a_bootstack a) nm)" "current s6 = ?p" "idleproc s6 = ?p"
    "nr_process s6 = 1" "last_pid s6 = MAX_PID" "next_safe s6 = MAX_PID" "proc_list s6 = proc_list s1" "hash_list s6 = hash_list s1"
    "boot_keep s4 s6"
    using nr ids by (simp_all add: s6_def s5_def say_def s4(5-11) s3(5-11) s2_def s1(8-10) boot_keep_def)
  have heap6: "heap_inv s6 ?al" by (rule heap_inv_cong [OF s4(3)]) (simp_all add: s6_def s5_def say_def)
  have room6: "free_room 3 s6" using s4(4) free_room_cong [of s6 s4 3] by (simp add: s6_def s5_def say_def)
  have "pid_inv s6 []" using s1(6) by (simp add: pid_inv_def s6_sel fresh_range_def MAX_PID_def MAX_PROCESS_def)
  moreover have "hash_inv s6 []" by (rule hash_inv_cong [OF _ _ s1(7)]) (simp_all add: s6_sel)
  ultimately have fork6: "fork_inv s6 ?al []" using heap6 by (simp add: fork_inv_def s6_sel)
  let ?m = "set_proc_name ?p (a_idle_name a) (upd_proc ?p (\<lambda>p. p\<lparr>pid := 0, state := PROC_RUNNABLE,
      kstack := a_bootstack a, need_resched := True\<rparr>) s5)"
  have s6': "?m\<lparr>nr_process := nr_process ?m + 1, current := ?p\<rparr> = s6"
    using procs4 by (simp add: s6_def set_proc_name_def upd_proc_def idle_proc_def nm_def s5_def say_def)
  have run: "proc_init a s = proc_init_thread a s6"
    unfolding proc_init_def proc_init_thread_def Let_def
    by (simp only: s1(1,2) run_bind_ret case_prod_conv if_False s2_def [symmetric] s3(1,2) s4(1,2) correct if_True
        s5_def [symmetric] s6')
  have keep: "boot_keep s s6" using keep4 s6_sel(9) boot_keep_trans by blast
  have "boot_pgdir_pa s4 = boot_pgdir_pa s" using keep4 by (simp add: boot_keep_def)
  then show ?thesis
    using that [OF run fork6 room6 s1(2) _ _ s6_sel(2,3,5) _ keep] s6_sel(1) by (simp add: subset_insertI2)
qed

lemma proc_init_spec:
  assumes inv: "heap_inv s al" and room: "free_room 6 s" and nr: "nr_process s = 0"
    and ids: "last_pid s = MAX_PID" "next_safe s = MAX_PID"
  obtains t where "proc_init a s = ret t" "procs_started a s t al"
proof -
  obtain s6 x nm al' g where idle: "proc_init a s = proc_init_thread a s6" "fork_inv s6 al' []" "free_room 3 s6"
    "block_ptr x \<noteq> 0" "x \<in> al'" "procs s6 = g(block_ptr x := idle_proc (boot_pgdir_pa s) (a_bootstack a) nm)"
    "current s6 = block_ptr x" "idleproc s6 = block_ptr x" "last_pid s6 = MAX_PID" "al \<subseteq> al'" "boot_keep s s6"
    by (rule proc_init_idle [OF assms])
  let ?p = "block_ptr x"
  have pgd: "boot_pgdir_pa s6 = boot_pgdir_pa s" "sstatus s6 = sstatus s" using idle(11) by (simp_all add: boot_keep_def)
  let ?tf = "kthread_tf (sstatus s6) (a_entry a) (a_init_main a) (a_hello a)"
  let ?fork = "do_fork (a_forkret a) CLONE_VM 0 ?tf s6"
  have mm6: "proc_mm (procs s6 (current s6)) = 0" by (simp add: idle(6,7) idle_proc_def fresh_proc_def)
  have "fork_done (a_forkret a) 0 ?tf s6 ?fork al' []"
    using do_fork_outcome [OF idle(2) mm6, of "a_forkret a" CLONE_VM 0 ?tf] idle(3)
    by (auto simp: fork_full_def fork_no_mem_def)
  then obtain pd s7 c f where s7: "?fork = ret (pd, s7)" "1 \<le> pd" "[] = ([] :: u64 list) \<longrightarrow> pd = first_pid s6"
      "fork_inv s7 (insert (proc_block c) al') [block_ptr (proc_block c)]" "block_ptr (proc_block c) \<notin> block_ptr ` al'"
      "find_proc pd s7 = Some (block_ptr (proc_block c))"
      "procs s7 = (procs s6)(block_ptr (proc_block c) := forked_proc (a_forkret a) (boot_pgdir_pa s6) (current s6) pd f)"
      "tfs s7 = (tfs s6)(stack_tf f := forked_tf ?tf 0 f)" "current s7 = current s6" "idleproc s7 = idleproc s6"
      "fork_keep s6 s7"
    by (rule fork_doneE)
  let ?q = "block_ptr (proc_block c)"
  have pd: "pd = 1" using s7(3) by (simp add: first_pid_def idle(9))
  have q: "?q \<noteq> ?p" "?q \<noteq> 0" using s7(5) idle(5) heap_inv_ptr(3) [OF fork_invD(1) [OF s7(4)], of "proc_block c"] by auto
  define t where "t = upd_proc ?q (\<lambda>p. p\<lparr>name := read_bytes (bytes s7) (a_init_name a) PROC_NAME_LEN @ [0]\<rparr>) (s7\<lparr>initproc := ?q\<rparr>)"
  have kt: "kernel_thread (a_forkret a) (a_entry a) (a_init_main a) (a_hello a) 0 s6 = ret (1, s7)"
    using s7(1) by (simp add: kernel_thread_fork pd)
  have t_sel: "initproc t = ?q" "idleproc t = ?p" "current t = ?p" "procs t = (procs s7)(?q := (procs s7 ?q)
      \<lparr>name := read_bytes (bytes s7) (a_init_name a) PROC_NAME_LEN @ [0]\<rparr>)" "bytes t = bytes s7" "tfs t = tfs s7"
    by (simp_all add: t_def upd_proc_def s7(9,10) idle(7,8))
  have pids: "pid (procs t ?p) = 0" "pid (procs t ?q) = 1"
    using q by (simp_all add: t_sel(4) s7(7) idle(6) idle_proc_def forked_proc_def fresh_proc_def pd)
  have run: "proc_init a s = ret t"
  proof -
    have find: "find_proc 1 s7 = Some ?q" using s7(6) by (simp add: pd)
    have t': "set_proc_name ?q (a_init_name a) (s7\<lparr>initproc := ?q\<rparr>) = t" by (simp add: t_def set_proc_name_def)
    have pos: "\<not> (1 :: int) \<le> 0" by simp
    have ok: "idleproc t \<noteq> 0 \<and> pid (procs t (idleproc t)) = 0" "initproc t \<noteq> 0 \<and> pid (procs t (initproc t)) = 1"
      using pids idle(4) q(2) by (simp_all add: t_sel)
    show ?thesis
      unfolding idle(1) proc_init_thread_def Let_def
      by (simp only: run_bind_ret case_prod_conv if_False kt pos find loop_run_simps q(2) t' ok c_assert_simps simp_thms)
  qed
  have fork: "fork_inv t (insert (proc_block c) al') [?q]"
    by (rule fork_inv_cong [OF s7(4)])
      (use fork_invD [OF s7(4)] in \<open>simp_all add: t_def upd_proc_def heap_inv_cong [OF fork_invD(1) [OF s7(4)]]\<close>)
  have keep: "boot_keep s t"
  proof -
    have "boot_keep s7 t" by (simp add: t_def) (simp add: boot_keep_def)
    then show ?thesis using idle(11) boot_keep_fork [OF s7(11)] boot_keep_trans by blast
  qed
  have "procs_started a s t al"
    unfolding procs_started_def t_sel(1-3)
    using fork keep q(1) idle(10)
    by (intro exI [of _ "insert (proc_block c) al'"] exI [of _ nm] exI [of _ f])
      (auto simp: t_sel(4-6) s7(7,8) idle(6,7) pgd pd)
  then show ?thesis using run that by blast
qed

end
