(* ===== verification/InitSpec.thy ===== *)
theory InitSpec
  imports Init PmmStart ProcInitSpec DtbSpec TrapSpec
begin

unbundle bit_operations_syntax

text \<open>
  The boot page table maps the kernel, \<open>kern_entry\<close> installs it and jumps to \<open>kern_init\<close>, and \<open>kern_init\<close>
  brings the machine up to the first switch to the process 1.
\<close>

subsection \<open>The boot page table\<close>

lemma high_bits: "NOT (mask k) \<le> (w :: u64) \<longleftrightarrow> (\<forall>i\<in>{k..<64}. bit w i)"
proof -
  have un: "unat (NOT v) = 2 ^ 64 - 1 - unat v" for v :: u64
  proof -
    have "NOT v = - 1 - v" by (simp add: not_eq_complement)
    moreover have "v \<le> - 1" by simp
    ultimately show ?thesis by (simp only: unat_sub) (simp add: unsigned_minus_1_eq_mask mask_eq_exp_minus_1)
  qed
  have "NOT (mask k) \<le> w \<longleftrightarrow> NOT w \<le> mask k"
    using un [of "mask k"] un [of w] unsigned_less [of w] unsigned_less [of "mask k :: u64"]
    by (simp add: word_le_nat_alt) linarith
  also have "\<dots> \<longleftrightarrow> NOT w AND mask k = NOT w"
  proof
    assume "NOT w \<le> mask k"
    then have "uint (NOT w) < 2 ^ k" using and_mask_lt_2p [of "mask k :: u64" k] by (simp add: word_le_def)
    then show "NOT w AND mask k = NOT w" by (simp add: mask_eq_iff)
  next
    assume "NOT w AND mask k = NOT w"
    then show "NOT w \<le> mask k" using word_and_le1 [of "NOT w" "mask k"] by simp
  qed
  also have "\<dots> \<longleftrightarrow> (\<forall>i\<in>{k..<64}. bit w i)"
    by (auto simp: bit_eq_iff bit_simps bit_low_mask)
  finally show ?thesis .
qed

lemma mask_34: "(0x3FFFFFFFF :: u64) = mask 34"
  by (simp add: mask_eq_exp_minus_1)

lemma kernel_bits: "drop_bit 30 (va :: u64) = 0x3FFFFFFFF \<longleftrightarrow> (\<forall>i\<in>{30..<64}. bit va i)"
proof
  assume top: "drop_bit 30 va = 0x3FFFFFFFF"
  show "\<forall>i\<in>{30..<64}. bit va i"
  proof
    fix i :: nat assume i: "i \<in> {30..<64}"
    have "bit (drop_bit 30 va) (i - 30)" unfolding top mask_34 using i by (auto simp: bit_mask_iff)
    then show "bit va i" using i by (simp add: bit_drop_bit_eq)
  qed
next
  assume bits: "\<forall>i\<in>{30..<64}. bit va i"
  show "drop_bit 30 va = 0x3FFFFFFFF"
    unfolding mask_34
    by (rule bit_word_eqI) (use bits in \<open>auto simp: bit_drop_bit_eq bit_mask_iff dest: bit_u64_bound\<close>)
qed

lemma kernel_range: "0xFFFFFFFFC0000000 \<le> (va :: u64) \<longleftrightarrow> drop_bit 30 va = 0x3FFFFFFFF"
proof -
  have "(0xFFFFFFFFC0000000 :: u64) = NOT (mask 30)" by (simp add: mask_eq_exp_minus_1)
  then show ?thesis by (simp only: high_bits kernel_bits)
qed

lemma canonical_bits: "(scast (ucast va :: 39 word) :: u64) = va \<longleftrightarrow> (\<forall>i\<in>{39..<64}. bit va i = bit va 38)"
proof -
  have "bit (scast (ucast va :: 39 word) :: u64) i = bit va (min i 38)" if "i < 64" for i
    using that by (simp add: bit_signed_iff bit_unsigned_iff min_def)
  then have "(scast (ucast va :: 39 word) :: u64) = va \<longleftrightarrow> (\<forall>i<64. bit va (min i 38) = bit va i)"
    by (simp add: bit_eq_iff)
  also have "\<dots> \<longleftrightarrow> (\<forall>i\<in>{39..<64}. bit va i = bit va 38)"
    by (force simp: min_def)
  finally show ?thesis .
qed

lemma PDX1_511: "PDX1 va = 511 \<longleftrightarrow> (\<forall>i\<in>{30..<39}. bit va i)"
proof -
  have "(511 :: u64) = mask 9" by (simp add: mask_eq_exp_minus_1)
  then have "PDX1 va = 511 \<longleftrightarrow> (\<forall>i<64. bit va (30 + i) \<and> i < 9 \<longleftrightarrow> i < 9)"
    by (simp add: PDX1_def mask_9 bit_eq_iff bit_simps bit_low_mask)
  also have "\<dots> \<longleftrightarrow> (\<forall>i<9. bit va (30 + i))"
  proof -
    have "i < 9 \<Longrightarrow> i < 64" for i :: nat by simp
    then show ?thesis by blast
  qed
  also have "\<dots> \<longleftrightarrow> (\<forall>i\<in>{30..<39}. bit va i)"
  proof -
    have "{30..<39} = (+) 30 ` {0..<9 :: nat}" by simp
    then show ?thesis by (simp only: ball_simps) auto
  qed
  finally show ?thesis .
qed

lemma kernel_va: "0xFFFFFFFFC0000000 \<le> va \<longleftrightarrow> (scast (ucast va :: 39 word) :: u64) = va \<and> PDX1 va = 511"
proof -
  have "(\<forall>i\<in>{30..<64}. bit va i) \<longleftrightarrow> (\<forall>i\<in>{39..<64}. bit va i = bit va 38) \<and> (\<forall>i\<in>{30..<39}. bit va i)"
    by (auto simp: not_le [symmetric])
  then show ?thesis unfolding kernel_range kernel_bits canonical_bits PDX1_511 .
qed

text \<open>The page table maps the gigabyte of addresses from 0xFFFFFFFFC0000000 on, where the kernel is linked,
  to physical memory from 0x80000000 on, and no other address.\<close>

lemma boot_page_table_maps:
  assumes "\<forall>i<512. entry (root + 8 * of_nat i) = boot_page_table_sv39 ! i"
  shows "sv39 entry root va = (if 0xFFFFFFFFC0000000 \<le> va then Some (va - PHYSICAL_MEMORY_OFFSET) else None)"
proof (cases "(scast (ucast va :: 39 word) :: u64) = va")
  case False
  then show ?thesis using kernel_va by (auto simp: sv39_def)
next
  case canonical: True
  have idx: "unat (PDX1 va) < 512" using index_bounds(1) [of va] by (simp add: word_less_nat_alt)
  have e: "entry (root + 8 * PDX1 va) = boot_page_table_sv39 ! unat (PDX1 va)"
    using spec [OF assms, of "unat (PDX1 va)"] idx by simp
  show ?thesis
  proof (cases "PDX1 va = 511")
    case True
    then have last: "entry (root + 8 * PDX1 va) = 0x200000CF"
      using e by (simp add: boot_page_table_sv39_def nth_append)
    have top: "drop_bit 30 va = 0x3FFFFFFFF" "0xFFFFFFFFC0000000 \<le> va" using canonical True kernel_va kernel_range by auto
    have "va = push_bit 30 (drop_bit 30 va) + take_bit 30 va" by (simp only: bits_ident)
    then have "va - PHYSICAL_MEMORY_OFFSET = 0x80000000 + (va AND mask 30)"
      unfolding top(1) PHYSICAL_MEMORY_OFFSET_def by (simp add: take_bit_eq_mask algebra_simps)
    then show ?thesis
      using canonical top(2) by (simp add: sv39_def last is_leaf_def leaf_pa_def PTE_ADDR_def PTE_V_def PTE_R_def PTE_W_def
          PTE_X_def Let_def mask_eq_exp_minus_1)
  next
    case False
    then have "unat (PDX1 va) \<noteq> 511" by (auto simp: word_unat_eq_iff)
    then have "unat (PDX1 va) < 511" using idx by simp
    then have "entry (root + 8 * PDX1 va) = 0" unfolding e by (simp add: boot_page_table_sv39_def nth_append)
    then show ?thesis using canonical False kernel_va by (simp add: sv39_def Let_def)
  qed
qed

definition boot_tables :: "u64 \<Rightarrow> u64" where
  "boot_tables pa = (if pa = 0x80205FF8 then 0x200000CF else 0)"

lemma boot_tables_spec: "i < 512 \<Longrightarrow> boot_tables (0x80205000 + 8 * of_nat i) = boot_page_table_sv39 ! i"
proof -
  assume i: "i < 512"
  then have "unat (of_nat (8 * i) :: u64) = 8 * i" by (intro unat_of_nat_u64) simp
  then have "unat (8 * of_nat i :: u64) = 8 * i" by simp
  then have "(8 * of_nat i :: u64) = 4088 \<longleftrightarrow> i = 511" by (auto simp: word_unat_eq_iff)
  then have "(0x80205000 + 8 * of_nat i :: u64) = 0x80205FF8 \<longleftrightarrow> i = 511"
    by (simp add: eq_iff_diff_eq_0 [of "_ + _"] algebra_simps)
  then show ?thesis using i by (simp add: boot_tables_def boot_page_table_sv39_def nth_append)
qed

subsection \<open>kern_entry\<close>

lemma addr_lo_eq: "addr_lo a = ((a + 0x800) AND 0xFFF) - 0x800"
proof -
  have "sint (ucast a :: 12 word) = signed_take_bit 11 (uint a)"
    by (simp add: sint_uint unsigned_ucast_eq signed_take_bit_take_bit)
  also have "\<dots> = take_bit 12 (uint a + 2 ^ 11) - 2 ^ 11"
    using signed_take_bit_eq_take_bit_shift [of 11 "uint a"] by simp
  finally have "addr_lo a = of_int (take_bit 12 (uint a + 2 ^ 11) - 2 ^ 11)"
    by (simp add: addr_lo_def scast_eq)
  also have "\<dots> = take_bit 12 (a + 0x800) - 0x800"
    by (simp add: take_bit_of_int [symmetric])
  finally show ?thesis by (simp add: mask_12 take_bit_eq_mask)
qed

lemma low_part: "(b AND NOT 0xFFF) + (b AND 0xFFF) = (b :: u64)"
  by (subst disjunctive_add) (auto simp: bit_simps intro!: bit_word_eqI)

lemma lui_hi_high:
  assumes "0xFFFFFFFF80000000 \<le> a + 0x800"
  shows "lui_hi a = (a + 0x800) AND NOT 0xFFF"
proof -
  let ?b = "a + 0x800" and ?w = "(a + 0x800) AND NOT 0xFFF"
  have "(0xFFFFFFFF80000000 :: u64) = NOT (mask 31)" by (simp add: mask_eq_exp_minus_1)
  then have "\<forall>i\<in>{31..<64}. bit ?b i" using assms high_bits by metis
  then have top: "bit ?w i" if "31 \<le> i" "i < 64" for i
    using that by (simp add: mask_12 bit_and_iff bit_not_iff bit_mask_iff)
  show ?thesis unfolding lui_hi_def
  proof (rule bit_word_eqI)
    fix i assume "i < LENGTH(64)"
    then have i: "i < 64" by simp
    show "bit (scast (ucast ?w :: u32) :: u64) i \<longleftrightarrow> bit ?w i"
    proof (cases "i < 31")
      case True
      then show ?thesis by (simp add: bit_signed_iff bit_unsigned_iff min_def)
    next
      case False
      then show ?thesis using top [of i] top [of 31] i
        by (simp add: bit_signed_iff bit_unsigned_iff min_def)
    qed
  qed
qed

lemma hi_lo: "0xFFFFFFFF80000000 \<le> a + 0x800 \<Longrightarrow> lui_hi a + addr_lo a = a"
  using low_part [of "a + 0x800"] by (simp add: lui_hi_high addr_lo_eq algebra_simps)

lemma lui_hi_page:
  assumes "0xFFFFFFFFC0000000 \<le> a" and "a AND 0xFFF = 0" and "a \<le> 0xFFFFFFFFFFFFE000"
  shows "lui_hi a = a"
proof -
  have "(a + 0x800) AND mask 12 = ((a AND mask 12) + 0x800) AND mask 12" by (rule mask_eqs(1) [symmetric])
  then have "addr_lo a = 0" using assms(2) unfolding addr_lo_eq mask_12 by (simp add: mask_eq_exp_minus_1)
  moreover have "0xFFFFFFFF80000000 \<le> a + 0x800"
  proof -
    have "unat (a + 0x800) = unat a + 0x800" using assms(3) by (subst unat_add_u64) (simp_all add: word_le_nat_alt)
    then show ?thesis using assms(1) by (simp add: word_le_nat_alt)
  qed
  ultimately show ?thesis using hi_lo [of a] by simp
qed

text \<open>What \<open>satp\<close> selects: the mode in its top four bits, the page of the root in its low 44 bits.\<close>

definition satp_root :: "u64 \<Rightarrow> u64" where
  "satp_root w = push_bit 12 (w AND mask 44)"

lemma satp_fields:
  assumes "unat pa < 2 ^ 56" and "pa AND 0xFFF = 0"
  shows "satp_root (drop_bit 12 pa OR push_bit 60 8) = pa" "drop_bit 60 (drop_bit 12 pa OR push_bit 60 8) = (8 :: u64)"
proof -
  have low: "\<not> bit pa i" if "i < 12" for i
  proof
    assume "bit pa i"
    then have "bit (pa AND 0xFFF) i" using that by (simp add: mask_12 bit_and_iff bit_low_mask bit_u64_bound)
    then show False using assms(2) by simp
  qed
  have eight: "bit (8 :: u64) i \<longleftrightarrow> i = 3" for i
  proof -
    have "(8 :: u64) = push_bit 3 1" by simp
    then show ?thesis by (simp only: bit_push_bit_iff bit_1_iff) auto
  qed
  have mode: "bit (push_bit 60 8 :: u64) i \<longleftrightarrow> i = 63" for i
    by (simp only: bit_push_bit_iff eight) auto
  have "bit (push_bit 12 ((drop_bit 12 pa OR push_bit 60 8) AND mask 44)) i \<longleftrightarrow> bit pa i" if i: "i < 64" for i
  proof -
    have "bit (push_bit 12 ((drop_bit 12 pa OR push_bit 60 8) AND mask 44)) i \<longleftrightarrow>
        12 \<le> i \<and> i - 12 < 44 \<and> (bit pa (12 + (i - 12)) \<or> i - 12 = 63)"
      using i by (auto simp only: bit_push_bit_iff bit_and_iff bit_or_iff bit_drop_bit_eq bit_low_mask mode comp_def) simp_all
    also have "\<dots> \<longleftrightarrow> bit pa i"
      using low [of i] small_word_bit [OF assms(1), of i] by (cases "i < 12"; cases "i < 56") auto
    finally show ?thesis .
  qed
  then show "satp_root (drop_bit 12 pa OR push_bit 60 8) = pa"
    unfolding satp_root_def by (intro bit_word_eqI) simp
  show "drop_bit 60 (drop_bit 12 pa OR push_bit 60 8) = (8 :: u64)"
  proof (rule bit_word_eqI)
    fix i assume "i < LENGTH(64)"
    show "bit (drop_bit 60 (drop_bit 12 pa OR push_bit 60 8)) i \<longleftrightarrow> bit (8 :: u64) i"
      using small_word_bit [OF assms(1), of "12 + (60 + i)"]
      by (simp only: bit_or_iff bit_drop_bit_eq mode eight comp_def) auto
  qed
qed

text \<open>C20. From the first instruction to \<open>kern_init\<close>: \<open>kern_entry\<close> saves what the firmware passed, selects
  the Sv39 mode with the boot page table, and jumps to \<open>kern_init\<close> on the boot stack, at their virtual
  addresses. The table maps the gigabyte of addresses from 0xFFFFFFFFC0000000 on, where the kernel is linked,
  to physical memory from 0x80000000 on, as \<open>PADDR\<close> and \<open>KADDR\<close> rely on, and no other address: not the
  physical ones at which the instructions between the write of \<open>satp\<close> and the jump are still fetched.\<close>

theorem kern_entry_maps_kernel:
  assumes "0xFFFFFFFFC0000000 \<le> e_page_table a" "e_page_table a \<le> 0xFFFFFFFFFFFFE000" "e_page_table a AND 0xFFF = 0"
    and "0xFFFFFFFFC0000000 \<le> e_bootstacktop a" "e_bootstacktop a \<le> 0xFFFFFFFFFFFFE000" "e_bootstacktop a AND 0xFFF = 0"
    and "0xFFFFFFFFC0000000 \<le> e_kern_init a" "e_kern_init a \<le> 0xFFFFFFFFFFFFE000"
    and "\<forall>i<512. entry (e_page_table a - PHYSICAL_MEMORY_OFFSET + 8 * of_nat i) = boot_page_table_sv39 ! i"
  shows "let t = kern_entry a s in
    pc t = e_kern_init a \<and> regs t G_sp = e_bootstacktop a \<and> boot_hartid t = regs s G_a0 \<and> boot_dtb t = regs s G_a1 \<and>
    drop_bit 60 (satp t) = 8 \<and>
    (\<forall>va. sv39 entry (satp_root (satp t)) va = (if 0xFFFFFFFFC0000000 \<le> va then Some (va - PHYSICAL_MEMORY_OFFSET) else None))"
proof -
  let ?pa = "e_page_table a - PHYSICAL_MEMORY_OFFSET"
  have "unat ?pa < 2 ^ 56"
  proof -
    have "unat (e_page_table a) < 2 ^ 64" using unsigned_less [of "e_page_table a"] by simp
    then show ?thesis using assms(1) by (simp add: word_le_nat_alt PHYSICAL_MEMORY_OFFSET_def unat_sub_if')
  qed
  moreover have "?pa AND 0xFFF = 0"
  proof -
    have "?pa = e_page_table a + 0xC0000000" by (simp add: PHYSICAL_MEMORY_OFFSET_def)
    then have "?pa AND mask 12 = ((e_page_table a AND mask 12) + 0xC0000000) AND mask 12" by (simp only: mask_eqs(1))
    also have "\<dots> = 0" using assms(3) unfolding mask_12 by (simp add: mask_eq_exp_minus_1)
    finally show ?thesis by (simp only: mask_12)
  qed
  ultimately have satp: "satp_root (drop_bit 12 ?pa OR push_bit 60 8) = ?pa"
    "drop_bit 60 (drop_bit 12 ?pa OR push_bit 60 8) = (8 :: u64)" by (rule satp_fields)+
  have init: "lui_hi (e_kern_init a) + addr_lo (e_kern_init a) = e_kern_init a"
  proof (rule hi_lo)
    have "unat (e_kern_init a + 0x800) = unat (e_kern_init a) + 0x800"
      using assms(8) by (subst unat_add_u64) (simp_all add: word_le_nat_alt)
    then show "0xFFFFFFFF80000000 \<le> e_kern_init a + 0x800" using assms(7) by (simp add: word_le_nat_alt)
  qed
  have "satp (kern_entry a s) = drop_bit 12 ?pa OR push_bit 60 8"
    by (simp add: kern_entry_def Let_def set_reg_def flush_tlb_def lui_hi_page [OF assms(1,3,2)] PHYSICAL_MEMORY_OFFSET_def)
  moreover have "regs (kern_entry a s) G_sp = e_bootstacktop a" "pc (kern_entry a s) = e_kern_init a"
    "boot_hartid (kern_entry a s) = regs s G_a0" "boot_dtb (kern_entry a s) = regs s G_a1"
    by (simp_all add: kern_entry_def Let_def set_reg_def flush_tlb_def lui_hi_page [OF assms(4,6,5)] init)
  ultimately show ?thesis using satp boot_page_table_maps [OF assms(9)] by (simp add: Let_def)
qed

lemma kern_entry_maps_kernel_witness:
  "let t = kern_entry \<lparr>e_page_table = 0xFFFFFFFFC0205000, e_bootstacktop = 0xFFFFFFFFC0205000, e_kern_init = 0xFFFFFFFFC02000D8\<rparr> running
   in pc t = 0xFFFFFFFFC02000D8 \<and> sv39 boot_tables (satp_root (satp t)) (pc t) = Some 0x802000D8 \<and>
      sv39 boot_tables (satp_root (satp t)) 0x80200028 = None"
  using kern_entry_maps_kernel [of "\<lparr>e_page_table = 0xFFFFFFFFC0205000, e_bootstacktop = 0xFFFFFFFFC0205000,
      e_kern_init = 0xFFFFFFFFC02000D8\<rparr>" boot_tables running] boot_tables_spec
  by (simp add: Let_def PHYSICAL_MEMORY_OFFSET_def)

subsection \<open>kern_init\<close>

lemma pmm_frame_sel:
  assumes "pmm_frame s u"
  shows "sstatus u = sstatus s" "sie u = sie s" "satp u = satp s" "heap32 u = heap32 s" "heap64 u = heap64 s"
    "arena u = arena s" "slobfree u = slobfree s" "bigblocks u = bigblocks s" "nr_process u = nr_process s"
    "last_pid u = last_pid s" "next_safe u = next_safe s" "kernel_state.more u = kernel_state.more s"
proof -
  note f = arg_cong [OF assms [unfolded pmm_frame_def]]
  show "sstatus u = sstatus s" using f [of sstatus] by simp
  show "sie u = sie s" using f [of sie] by simp
  show "satp u = satp s" using f [of satp] by simp
  show "heap32 u = heap32 s" using f [of heap32] by simp
  show "heap64 u = heap64 s" using f [of heap64] by simp
  show "arena u = arena s" using f [of arena] by simp
  show "slobfree u = slobfree s" using f [of slobfree] by simp
  show "bigblocks u = bigblocks s" using f [of bigblocks] by simp
  show "nr_process u = nr_process s" using f [of nr_process] by simp
  show "last_pid u = last_pid s" using f [of last_pid] by simp
  show "next_safe u = next_safe s" using f [of next_safe] by simp
  show "kernel_state.more u = kernel_state.more s" using f [of kernel_state.more] by simp
qed

text \<open>The variables with an initial value other than 0, as the linker puts them into the data section.\<close>

definition data_ok :: "'z kernel_state_scheme \<Rightarrow> bool" where
  "data_ok s \<longleftrightarrow> sb_units s (arena s) = 1 \<and> sb_next s (arena s) = arena s \<and> slobfree s = arena s \<and>
     last_pid s = MAX_PID \<and> next_safe s = MAX_PID"

lemma data_ok_heap_init:
  assumes "data_ok s" and "bigblocks s = 0"
  shows "heap_init s = s"
proof -
  have "(heap32 s)(arena s := 1) = heap32 s" "(heap64 s)(arena s + 8 := arena s) = heap64 s"
    using assms(1) by (auto simp: data_ok_def sb_units_def sb_next_def)
  then show ?thesis using assms by (simp add: heap_init_def set_units_def set_next_block_def data_ok_def)
qed

lemma pmm_frame_boot:
  assumes "pmm_frame s u" and "free_rel u [(f, n)]" and "vm_ok u" and "\<forall>p\<in>{f..<f + n}. valid_frame u p"
    and "data_ok s" and "bigblocks s = 0" and "arena s = unit_addr ar" "ar + 2 \<le> frame_unit f" "f + n \<le> 0x3FFFF"
  shows "heap_inv u {}"
proof -
  note sel = pmm_frame_sel [OF assms(1)]
  have "data_ok u" using assms(5) by (simp add: data_ok_def sb_units_def sb_next_def sel)
  then have same: "heap_init u = u" using assms(6) by (intro data_ok_heap_init) (simp_all add: sel)
  have frames: "free_frames u = {f..<f + n}" using free_frames_eq [OF assms(2)] by simp
  have "heap_inv (heap_init u) {}"
  proof (rule heap_inv_boot)
    show "arena u = unit_addr ar" using assms(7) by (simp add: sel)
    show "\<forall>p\<in>free_frames u. valid_frame u p \<and> p < 0x3FFFF \<and> ar + 2 \<le> frame_unit p"
      using assms(4,8,9) unfolding frames by (auto simp: frame_unit_def)
    show "ar + 1 < 2 ^ 60" using assms(8,9) by (simp add: frame_unit_def)
  qed (use assms(2,3) in auto)
  then show ?thesis by (simp add: same)
qed

lemma vma_more:
  assumes "vma_state.more t = vma_state.more s"
  shows "nr_process t = nr_process s" "last_pid t = last_pid s" "next_safe t = next_safe s"
    "kernel_state.more t = kernel_state.more s"
  using assms by (cases s; cases t; simp)+

lemma kernel_more:
  assumes "kernel_state.more t = kernel_state.more s"
  shows "sbi_calls t = sbi_calls s" "time_csr t = time_csr s"
  using assms by (cases s; cases t; simp)+

lemma print_kerninfo_console: "print_kerninfo a s = s\<lparr>console := console (print_kerninfo a s)\<rparr>"
  by (simp add: print_kerninfo_def Let_def say_def)

text \<open>The conditions under which the kernel boots: a device tree with a memory node, memory that ends below
  three gigabytes and holds the kernel, the page descriptors and 107 pages more, the boot page table and
  the heap header in the image of the kernel, and interrupts off. \<open>k\<close> is the physical address of the
  symbol \<open>end\<close>, \<open>r\<close> the page frame of the table, \<open>ar\<close> the heap unit of \<open>arena\<close>.\<close>

definition boots :: "init_addrs \<Rightarrow> nat \<Rightarrow> nat \<Rightarrow> nat \<Rightarrow> nat \<Rightarrow> 'z io_state_scheme \<Rightarrow> bool" where
  "boots a k mend r ar s \<longleftrightarrow>
     (let s0 = clear_bss (a_edata (i_mon a)) (a_end (i_mon a)) s; f = first_free_frame k mend in
      boot_dtb s \<noteq> 0 \<and>
      (\<exists>strs xs mb ms. fdt_blob (i_dtb a) (bytes s0) (boot_dtb s + PHYSICAL_MEMORY_OFFSET) strs xs \<and>
         memory_reg strs False xs = Some (mb, ms) \<and> ms \<noteq> 0 \<and> unat mb + unat ms = mend) \<and>
      mend \<le> 0xBFFFF000 \<and> unat (a_end (i_mon a)) = k + 0xFFFFFFFF40000000 \<and> 0x80200000 \<le> k \<and>
      f + 107 \<le> boot_frames mend \<and> i_page_table a = frame_kva r \<and> 0x200 \<le> r \<and> r < f \<and> ptes s (cell r 0) = 0 \<and>
      (\<exists>ys. cstr (bytes s0) (i_str a) ys \<and> length ys < 0x800 \<and> unat (i_str a) + length ys < unat (frame_kva f)) \<and>
      data_ok s \<and> arena s = unit_addr ar \<and> ar + 2 \<le> frame_unit f \<and> \<not> intr_on s)"

abbreviation banner :: "init_addrs \<Rightarrow> 'z io_state_scheme \<Rightarrow> 'z io_state_scheme" where
  "banner a s \<equiv> print_kerninfo (i_mon a) (say ''%s\<newline>\<newline>'' [CStr ''(THU.CST) os is loading ...''] (cons_init s))"

text \<open>The state after \<open>pmm_init\<close>, \<open>pic_init\<close> and \<open>idt_init\<close>.\<close>

lemma kern_init_memory:
  assumes "boots a k mend r ar s"
  obtains s1 s2 where "loop_run (dtb_init (i_dtb a) (clear_bss (a_edata (i_mon a)) (a_end (i_mon a)) s)) = ret s1"
    "pmm_init (a_end (i_mon a)) (i_page_table a) (get_memory_base (banner a s1))
      (get_memory_size (banner a s1)) (i_str a) (banner a s1) = ret s2"
    "heap_inv s2 {}" "free_room 107 s2" "nr_process s2 = 0" "last_pid s2 = MAX_PID" "next_safe s2 = MAX_PID"
    "sstatus s2 = sstatus s" "sbi_calls s2 = sbi_calls s" "time_csr s2 = time_csr s" "boot_pgdir_pa s2 = page2pa r"
proof -
  let ?s0 = "clear_bss (a_edata (i_mon a)) (a_end (i_mon a)) s" and ?f = "first_free_frame k mend"
  obtain strs xs mb ms ys where h: "boot_dtb s \<noteq> 0"
      "fdt_blob (i_dtb a) (bytes ?s0) (boot_dtb s + PHYSICAL_MEMORY_OFFSET) strs xs" "memory_reg strs False xs = Some (mb, ms)"
      "ms \<noteq> 0" "unat mb + unat ms = mend" "mend \<le> 0xBFFFF000" "unat (a_end (i_mon a)) = k + 0xFFFFFFFF40000000"
      "0x80200000 \<le> k" "?f + 107 \<le> boot_frames mend" "i_page_table a = frame_kva r" "0x200 \<le> r" "r < ?f"
      "ptes s (cell r 0) = 0" "cstr (bytes ?s0) (i_str a) ys" "length ys < 0x800"
      "unat (i_str a) + length ys < unat (frame_kva ?f)" "data_ok s" "arena s = unit_addr ar" "ar + 2 \<le> frame_unit ?f"
      "\<not> intr_on s"
    using assms unfolding boots_def Let_def by blast
  have dtb0: "boot_dtb ?s0 = boot_dtb s" by (simp add: clear_bss_def)
  obtain c where c: "dtb_init (i_dtb a) ?s0 = Some (?s0\<lparr>console := c,
      memory_base := case_option (memory_base ?s0) fst (memory_reg strs False xs),
      memory_size := case_option (memory_size ?s0) snd (memory_reg strs False xs)\<rparr>)"
    by (rule dtb_init_spec [of ?s0 "i_dtb a" strs xs]) (use h(1,2) dtb0 in simp_all)
  define s1 where "s1 = ?s0\<lparr>console := c, memory_base := mb, memory_size := ms\<rparr>"
  have run1: "loop_run (dtb_init (i_dtb a) ?s0) = ret s1" using c h(3) by (simp add: s1_def)
  define s1' where "s1' = print_kerninfo (i_mon a) (say ''%s\<newline>\<newline>'' [CStr ''(THU.CST) os is loading ...''] (cons_init s1))"
  have s1': "\<exists>c. s1' = ?s0\<lparr>console := c, memory_base := mb, memory_size := ms\<rparr>"
    unfolding s1'_def
    by (subst print_kerninfo_console, intro exI [of _ "console s1'"]) (simp add: s1'_def s1_def cons_init_def say_def)
  then obtain c' where s1'_eq: "s1' = ?s0\<lparr>console := c', memory_base := mb, memory_size := ms\<rparr>" by blast
  have mem: "get_memory_base s1' = mb" "get_memory_size s1' = ms"
    by (simp_all add: get_memory_base_def get_memory_size_def s1'_eq)
  have fields: "sstatus s1' = sstatus s" "ptes s1' = ptes s" "bytes s1' = bytes ?s0" "bigblocks s1' = 0" "arena s1' = arena s"
    "nr_process s1' = 0" "last_pid s1' = last_pid s" "next_safe s1' = next_safe s" "sbi_calls s1' = sbi_calls s"
    "time_csr s1' = time_csr s" "heap32 s1' = heap32 s" "heap64 s1' = heap64 s" "slobfree s1' = slobfree s"
    by (simp_all add: s1'_eq clear_bss_def)
  have data: "data_ok s1'" using h(17) by (simp add: data_ok_def fields sb_units_def sb_next_def)
  have mend: "mend \<le> 0xC0000000" "?f + 6 < boot_frames mend" using h(6,9) by simp_all
  have off: "\<not> intr_on s1'" using h(20) by (simp add: intr_on_def fields)
  have lit: "ptes s1' (cell r 0) = 0" "cstr (bytes s1') (i_str a) ys" using h(13,14) by (simp_all add: fields)
  obtain u where u: "pmm_init (a_end (i_mon a)) (frame_kva r) mb ms (i_str a) s1' = ret u" "pmm_frame s1' u"
      "free_rel u [(?f, boot_frames mend - ?f)]" "unat (npage u) = mend div 4096" "vm_ok u"
      "\<forall>p\<in>{?f..<boot_frames mend}. valid_frame u p" "boot_pgdir_va u = frame_kva r" "boot_pgdir_pa u = page2pa r"
    by (rule pmm_init_spec [OF h(7,8,5,4) mend off h(11,12) lit h(15,16)]) blast
  note sel = pmm_frame_sel [OF u(2)]
  have frames: "?f + (boot_frames mend - ?f) \<le> 0x3FFFF" using h(6,9) by (simp add: boot_frames_def)
  have "heap_inv u {}"
    by (rule pmm_frame_boot [OF u(2,3,5) _ data _ _ h(19) frames]) (use u(6) h(9,18) in \<open>simp_all add: fields\<close>)
  moreover have "free_room 107 u" unfolding free_room_def using u(3) h(9) by (intro exI [of _ "[(?f, boot_frames mend - ?f)]"]) simp
  ultimately show ?thesis
    using run1 u(1,8) data by (intro that [of s1 u]) (simp_all add: s1'_def [symmetric] mem h(10) sel fields data_ok_def
        kernel_more [OF sel(12)])
qed

text \<open>What \<open>kern_init\<close> has set up when it enters the loop of the idle process: the idle process runs and
  asks for another one; the process 1 is the one in the list, about to start at \<open>forkret\<close> with a trap frame
  for \<open>init_main\<close>; traps go to \<open>alltraps\<close>; the timer is set, its interrupt enabled, and interrupts are on.\<close>

definition kernel_up :: "init_addrs \<Rightarrow> 'z io_state_scheme \<Rightarrow> 'z io_state_scheme \<Rightarrow> bool" where
  "kernel_up a s t \<longleftrightarrow> (\<exists>al pgd nm nm' f w. fork_inv t al [initproc t] \<and> current t = idleproc t \<and> idleproc t \<noteq> initproc t \<and>
     procs t (idleproc t) = idle_proc pgd (a_bootstack (i_proc a)) nm \<and>
     procs t (initproc t) = (forked_proc (a_forkret (i_proc a)) pgd (idleproc t) 1 f)\<lparr>name := nm'\<rparr> \<and>
     tfs t (stack_tf f) = forked_tf (kthread_tf w (a_entry (i_proc a)) (a_init_main (i_proc a)) (a_hello (i_proc a))) 0 f) \<and>
     stvec t = i_alltraps a \<and> sscratch t = 0 \<and> bit (sie t) 5 \<and> intr_on t \<and> ticks t = 0 \<and>
     sbi_calls t = sbi_calls s @ [(SBI_SET_TIMER, time_csr s + 100000)]"

lemma kern_init_spec:
  assumes "boots a k mend r ar s"
  obtains t where "kern_init a s = ret t" "kernel_up a s t"
proof -
  obtain s1 s2 where s12: "loop_run (dtb_init (i_dtb a) (clear_bss (a_edata (i_mon a)) (a_end (i_mon a)) s)) = ret s1"
    "pmm_init (a_end (i_mon a)) (i_page_table a) (get_memory_base (banner a s1))
      (get_memory_size (banner a s1)) (i_str a) (banner a s1) = ret s2"
    "heap_inv s2 {}" "free_room 107 s2" "nr_process s2 = 0" "last_pid s2 = MAX_PID" "next_safe s2 = MAX_PID"
    "sbi_calls s2 = sbi_calls s" "time_csr s2 = time_csr s"
    by (rule kern_init_memory [OF assms]) blast
  define s3 where "s3 = idt_init (i_alltraps a) (pic_init s2)"
  have heap3: "heap_inv s3 {}" by (rule heap_inv_cong [OF s12(3)]) (simp_all add: s3_def idt_init_def pic_init_def)
  have room3: "free_room (103 + 4) s3"
    using s12(4) free_room_cong [of s3 s2 107] by (simp add: s3_def idt_init_def pic_init_def)
  have f3: "stvec s3 = i_alltraps a" "sscratch s3 = 0" "nr_process s3 = 0" "last_pid s3 = MAX_PID" "next_safe s3 = MAX_PID"
    "sbi_calls s3 = sbi_calls s" "time_csr s3 = time_csr s"
    using s12(5-9) by (simp_all add: s3_def idt_init_def pic_init_def)
  obtain s4 where s4: "vmm_init s3 = ret s4" "heap_inv s4 {}" "free_room (Suc (Suc 4)) s4" "vmm_same s3 s4"
    by (rule vmm_init_spec [OF heap3 room3])
  have more4: "vma_state.more s4 = vma_state.more s3" using s4(4) unfolding vmm_same_def by blast
  note vm4 = vma_more [OF more4]
  have csr4: "stvec s4 = i_alltraps a" "sscratch s4 = 0" using s4(4) f3(1,2) unfolding vmm_same_def by simp_all
  have room4: "free_room 6 s4" using s4(3) by (simp add: eval_nat_numeral)
  obtain s5 where s5: "proc_init (i_proc a) s4 = ret s5" "procs_started (i_proc a) s4 s5 {}"
    by (rule proc_init_spec [OF s4(2) room4, of "i_proc a"]) (use vm4 f3 in simp_all)
  then obtain al nm f where ps: "fork_inv s5 al [initproc s5]" "current s5 = idleproc s5" "idleproc s5 \<noteq> initproc s5"
      "procs s5 (idleproc s5) = idle_proc (boot_pgdir_pa s4) (a_bootstack (i_proc a)) nm"
      "procs s5 (initproc s5) = (forked_proc (a_forkret (i_proc a)) (boot_pgdir_pa s4) (idleproc s5) 1 f)
         \<lparr>name := read_bytes (bytes s5) (a_init_name (i_proc a)) PROC_NAME_LEN @ [0]\<rparr>"
      "tfs s5 (stack_tf f) = forked_tf (kthread_tf (sstatus s4) (a_entry (i_proc a)) (a_init_main (i_proc a)) (a_hello (i_proc a))) 0 f"
      "boot_keep s4 s5"
    unfolding procs_started_def by blast
  have more5: "kernel_state.more s5 = kernel_state.more s3" using ps(7) vm4(4) unfolding boot_keep_def by simp
  note km5 = kernel_more [OF more5]
  have csr5: "stvec s5 = i_alltraps a" "sscratch s5 = 0" using ps(7) csr4 unfolding boot_keep_def by simp_all
  define t where "t = intr_enable (clock_init s5)"
  have t_kernel: "current t = current s5" "idleproc t = idleproc s5" "initproc t = initproc s5" "procs t = procs s5" "tfs t = tfs s5"
    "stvec t = i_alltraps a" "sscratch t = 0"
    by (simp_all add: t_def intr_enable_def clock_init_def clock_set_next_event_def sbi_set_timer_def SBI_CALL_1_def say_def Let_def csr5)
  have t_io: "ticks t = 0" "sbi_calls t = sbi_calls s @ [(SBI_SET_TIMER, time_csr s + 100000)]" "sie t = sie s5 OR MIP_STIP"
    "sstatus t = sstatus s5 OR SSTATUS_SIE"
    by (simp_all add: t_def intr_enable_def clock_init_def clock_set_next_event_def sbi_set_timer_def SBI_CALL_1_def say_def Let_def
        get_cycles_def km5 f3)
  have "heap_inv t al" by (rule heap_inv_cong [OF fork_invD(1) [OF ps(1)]])
      (simp_all add: t_def intr_enable_def clock_init_def clock_set_next_event_def sbi_set_timer_def SBI_CALL_1_def say_def Let_def)
  then have "fork_inv t al [initproc t]" unfolding t_kernel(3)
    by (rule fork_inv_cong [OF ps(1)]) (use fork_invD(4) [OF ps(1)] in \<open>simp_all add: t_def intr_enable_def clock_init_def
        clock_set_next_event_def sbi_set_timer_def SBI_CALL_1_def say_def Let_def\<close>)
  moreover have "bit (sie t) 5" by (simp add: t_io(3) bit_or_iff MIP_STIP_def IRQ_S_TIMER_def bit_push_bit_iff)
  moreover have "intr_on t" by (simp add: intr_on_iff t_io(4) SSTATUS_SIE_mask bit_or_iff bit_BIT_MASK)
  moreover have "\<exists>pgd nm nm' f w. procs t (idleproc t) = idle_proc pgd (a_bootstack (i_proc a)) nm \<and>
      procs t (initproc t) = (forked_proc (a_forkret (i_proc a)) pgd (idleproc t) 1 f)\<lparr>name := nm'\<rparr> \<and>
      tfs t (stack_tf f) = forked_tf (kthread_tf w (a_entry (i_proc a)) (a_init_main (i_proc a)) (a_hello (i_proc a))) 0 f"
    unfolding t_kernel using ps(4-6) by blast
  ultimately have "kernel_up a s t" unfolding kernel_up_def using ps(2,3) t_io(1,2) t_kernel(6,7) unfolding t_kernel(1-3) by blast
  moreover have "kern_init a s = ret t"
    unfolding kern_init_def Let_def
    by (simp only: s12(1,2) run_bind_ret s3_def [symmetric] s4(1) s5(1) t_def)
  ultimately show ?thesis using that by blast
qed

text \<open>The first round of the loop of the idle process.\<close>

lemma first_switch:
  fixes t :: "'z trap_state_scheme"
  assumes "kernel_up a s t"
  obtains r u where "cpu_idle_step t = ret (r, u)" "current u = initproc t" "pid (procs t (initproc t)) = 1"
    "pc (switch_ret u) = a_forkret (i_proc a)" "pc (forkret (switch_ret u)) = a_entry (i_proc a)"
    "s_mode (forkret (switch_ret u))" "intr_on (forkret (switch_ret u))"
    "pc (kernel_thread_entry nxt (forkret (switch_ret u))) = a_init_main (i_proc a)"
    "regs (kernel_thread_entry nxt (forkret (switch_ret u))) G_a0 = a_hello (i_proc a)"
proof -
  let ?p = "i_proc a"
  obtain al pgd nm nm' f w where up: "fork_inv t al [initproc t]" "current t = idleproc t" "idleproc t \<noteq> initproc t"
     "procs t (idleproc t) = idle_proc pgd (a_bootstack ?p) nm"
     "procs t (initproc t) = (forked_proc (a_forkret ?p) pgd (idleproc t) 1 f)\<lparr>name := nm'\<rparr>"
     "tfs t (stack_tf f) = forked_tf (kthread_tf w (a_entry ?p) (a_init_main ?p) (a_hello ?p)) 0 f"
    using assms unfolding kernel_up_def by blast
  have inv: "sched_inv t [initproc t]"
    using fork_invD(2) [OF up(1)] up(2,3) by (simp add: sched_inv_def pid_inv_def)
  have "sched_target t [initproc t] = initproc t"
    using up(2,3,5) by (simp add: sched_target_def sched_order_notin is_runnable_def forked_proc_def)
  then obtain r u where u: "schedule t = ret (r, u)" "current u = initproc t" "cpu u = ctx (procs t (initproc t))"
    using schedule_effect [OF inv] up(2,3) by auto
  have step: "cpu_idle_step t = ret (r, u)" using u(1) up(2,4) by (simp add: cpu_idle_step_def idle_proc_def)
  define x where "x = switch_ret u"
  have ptf: "proc_tf (procs u (initproc t)) = stack_tf f" and cpu: "c_ra (cpu u) = a_forkret ?p"
    using schedule_keeps(2) [OF inv u(1)] up(5) u(3) by (simp_all add: forked_proc_def)
  have x: "pc x = a_forkret ?p" "tfs x (proc_tf (procs x (current x))) = forked_tf (kthread_tf w (a_entry ?p) (a_init_main ?p) (a_hello ?p)) 0 f"
    using u(2) ptf up(6) schedule_keeps(1) [OF inv u(1)] by (simp_all add: x_def switch_ret_def Let_def cpu)
  define frame where "frame = forked_tf (kthread_tf w (a_entry ?p) (a_init_main ?p) (a_hello ?p)) 0 f"
  have frame: "gpr frame G_s0 = a_init_main ?p" "gpr frame G_s1 = a_hello ?p" "tf_epc frame = a_entry ?p"
    "bit (tf_status frame) 8" "bit (tf_status frame) 5"
    by (simp_all add: frame_def forked_tf_def kthread_tf_def) (simp_all only: kernel_thread_status)
  note x' = x(2) [folded frame_def]
  have v: "pc (forkret x) = a_entry ?p" "s_mode (forkret x)" "intr_on (forkret x)" "regs (forkret x) G_s0 = a_init_main ?p"
    "regs (forkret x) G_s1 = a_hello ?p"
    by (simp_all add: forkret_effect x' frame)
  have w: "pc (kernel_thread_entry nxt (forkret x)) = a_init_main ?p" "regs (kernel_thread_entry nxt (forkret x)) G_a0 = a_hello ?p"
    using v(4,5) by (simp_all add: kernel_thread_entry_def set_reg_def Let_def)
  show ?thesis
    by (rule that [of r u]) (use step u(2) up(5) x(1) v(1-3) w in \<open>simp_all add: x_def forked_proc_def\<close>)
qed

text \<open>C1. The kernel boots: from any machine with a device tree that reports enough memory, \<open>kern_init\<close>
  runs to its end. No assertion of the self-tests fails and no loop goes on for ever; when it enters the idle
  loop, traps go to \<open>__alltraps\<close>, the timer is set for its first interrupt and interrupts are on. The first
  round of the loop switches to the process 1, which comes out of \<open>forkret\<close> in supervisor mode with
  interrupts on and calls \<open>init_main\<close> with its argument.\<close>

theorem kern_init_boots:
  fixes s :: "'z trap_state_scheme"
  assumes "boots a k mend r ar s"
  shows "\<exists>t q u. kern_init a s = ret t \<and> kernel_up a s t \<and>
    cpu_idle_step t = ret (q, u) \<and> current u = initproc t \<and> pid (procs t (initproc t)) = 1 \<and>
    (let x = switch_ret u; v = forkret x; w = kernel_thread_entry nxt v in
       pc x = a_forkret (i_proc a) \<and> pc v = a_entry (i_proc a) \<and> s_mode v \<and> intr_on v \<and>
       pc w = a_init_main (i_proc a) \<and> regs w G_a0 = a_hello (i_proc a))"
proof -
  obtain t where t: "kern_init a s = ret t" "kernel_up a s t" by (rule kern_init_spec [OF assms])
  obtain q u where "cpu_idle_step t = ret (q, u)" "current u = initproc t" "pid (procs t (initproc t)) = 1"
    "pc (switch_ret u) = a_forkret (i_proc a)" "pc (forkret (switch_ret u)) = a_entry (i_proc a)"
    "s_mode (forkret (switch_ret u))" "intr_on (forkret (switch_ret u))"
    "pc (kernel_thread_entry nxt (forkret (switch_ret u))) = a_init_main (i_proc a)"
    "regs (kernel_thread_entry nxt (forkret (switch_ret u))) G_a0 = a_hello (i_proc a)"
    by (rule first_switch [OF t(2)])
  then show ?thesis using t unfolding Let_def by blast
qed

text \<open>128 megabytes at 0x80000000, a kernel that ends at 0x80400000.\<close>

definition board_addrs :: init_addrs where
  "board_addrs = \<lparr>i_mon = \<lparr>a_white = 0, a_help = 0, a_kerninfo = 0, a_backtrace = 0, a_kern_init = 0xFFFFFFFFC02000D8,
       a_etext = 0xFFFFFFFFC0204000, a_edata = 0xFFFFFFFFC03FFF00, a_end = 0xFFFFFFFFC0400000\<rparr>,
     i_dtb = board_lits,
     i_proc = \<lparr>a_bootstack = 0xFFFFFFFFC0206000, a_forkret = 0xFFFFFFFFC0201000, a_entry = 0xFFFFFFFFC0201100,
       a_init_main = 0xFFFFFFFFC0201200, a_idle_name = 0xFFFFFFFFC0203100, a_init_name = 0xFFFFFFFFC0203200,
       a_hello = 0xFFFFFFFFC0203300\<rparr>,
     i_alltraps = 0xFFFFFFFFC0201300, i_page_table = frame_kva 0x205, i_str = 0xFFFFFFFFC0203000\<rparr>"

definition board_machine :: trap_state where
  "board_machine = running\<lparr>sstatus := 0, boot_dtb := boot_dtb booted, bytes := bytes booted,
     arena := unit_addr (frame_unit 0), slobfree := unit_addr (frame_unit 0), heap32 := \<lambda>_. 1, heap64 := \<lambda>_. unit_addr (frame_unit 0),
     last_pid := MAX_PID, next_safe := MAX_PID, time_csr := 7, sbi_calls := []\<rparr>"

lemma memset_loop_zero:
  assumes "\<forall>i<n. m (p + of_nat i) = 0"
  shows "memset_loop n p 0 m = m"
  using assms
proof (induction n arbitrary: p)
  case (Suc n)
  have "m p = 0" using spec [OF Suc.prems, of 0] by simp
  then have "m(p := 0) = m" by auto
  moreover have "\<forall>i<n. m (p + 1 + of_nat i) = 0"
  proof (intro allI impI)
    fix i assume "i < n"
    then have "m (p + of_nat (Suc i)) = 0" using spec [OF Suc.prems, of "Suc i"] by simp
    then show "m (p + 1 + of_nat i) = 0" by (simp add: algebra_simps)
  qed
  ultimately show ?case using Suc.IH by simp
qed simp

lemma booted_zero:
  assumes "i < 0x100" shows "bytes booted (0xFFFFFFFFC03FFF00 + of_nat i) = 0"
proof -
  have len: "length board_blob = 95"
    by (simp add: board_blob_def board_tree_def pad4_def memory_name_def reg_name_def)
  have "0xFFFFFFFFC03FFF00 + of_nat i - board_dtb = (of_nat (0xFFFFFFFFFE1FFF00 + i) :: u64)"
    by (simp add: PHYSICAL_MEMORY_OFFSET_def)
  moreover have "unat (of_nat (0xFFFFFFFFFE1FFF00 + i) :: u64) = 0xFFFFFFFFFE1FFF00 + i"
    using assms by (intro unat_of_nat_u64) simp
  ultimately show ?thesis by (simp add: booted_def Let_def len)
qed

lemma board_bss: "bytes (clear_bss 0xFFFFFFFFC03FFF00 0xFFFFFFFFC0400000 board_machine) = bytes booted"
  using memset_loop_zero [where n = "0x100" and m = "bytes booted" and p = "0xFFFFFFFFC03FFF00"] booted_zero
  by (simp add: clear_bss_def board_machine_def memset_def)

lemma board_machine_boots: "boots board_addrs 0x80400000 0x88000000 0x205 (frame_unit 0) board_machine"
proof -
  have f: "first_free_frame 0x80400000 0x88000000 = 0x600" "boot_frames 0x88000000 = 0x8000"
    by (simp_all add: first_free_frame_def boot_frames_def)
  have dtb: "boot_dtb board_machine = 0x82200000" by (simp add: board_machine_def booted_def)
  have blob: "fdt_blob board_lits (bytes booted) (0x82200000 + PHYSICAL_MEMORY_OFFSET) (\<lambda>_. reg_name) board_tree"
    by (rule board_fdt [OF board_blob_bytes])
  have addrs: "a_edata (i_mon board_addrs) = 0xFFFFFFFFC03FFF00" "a_end (i_mon board_addrs) = 0xFFFFFFFFC0400000"
    "i_dtb board_addrs = board_lits" "i_str board_addrs = 0xFFFFFFFFC0203000" "i_page_table board_addrs = frame_kva 0x205"
    by (simp_all add: board_addrs_def)
  have "bytes booted 0xFFFFFFFFC0203000 = 0"
  proof -
    have "length board_blob = 95"
      by (simp add: board_blob_def board_tree_def pad4_def memory_name_def reg_name_def)
    then show ?thesis by (simp add: booted_def Let_def PHYSICAL_MEMORY_OFFSET_def)
  qed
  then have str: "\<exists>ys. cstr (bytes booted) 0xFFFFFFFFC0203000 ys \<and> length ys < 0x800 \<and>
      unat (0xFFFFFFFFC0203000 :: u64) + length ys < unat (frame_kva 0x600)"
    by (intro exI [of _ "[]"]) (simp add: frame_kva_def page2pa_def page2ppn_def nbase_def DRAM_BASE_def PGSIZE_def PHYSICAL_MEMORY_OFFSET_def)
  have mem: "\<exists>strs xs mb ms. fdt_blob board_lits (bytes booted) (0x82200000 + PHYSICAL_MEMORY_OFFSET) strs xs \<and>
      memory_reg strs False xs = Some (mb, ms) \<and> ms \<noteq> 0 \<and> unat mb + unat ms = 0x88000000"
    using blob board_memory
    by (intro exI [of _ "\<lambda>_. reg_name"] exI [of _ board_tree] exI [of _ "0x80000000"] exI [of _ "0x8000000"]) simp
  have data: "data_ok board_machine" "arena board_machine = unit_addr (frame_unit 0)" "\<not> intr_on board_machine"
    "ptes board_machine (cell 0x205 0) = 0"
    by (simp_all add: data_ok_def sb_units_def sb_next_def board_machine_def intr_on_def running_def typing_def io_state.defs
        kernel_state.defs three_procs_def)
  show ?thesis
    unfolding boots_def Let_def addrs board_bss dtb f
    using mem str data by (simp add: frame_unit_def)
qed

lemma kern_init_boots_witness:
  "\<exists>t q u. kern_init board_addrs board_machine = ret t \<and> intr_on t \<and> sbi_calls t = [(SBI_SET_TIMER, 100007)] \<and>
     cpu_idle_step t = ret (q, u) \<and> pid (procs t (current u)) = 1"
proof -
  have s: "sbi_calls board_machine = []" "time_csr board_machine = 7" by (simp_all add: board_machine_def)
  from kern_init_boots [OF board_machine_boots, of 0] show ?thesis
    unfolding kernel_up_def s by force
qed

lemma dtb_init_none:
  assumes "boot_dtb s = 0 \<or> fdt32_to_cpu (fdt_magic (bytes s) (boot_dtb s + PHYSICAL_MEMORY_OFFSET)) \<noteq> 0xd00dfeed"
  shows "dtb_init l s = Some (s\<lparr>console := console (the (dtb_init l s))\<rparr>)"
proof (cases "boot_dtb s = 0")
  case True
  then show ?thesis by (simp add: dtb_init_def Let_def say_def)
next
  case False
  then show ?thesis using assms by (simp add: dtb_init_def Let_def say_def)
qed

text \<open>C21. Without a device tree the kernel does not start: \<open>kern_init\<close> panics in \<open>page_init\<close> when the
  firmware passes a null pointer or something that does not begin with the magic number.\<close>

theorem kern_init_without_dtb:
  assumes "boot_dtb s = 0 \<or> fdt32_to_cpu (fdt_magic (bytes (clear_bss (a_edata (i_mon a)) (a_end (i_mon a)) s))
    (boot_dtb s + PHYSICAL_MEMORY_OFFSET)) \<noteq> 0xd00dfeed"
  shows "kern_init a s = panic ''DTB memory info not available''"
proof -
  let ?s0 = "clear_bss (a_edata (i_mon a)) (a_end (i_mon a)) s"
  have zero: "memory_size ?s0 = 0" "boot_dtb ?s0 = boot_dtb s" by (simp_all add: clear_bss_def)
  obtain c where c: "dtb_init (i_dtb a) ?s0 = Some (?s0\<lparr>console := c\<rparr>)"
    using dtb_init_none [of ?s0 "i_dtb a"] assms unfolding zero(2) by blast
  have "memory_size (banner a (?s0\<lparr>console := c\<rparr>)) = 0"
    by (subst print_kerninfo_console) (simp add: cons_init_def say_def zero)
  then have "pmm_init e t b (get_memory_size (banner a (?s0\<lparr>console := c\<rparr>))) str u = panic ''DTB memory info not available''"
    for e t b str and u :: "'a io_state_scheme"
    by (simp add: get_memory_size_def pmm_init_def page_init_def Let_def)
  then show ?thesis unfolding kern_init_def Let_def by (simp only: c loop_run_simps run_bind_ret run_bind_panic)
qed

lemma kern_init_without_dtb_witness:
  "kern_init board_addrs (board_machine\<lparr>boot_dtb := 0\<rparr>) = panic ''DTB memory info not available''"
  by (rule kern_init_without_dtb) simp

end
