(* ===== verification/KernelSpec.thy ===== *)
theory KernelSpec
  imports InitSpec
begin

unbundle bit_operations_syntax

text \<open>
  The kernel after boot: the operations of the threads, the scheduler, the heap and the trap handler, in
  any order. \<open>kernel_inv s al ps\<close> is the well-formedness of the whole state: the heap with its blocks \<open>al\<close>,
  the process list \<open>ps\<close>, the hash table, the identifiers, and the running and the idle process.
\<close>

definition kernel_inv :: "'z kernel_state_scheme \<Rightarrow> block set \<Rightarrow> u64 list \<Rightarrow> bool" where
  "kernel_inv s al ps \<longleftrightarrow> fork_inv s al ps \<and> sched_inv s ps \<and> idleproc s \<in> block_ptr ` al \<and>
     (\<forall>p\<in>insert (idleproc s) (set ps). proc_mm (procs s p) = 0)"

lemma kernel_invD:
  assumes "kernel_inv s al ps"
  shows "fork_inv s al ps" "sched_inv s ps" "idleproc s \<in> block_ptr ` al" "idleproc s \<notin> set ps"
    "current s \<in> insert (idleproc s) (set ps)" "proc_mm (procs s (current s)) = 0"
    "\<And>p. p \<in> insert (idleproc s) (set ps) \<Longrightarrow> proc_mm (procs s p) = 0" "set ps \<subseteq> block_ptr ` al"
  using assms by (auto simp: kernel_inv_def sched_inv_def fork_inv_def)

text \<open>The parts of the state that the invariant reads.\<close>

definition kernel_same :: "'z kernel_state_scheme \<Rightarrow> 'z kernel_state_scheme \<Rightarrow> bool" where
  "kernel_same s t \<longleftrightarrow> heap32 t = heap32 s \<and> heap64 t = heap64 s \<and> slobfree t = slobfree s \<and> arena t = arena s \<and>
     bigblocks t = bigblocks s \<and> pages t = pages s \<and> free_list t = free_list s \<and> nr_free t = nr_free s \<and>
     npage t = npage s \<and> va_pa_offset t = va_pa_offset s \<and> proc_list t = proc_list s \<and> hash_list t = hash_list s \<and>
     idleproc t = idleproc s \<and> last_pid t = last_pid s \<and> next_safe t = next_safe s \<and> nr_process t = nr_process s \<and>
     (\<forall>q. pid (procs t q) = pid (procs s q) \<and> proc_mm (procs t q) = proc_mm (procs s q))"

lemma kernel_inv_same:
  assumes inv: "kernel_inv s al ps" and same: "kernel_same s t" and cur: "current t \<in> insert (idleproc s) (set ps)"
  shows "kernel_inv t al ps"
proof -
  note D = fork_invD [OF kernel_invD(1) [OF inv]] and K = kernel_invD [OF inv]
  have same': "proc_list t = proc_list s" "hash_list t = hash_list s" "idleproc t = idleproc s" "last_pid t = last_pid s"
    "next_safe t = next_safe s" "nr_process t = nr_process s" "\<And>q. pid (procs t q) = pid (procs s q)"
    "\<And>q. proc_mm (procs t q) = proc_mm (procs s q)"
    using same by (simp_all add: kernel_same_def)
  have "heap_inv t al" by (rule heap_inv_cong [OF D(1)]) (use same in \<open>simp_all add: kernel_same_def\<close>)
  moreover have "pid_inv t ps"
    by (rule pid_inv_cong [OF D(2)]) (use D(2) in \<open>simp_all add: pid_inv_def same'\<close>)
  moreover have "hash_inv t ps" by (rule hash_inv_cong [OF _ _ D(3)]) (simp_all add: same')
  ultimately have "fork_inv t al ps" using D(4-6) K(3) cur by (auto simp: fork_inv_def same')
  moreover have "sched_inv t ps" using K(2) cur by (auto simp: sched_inv_def same')
  ultimately show ?thesis using K(3,7) by (simp add: kernel_inv_def same')
qed

subsection \<open>The operations\<close>

lemma schedule_same:
  assumes "sched_inv s ps" and "schedule s = ret (r, u)"
  shows "kernel_same s u"
proof -
  have marked: "kernel_same s (sched_marked p s)" for p
    by (auto simp: kernel_same_def sched_marked_def upd_proc_def intr_save_def intr_disable_def)
  have restore: "kernel_same s (intr_restore b t) \<longleftrightarrow> kernel_same s t" for b t
    by (simp add: kernel_same_def intr_restore_def intr_enable_def)
  have switch: "kernel_same s (switch_to a b (lsatp v (t\<lparr>current := c\<rparr>))) \<longleftrightarrow> kernel_same s t" for a b v c t
    by (auto simp: kernel_same_def switch_to_def lsatp_def upd_proc_def Let_def)
  show ?thesis
    using assms(2) marked unfolding schedule_step [OF assms(1)]
    by (auto simp: restore switch ret_def Let_def split: if_splits)
qed

lemma schedule_inv:
  assumes "kernel_inv s al ps"
  obtains r u where "schedule s = ret (r, u)" "kernel_inv u al ps"
proof -
  note K = kernel_invD [OF assms]
  obtain r u where u: "schedule s = ret (r, u)" "current u = sched_target s ps"
    using schedule_effect [OF K(2)] by blast
  have "current u \<in> insert (idleproc s) (set ps)" using u(2) sched_target_in [of s ps] by auto
  then have "kernel_inv u al ps" by (rule kernel_inv_same [OF assms schedule_same [OF K(2) u(1)]])
  then show ?thesis using that u(1) by blast
qed

lemma fork_inv_sched: "fork_inv t al ps \<Longrightarrow> idleproc t \<notin> set ps \<Longrightarrow> current t \<in> insert (idleproc t) (set ps) \<Longrightarrow> sched_inv t ps"
  by (auto simp: fork_inv_def pid_inv_def sched_inv_def)

lemma do_fork_inv:
  assumes inv: "kernel_inv s al ps"
  obtains pd t al' ps' where "do_fork fr cf esp tf s = ret (pd, t)" "kernel_inv t al' ps'" "set ps \<subseteq> set ps'" "idleproc t = idleproc s"
proof -
  note K = kernel_invD [OF inv]
  let ?r = "do_fork fr cf esp tf s"
  consider "fork_full s ?r ps" | "fork_no_mem s ?r al ps" | "fork_done fr esp tf s ?r al ps"
    using do_fork_outcome [OF K(1,6), of fr cf esp tf] by blast
  then show ?thesis
  proof cases
    case 1
    then show ?thesis using inv by (intro that [of _ s al ps]) (auto simp: fork_full_def)
  next
    case 2
    then obtain t where t: "?r = ret (- 4, t)" "fork_inv t al ps" "\<forall>q\<in>block_ptr ` al. procs t q = procs s q"
        "current t = current s" "idleproc t = idleproc s"
      unfolding fork_no_mem_def by blast
    have mm: "proc_mm (procs t p) = 0" if "p \<in> insert (idleproc t) (set ps)" for p
    proof -
      have "p \<in> block_ptr ` al" using that K(3,8) t(5) by auto
      then have "procs t p = procs s p" using t(3) by blast
      then show ?thesis using t(5) K(7) that by simp
    qed
    have "sched_inv t ps" using fork_inv_sched [OF t(2)] K(4,5) t(4,5) by simp
    then have "kernel_inv t al ps" using t(2,5) K(3) mm by (simp add: kernel_inv_def)
    then show ?thesis using that t(1,5) by blast
  next
    case 3
    then obtain pd t c f where t: "?r = ret (pd, t)"
        "fork_inv t (insert (proc_block c) al) (block_ptr (proc_block c) # ps)" "block_ptr (proc_block c) \<notin> block_ptr ` al"
        "procs t = (procs s)(block_ptr (proc_block c) := forked_proc fr (boot_pgdir_pa s) (current s) pd f)"
        "current t = current s" "idleproc t = idleproc s"
      by (rule fork_doneE) blast
    let ?p = "block_ptr (proc_block c)"
    have ne: "idleproc s \<noteq> ?p" using K(3) t(3) by metis
    have mm: "proc_mm (procs t p) = 0" if "p \<in> insert (idleproc t) (set (?p # ps))" for p
      using that K(7) t(6) by (cases "p = ?p") (auto simp: t(4) forked_proc_def fresh_proc_def)
    have "sched_inv t (?p # ps)" using fork_inv_sched [OF t(2)] K(4,5) t(5,6) ne by auto
    then have "kernel_inv t (insert (proc_block c) al) (?p # ps)"
      using t(2,6) K(3) mm by (simp add: kernel_inv_def)
    then show ?thesis by (rule that [OF t(1) _ _ t(6)]) auto
  qed
qed

lemma kmalloc_inv:
  assumes inv: "kernel_inv s al ps" and sz: "0 < sz" "sz < 4064"
  obtains q t al' where "kmalloc sz s = ret (q, t)" "kernel_inv t al' ps" "idleproc t = idleproc s"
proof -
  note K = kernel_invD [OF inv]
  from fork_invD(1) [OF K(1)] sz show ?thesis
  proof (cases rule: kmalloc_spec)
    case none
    then show ?thesis using that inv by blast
  next
    case (block c t)
    let ?al = "insert (c, kmalloc_units sz) al"
    note same = kmem_same_kernel [OF block(6)]
    have "fork_inv t ?al ps" by (rule fork_inv_kmem [OF K(1) block(2) _ block(6)]) (use fork_invD(4) [OF K(1)] in auto)
    moreover have "sched_inv t ps" using K(2) by (simp add: sched_inv_def same)
    ultimately have "kernel_inv t ?al ps" using K(3,7) by (simp add: kernel_inv_def same)
    then show ?thesis using that block(1) same(5) by blast
  qed
qed

lemma trap_same: "kernel_same s (trap tf s)" "current (trap tf s) = current s"
proof -
  have tick: "kernel_same s (timer_tick s) \<and> current (timer_tick s) = current s"
    by (simp add: timer_tick_def clock_set_next_event_def sbi_set_timer_def sbi_shutdown_def SBI_CALL_0_def
        SBI_CALL_1_def print_ticks_def say_def Let_def kernel_same_def)
  show "kernel_same s (trap tf s)" "current (trap tf s) = current s"
    using tick by (cases rule: trap_cases [of s tf]; simp add: skip_instruction_def kernel_same_def)+
qed

subsection \<open>Runs\<close>

text \<open>A step: a thread forks, gives up the processor, is switched back to, wakes another one up, takes memory
  from the heap, or is interrupted by a trap of any cause. A step that panics or does not end has no
  result.\<close>

inductive kernel_step :: "'z io_state_scheme \<Rightarrow> 'z io_state_scheme \<Rightarrow> bool" where
  step_fork: "do_fork fr cf esp tf s = ret (pd, t) \<Longrightarrow> kernel_step s t"
| step_schedule: "schedule s = ret (r, t) \<Longrightarrow> kernel_step s t"
| step_resume: "kernel_step s (schedule_resume flags s)"
| step_wakeup: "wakeup_proc p s = ret t \<Longrightarrow> kernel_step s t"
| step_kmalloc: "0 < sz \<Longrightarrow> sz < 4064 \<Longrightarrow> kmalloc sz s = ret (q, t) \<Longrightarrow> kernel_step s t"
| step_trap: "kernel_step s (trap tf s)"

inductive_cases kernel_stepE [elim!]: "kernel_step s t"

lemma kernel_step_inv:
  assumes "kernel_step s t" and "kernel_inv s al ps"
  shows "\<exists>al' ps'. kernel_inv t al' ps' \<and> set ps \<subseteq> set ps'"
  using assms(1)
proof cases
  case (step_fork fr cf esp tf pd)
  obtain pd' t' al' ps' where "do_fork fr cf esp tf s = ret (pd', t')" "kernel_inv t' al' ps'" "set ps \<subseteq> set ps'"
    by (rule do_fork_inv [OF assms(2), of fr cf esp tf]) blast
  then show ?thesis unfolding step_fork by auto
next
  case (step_schedule r)
  obtain r' t' where "schedule s = ret (r', t')" "kernel_inv t' al ps"
    by (rule schedule_inv [OF assms(2)])
  then show ?thesis unfolding step_schedule by auto
next
  case (step_resume flags)
  have "kernel_same s t" "current t = current s"
    by (simp_all add: step_resume schedule_resume_def proc_run_resume_def intr_restore_def intr_enable_def kernel_same_def)
  then show ?thesis using kernel_inv_same [OF assms(2)] kernel_invD(5) [OF assms(2)] by force
next
  case (step_wakeup p)
  then have "kernel_same s t" "current t = current s"
    by (auto simp: wakeup_proc_def c_assert_eq_ret upd_proc_def kernel_same_def)
  then show ?thesis using kernel_inv_same [OF assms(2)] kernel_invD(5) [OF assms(2)] by force
next
  case (step_kmalloc sz q)
  obtain q' t' al' where "kmalloc sz s = ret (q', t')" "kernel_inv t' al' ps"
    by (rule kmalloc_inv [OF assms(2) step_kmalloc(1,2)]) blast
  then show ?thesis unfolding step_kmalloc by auto
next
  case (step_trap tf)
  then show ?thesis using kernel_inv_same [OF assms(2) trap_same(1) [of s tf]] kernel_invD(5) [OF assms(2)] trap_same(2) [of tf s] by force
qed

lemma kernel_run_inv:
  assumes "kernel_step\<^sup>*\<^sup>* s t" and "kernel_inv s al ps"
  shows "\<exists>al' ps'. kernel_inv t al' ps' \<and> set ps \<subseteq> set ps'"
  using assms(1)
proof (induction rule: rtranclp_induct)
  case base
  then show ?case using assms(2) by blast
next
  case (step t u)
  then obtain al' ps' where t: "kernel_inv t al' ps'" "set ps \<subseteq> set ps'" by blast
  obtain al2 ps2 where "kernel_inv u al2 ps2" "set ps' \<subseteq> set ps2" using kernel_step_inv [OF step(2) t(1)] by blast
  then show ?case using t(2) by blast
qed

lemma kernel_up_inv:
  assumes "kernel_up a s t"
  shows "\<exists>al. kernel_inv t al [initproc t]"
proof -
  obtain al pgd nm nm' f where up: "fork_inv t al [initproc t]" "current t = idleproc t" "idleproc t \<noteq> initproc t"
     "procs t (idleproc t) = idle_proc pgd (a_bootstack (i_proc a)) nm"
     "procs t (initproc t) = (forked_proc (a_forkret (i_proc a)) pgd (idleproc t) 1 f)\<lparr>name := nm'\<rparr>"
    using assms unfolding kernel_up_def by blast
  have "sched_inv t [initproc t]" using fork_inv_sched [OF up(1)] up(2,3) by simp
  moreover have "idleproc t \<in> block_ptr ` al" using fork_invD(4) [OF up(1)] up(2) by simp
  ultimately have "kernel_inv t al [initproc t]"
    using up(1,4,5) by (simp add: kernel_inv_def idle_proc_def forked_proc_def fresh_proc_def)
  then show ?thesis by blast
qed

text \<open>C2. After boot the kernel stays well formed: in every state that it reaches by forks, schedules, traps,
  wake-ups and requests for 1 to 4063 bytes of memory, in any order, the heap, the process list, the hash
  table and the identifiers are intact and agree, the running process is the idle one or in the list, and the
  process 1 is still there. In each of these states \<open>schedule\<close> and \<open>do_fork\<close> return: they neither panic nor
  loop. Outside the scope are requests for 0 bytes, for 4064 to 4079 bytes (which panic) and for more, which
  take whole pages, and the release of memory.\<close>

theorem kernel_stays_well_formed:
  fixes s :: "'z trap_state_scheme"
  assumes "boots a k mend r ar s" and "kern_init a s = ret t" and "kernel_step\<^sup>*\<^sup>* t u"
  shows "(\<exists>al ps. kernel_inv u al ps \<and> initproc t \<in> set ps) \<and> (\<exists>q v. schedule u = ret (q, v)) \<and>
    (\<forall>fr cf esp tf. \<exists>pd v. do_fork fr cf esp tf u = ret (pd, v))"
proof -
  obtain t' where "kern_init a s = ret t'" "kernel_up a s t'" by (rule kern_init_spec [OF assms(1)])
  then have "kernel_up a s t" using assms(2) by simp
  then obtain al where "kernel_inv t al [initproc t]" using kernel_up_inv by blast
  then obtain al' ps where inv: "kernel_inv u al' ps" "initproc t \<in> set ps"
    using kernel_run_inv [OF assms(3)] by fastforce
  have "\<exists>q v. schedule u = ret (q, v)" by (rule schedule_inv [OF inv(1)]) blast
  moreover have "\<exists>pd v. do_fork fr cf esp tf u = ret (pd, v)" for fr cf esp tf
    by (rule do_fork_inv [OF inv(1), of fr cf esp tf]) blast
  ultimately show ?thesis using inv by blast
qed

text \<open>The machine of before boots, is switched to the process 1, and that forks.\<close>

lemma kernel_stays_well_formed_witness:
  "\<exists>t u v q. kern_init board_addrs board_machine = ret t \<and> schedule t = ret (q, u) \<and> kernel_step u v \<and>
     (\<exists>al ps. kernel_inv v al ps \<and> initproc t \<in> set ps)"
proof -
  obtain t where t: "kern_init board_addrs board_machine = ret t" "kernel_up board_addrs board_machine t"
    by (rule kern_init_spec [OF board_machine_boots])
  note wf = kernel_stays_well_formed [OF board_machine_boots t(1)]
  obtain q u where u: "schedule t = ret (q, u)" using wf [of t] by blast
  then have run1: "kernel_step\<^sup>*\<^sup>* t u" by (intro r_into_rtranclp step_schedule)
  obtain pd v where "do_fork 0 0 0 undefined u = ret (pd, v)" using wf [OF run1] by blast
  then have v: "kernel_step u v" by (rule step_fork)
  then have "\<exists>al ps. kernel_inv v al ps \<and> initproc t \<in> set ps"
    using wf [OF rtranclp.rtrancl_into_rtrancl [OF run1 v]] by blast
  then show ?thesis using t(1) u v by (intro exI [of _ t] exI [of _ u] exI [of _ v] exI [of _ q]) simp
qed

end
