(* ===== verification/PidSpec.thy ===== *)
theory PidSpec
  imports ProcSpec
begin

text \<open>
  \<open>get_pid\<close> of kern/process/proc.c against a reference: the scan with its two static variables hands out
  what a plain search finds that goes up from the last identifier, round at the end, to the first one that
  no process has.
\<close>

definition next_free :: "int set \<Rightarrow> int \<Rightarrow> int option" where
  "next_free used lp = find (\<lambda>v. v \<notin> used) ([lp..MAX_PID - 1] @ [1..MAX_PID - 1])"

lemma find_twice: "find P (xs @ xs) = find P xs"
proof -
  have "find P (xs @ ys) = (case find P xs of None \<Rightarrow> find P ys | Some x \<Rightarrow> Some x)" for ys
    by (induction xs) auto
  then show ?thesis by (auto split: option.split)
qed

lemma next_free_here: "lp \<notin> used \<Longrightarrow> lp < MAX_PID \<Longrightarrow> next_free used lp = Some lp"
  by (simp add: next_free_def upto_rec1)

lemma next_free_wrap: "MAX_PID \<le> lp \<Longrightarrow> next_free used lp = next_free used 1"
  by (simp add: next_free_def find_twice)

lemma next_free_step:
  assumes "lp \<in> used" and "lp < MAX_PID"
  shows "next_free used lp = next_free used (if MAX_PID \<le> lp + 1 then 1 else lp + 1)"
proof -
  have "next_free used lp = next_free used (lp + 1)"
    using assms by (simp add: next_free_def upto_rec1)
  then show ?thesis using next_free_wrap [of "lp + 1" used] by simp
qed

text \<open>The scan only passes over identifiers in use.\<close>

lemma pid_scan_next_free:
  assumes closed: "\<forall>n\<in>insert ProcHead (Link ` set ps). list_next h n \<in> insert ProcHead (Link ` set ps)"
    and run: "pid_scan h f le lp safe = Some r" and le: "le \<in> insert ProcHead (Link ` set ps)"
    and lp: "1 \<le> lp" "lp < MAX_PID" "lp < safe" "safe \<le> MAX_PID"
  shows "next_free (f ` set ps) lp = next_free (f ` set ps) (fst r)"
proof -
  let ?N = "insert ProcHead (Link ` set ps)" and ?F = "next_free (f ` set ps)"
  let ?P = "\<lambda>h' f' le lp safe r. h' = h \<longrightarrow> f' = f \<longrightarrow> le \<in> ?N \<longrightarrow> 1 \<le> lp \<longrightarrow> lp < safe \<longrightarrow> safe \<le> MAX_PID \<longrightarrow> ?F lp = ?F (fst r)"
  have "?P h f le lp safe r"
  proof (rule pid_scan.raw_induct [OF _ run, where P = ?P])
    fix scan :: "plink links \<Rightarrow> (u64 \<Rightarrow> int) \<Rightarrow> plink \<Rightarrow> int \<Rightarrow> int \<Rightarrow> (int \<times> int) option" and h' f' le lp safe r
    assume IH: "\<And>h f le lp safe r. scan h f le lp safe = Some r \<Longrightarrow> ?P h f le lp safe r"
      and body: "(let le' = list_next h' le in
        if le' = ProcHead then Some (lp, safe)
        else if f' (le2proc le') = lp then
          (if safe \<le> lp + 1
           then scan h' f' ProcHead (if MAX_PID \<le> lp + 1 then 1 else lp + 1) MAX_PID
           else scan h' f' le' (lp + 1) safe)
        else if lp < f' (le2proc le') \<and> f' (le2proc le') < safe then scan h' f' le' lp (f' (le2proc le'))
        else scan h' f' le' lp safe) = Some r"
    show "?P h' f' le lp safe r"
    proof (intro impI)
      assume eq: "h' = h" "f' = f" and le: "le \<in> ?N" and lp: "1 \<le> lp" "lp < safe" "safe \<le> MAX_PID"
      let ?n = "list_next h le"
      have n: "?n \<in> ?N" using closed le by blast
      show "?F lp = ?F (fst r)"
      proof (cases "?n = ProcHead")
        case True
        then show ?thesis using body by (auto simp: eq)
      next
        case False
        then have used: "f (le2proc ?n) \<in> f ` set ps" using n by auto
        show ?thesis
        proof (cases "f (le2proc ?n) = lp")
          case hit: True
          then have step: "?F lp = ?F (if MAX_PID \<le> lp + 1 then 1 else lp + 1)"
            using used lp by (intro next_free_step) auto
          have max: "1 < MAX_PID" by (simp add: MAX_PID_def MAX_PROCESS_def)
          show ?thesis
          proof (cases "safe \<le> lp + 1")
            case True
            then have "scan h f ProcHead (if MAX_PID \<le> lp + 1 then 1 else lp + 1) MAX_PID = Some r"
              using body False hit by (simp add: eq Let_def)
            from IH [OF this] show ?thesis using step lp max by (auto split: if_splits)
          next
            case restart: False
            then have "scan h f ?n (lp + 1) safe = Some r" using body False hit by (simp add: eq Let_def)
            from IH [OF this] show ?thesis using step lp n restart by (auto split: if_splits)
          qed
        next
          case miss: False
          then have "scan h f ?n lp (if lp < f (le2proc ?n) \<and> f (le2proc ?n) < safe then f (le2proc ?n) else safe) = Some r"
            using body False by (auto simp: eq Let_def split: if_splits)
          from IH [OF this] show ?thesis using lp n by (auto split: if_splits)
        qed
      qed
    qed
  qed
  then show ?thesis using le lp by blast
qed

text \<open>C31. \<open>get_pid\<close> and its two static variables are equivalent to the plain search: the identifier handed
  out is the first one that no process has, counting up from the last one handed out and round at
  8192.\<close>

theorem get_pid_equals_search:
  assumes "pid_inv s ps" and "length ps + 1 < nat MAX_PID"
  shows "map_option fst (get_pid s) = next_free ((\<lambda>p. pid (procs s p)) ` set ps) (last_pid s + 1)"
proof -
  let ?f = "\<lambda>p. pid (procs s p)" and ?h = "proc_list s" and ?lp = "last_pid s + 1"
  let ?F = "next_free (?f ` set ps)"
  obtain pd t where g: "get_pid s = Some (pd, t)" "pd < MAX_PID" "\<forall>p\<in>set ps. ?f p \<noteq> pd"
    using get_pid_spec [OF assms] by blast
  have found: "?F pd = Some pd" using g(2,3) by (intro next_free_here) auto
  have cd: "cdll ?h ProcHead (map Link ps)" using assms(1) by (simp add: pid_inv_def)
  have closed: "\<forall>n\<in>insert ProcHead (Link ` set ps). list_next ?h n \<in> insert ProcHead (Link ` set ps)"
  proof
    fix n assume n: "n \<in> insert ProcHead (Link ` set ps)"
    have tail: "hd (map Link qs @ [ProcHead]) \<in> insert ProcHead (Link ` set ps)" if "set qs \<subseteq> set ps" for qs
      using that by (cases qs) auto
    show "list_next ?h n \<in> insert ProcHead (Link ` set ps)"
    proof (cases "n = ProcHead")
      case True
      then show ?thesis using cdll_next_last [of ?h ProcHead "[]" "map Link ps"] cd tail [of ps] by simp
    next
      case False
      then obtain p xs ys where p: "n = Link p" "ps = xs @ p # ys" using n by (auto dest: split_list)
      then have "list_next ?h n = hd (map Link ys @ [ProcHead])"
        using cdll_next [of ?h ProcHead "map Link xs" "Link p" "map Link ys"] cd by simp
      then show ?thesis using tail [of ys] p(2) by auto
    qed
  qed
  have scan: "?F lp = Some pd" if run: "get_pid s = map_option (\<lambda>(lp, safe). (lp, s\<lparr>last_pid := lp, next_safe := safe\<rparr>))
       (pid_scan ?h ?f ProcHead lp MAX_PID)" and lp: "1 \<le> lp" "lp < MAX_PID" for lp
  proof -
    obtain safe where "pid_scan ?h ?f ProcHead lp MAX_PID = Some (pd, safe)"
      using run unfolding g(1) by (cases "pid_scan ?h ?f ProcHead lp MAX_PID") auto
    from pid_scan_next_free [OF closed this] show ?thesis using lp found by simp
  qed
  have lp1: "1 \<le> ?lp" using assms(1) by (simp add: pid_inv_def)
  consider (wrap) "MAX_PID \<le> ?lp" | (rescan) "?lp < MAX_PID" "next_safe s \<le> ?lp"
    | (next_one) "?lp < MAX_PID" "?lp < next_safe s"
    by linarith
  then have "?F ?lp = Some pd"
  proof cases
    case wrap
    then have "?F 1 = Some pd" by (intro scan) (simp_all add: get_pid_def MAX_PID_def MAX_PROCESS_def)
    then show ?thesis using next_free_wrap [OF wrap] by simp
  next
    case rescan
    then show ?thesis using lp1 by (intro scan) (simp_all add: get_pid_def)
  next
    case next_one
    then have "pd = ?lp" using g(1) by (simp add: get_pid_def Let_def)
    then show ?thesis using found by simp
  qed
  then show ?thesis using g(1) by simp
qed

lemma get_pid_equals_search_witness:
  "map_option fst (get_pid (three_procs\<lparr>last_pid := 8191, next_safe := 8192\<rparr>)) = Some 4"
proof -
  have inv: "pid_inv (three_procs\<lparr>last_pid := 8191, next_safe := 8192\<rparr>) [3, 2, 1]"
    using three_pid_inv by (simp add: pid_inv_def fresh_range_def MAX_PID_def MAX_PROCESS_def)
  have used: "(\<lambda>p. pid (procs (three_procs\<lparr>last_pid := 8191, next_safe := 8192\<rparr>) p)) ` set [3, 2, 1] = {1, 2, 3}"
    by (auto simp: three_procs_def)
  have max: "MAX_PID = 8192" by (simp add: MAX_PID_def MAX_PROCESS_def)
  have "next_free {1, 2, 3} 8192 = Some 4"
    using next_free_wrap [of 8192 "{1, 2, 3}"] next_free_step [of 1 "{1, 2, 3}"] next_free_step [of 2 "{1, 2, 3}"]
      next_free_step [of 3 "{1, 2, 3}"] next_free_here [of 4 "{1, 2, 3}"] by (simp add: max)
  then show ?thesis using get_pid_equals_search [OF inv] unfolding used by (simp add: max)
qed

end
